(* ===== verification/Jingle_Prelude.thy ===== *)
theory Jingle_Prelude
  imports Main "HOL-Library.Word"
begin

unbundle bit_operations_syntax

text \<open>
  Shared ground of the development: the machine types of \<open>talk/base/basictypes.h\<close>,
  the named collections the component theories fill, and the generic facts on lists,
  options and words that several of them use.

  Conventions of all theories.  A \<open>size_t\<close> that counts bytes of a buffer in memory is a
  \<open>nat\<close> (it is bounded by the size of an allocation); a \<open>uint8/16/32/64\<close> is a word of
  that width, so that \<open>+\<close>, shifts and casts wrap as they do in C++.  A raw pointer into a
  buffer is the list of bytes from that address to the end of the object.
\<close>

type_synonym byte = "8 word"
type_synonym u16 = "16 word"
type_synonym u32 = "32 word"
type_synonym u64 = "64 word"

named_theorems byte_simps \<open>byte-level facts of the integer codecs\<close>
named_theorems buffer_simps \<open>laws of the byte containers, stated on their contents\<close>
named_theorems wf_intros \<open>well-formedness of the values the components build\<close>


subsection \<open>Lists\<close>

lemma take_drop_append_middle:
  assumes "length a = n" and "length b = m"
  shows "take m (drop n (a @ b @ c)) = b"
  using assms by simp

lemma take_update_tail:
  assumes "n \<le> length xs"
  shows "take (n + length ys) (take n xs @ ys @ drop (n + length ys) xs) = take n xs @ ys"
  using assms by simp

lemma take_2_eq: "2 \<le> length xs \<Longrightarrow> take 2 xs = [xs ! 0, xs ! 1]"
  by (cases xs; cases "tl xs") auto

lemma take_4_eq: "4 \<le> length xs \<Longrightarrow> take 4 xs = [xs ! 0, xs ! 1, xs ! 2, xs ! 3]"
  using take_2_eq [of xs] take_2_eq [of "drop 2 xs"] take_add [of 2 2 xs] by simp

lemma take_8_eq:
  "8 \<le> length xs \<Longrightarrow>
     take 8 xs = [xs ! 0, xs ! 1, xs ! 2, xs ! 3, xs ! 4, xs ! 5, xs ! 6, xs ! 7]"
  using take_4_eq [of xs] take_4_eq [of "drop 4 xs"] take_add [of 4 4 xs] by simp


lemma length_ge4E:
  assumes "4 \<le> length xs"
  obtains a b c d ys where "xs = a # b # c # d # ys"
  using assms by (auto simp: Suc_le_length_iff eval_nat_numeral)

lemma length_ge8E:
  assumes "8 \<le> length xs"
  obtains a b c d e f g h ys where "xs = a # b # c # d # e # f # g # h # ys"
  using assms by (auto simp: Suc_le_length_iff eval_nat_numeral)


subsection \<open>Memory\<close>

text \<open>\<open>memcpy(mem + pos, val, n)\<close> with all \<open>n\<close> bytes of \<open>val\<close>; the callers keep \<open>pos + n\<close> in bounds.\<close>

definition memcpy_at :: "byte list \<Rightarrow> nat \<Rightarrow> byte list \<Rightarrow> byte list" where
  "memcpy_at mem pos val = take pos mem @ val @ drop (pos + length val) mem"

lemma memcpy_at_end:
  assumes "length mem = n" and "e + length val \<le> n" and "s \<le> e"
  shows "length (memcpy_at mem e val) = n"
    and "take (e + length val - s) (drop s (memcpy_at mem e val)) = take (e - s) (drop s mem) @ val"
  using assms by (auto simp: memcpy_at_def drop_take)

lemma length_memcpy_at [simp]:
  "pos + length val \<le> length mem \<Longrightarrow> length (memcpy_at mem pos val) = length mem"
  by (simp add: memcpy_at_def)

lemma nth_memcpy_at:
  "pos + length val \<le> length mem \<Longrightarrow> i < length mem \<Longrightarrow>
     memcpy_at mem pos val ! i = (if pos \<le> i \<and> i < pos + length val then val ! (i - pos) else mem ! i)"
  by (auto simp: memcpy_at_def nth_append min_def)

lemma take_memcpy_at:
  "pos + length val \<le> length mem \<Longrightarrow> take (pos + length val) (memcpy_at mem pos val) = take pos mem @ val"
  by (simp add: memcpy_at_def)


subsection \<open>Results\<close>

text \<open>
  A C++ operation that returns \<open>bool\<close> and fills an out-parameter is a function into
  \<open>option\<close>: \<open>None\<close> is the \<open>false\<close> return.  An operation whose \<open>false\<close> return leaves a
  changed object behind returns the object and the flag as a pair.
\<close>

lemma bind_eq_SomeE:
  assumes "Option.bind x f = Some y"
  obtains a where "x = Some a" and "f a = Some y"
  using assms by (cases x) auto


subsection \<open>Words: splitting and joining halves\<close>

lemma ucast_hi_lo16 [byte_simps]:
  "push_bit 8 (ucast (ucast (drop_bit 8 v) :: byte)) OR ucast (ucast v :: byte) = (v :: u16)"
  by (rule bit_word_eqI) (auto simp: bit_simps)

lemma ucast_hi_lo32 [byte_simps]:
  "push_bit 16 (ucast (ucast (drop_bit 16 v) :: u16)) OR ucast (ucast v :: u16) = (v :: u32)"
  by (rule bit_word_eqI) (auto simp: bit_simps)

lemma ucast_hi_lo64 [byte_simps]:
  "push_bit 32 (ucast (ucast (drop_bit 32 v) :: u32)) OR ucast (ucast v :: u32) = (v :: u64)"
  by (rule bit_word_eqI) (auto simp: bit_simps)

lemma join16_hi [byte_simps]:
  "ucast (drop_bit 8 (push_bit 8 (ucast (a :: byte) :: u16)) OR
     drop_bit 8 (ucast (b :: byte) :: u16)) = a"
  by (rule bit_word_eqI) (auto simp: bit_simps dest: bit_imp_le_length)

lemma join16_lo [byte_simps]:
  "ucast (push_bit 8 (ucast (a :: byte)) OR ucast (b :: byte) :: u16) = b"
  by (rule bit_word_eqI) (auto simp: bit_simps)

lemma join32_hi [byte_simps]:
  "ucast (drop_bit 16 (push_bit 16 (ucast (a :: u16) :: u32)) OR
     drop_bit 16 (ucast (b :: u16) :: u32)) = a"
  by (rule bit_word_eqI) (auto simp: bit_simps dest: bit_imp_le_length)

lemma join32_lo [byte_simps]:
  "ucast (push_bit 16 (ucast (a :: u16)) OR ucast (b :: u16) :: u32) = b"
  by (rule bit_word_eqI) (auto simp: bit_simps)

lemma join64_hi [byte_simps]:
  "ucast (drop_bit 32 (push_bit 32 (ucast (a :: u32) :: u64)) OR
     drop_bit 32 (ucast (b :: u32) :: u64)) = a"
  by (rule bit_word_eqI) (auto simp: bit_simps dest: bit_imp_le_length)

lemma join64_lo [byte_simps]:
  "ucast (push_bit 32 (ucast (a :: u32)) OR ucast (b :: u32) :: u64) = b"
  by (rule bit_word_eqI) (auto simp: bit_simps)

lemma xor_eq_0_iff: "(a XOR b = 0) = (a = (b :: 'a::len word))"
proof
  assume "a XOR b = 0"
  then have "(a XOR b) XOR b = b" by simp
  then show "a = b" by (simp add: xor.assoc)
qed simp

lemma xor_right_cancel: "(a XOR c = b XOR c) = (a = (b :: 'a::len word))"
proof
  assume "a XOR c = b XOR c"
  then have "(a XOR c) XOR c = (b XOR c) XOR c" by simp
  then show "a = b" by (simp add: xor.assoc)
qed simp

lemma xor_left_cancel: "(c XOR a = c XOR b) = (a = (b :: 'a::len word))"
  using xor_right_cancel [of a c b] by (simp add: xor.commute)

lemma drop_bit_small: "unat (v :: 'a::len word) < 2 ^ n \<Longrightarrow> drop_bit n v = 0"
  by (metis div_less drop_bit_eq_div unat_drop_bit_eq unat_eq_zero)

lemma unat_bound: "unat (v :: 'a::len word) < 2 ^ LENGTH('a)"
  by (rule unsigned_less)

lemma unat_of_nat_u32: "n < 2 ^ 32 \<Longrightarrow> unat (of_nat n :: u32) = n"
  by (simp add: unat_of_nat)

lemma unat_of_nat_u16: "n < 65536 \<Longrightarrow> unat (of_nat n :: u16) = n"
  by (simp add: unat_of_nat take_bit_nat_eq_self)

text \<open>A fact about every byte below \<open>n\<close>, by evaluation.\<close>

lemma byte_exhaust:
  assumes "list_all P (map of_nat [0..<n])" and "unat (c :: byte) < n"
  shows "P c"
proof -
  have "P (of_nat (unat c))" using assms unfolding list_all_iff set_map by (metis atLeastLessThan_iff bot_nat_0.extremum imageI set_upt)
  then show ?thesis by simp
qed

text \<open>Equality of bytes, bit by bit.\<close>

lemma byte_bits_eqI: "(\<And>n. n \<in> {0, 1, 2, 3, 4, 5, 6, 7} \<Longrightarrow> bit a n = bit b n) \<Longrightarrow> a = (b :: byte)"
proof (rule bit_word_eqI)
  have "n < 8 \<Longrightarrow> n \<in> {0, 1, 2, 3, 4, 5, 6, 7 :: nat}" for n by auto
  then show "bit a n = bit b n" if "\<And>n. n \<in> {0, 1, 2, 3, 4, 5, 6, 7} \<Longrightarrow> bit a n = bit b n" "n < LENGTH(8)" for n
    using that by simp
qed

end
