(* ===== verification/ByteOrder.thy ===== *)
theory ByteOrder
  imports Jingle_Prelude
begin

unbundle bit_operations_syntax

text \<open>
  \<open>talk/base/byteorder.h\<close>: reading and writing big- and little-endian integers through a
  pointer, and the host/network conversions built from them.  Memory at a pointer is the
  list of bytes that starts there; \<open>Set8\<close> and \<open>Get8\<close> are one byte store and load.  The
  host's own byte order (\<open>IsHostBigEndian\<close>) is the parameter \<open>he\<close>.
\<close>

subsection \<open>Loads and stores\<close>

definition Set8 :: "byte list \<Rightarrow> nat \<Rightarrow> byte \<Rightarrow> byte list" where
  "Set8 memory offset v = memory[offset := v]"

definition Get8 :: "byte list \<Rightarrow> nat \<Rightarrow> byte" where
  "Get8 memory offset = memory ! offset"

definition SetBE16 :: "byte list \<Rightarrow> u16 \<Rightarrow> byte list" where
  "SetBE16 memory v =
     (let memory = Set8 memory 0 (ucast (drop_bit 8 v))
      in Set8 memory 1 (ucast (drop_bit 0 v)))"

definition SetBE32 :: "byte list \<Rightarrow> u32 \<Rightarrow> byte list" where
  "SetBE32 memory v =
     (let memory = Set8 memory 0 (ucast (drop_bit 24 v));
          memory = Set8 memory 1 (ucast (drop_bit 16 v));
          memory = Set8 memory 2 (ucast (drop_bit 8 v))
      in Set8 memory 3 (ucast (drop_bit 0 v)))"

definition SetBE64 :: "byte list \<Rightarrow> u64 \<Rightarrow> byte list" where
  "SetBE64 memory v =
     (let memory = Set8 memory 0 (ucast (drop_bit 56 v));
          memory = Set8 memory 1 (ucast (drop_bit 48 v));
          memory = Set8 memory 2 (ucast (drop_bit 40 v));
          memory = Set8 memory 3 (ucast (drop_bit 32 v));
          memory = Set8 memory 4 (ucast (drop_bit 24 v));
          memory = Set8 memory 5 (ucast (drop_bit 16 v));
          memory = Set8 memory 6 (ucast (drop_bit 8 v))
      in Set8 memory 7 (ucast (drop_bit 0 v)))"

definition GetBE16 :: "byte list \<Rightarrow> u16" where
  "GetBE16 memory = push_bit 8 (ucast (Get8 memory 0)) OR push_bit 0 (ucast (Get8 memory 1))"

definition GetBE32 :: "byte list \<Rightarrow> u32" where
  "GetBE32 memory =
     push_bit 24 (ucast (Get8 memory 0)) OR
     push_bit 16 (ucast (Get8 memory 1)) OR
     push_bit 8 (ucast (Get8 memory 2)) OR
     push_bit 0 (ucast (Get8 memory 3))"

definition GetBE64 :: "byte list \<Rightarrow> u64" where
  "GetBE64 memory =
     push_bit 56 (ucast (Get8 memory 0)) OR
     push_bit 48 (ucast (Get8 memory 1)) OR
     push_bit 40 (ucast (Get8 memory 2)) OR
     push_bit 32 (ucast (Get8 memory 3)) OR
     push_bit 24 (ucast (Get8 memory 4)) OR
     push_bit 16 (ucast (Get8 memory 5)) OR
     push_bit 8 (ucast (Get8 memory 6)) OR
     push_bit 0 (ucast (Get8 memory 7))"

definition SetLE16 :: "byte list \<Rightarrow> u16 \<Rightarrow> byte list" where
  "SetLE16 memory v =
     (let memory = Set8 memory 0 (ucast (drop_bit 0 v))
      in Set8 memory 1 (ucast (drop_bit 8 v)))"

definition SetLE32 :: "byte list \<Rightarrow> u32 \<Rightarrow> byte list" where
  "SetLE32 memory v =
     (let memory = Set8 memory 0 (ucast (drop_bit 0 v));
          memory = Set8 memory 1 (ucast (drop_bit 8 v));
          memory = Set8 memory 2 (ucast (drop_bit 16 v))
      in Set8 memory 3 (ucast (drop_bit 24 v)))"

definition SetLE64 :: "byte list \<Rightarrow> u64 \<Rightarrow> byte list" where
  "SetLE64 memory v =
     (let memory = Set8 memory 0 (ucast (drop_bit 0 v));
          memory = Set8 memory 1 (ucast (drop_bit 8 v));
          memory = Set8 memory 2 (ucast (drop_bit 16 v));
          memory = Set8 memory 3 (ucast (drop_bit 24 v));
          memory = Set8 memory 4 (ucast (drop_bit 32 v));
          memory = Set8 memory 5 (ucast (drop_bit 40 v));
          memory = Set8 memory 6 (ucast (drop_bit 48 v))
      in Set8 memory 7 (ucast (drop_bit 56 v)))"

definition GetLE16 :: "byte list \<Rightarrow> u16" where
  "GetLE16 memory = push_bit 0 (ucast (Get8 memory 0)) OR push_bit 8 (ucast (Get8 memory 1))"

definition GetLE32 :: "byte list \<Rightarrow> u32" where
  "GetLE32 memory =
     push_bit 0 (ucast (Get8 memory 0)) OR
     push_bit 8 (ucast (Get8 memory 1)) OR
     push_bit 16 (ucast (Get8 memory 2)) OR
     push_bit 24 (ucast (Get8 memory 3))"

definition GetLE64 :: "byte list \<Rightarrow> u64" where
  "GetLE64 memory =
     push_bit 0 (ucast (Get8 memory 0)) OR
     push_bit 8 (ucast (Get8 memory 1)) OR
     push_bit 16 (ucast (Get8 memory 2)) OR
     push_bit 24 (ucast (Get8 memory 3)) OR
     push_bit 32 (ucast (Get8 memory 4)) OR
     push_bit 40 (ucast (Get8 memory 5)) OR
     push_bit 48 (ucast (Get8 memory 6)) OR
     push_bit 56 (ucast (Get8 memory 7))"

subsection \<open>The host's memory image of an integer\<close>

text \<open>
  Several functions take the address of an integer variable and treat it as bytes.  What
  those bytes are depends on the host: \<open>image16 he v\<close> is the memory of a \<open>uint16\<close> variable
  that holds \<open>v\<close>, and \<open>value16 he bs\<close> the value of a variable with memory \<open>bs\<close>.
\<close>

datatype endian = BigEndianHost | LittleEndianHost

definition IsHostBigEndian :: "endian \<Rightarrow> bool" where
  "IsHostBigEndian he = (he = BigEndianHost)"

definition image16 :: "endian \<Rightarrow> u16 \<Rightarrow> byte list" where
  "image16 he v = (if IsHostBigEndian he then SetBE16 (replicate 2 0) v else SetLE16 (replicate 2 0) v)"

definition image32 :: "endian \<Rightarrow> u32 \<Rightarrow> byte list" where
  "image32 he v = (if IsHostBigEndian he then SetBE32 (replicate 4 0) v else SetLE32 (replicate 4 0) v)"

definition image64 :: "endian \<Rightarrow> u64 \<Rightarrow> byte list" where
  "image64 he v = (if IsHostBigEndian he then SetBE64 (replicate 8 0) v else SetLE64 (replicate 8 0) v)"

definition value16 :: "endian \<Rightarrow> byte list \<Rightarrow> u16" where
  "value16 he bs = (if IsHostBigEndian he then GetBE16 bs else GetLE16 bs)"

definition value32 :: "endian \<Rightarrow> byte list \<Rightarrow> u32" where
  "value32 he bs = (if IsHostBigEndian he then GetBE32 bs else GetLE32 bs)"

definition value64 :: "endian \<Rightarrow> byte list \<Rightarrow> u64" where
  "value64 he bs = (if IsHostBigEndian he then GetBE64 bs else GetLE64 bs)"

subsection \<open>Host and network order\<close>

definition HostToNetwork16 :: "endian \<Rightarrow> u16 \<Rightarrow> u16" where
  "HostToNetwork16 he n = value16 he (SetBE16 (replicate 2 0) n)"

definition HostToNetwork32 :: "endian \<Rightarrow> u32 \<Rightarrow> u32" where
  "HostToNetwork32 he n = value32 he (SetBE32 (replicate 4 0) n)"

definition HostToNetwork64 :: "endian \<Rightarrow> u64 \<Rightarrow> u64" where
  "HostToNetwork64 he n = value64 he (SetBE64 (replicate 8 0) n)"

definition NetworkToHost16 :: "endian \<Rightarrow> u16 \<Rightarrow> u16" where
  "NetworkToHost16 he n = GetBE16 (image16 he n)"

definition NetworkToHost32 :: "endian \<Rightarrow> u32 \<Rightarrow> u32" where
  "NetworkToHost32 he n = GetBE32 (image32 he n)"

definition NetworkToHost64 :: "endian \<Rightarrow> u64 \<Rightarrow> u64" where
  "NetworkToHost64 he n = GetBE64 (image64 he n)"


subsection \<open>Codec laws\<close>

text \<open>
  The bytes a store leaves in memory, as one list: everything below is stated on these.
  The wider codecs split into two of half the width, so each law is proved from the
  narrower one and the splitting facts of the prelude.
\<close>

definition be16 :: "u16 \<Rightarrow> byte list" where
  "be16 v = [ucast (drop_bit 8 v), ucast v]"

definition be32 :: "u32 \<Rightarrow> byte list" where
  "be32 v = be16 (ucast (drop_bit 16 v)) @ be16 (ucast v)"

definition be64 :: "u64 \<Rightarrow> byte list" where
  "be64 v = be32 (ucast (drop_bit 32 v)) @ be32 (ucast v)"

lemma length_be [simp]: "length (be16 a) = 2" "length (be32 b) = 4" "length (be64 c) = 8"
  by (simp_all add: be16_def be32_def be64_def)

lemmas store_defs = Set8_def Let_def

lemma SetBE16_be: "2 \<le> length m \<Longrightarrow> SetBE16 m v = be16 v @ drop 2 m"
  by (cases m; cases "tl m") (auto simp: SetBE16_def store_defs be16_def)

lemma be32_bytes:
  "be32 v = [ucast (drop_bit 24 v), ucast (drop_bit 16 v), ucast (drop_bit 8 v), ucast v]"
  by (auto simp: be32_def be16_def intro!: bit_word_eqI) (auto simp: bit_simps ac_simps)

lemma be64_bytes:
  "be64 v = [ucast (drop_bit 56 v), ucast (drop_bit 48 v), ucast (drop_bit 40 v),
     ucast (drop_bit 32 v), ucast (drop_bit 24 v), ucast (drop_bit 16 v),
     ucast (drop_bit 8 v), ucast v]"
  by (auto simp: be64_def be32_bytes intro!: bit_word_eqI) (auto simp: bit_simps ac_simps)

lemma SetBE32_be: "4 \<le> length m \<Longrightarrow> SetBE32 m v = be32 v @ drop 4 m"
  by (erule length_ge4E) (simp add: SetBE32_def store_defs be32_bytes)

lemma SetBE64_be: "8 \<le> length m \<Longrightarrow> SetBE64 m v = be64 v @ drop 8 m"
  by (erule length_ge8E) (simp add: SetBE64_def store_defs be64_bytes)

lemma SetLE16_rev: "SetLE16 (replicate 2 0) v = rev (be16 v)"
  by (simp add: SetLE16_def store_defs be16_def eval_nat_numeral)

lemma SetLE32_rev: "SetLE32 (replicate 4 0) v = rev (be32 v)"
  by (simp add: SetLE32_def store_defs be32_bytes eval_nat_numeral)

lemma SetLE64_rev: "SetLE64 (replicate 8 0) v = rev (be64 v)"
  by (simp add: SetLE64_def store_defs be64_bytes eval_nat_numeral)

lemma GetBE32_halves:
  "GetBE32 m = push_bit 16 (ucast (GetBE16 m)) OR ucast (GetBE16 (drop 2 m))"
  if "4 \<le> length m"
  using that
  by (auto simp: GetBE32_def GetBE16_def Get8_def intro!: bit_word_eqI)
    (auto simp: bit_simps dest: bit_imp_le_length)

lemma ucast_push_byte:
  assumes "k \<le> 24"
  shows "ucast (push_bit k (ucast (a :: byte)) :: u32) = (push_bit k (ucast a) :: u64)"
proof (rule bit_word_eqI)
  fix n :: nat
  assume "n < LENGTH(64)"
  have "bit a (n - k) \<Longrightarrow> n - k < 8"
    by (rule bit_imp_le_length [of a, simplified]) 
  then have "bit a (n - k) \<Longrightarrow> n < 32"
    using assms by linarith
  then show "bit (ucast (push_bit k (ucast a) :: u32) :: u64) n = bit (push_bit k (ucast a) :: u64) n"
    using \<open>n < LENGTH(64)\<close> by (auto simp: bit_simps)
qed

lemma ucast_or: "ucast (a OR b :: u32) = (ucast a OR ucast b :: u64)"
  by (rule bit_word_eqI) (auto simp: bit_simps)

lemma GetBE64_halves:
  "GetBE64 m = push_bit 32 (ucast (GetBE32 m)) OR ucast (GetBE32 (drop 4 m))"
  if "8 \<le> length m"
proof -
  have "drop 4 m ! 0 = m ! 4" "drop 4 m ! 1 = m ! 5" "drop 4 m ! 2 = m ! 6" "drop 4 m ! 3 = m ! 7"
    using that by simp_all
  then show ?thesis
    by (simp only: GetBE64_def GetBE32_def Get8_def ucast_or push_bit_or or.assoc
        ucast_push_byte push_bit_push_bit order_refl le0)
      (simp add: ucast_push_byte)
qed

lemma GetBE16_be [simp]: "GetBE16 (be16 v @ r) = v"
  by (simp add: GetBE16_def Get8_def be16_def byte_simps)

lemma GetBE32_be [simp]: "GetBE32 (be32 v @ r) = v"
  by (subst GetBE32_halves) (simp_all add: be32_def byte_simps)

lemma GetBE64_be [simp]: "GetBE64 (be64 v @ r) = v"
  by (subst GetBE64_halves) (simp_all add: be64_def byte_simps)

lemmas GetBE_be_Nil [simp] =
  GetBE16_be [where r = "[]", simplified]
  GetBE32_be [where r = "[]", simplified]
  GetBE64_be [where r = "[]", simplified]

lemma be16_GetBE16: "2 \<le> length m \<Longrightarrow> be16 (GetBE16 m) = take 2 m"
  by (simp add: be16_def GetBE16_def Get8_def take_2_eq byte_simps)

lemma be32_GetBE32: "4 \<le> length m \<Longrightarrow> be32 (GetBE32 m) = take 4 m"
  using take_add [of 2 2 m]
  by (simp add: GetBE32_halves be32_def byte_simps be16_GetBE16)

lemma be64_GetBE64: "8 \<le> length m \<Longrightarrow> be64 (GetBE64 m) = take 8 m"
  using take_add [of 4 4 m]
  by (simp add: GetBE64_halves be64_def byte_simps be32_GetBE32)

text \<open>The little-endian loads read the reversed bytes.\<close>

lemma GetLE16_rev: "length m = 2 \<Longrightarrow> GetLE16 m = GetBE16 (rev m)"
  by (auto simp: GetLE16_def GetBE16_def Get8_def length_Suc_conv eval_nat_numeral or.commute)

lemma GetLE32_rev: "length m = 4 \<Longrightarrow> GetLE32 m = GetBE32 (rev m)"
  by (auto simp: GetLE32_def GetBE32_def Get8_def length_Suc_conv eval_nat_numeral or.commute
      or.left_commute)

lemma GetLE64_rev: "length m = 8 \<Longrightarrow> GetLE64 m = GetBE64 (rev m)"
  by (auto simp: GetLE64_def GetBE64_def Get8_def length_Suc_conv eval_nat_numeral or.commute
      or.left_commute)

subsection \<open>Host and network order are inverse on every host\<close>

lemmas image_defs =
  image16_def image32_def image64_def value16_def value32_def value64_def

lemmas host_store_simps =
  SetBE16_be SetBE32_be SetBE64_be SetLE16_rev SetLE32_rev SetLE64_rev
  GetLE16_rev GetLE32_rev GetLE64_rev

lemma length_image [simp]:
  "length (image16 he a) = 2" "length (image32 he b) = 4" "length (image64 he c) = 8"
  by (simp_all add: image_defs host_store_simps)

lemma value_image [simp]:
  "value16 he (image16 he a) = a" "value32 he (image32 he b) = b" "value64 he (image64 he c) = c"
  by (simp_all add: image_defs host_store_simps)

lemma image_value:
  "length m = 2 \<Longrightarrow> image16 he (value16 he m) = m"
  "length n = 4 \<Longrightarrow> image32 he (value32 he n) = n"
  "length k = 8 \<Longrightarrow> image64 he (value64 he k) = k"
  by (simp_all add: image_defs host_store_simps be16_GetBE16 be32_GetBE32 be64_GetBE64)

lemma image_HostToNetwork [simp]:
  "image16 he (HostToNetwork16 he a) = be16 a"
  "image32 he (HostToNetwork32 he b) = be32 b"
  "image64 he (HostToNetwork64 he c) = be64 c"
  by (simp_all add: HostToNetwork16_def HostToNetwork32_def HostToNetwork64_def image_value
      host_store_simps)

lemma NetworkToHost_value:
  "length m = 2 \<Longrightarrow> NetworkToHost16 he (value16 he m) = GetBE16 m"
  "length n = 4 \<Longrightarrow> NetworkToHost32 he (value32 he n) = GetBE32 n"
  "length k = 8 \<Longrightarrow> NetworkToHost64 he (value64 he k) = GetBE64 k"
  by (simp_all add: NetworkToHost16_def NetworkToHost32_def NetworkToHost64_def image_value)

lemma length_image32 [simp]: "length (image32 he w) = 4"
  by (simp add: image32_def SetBE32_be SetLE32_rev)

lemma image32_value32: "length bs = 4 \<Longrightarrow> image32 he (value32 he bs) = bs"
  by (simp add: image32_def value32_def SetBE32_be be32_GetBE32 SetLE32_rev GetLE32_rev)

text \<open>
  Converting an integer to network order and back gives the integer, whatever the byte
  order of the host, for the 16-, 32- and 64-bit conversions.
\<close>

theorem network_order_roundtrip:
  "NetworkToHost16 he (HostToNetwork16 he a) = a \<and>
   NetworkToHost32 he (HostToNetwork32 he b) = b \<and>
   NetworkToHost64 he (HostToNetwork64 he c) = c"
  by (simp add: NetworkToHost16_def NetworkToHost32_def NetworkToHost64_def)

end
