(* ===== verification/ByteBuffer.thy ===== *)
theory ByteBuffer
  imports ByteOrder
begin

text \<open>
  \<open>talk/base/bytebuffer.cc\<close>: the growable buffer every packet codec of the repository reads
  from and writes to.  \<open>bytes_\<close> is the allocation (its length is \<open>size_\<close>; a fresh
  allocation is modelled as zero bytes, which no operation below can observe, since
  everything read lies between \<open>start_\<close> and \<open>end_\<close>), \<open>start_\<close> the read position, \<open>end_\<close> the
  write position and \<open>version_\<close> the generation that invalidates remembered positions.
\<close>

datatype byte_order = ORDER_NETWORK | ORDER_HOST

record byte_buffer =
  bb_bytes :: "byte list"
  bb_size :: nat
  bb_start :: nat
  bb_end :: nat
  bb_version :: int
  bb_order :: byte_order

record read_position =
  rp_start :: nat
  rp_version :: int

subsection \<open>Construction and observers\<close>

definition DEFAULT_SIZE :: nat where
  "DEFAULT_SIZE = 4096"

definition Construct :: "byte list option \<Rightarrow> nat \<Rightarrow> byte_order \<Rightarrow> byte_buffer" where
  "Construct bytes len byte_order =
     (case bytes of
        Some bs \<Rightarrow> \<lparr>bb_bytes = take len bs, bb_size = len, bb_start = 0, bb_end = len,
                    bb_version = 0, bb_order = byte_order\<rparr>
      | None \<Rightarrow> \<lparr>bb_bytes = replicate len 0, bb_size = len, bb_start = 0, bb_end = 0,
                  bb_version = 0, bb_order = byte_order\<rparr>)"

definition ByteBuffer_new :: byte_buffer where
  "ByteBuffer_new = Construct None DEFAULT_SIZE ORDER_NETWORK"

definition ByteBuffer_of_order :: "byte_order \<Rightarrow> byte_buffer" where
  "ByteBuffer_of_order byte_order = Construct None DEFAULT_SIZE byte_order"

definition ByteBuffer_of :: "byte list \<Rightarrow> byte_buffer" where
  "ByteBuffer_of bytes = Construct (Some bytes) (length bytes) ORDER_NETWORK"

definition Length :: "byte_buffer \<Rightarrow> nat" where
  "Length b = bb_end b - bb_start b"

definition Capacity :: "byte_buffer \<Rightarrow> nat" where
  "Capacity b = bb_size b - bb_start b"

definition Data :: "byte_buffer \<Rightarrow> byte list" where
  "Data b = drop (bb_start b) (bb_bytes b)"

subsection \<open>Reading\<close>

definition ReadBytes :: "byte_buffer \<Rightarrow> nat \<Rightarrow> (byte list \<times> byte_buffer) option" where
  "ReadBytes b len =
     (if len > Length b then None
      else Some (take len (drop (bb_start b) (bb_bytes b)), b\<lparr>bb_start := bb_start b + len\<rparr>))"

definition ReadString :: "byte_buffer \<Rightarrow> byte list \<Rightarrow> nat \<Rightarrow> (byte list \<times> byte_buffer) option" where
  "ReadString b val len =
     (if len > Length b then None
      else Some (val @ take len (drop (bb_start b) (bb_bytes b)), b\<lparr>bb_start := bb_start b + len\<rparr>))"

definition ReadUInt8 :: "byte_buffer \<Rightarrow> (byte \<times> byte_buffer) option" where
  "ReadUInt8 b = (case ReadBytes b 1 of None \<Rightarrow> None | Some (v, b') \<Rightarrow> Some (v ! 0, b'))"

definition ReadUInt16 :: "endian \<Rightarrow> byte_buffer \<Rightarrow> (u16 \<times> byte_buffer) option" where
  "ReadUInt16 he b =
     (case ReadBytes b 2 of
        None \<Rightarrow> None
      | Some (m, b') \<Rightarrow>
          let v = value16 he m
          in Some (if bb_order b = ORDER_NETWORK then NetworkToHost16 he v else v, b'))"

definition ReadUInt24 :: "endian \<Rightarrow> byte_buffer \<Rightarrow> (u32 \<times> byte_buffer) option" where
  "ReadUInt24 he b =
     (case ReadBytes b 3 of
        None \<Rightarrow> None
      | Some (m, b') \<Rightarrow>
          let mem = (if bb_order b = ORDER_NETWORK \<or> IsHostBigEndian he then 0 # m else m @ [0]);
              v = value32 he mem
          in Some (if bb_order b = ORDER_NETWORK then NetworkToHost32 he v else v, b'))"

definition ReadUInt32 :: "endian \<Rightarrow> byte_buffer \<Rightarrow> (u32 \<times> byte_buffer) option" where
  "ReadUInt32 he b =
     (case ReadBytes b 4 of
        None \<Rightarrow> None
      | Some (m, b') \<Rightarrow>
          let v = value32 he m
          in Some (if bb_order b = ORDER_NETWORK then NetworkToHost32 he v else v, b'))"

definition ReadUInt64 :: "endian \<Rightarrow> byte_buffer \<Rightarrow> (u64 \<times> byte_buffer) option" where
  "ReadUInt64 he b =
     (case ReadBytes b 8 of
        None \<Rightarrow> None
      | Some (m, b') \<Rightarrow>
          let v = value64 he m
          in Some (if bb_order b = ORDER_NETWORK then NetworkToHost64 he v else v, b'))"

subsection \<open>Writing\<close>

definition Resize :: "byte_buffer \<Rightarrow> nat \<Rightarrow> byte_buffer" where
  "Resize b sz =
     (let len = min (bb_end b - bb_start b) sz;
          kept = take len (drop (bb_start b) (bb_bytes b));
          b = (if sz \<le> bb_size b
               then b\<lparr>bb_bytes := kept @ drop len (bb_bytes b)\<rparr>
               else let new_size = max sz (3 * bb_size b div 2)
                    in b\<lparr>bb_size := new_size, bb_bytes := kept @ replicate (new_size - len) 0\<rparr>)
      in b\<lparr>bb_start := 0, bb_end := len, bb_version := bb_version b + 1\<rparr>)"

text \<open>\<open>ReserveWriteBuffer\<close> returns the offset of the reserved region.\<close>

definition ReserveWriteBuffer :: "byte_buffer \<Rightarrow> nat \<Rightarrow> nat \<times> byte_buffer" where
  "ReserveWriteBuffer b len =
     (let b = (if Length b + len > Capacity b then Resize b (Length b + len) else b)
      in (bb_end b, b\<lparr>bb_end := bb_end b + len\<rparr>))"

definition WriteBytes :: "byte_buffer \<Rightarrow> byte list \<Rightarrow> byte_buffer" where
  "WriteBytes b val =
     (let (pos, b') = ReserveWriteBuffer b (length val)
      in b'\<lparr>bb_bytes := memcpy_at (bb_bytes b') pos val\<rparr>)"

definition WriteString :: "byte_buffer \<Rightarrow> byte list \<Rightarrow> byte_buffer" where
  "WriteString b val = WriteBytes b val"

definition WriteUInt8 :: "byte_buffer \<Rightarrow> byte \<Rightarrow> byte_buffer" where
  "WriteUInt8 b val = WriteBytes b [val]"

definition WriteUInt16 :: "endian \<Rightarrow> byte_buffer \<Rightarrow> u16 \<Rightarrow> byte_buffer" where
  "WriteUInt16 he b val =
     (let v = (if bb_order b = ORDER_NETWORK then HostToNetwork16 he val else val)
      in WriteBytes b (image16 he v))"

definition WriteUInt24 :: "endian \<Rightarrow> byte_buffer \<Rightarrow> u32 \<Rightarrow> byte_buffer" where
  "WriteUInt24 he b val =
     (let v = (if bb_order b = ORDER_NETWORK then HostToNetwork32 he val else val);
          start = (if bb_order b = ORDER_NETWORK \<or> IsHostBigEndian he then 1 else 0)
      in WriteBytes b (take 3 (drop start (image32 he v))))"

definition WriteUInt32 :: "endian \<Rightarrow> byte_buffer \<Rightarrow> u32 \<Rightarrow> byte_buffer" where
  "WriteUInt32 he b val =
     (let v = (if bb_order b = ORDER_NETWORK then HostToNetwork32 he val else val)
      in WriteBytes b (image32 he v))"

definition WriteUInt64 :: "endian \<Rightarrow> byte_buffer \<Rightarrow> u64 \<Rightarrow> byte_buffer" where
  "WriteUInt64 he b val =
     (let v = (if bb_order b = ORDER_NETWORK then HostToNetwork64 he val else val)
      in WriteBytes b (image64 he v))"

subsection \<open>Positions\<close>

definition Consume :: "byte_buffer \<Rightarrow> nat \<Rightarrow> byte_buffer option" where
  "Consume b sz =
     (if sz > Length b then None else Some (b\<lparr>bb_start := bb_start b + sz\<rparr>))"

definition GetReadPosition :: "byte_buffer \<Rightarrow> read_position" where
  "GetReadPosition b = \<lparr>rp_start = bb_start b, rp_version = bb_version b\<rparr>"

definition SetReadPosition :: "byte_buffer \<Rightarrow> read_position \<Rightarrow> byte_buffer option" where
  "SetReadPosition b position =
     (if rp_version position \<noteq> bb_version b then None
      else Some (b\<lparr>bb_start := rp_start position\<rparr>))"

definition Clear :: "byte_buffer \<Rightarrow> byte_buffer" where
  "Clear b =
     b\<lparr>bb_bytes := replicate (bb_size b) 0, bb_start := 0, bb_end := 0,
       bb_version := bb_version b + 1\<rparr>"

subsection \<open>Invariant and contents\<close>

definition buffer_ok :: "byte_buffer \<Rightarrow> bool" where
  "buffer_ok b = (length (bb_bytes b) = bb_size b \<and> bb_start b \<le> bb_end b \<and> bb_end b \<le> bb_size b)"

definition contents :: "byte_buffer \<Rightarrow> byte list" where
  "contents b = take (Length b) (Data b)"

lemmas buffer_defs = buffer_ok_def contents_def Length_def Capacity_def Data_def

lemma length_contents [simp]: "buffer_ok b \<Longrightarrow> length (contents b) = Length b"
  by (auto simp: buffer_defs)

lemma Construct_ok:
  "case bytes of None \<Rightarrow> True | Some bs \<Rightarrow> len \<le> length bs \<Longrightarrow>
     buffer_ok (Construct bytes len ord) \<and> bb_order (Construct bytes len ord) = ord"
  by (auto simp: buffer_defs Construct_def split: option.splits)

lemma ByteBuffer_new_ok [simp]:
  "buffer_ok ByteBuffer_new" "bb_order ByteBuffer_new = ORDER_NETWORK" "contents ByteBuffer_new = []"
  by (auto simp: buffer_defs ByteBuffer_new_def Construct_def)

lemma ByteBuffer_of_ok [simp]:
  "buffer_ok (ByteBuffer_of bs)" "bb_order (ByteBuffer_of bs) = ORDER_NETWORK"
  "contents (ByteBuffer_of bs) = bs"
  by (auto simp: buffer_defs ByteBuffer_of_def Construct_def)

lemma Resize_ok:
  assumes "buffer_ok b" and "Length b \<le> sz"
  shows "buffer_ok (Resize b sz)" and "contents (Resize b sz) = contents b"
    and "sz \<le> Capacity (Resize b sz)" and "bb_order (Resize b sz) = bb_order b"
  using assms by (auto simp: buffer_defs Resize_def Let_def min_def)

lemma WriteBytes_ok:
  assumes "buffer_ok b"
  shows "buffer_ok (WriteBytes b val)" and "contents (WriteBytes b val) = contents b @ val"
    and "bb_order (WriteBytes b val) = bb_order b"
proof -
  define b1 where "b1 = (if Length b + length val > Capacity b then Resize b (Length b + length val) else b)"
  have ok: "buffer_ok b1" and c: "contents b1 = contents b" and o: "bb_order b1 = bb_order b"
    and big: "Length b + length val \<le> Capacity b1"
    using assms Resize_ok [OF assms, of "Length b + length val"]
    by (auto simp: b1_def)
  have cap: "Length b1 + length val \<le> Capacity b1"
    using big length_contents [OF ok] length_contents [OF assms] c by simp
  have eq: "WriteBytes b val =
      b1\<lparr>bb_end := bb_end b1 + length val, bb_bytes := memcpy_at (bb_bytes b1) (bb_end b1) val\<rparr>"
    by (simp add: WriteBytes_def ReserveWriteBuffer_def b1_def Let_def)
  have fit: "bb_end b1 + length val \<le> bb_size b1"
    using ok cap by (auto simp: buffer_defs)
  show "buffer_ok (WriteBytes b val)"
    using ok fit memcpy_at_end(1) [of "bb_bytes b1" "bb_size b1" "bb_end b1" val]
    by (auto simp: eq buffer_ok_def)
  show "contents (WriteBytes b val) = contents b @ val"
    using ok fit c memcpy_at_end(2) [of "bb_bytes b1" "bb_size b1" "bb_end b1" val "bb_start b1"]
    by (auto simp: eq buffer_defs)
  show "bb_order (WriteBytes b val) = bb_order b"
    by (simp add: eq o)
qed

lemma ReadBytes_contents:
  assumes "buffer_ok b"
  shows "ReadBytes b n =
      (if n \<le> length (contents b)
       then Some (take n (contents b), b\<lparr>bb_start := bb_start b + n\<rparr>) else None)"
  using assms by (auto simp: ReadBytes_def buffer_defs min_def)

lemma advance_ok:
  assumes "buffer_ok b" and "n \<le> length (contents b)"
  shows "buffer_ok (b\<lparr>bb_start := bb_start b + n\<rparr>)"
    and "contents (b\<lparr>bb_start := bb_start b + n\<rparr>) = drop n (contents b)"
  using assms by (auto simp: buffer_defs drop_take add.commute)

subsection \<open>The interface the codecs rely on\<close>

text \<open>
  A codec that parses a packet needs two things of its source: a read of \<open>n\<close> bytes fails
  exactly when fewer are left, and otherwise returns the next \<open>n\<close> and moves past them.  A
  codec that also prints needs that a write appends.
\<close>

locale byte_reader =
  fixes ok :: "'b \<Rightarrow> bool" and dat :: "'b \<Rightarrow> byte list"
    and adv :: "'b \<Rightarrow> nat \<Rightarrow> 'b" and rd :: "'b \<Rightarrow> nat \<Rightarrow> (byte list \<times> 'b) option"
  assumes rd_eq: "ok b \<Longrightarrow> rd b n = (if n \<le> length (dat b) then Some (take n (dat b), adv b n) else None)"
    and ok_adv: "ok b \<Longrightarrow> n \<le> length (dat b) \<Longrightarrow> ok (adv b n)"
    and dat_adv: "ok b \<Longrightarrow> n \<le> length (dat b) \<Longrightarrow> dat (adv b n) = drop n (dat b)"
begin

lemma rd_prefix:
  assumes "ok b" and "dat b = v @ rest"
  shows "\<exists>b'. rd b (length v) = Some (v, b') \<and> ok b' \<and> dat b' = rest"
  using assms rd_eq [of b "length v"] ok_adv [of b "length v"] dat_adv [of b "length v"] by simp

lemma rd_exhausts:
  assumes "ok b" and "rd b n = Some (v, b')"
  shows "ok b'" and "dat b = v @ dat b'" and "length v = n"
  using assms rd_eq [of b n] ok_adv [of b n] dat_adv [of b n] by (auto split: if_splits)

end

locale byte_stream = byte_reader +
  fixes wr :: "'a \<Rightarrow> byte list \<Rightarrow> 'a"
  assumes ok_wr: "ok b \<Longrightarrow> ok (wr b v)"
    and dat_wr: "ok b \<Longrightarrow> dat (wr b v) = dat b @ v"
begin

lemma wr_list:
  assumes "ok b"
  shows "ok (foldl wr b vs)" and "dat (foldl wr b vs) = dat b @ concat vs"
  using assms by (induction vs arbitrary: b) (auto simp: ok_wr dat_wr)

lemma wr_then_rd:
  assumes "ok b" and "dat b = []"
  shows "\<exists>b'. rd (wr b v) (length v) = Some (v, b') \<and> ok b' \<and> dat b' = []"
  using rd_prefix [of "wr b v" v "[]"] assms by (simp add: ok_wr dat_wr)

end

definition advance :: "byte_buffer \<Rightarrow> nat \<Rightarrow> byte_buffer" where
  "advance b n = b\<lparr>bb_start := bb_start b + n\<rparr>"

text \<open>\<open>ordered_ok ord\<close>: the invariant, and the byte order, which no operation changes.\<close>

definition ordered_ok :: "byte_order \<Rightarrow> byte_buffer \<Rightarrow> bool" where
  "ordered_ok ord b = (buffer_ok b \<and> bb_order b = ord)"

interpretation bb: byte_stream "ordered_ok ord" contents advance ReadBytes WriteBytes
  by unfold_locales
    (auto simp: ordered_ok_def advance_def ReadBytes_contents advance_ok WriteBytes_ok)

lemma ordered_okI [intro]: "buffer_ok b \<Longrightarrow> ordered_ok (bb_order b) b"
  by (simp add: ordered_ok_def)

lemma ordered_order: "ordered_ok ord b \<Longrightarrow> bb_order b = ord"
  by (simp add: ordered_ok_def)

lemma Length_eq: "ordered_ok ord b \<Longrightarrow> Length b = length (contents b)"
  by (simp add: ordered_ok_def)

lemma ordered_new [simp]: "ordered_ok ORDER_NETWORK ByteBuffer_new"
  by (simp add: ordered_ok_def)

lemma ordered_of [simp]: "ordered_ok ORDER_NETWORK (ByteBuffer_of bs)"
  by (simp add: ordered_ok_def)

lemmas [buffer_simps] = bb.rd_eq bb.ok_adv bb.dat_adv bb.ok_wr bb.dat_wr ordered_order

lemma ReadString_eq [buffer_simps]:
  "ordered_ok ord b \<Longrightarrow>
     ReadString b val n =
       (if n \<le> length (contents b) then Some (val @ take n (contents b), advance b n) else None)"
  by (auto simp: ReadString_def ReadBytes_contents ordered_ok_def advance_def buffer_defs min_def)

lemma Consume_eq [buffer_simps]:
  "ordered_ok ord b \<Longrightarrow>
     Consume b n = (if n \<le> length (contents b) then Some (advance b n) else None)"
  by (auto simp: Consume_def ordered_ok_def advance_def)

lemma ReadUInt8_eq [buffer_simps]:
  "ordered_ok ord b \<Longrightarrow>
     ReadUInt8 b = (if 1 \<le> length (contents b) then Some (hd (contents b), advance b 1) else None)"
  by (cases "contents b") (auto simp: ReadUInt8_def bb.rd_eq)

lemma ReadUInt16_net [buffer_simps]:
  "ordered_ok ORDER_NETWORK b \<Longrightarrow>
     ReadUInt16 he b =
       (if 2 \<le> length (contents b) then Some (GetBE16 (take 2 (contents b)), advance b 2) else None)"
  by (simp add: ReadUInt16_def bb.rd_eq ordered_order NetworkToHost_value)

lemma ReadUInt32_net [buffer_simps]:
  "ordered_ok ORDER_NETWORK b \<Longrightarrow>
     ReadUInt32 he b =
       (if 4 \<le> length (contents b) then Some (GetBE32 (take 4 (contents b)), advance b 4) else None)"
  by (simp add: ReadUInt32_def bb.rd_eq ordered_order NetworkToHost_value)

lemma ReadUInt64_net [buffer_simps]:
  "ordered_ok ORDER_NETWORK b \<Longrightarrow>
     ReadUInt64 he b =
       (if 8 \<le> length (contents b) then Some (GetBE64 (take 8 (contents b)), advance b 8) else None)"
  by (simp add: ReadUInt64_def bb.rd_eq ordered_order NetworkToHost_value)

lemma WriteUInt_net [buffer_simps]:
  "ordered_ok ORDER_NETWORK b \<Longrightarrow> WriteUInt8 b v8 = WriteBytes b [v8]"
  "ordered_ok ORDER_NETWORK b \<Longrightarrow> WriteUInt16 he b v16 = WriteBytes b (be16 v16)"
  "ordered_ok ORDER_NETWORK b \<Longrightarrow> WriteUInt32 he b v32 = WriteBytes b (be32 v32)"
  "ordered_ok ORDER_NETWORK b \<Longrightarrow> WriteUInt64 he b v64 = WriteBytes b (be64 v64)"
  "ordered_ok ORDER_NETWORK b \<Longrightarrow> WriteString b s = WriteBytes b s"
  by (simp_all add: WriteUInt8_def WriteUInt16_def WriteUInt32_def WriteUInt64_def WriteString_def
      ordered_order)

subsection \<open>Every value written is read back\<close>

text \<open>A program of typed writes, and the typed reads that mirror it.\<close>

datatype item = I8 byte | I16 u16 | I24 u32 | I32 u32 | I64 u64 | IStr "byte list"

datatype kind = K8 | K16 | K24 | K32 | K64 | KStr nat

fun kind_of :: "item \<Rightarrow> kind" where
  "kind_of (I8 v) = K8"
| "kind_of (I16 v) = K16"
| "kind_of (I24 v) = K24"
| "kind_of (I32 v) = K32"
| "kind_of (I64 v) = K64"
| "kind_of (IStr v) = KStr (length v)"

text \<open>A 24-bit write keeps the low three bytes of its argument.\<close>

fun item_fits :: "item \<Rightarrow> bool" where
  "item_fits (I24 v) = (unat v < 2 ^ 24)"
| "item_fits i = True"

fun write_item :: "endian \<Rightarrow> byte_buffer \<Rightarrow> item \<Rightarrow> byte_buffer" where
  "write_item he b (I8 v) = WriteUInt8 b v"
| "write_item he b (I16 v) = WriteUInt16 he b v"
| "write_item he b (I24 v) = WriteUInt24 he b v"
| "write_item he b (I32 v) = WriteUInt32 he b v"
| "write_item he b (I64 v) = WriteUInt64 he b v"
| "write_item he b (IStr v) = WriteString b v"

fun read_item :: "endian \<Rightarrow> kind \<Rightarrow> byte_buffer \<Rightarrow> (item \<times> byte_buffer) option" where
  "read_item he K8 b = map_option (\<lambda>(v, b'). (I8 v, b')) (ReadUInt8 b)"
| "read_item he K16 b = map_option (\<lambda>(v, b'). (I16 v, b')) (ReadUInt16 he b)"
| "read_item he K24 b = map_option (\<lambda>(v, b'). (I24 v, b')) (ReadUInt24 he b)"
| "read_item he K32 b = map_option (\<lambda>(v, b'). (I32 v, b')) (ReadUInt32 he b)"
| "read_item he K64 b = map_option (\<lambda>(v, b'). (I64 v, b')) (ReadUInt64 he b)"
| "read_item he (KStr n) b = map_option (\<lambda>(v, b'). (IStr v, b')) (ReadString b [] n)"

fun read_items :: "endian \<Rightarrow> kind list \<Rightarrow> byte_buffer \<Rightarrow> (item list \<times> byte_buffer) option" where
  "read_items he [] b = Some ([], b)"
| "read_items he (k # ks) b =
     (case read_item he k b of
        None \<Rightarrow> None
      | Some (i, b') \<Rightarrow>
          (case read_items he ks b' of None \<Rightarrow> None | Some (is, b'') \<Rightarrow> Some (i # is, b'')))"

text \<open>The bytes of one item, by byte order of the buffer and of the host.\<close>

fun item_bytes :: "endian \<Rightarrow> byte_order \<Rightarrow> item \<Rightarrow> byte list" where
  "item_bytes he ord (I8 v) = [v]"
| "item_bytes he ord (I16 v) = (if ord = ORDER_NETWORK then be16 v else image16 he v)"
| "item_bytes he ord (I24 v) =
     (if ord = ORDER_NETWORK then drop 1 (be32 v)
      else if IsHostBigEndian he then drop 1 (image32 he v) else take 3 (image32 he v))"
| "item_bytes he ord (I32 v) = (if ord = ORDER_NETWORK then be32 v else image32 he v)"
| "item_bytes he ord (I64 v) = (if ord = ORDER_NETWORK then be64 v else image64 he v)"
| "item_bytes he ord (IStr v) = v"

lemma write_item_bytes:
  "ordered_ok ord b \<Longrightarrow> write_item he b i = WriteBytes b (item_bytes he ord i)"
  by (cases i)
    (auto simp: WriteUInt8_def WriteUInt16_def WriteUInt24_def WriteUInt32_def WriteUInt64_def
      WriteString_def ordered_order Let_def)

lemma be32_small: "unat v < 2 ^ 24 \<Longrightarrow> 0 # drop 1 (be32 v) = be32 v"
  by (simp add: be32_bytes drop_bit_small)

lemma image32_small:
  "unat v < 2 ^ 24 \<Longrightarrow>
     (if IsHostBigEndian he then 0 # drop 1 (image32 he v) else take 3 (image32 he v) @ [0])
       = image32 he v"
  using be32_small [of v]
  by (simp add: image32_def host_store_simps be32_bytes)

lemma read_item_bytes:
  assumes ok: "ordered_ok ord b" and c: "contents b = item_bytes he ord i @ rest" and "item_fits i"
  shows "\<exists>b'. read_item he (kind_of i) b = Some (i, b') \<and> ordered_ok ord b' \<and> contents b' = rest"
proof -
  obtain b' where b': "ReadBytes b (length (item_bytes he ord i)) = Some (item_bytes he ord i, b')"
    and r: "ordered_ok ord b'" "contents b' = rest"
    using bb.rd_prefix [OF ok c] by blast
  have "read_item he (kind_of i) b = Some (i, b')"
    using b' assms(3) ordered_order [OF ok] be32_small image32_small [of _ he]
    by (cases i)
      (auto simp: ReadUInt8_def ReadUInt16_def ReadUInt24_def ReadUInt32_def ReadUInt64_def
        NetworkToHost_value ReadString_def ReadBytes_def split: if_splits)
  with r show ?thesis by blast
qed


lemma read_items_bytes:
  assumes "ordered_ok ord b" and "contents b = concat (map (item_bytes he ord) items) @ rest"
    and "list_all item_fits items"
  shows "\<exists>b'. read_items he (map kind_of items) b = Some (items, b') \<and>
           ordered_ok ord b' \<and> contents b' = rest"
  using assms
proof (induction items arbitrary: b)
  case Nil
  then show ?case by simp
next
  case (Cons i items)
  obtain b' where b': "read_item he (kind_of i) b = Some (i, b')" "ordered_ok ord b'"
      "contents b' = concat (map (item_bytes he ord) items) @ rest"
    using read_item_bytes [of ord b he i "concat (map (item_bytes he ord) items) @ rest"] Cons.prems
    by auto
  then show ?case
    using Cons.IH [of b'] Cons.prems(3) by auto
qed

lemma write_items_bytes:
  "ordered_ok ord b \<Longrightarrow>
     foldl (write_item he) b items = foldl WriteBytes b (map (item_bytes he ord) items)"
  by (induction items arbitrary: b) (simp_all add: write_item_bytes bb.ok_wr)

text \<open>
  C24: whatever a buffer already holds, and for both byte orders and both kinds of host, a
  sequence of typed writes (which may resize the buffer any number of times) followed by
  the same sequence of typed reads, once the earlier contents are consumed, returns exactly
  the values written and leaves the buffer empty.
\<close>

theorem bytebuffer_roundtrip:
  assumes "buffer_ok b" and "list_all item_fits items"
  shows "\<exists>c d. Consume (foldl (write_item he) b items) (Length b) = Some c \<and>
           read_items he (map kind_of items) c = Some (items, d) \<and> buffer_ok d \<and> Length d = 0"
proof -
  let ?ord = "bb_order b" and ?w = "foldl (write_item he) b items"
  have ok: "ordered_ok ?ord b" using assms(1) by blast
  have w: "ordered_ok ?ord ?w"
    "contents ?w = contents b @ concat (map (item_bytes he ?ord) items)"
    using bb.wr_list [OF ok] by (simp_all add: write_items_bytes [OF ok])
  have c: "Consume ?w (Length b) = Some (advance ?w (Length b))"
    "ordered_ok ?ord (advance ?w (Length b))"
    "contents (advance ?w (Length b)) = concat (map (item_bytes he ?ord) items) @ []"
    using w assms(1) by (simp_all add: Consume_eq bb.ok_adv bb.dat_adv)
  obtain d where "read_items he (map kind_of items) (advance ?w (Length b)) = Some (items, d)"
    "ordered_ok ?ord d" "contents d = []"
    using read_items_bytes [OF c(2,3) assms(2)] by blast
  with c(1) show ?thesis
    by (auto simp: ordered_ok_def dest: length_contents)
qed

lemma bytebuffer_roundtrip_witness:
  "\<exists>c d. Consume (foldl (write_item LittleEndianHost) ByteBuffer_new
             [I24 0x123456, I64 7, IStr [1, 2, 3]]) (Length ByteBuffer_new) = Some c \<and>
          read_items LittleEndianHost (map kind_of [I24 0x123456, I64 7, IStr [1, 2, 3]]) c =
            Some ([I24 0x123456, I64 7, IStr [1, 2, 3]], d) \<and> buffer_ok d \<and> Length d = 0"
  by (rule bytebuffer_roundtrip) simp_all

text \<open>
  A remembered read position can be restored exactly until the buffer is resized or
  cleared: consuming bytes never invalidates it, restoring it gives back the earlier
  contents, and after \<open>Resize\<close> or \<open>Clear\<close> it is refused.
\<close>

theorem read_position_restores:
  "(\<forall>b'. Consume b n = Some b' \<longrightarrow> SetReadPosition b' (GetReadPosition b) = Some b) \<and>
   SetReadPosition (Resize b m) (GetReadPosition b) = None \<and>
   SetReadPosition (Clear b) (GetReadPosition b) = None"
  by (auto simp: Consume_def SetReadPosition_def GetReadPosition_def Resize_def Clear_def Let_def
      split: if_splits)

lemma read_position_restores_witness:
  "Consume (ByteBuffer_of [1, 2, 3]) 2 = Some (advance (ByteBuffer_of [1, 2, 3]) 2) \<and>
   SetReadPosition (advance (ByteBuffer_of [1, 2, 3]) 2) (GetReadPosition (ByteBuffer_of [1, 2, 3]))
     = Some (ByteBuffer_of [1, 2, 3])"
proof -
  have c: "Consume (ByteBuffer_of [1, 2, 3]) 2 = Some (advance (ByteBuffer_of [1, 2, 3]) 2)"
    by (simp add: Consume_eq [OF ordered_of])
  then show ?thesis
    using read_position_restores [of "ByteBuffer_of [1, 2, 3]" 2] by simp
qed

end
