(* ===== verification/IPAddress.thy ===== *)
theory IPAddress
  imports ByteOrder "HOL-Library.List_Lexorder" "HOL-Library.Char_ord"
begin

unbundle bit_operations_syntax

text \<open>
  \<open>talk/base/ipaddress.cc\<close> and \<open>talk/base/socketaddress.cc\<close>.  An \<open>IPAddress\<close> is a family
  and a union: an \<open>in_addr\<close> is kept as its host-order integer (its memory is \<open>be32\<close> of it),
  an \<open>in6_addr\<close> as its sixteen bytes.  \<open>inet_pton\<close>, which \<open>IPFromString\<close> calls, and
  \<open>inet_ntop\<close>, which \<open>ToString\<close> calls, are parameters: functions of the platform.
\<close>

datatype ip_address = AF_UNSPEC_ip | AF_INET_ip u32 | AF_INET6_ip "byte list"

datatype ip_family = AF_UNSPEC | AF_INET | AF_INET6

fun ip_wf :: "ip_address \<Rightarrow> bool" where
  "ip_wf (AF_INET6_ip b) = (length b = 16)"
| "ip_wf ip = True"

fun ip_fam :: "ip_address \<Rightarrow> ip_family" where
  "ip_fam AF_UNSPEC_ip = AF_UNSPEC"
| "ip_fam (AF_INET_ip a) = AF_INET"
| "ip_fam (AF_INET6_ip b) = AF_INET6"

definition INADDR_ANY :: u32 where "INADDR_ANY = 0"
definition INADDR_LOOPBACK :: u32 where "INADDR_LOOPBACK = 0x7F000001"
definition in6addr_any :: "byte list" where "in6addr_any = replicate 16 0"
definition in6addr_loopback :: "byte list" where "in6addr_loopback = replicate 15 0 @ [1]"

text \<open>A prefix constant: the listed bytes, the rest zero.\<close>

definition in6_prefix :: "byte list \<Rightarrow> byte list" where
  "in6_prefix bs = bs @ replicate (16 - length bs) 0"

definition kULAPrefix :: "byte list" where "kULAPrefix = in6_prefix [0xfc, 0]"
definition kV4MappedPrefix :: "byte list" where
  "kV4MappedPrefix = in6_prefix [0, 0, 0, 0, 0, 0, 0, 0, 0, 0, 0xFF, 0xFF, 0]"
definition k6To4Prefix :: "byte list" where "k6To4Prefix = in6_prefix [0x20, 0x02, 0]"
definition kTeredoPrefix :: "byte list" where "kTeredoPrefix = in6_prefix [0x20, 0x01, 0x00, 0x00]"
definition kV4CompatibilityPrefix :: "byte list" where "kV4CompatibilityPrefix = in6_prefix [0]"
definition k6BonePrefix :: "byte list" where "k6BonePrefix = in6_prefix [0x3f, 0xfe, 0]"

subsection \<open>IPAddress\<close>

fun v4AddressAsHostOrderInteger :: "ip_address \<Rightarrow> u32" where
  "v4AddressAsHostOrderInteger (AF_INET_ip a) = a"
| "v4AddressAsHostOrderInteger ip = 0"

fun ip_Size :: "ip_address \<Rightarrow> nat" where
  "ip_Size (AF_INET_ip a) = 4"
| "ip_Size (AF_INET6_ip b) = 16"
| "ip_Size AF_UNSPEC_ip = 0"

text \<open>The sixteen bytes of the union, whatever the family: constructors zero it first.\<close>

fun ipv6_address :: "ip_address \<Rightarrow> byte list" where
  "ipv6_address (AF_INET6_ip b) = b"
| "ipv6_address (AF_INET_ip a) = be32 a @ replicate 12 0"
| "ipv6_address AF_UNSPEC_ip = replicate 16 0"

fun ip_eq :: "ip_address \<Rightarrow> ip_address \<Rightarrow> bool" where
  "ip_eq (AF_INET_ip a) (AF_INET_ip b) = (be32 a = be32 b)"
| "ip_eq (AF_INET6_ip a) (AF_INET6_ip b) = (a = b)"
| "ip_eq AF_UNSPEC_ip AF_UNSPEC_ip = True"
| "ip_eq _ _ = False"

text \<open>\<open>memcmp\<close> as a sign: the first differing byte decides.\<close>

fun memcmp_less :: "byte list \<Rightarrow> byte list \<Rightarrow> bool" where
  "memcmp_less (x # xs) (y # ys) = (x < y \<or> (x = y \<and> memcmp_less xs ys))"
| "memcmp_less _ _ = False"

fun ip_less :: "ip_address \<Rightarrow> ip_address \<Rightarrow> bool" where
  "ip_less (AF_INET_ip a) (AF_INET_ip b) = (a < b)"
| "ip_less (AF_INET6_ip a) (AF_INET6_ip b) = memcmp_less a b"
| "ip_less AF_UNSPEC_ip AF_UNSPEC_ip = False"
| "ip_less AF_UNSPEC_ip _ = True"
| "ip_less (AF_INET_ip a) (AF_INET6_ip b) = True"
| "ip_less _ _ = False"

definition ip_greater :: "ip_address \<Rightarrow> ip_address \<Rightarrow> bool" where
  "ip_greater a b = (\<not> ip_eq a b \<and> \<not> ip_less a b)"

definition IPIsHelper :: "ip_address \<Rightarrow> byte list \<Rightarrow> nat \<Rightarrow> bool" where
  "IPIsHelper ip tomatch len = (take (len div 8) (ipv6_address ip) = take (len div 8) tomatch)"

definition IPIs6Bone :: "ip_address \<Rightarrow> bool" where
  "IPIs6Bone ip = IPIsHelper ip k6BonePrefix 16"

definition IPIs6To4 :: "ip_address \<Rightarrow> bool" where
  "IPIs6To4 ip = IPIsHelper ip k6To4Prefix 16"

definition IPIsSiteLocal :: "ip_address \<Rightarrow> bool" where
  "IPIsSiteLocal ip =
     (let addr = ipv6_address ip in addr ! 0 = 0xFE \<and> (addr ! 1 AND 0xC0) = 0xC0)"

definition IPIsULA :: "ip_address \<Rightarrow> bool" where
  "IPIsULA ip = ((ipv6_address ip ! 0 AND 0xFE) = 0xFC)"

definition IPIsTeredo :: "ip_address \<Rightarrow> bool" where
  "IPIsTeredo ip = IPIsHelper ip kTeredoPrefix 32"

definition IPIsV4Compatibility :: "ip_address \<Rightarrow> bool" where
  "IPIsV4Compatibility ip = IPIsHelper ip kV4CompatibilityPrefix 96"

definition IPIsV4Mapped :: "ip_address \<Rightarrow> bool" where
  "IPIsV4Mapped ip = IPIsHelper ip kV4MappedPrefix 96"

definition ExtractMappedAddress :: "byte list \<Rightarrow> u32" where
  "ExtractMappedAddress in6 = GetBE32 (take 4 (drop 12 in6))"

fun Normalized :: "ip_address \<Rightarrow> ip_address" where
  "Normalized (AF_INET6_ip b) =
     (if \<not> IPIsV4Mapped (AF_INET6_ip b) then AF_INET6_ip b
      else AF_INET_ip (ExtractMappedAddress b))"
| "Normalized ip = ip"

fun AsIPv6Address :: "ip_address \<Rightarrow> ip_address" where
  "AsIPv6Address (AF_INET_ip a) = AF_INET6_ip (take 12 kV4MappedPrefix @ be32 a)"
| "AsIPv6Address ip = ip"

definition IsPrivateV4 :: "u32 \<Rightarrow> bool" where
  "IsPrivateV4 ip =
     (drop_bit 24 ip = 127 \<or> drop_bit 24 ip = 10 \<or>
      drop_bit 20 ip = (push_bit 4 172 OR 1) \<or>
      drop_bit 16 ip = (push_bit 8 192 OR 168) \<or>
      drop_bit 16 ip = (push_bit 8 169 OR 254))"

definition IPIsAny :: "ip_address \<Rightarrow> bool" where
  "IPIsAny ip =
     (case ip of
        AF_INET_ip a \<Rightarrow> ip_eq ip (AF_INET_ip INADDR_ANY)
      | AF_INET6_ip b \<Rightarrow> ip_eq ip (AF_INET6_ip in6addr_any)
      | AF_UNSPEC_ip \<Rightarrow> False)"

definition IPIsLoopback :: "ip_address \<Rightarrow> bool" where
  "IPIsLoopback ip =
     (case ip of
        AF_INET_ip a \<Rightarrow> ip_eq ip (AF_INET_ip INADDR_LOOPBACK)
      | AF_INET6_ip b \<Rightarrow> ip_eq ip (AF_INET6_ip in6addr_loopback)
      | AF_UNSPEC_ip \<Rightarrow> False)"

definition IPIsPrivate :: "ip_address \<Rightarrow> bool" where
  "IPIsPrivate ip =
     (case ip of
        AF_INET_ip a \<Rightarrow> IsPrivateV4 (v4AddressAsHostOrderInteger ip)
      | AF_INET6_ip v6 \<Rightarrow> (v6 ! 0 = 0xFE \<and> v6 ! 1 = 0x80) \<or> IPIsLoopback ip
      | AF_UNSPEC_ip \<Rightarrow> False)"

definition IPIsUnspec :: "ip_address \<Rightarrow> bool" where
  "IPIsUnspec ip = (ip_fam ip = AF_UNSPEC)"

text \<open>The four 32-bit words of an \<open>in6_addr\<close>, in host order, and back.\<close>

definition v6_ints :: "byte list \<Rightarrow> u32 list" where
  "v6_ints b = map (\<lambda>i. GetBE32 (take 4 (drop (4 * i) b))) [0..<4]"

definition v6_of_ints :: "u32 list \<Rightarrow> byte list" where
  "v6_of_ints ws = concat (map be32 ws)"

text \<open>\<open>HashIP\<close> works on the words as the host sees them; \<open>size_t\<close> has 64 bits.\<close>

definition HashIP :: "endian \<Rightarrow> ip_address \<Rightarrow> u64" where
  "HashIP he ip =
     (case ip of
        AF_INET_ip a \<Rightarrow> ucast (HostToNetwork32 he a)
      | AF_INET6_ip b \<Rightarrow> ucast (foldl (XOR) 0 (map (HostToNetwork32 he) (v6_ints b)))
      | AF_UNSPEC_ip \<Rightarrow> 0)"

definition TruncateIP :: "ip_address \<Rightarrow> int \<Rightarrow> ip_address" where
  "TruncateIP ip len =
     (if len < 0 then AF_UNSPEC_ip
      else case ip of
        AF_INET_ip host_order_ip \<Rightarrow>
          (if len > 31 then ip
           else if len = 0 then AF_INET_ip INADDR_ANY
           else let mask = push_bit (nat (32 - len)) (0xFFFFFFFF :: u32)
                in AF_INET_ip (host_order_ip AND mask))
      | AF_INET6_ip v6addr \<Rightarrow>
          (if len > 127 then ip
           else if len = 0 then AF_INET6_ip in6addr_any
           else let position = nat (len div 32);
                    inner_length = nat (32 - (len - (int position * 32)));
                    inner_mask = ucast (push_bit inner_length (0xFFFFFFFF :: u64)) :: u32;
                    ints = v6_ints v6addr
                in AF_INET6_ip (v6_of_ints
                     (map (\<lambda>i. if i = position then ints ! i AND inner_mask
                               else if i > position then 0 else ints ! i) [0..<4])))
      | AF_UNSPEC_ip \<Rightarrow> AF_UNSPEC_ip)"

text \<open>The trailing-zero count of \<open>CountIPMaskBits\<close>, on a word with at least one bit set.\<close>

definition count_zeroes :: "u32 \<Rightarrow> nat" where
  "count_zeroes w =
     (let w = w AND (- w);
          z = (32 :: nat);
          z = (if w \<noteq> 0 then z - 1 else z);
          z = (if w AND 0x0000FFFF \<noteq> 0 then z - 16 else z);
          z = (if w AND 0x00FF00FF \<noteq> 0 then z - 8 else z);
          z = (if w AND 0x0F0F0F0F \<noteq> 0 then z - 4 else z);
          z = (if w AND 0x33333333 \<noteq> 0 then z - 2 else z)
      in if w AND 0x55555555 \<noteq> 0 then z - 1 else z)"

fun full_words :: "u32 list \<Rightarrow> nat" where
  "full_words [] = 0"
| "full_words (w # ws) = (if w \<noteq> 0xFFFFFFFF then 0 else Suc (full_words ws))"

definition CountIPMaskBits :: "ip_address \<Rightarrow> nat" where
  "CountIPMaskBits ip =
     (case ip of
        AF_UNSPEC_ip \<Rightarrow> 0
      | AF_INET_ip a \<Rightarrow> (if a = 0 then 0 else 32 - count_zeroes a)
      | AF_INET6_ip b \<Rightarrow>
          let i = full_words (v6_ints b);
              word_to_count = (if i < 4 then v6_ints b ! i else 0);
              bits = i * 32
          in if word_to_count = 0 then bits else bits + (32 - count_zeroes word_to_count))"

definition IPAddressPrecedence :: "ip_address \<Rightarrow> int" where
  "IPAddressPrecedence ip =
     (if ip_fam ip = AF_INET then 30
      else if ip_fam ip = AF_INET6 then
        (if IPIsLoopback ip then 60
         else if IPIsULA ip then 50
         else if IPIsV4Mapped ip then 30
         else if IPIs6To4 ip then 20
         else if IPIsTeredo ip then 10
         else if IPIsV4Compatibility ip \<or> IPIsSiteLocal ip \<or> IPIs6Bone ip then 1
         else 40)
      else 0)"

definition IPFromString ::
  "(string \<Rightarrow> u32 option) \<Rightarrow> (string \<Rightarrow> byte list option) \<Rightarrow> string \<Rightarrow> bool \<times> ip_address" where
  "IPFromString inet_pton4 inet_pton6 str =
     (case inet_pton4 str of
        Some addr \<Rightarrow> (True, AF_INET_ip addr)
      | None \<Rightarrow> (case inet_pton6 str of
                    Some addr6 \<Rightarrow> (True, AF_INET6_ip addr6)
                  | None \<Rightarrow> (False, AF_UNSPEC_ip)))"


subsection \<open>SocketAddress\<close>

record socket_address =
  sa_hostname :: string
  sa_ip :: ip_address
  sa_port :: u16
  sa_scope_id :: int
  sa_literal :: bool

definition sa_Clear :: socket_address where
  "sa_Clear = \<lparr>sa_hostname = [], sa_ip = AF_UNSPEC_ip, sa_port = 0, sa_scope_id = 0, sa_literal = False\<rparr>"

definition SetIP :: "socket_address \<Rightarrow> ip_address \<Rightarrow> socket_address" where
  "SetIP sa ip = sa\<lparr>sa_hostname := [], sa_literal := False, sa_ip := ip, sa_scope_id := 0\<rparr>"

definition SetIP_name ::
  "(string \<Rightarrow> u32 option) \<Rightarrow> (string \<Rightarrow> byte list option) \<Rightarrow> socket_address \<Rightarrow> string \<Rightarrow> socket_address"
where
  "SetIP_name pton4 pton6 sa hostname =
     (let (literal, ip) = IPFromString pton4 pton6 hostname;
          ip = (if \<not> literal then AF_UNSPEC_ip else ip)
      in sa\<lparr>sa_hostname := hostname, sa_literal := literal, sa_ip := ip, sa_scope_id := 0\<rparr>)"

definition SetResolvedIP :: "socket_address \<Rightarrow> ip_address \<Rightarrow> socket_address" where
  "SetResolvedIP sa ip = sa\<lparr>sa_ip := ip, sa_scope_id := 0\<rparr>"

text \<open>\<open>SetPort\<close> stores an \<open>int\<close> in a \<open>uint16\<close>; its range check is a debug assertion.\<close>

definition SetPort :: "socket_address \<Rightarrow> int \<Rightarrow> socket_address" where
  "SetPort sa port = sa\<lparr>sa_port := of_int port\<rparr>"

definition SocketAddress_ip :: "ip_address \<Rightarrow> int \<Rightarrow> socket_address" where
  "SocketAddress_ip ip port = SetPort (SetIP sa_Clear ip) port"

definition SocketAddress_name ::
  "(string \<Rightarrow> u32 option) \<Rightarrow> (string \<Rightarrow> byte list option) \<Rightarrow> string \<Rightarrow> int \<Rightarrow> socket_address" where
  "SocketAddress_name pton4 pton6 hostname port =
     SetPort (SetIP_name pton4 pton6 sa_Clear hostname) port"

definition IsNil :: "socket_address \<Rightarrow> bool" where
  "IsNil sa = (sa_hostname sa = [] \<and> IPIsUnspec (sa_ip sa) \<and> 0 = sa_port sa)"

definition IsComplete :: "socket_address \<Rightarrow> bool" where
  "IsComplete sa = (\<not> IPIsAny (sa_ip sa) \<and> 0 \<noteq> sa_port sa)"

definition IsLoopbackIP :: "socket_address \<Rightarrow> bool" where
  "IsLoopbackIP sa =
     (IPIsLoopback (sa_ip sa) \<or> (IPIsAny (sa_ip sa) \<and> sa_hostname sa = ''localhost''))"

definition IsUnresolvedIP :: "socket_address \<Rightarrow> bool" where
  "IsUnresolvedIP sa = (IPIsUnspec (sa_ip sa) \<and> \<not> sa_literal sa \<and> sa_hostname sa \<noteq> [])"

definition EqualIPs :: "socket_address \<Rightarrow> socket_address \<Rightarrow> bool" where
  "EqualIPs sa addr =
     (ip_eq (sa_ip sa) (sa_ip addr) \<and>
      (\<not> IPIsAny (sa_ip sa) \<or> sa_hostname sa = sa_hostname addr))"

definition EqualPorts :: "socket_address \<Rightarrow> socket_address \<Rightarrow> bool" where
  "EqualPorts sa addr = (sa_port sa = sa_port addr)"

definition sa_eq :: "socket_address \<Rightarrow> socket_address \<Rightarrow> bool" where
  "sa_eq sa addr = (EqualIPs sa addr \<and> EqualPorts sa addr)"

definition sa_less :: "socket_address \<Rightarrow> socket_address \<Rightarrow> bool" where
  "sa_less sa addr =
     (if ip_less (sa_ip sa) (sa_ip addr) then True
      else if ip_less (sa_ip addr) (sa_ip sa) then False
      else if IPIsAny (sa_ip addr) \<and> sa_hostname sa < sa_hostname addr then True
      else if IPIsAny (sa_ip addr) \<and> sa_hostname addr < sa_hostname sa then False
      else sa_port sa < sa_port addr)"

text \<open>The port is promoted to \<open>int\<close>, so the sign of the result is extended when it meets the \<open>size_t\<close>.\<close>

definition sa_Hash :: "endian \<Rightarrow> socket_address \<Rightarrow> u64" where
  "sa_Hash he sa =
     (let h = 0;
          h = h XOR HashIP he (sa_ip sa)
      in h XOR scast ((ucast (sa_port sa) OR push_bit 16 (ucast (sa_port sa))) :: u32))"

subsection \<open>Socket structures\<close>

text \<open>
  A \<open>sockaddr_storage\<close> after the helper filled it: family, port as stored (network order, so
  its value depends on the host), address, and scope for IPv6.
\<close>

datatype sockaddr_storage = SS_UNSPEC | SS_IN u16 u32 | SS_IN6 u16 "byte list" int

definition ToSockAddrStorageHelper ::
  "endian \<Rightarrow> ip_address \<Rightarrow> u16 \<Rightarrow> int \<Rightarrow> sockaddr_storage" where
  "ToSockAddrStorageHelper he ip port scope_id =
     (case ip of
        AF_INET6_ip b \<Rightarrow> SS_IN6 (HostToNetwork16 he port) b scope_id
      | AF_INET_ip a \<Rightarrow> SS_IN (HostToNetwork16 he port) a
      | AF_UNSPEC_ip \<Rightarrow> SS_UNSPEC)"

definition ToSockAddrStorage :: "endian \<Rightarrow> socket_address \<Rightarrow> sockaddr_storage" where
  "ToSockAddrStorage he sa = ToSockAddrStorageHelper he (sa_ip sa) (sa_port sa) (sa_scope_id sa)"

definition ToDualStackSockAddrStorage :: "endian \<Rightarrow> socket_address \<Rightarrow> sockaddr_storage" where
  "ToDualStackSockAddrStorage he sa =
     ToSockAddrStorageHelper he (AsIPv6Address (sa_ip sa)) (sa_port sa) (sa_scope_id sa)"

definition SocketAddressFromSockAddrStorage :: "endian \<Rightarrow> sockaddr_storage \<Rightarrow> socket_address option" where
  "SocketAddressFromSockAddrStorage he addr =
     (case addr of
        SS_IN port a \<Rightarrow> Some (SocketAddress_ip (AF_INET_ip a) (uint (NetworkToHost16 he port)))
      | SS_IN6 port b scope \<Rightarrow>
          Some ((SocketAddress_ip (AF_INET6_ip b) (uint (NetworkToHost16 he port)))\<lparr>sa_scope_id := scope\<rparr>)
      | SS_UNSPEC \<Rightarrow> None)"

definition EmptySocketAddressWithFamily :: "ip_family \<Rightarrow> socket_address" where
  "EmptySocketAddressWithFamily family =
     (case family of
        AF_INET \<Rightarrow> SocketAddress_ip (AF_INET_ip INADDR_ANY) 0
      | AF_INET6 \<Rightarrow> SocketAddress_ip (AF_INET6_ip in6addr_any) 0
      | AF_UNSPEC \<Rightarrow> sa_Clear)"

subsection \<open>Parsing host:port\<close>

text \<open>
  \<open>strtoul\<close> in base 10 on a 64-bit \<open>unsigned long\<close>: leading white space, an optional sign,
  digits; it saturates, and a minus sign negates modulo \<open>2^64\<close>.
\<close>

definition is_digit :: "char \<Rightarrow> bool" where
  "is_digit c = (CHR ''0'' \<le> c \<and> c \<le> CHR ''9'')"

definition is_space :: "char \<Rightarrow> bool" where
  "is_space c = (c = CHR '' '' \<or> (9 \<le> (of_char c :: nat) \<and> (of_char c :: nat) \<le> 13))"

definition digits_value :: "string \<Rightarrow> nat" where
  "digits_value ds = foldl (\<lambda>n c. 10 * n + (of_char c - 48)) 0 ds"

definition strtoul10 :: "string \<Rightarrow> nat" where
  "strtoul10 str =
     (let s = dropWhile is_space str;
          neg = (s \<noteq> [] \<and> hd s = CHR ''-'');
          s = (if s \<noteq> [] \<and> (hd s = CHR ''-'' \<or> hd s = CHR ''+'') then tl s else s);
          n = digits_value (takeWhile is_digit s)
      in if n \<ge> 2 ^ 64 then 2 ^ 64 - 1
         else if neg then (2 ^ 64 - n) mod 2 ^ 64 else n)"

text \<open>\<open>string::find\<close> from a position and \<open>string::rfind\<close>; \<open>None\<close> is \<open>npos\<close>.\<close>

fun find_from :: "char \<Rightarrow> nat \<Rightarrow> string \<Rightarrow> nat \<Rightarrow> nat option" where
  "find_from c i [] pos = None"
| "find_from c i (x # xs) pos = (if x = c \<and> i \<ge> pos then Some i else find_from c (Suc i) xs pos)"

definition rfind :: "char \<Rightarrow> string \<Rightarrow> nat option" where
  "rfind c str =
     (case find_from c 0 (rev str) 0 of None \<Rightarrow> None | Some i \<Rightarrow> Some (length str - 1 - i))"

datatype std_exception = Out_of_range

definition sa_FromString ::
  "(string \<Rightarrow> u32 option) \<Rightarrow> (string \<Rightarrow> byte list option) \<Rightarrow> socket_address \<Rightarrow> string \<Rightarrow>
     std_exception + bool \<times> socket_address" where
  "sa_FromString pton4 pton6 sa str =
     (if str = [] then Inl Out_of_range
      else if hd str = CHR ''['' then
        (case rfind (CHR '']'') str of
           None \<Rightarrow> Inr (True, sa)
         | Some closebracket \<Rightarrow>
             (case find_from (CHR '':'') 0 str closebracket of
                None \<Rightarrow> Inr (False, sa)
              | Some colon \<Rightarrow>
                  if colon > closebracket then
                    let sa = SetPort sa (int (strtoul10 (drop (colon + 1) str)))
                    in Inr (True, SetIP_name pton4 pton6 sa (take (closebracket - 1) (drop 1 str)))
                  else Inr (False, sa)))
      else
        (case find_from (CHR '':'') 0 str 0 of
           None \<Rightarrow> Inr (False, sa)
         | Some pos \<Rightarrow>
             let sa = SetPort sa (int (strtoul10 (drop (pos + 1) str)))
             in Inr (True, SetIP_name pton4 pton6 sa (take pos str))))"

subsection \<open>Orders\<close>

lemma be32_inject: "(be32 a = be32 b) = (a = b)"
  using GetBE_be_Nil(2) by metis

lemma ip_eq_iff [simp]: "ip_eq a b = (a = b)"
  by (cases a; cases b) (simp_all add: be32_inject)

lemma memcmp_irrefl: "\<not> memcmp_less a a"
  by (induction a) auto

lemma memcmp_trans: "memcmp_less a b \<Longrightarrow> memcmp_less b c \<Longrightarrow> memcmp_less a c"
  by (induction a b arbitrary: c rule: memcmp_less.induct) (case_tac c; fastforce)+

lemma memcmp_total: "length a = length b \<Longrightarrow> memcmp_less a b \<or> a = b \<or> memcmp_less b a"
  by (induction a b rule: list_induct2) auto

lemma ip_less_irrefl: "\<not> ip_less a a"
  by (cases a) (simp_all add: memcmp_irrefl)

lemma ip_less_trans: "ip_less a b \<Longrightarrow> ip_less b c \<Longrightarrow> ip_less a c"
  by (cases a; cases b; cases c) (auto dest: memcmp_trans)

lemma ip_less_total: "ip_wf a \<Longrightarrow> ip_wf b \<Longrightarrow> ip_less a b \<or> a = b \<or> ip_less b a"
  using memcmp_total by (cases a; cases b) auto


text \<open>
  What an ordered container asks of its key comparison: a strict weak order whose
  incomparable keys are exactly the equal ones.
\<close>

locale key_order =
  fixes wf :: "'k \<Rightarrow> bool" and less :: "'k \<Rightarrow> 'k \<Rightarrow> bool" and eqv :: "'k \<Rightarrow> 'k \<Rightarrow> bool"
  assumes irrefl: "\<not> less a a"
    and trans: "wf a \<Longrightarrow> wf b \<Longrightarrow> wf c \<Longrightarrow> less a b \<Longrightarrow> less b c \<Longrightarrow> less a c"
    and total: "wf a \<Longrightarrow> wf b \<Longrightarrow> less a b \<or> eqv a b \<or> less b a"
    and exclusive: "less a b \<Longrightarrow> \<not> eqv a b"
    and sym: "eqv a b \<Longrightarrow> eqv b a"
begin

lemma asym: "wf a \<Longrightarrow> wf b \<Longrightarrow> less a b \<Longrightarrow> \<not> less b a"
  using irrefl trans by blast

lemma equivalence:
  assumes "wf a" and "wf b"
  shows "(\<not> less a b \<and> \<not> less b a) = eqv a b"
  using total [OF assms] exclusive [of a b] exclusive [of b a] sym [of a b] by blast

end

interpretation ip_keys: key_order ip_wf ip_less ip_eq
  by unfold_locales (auto simp: ip_less_irrefl dest: ip_less_trans ip_less_total)

definition sa_wf :: "socket_address \<Rightarrow> bool" where
  "sa_wf sa = ip_wf (sa_ip sa)"

lemma sa_less_lex:
  assumes "sa_wf a" and "sa_wf b"
  shows "sa_less a b =
    (ip_less (sa_ip a) (sa_ip b) \<or>
     sa_ip a = sa_ip b \<and>
       (IPIsAny (sa_ip b) \<and> sa_hostname a < sa_hostname b \<or>
        (IPIsAny (sa_ip b) \<longrightarrow> sa_hostname a = sa_hostname b) \<and> sa_port a < sa_port b))"
  using assms ip_less_total [of "sa_ip a" "sa_ip b"] ip_less_irrefl [of "sa_ip b"]
    ip_less_trans [of "sa_ip b" "sa_ip a" "sa_ip b"]
  by (auto simp: sa_less_def sa_wf_def)

lemma sa_less_trans:
  assumes "sa_wf a" and "sa_wf b" and "sa_wf c" and "sa_less a b" and "sa_less b c"
  shows "sa_less a c"
  using assms(4,5) ip_less_trans [of "sa_ip a" "sa_ip b" "sa_ip c"]
  by (auto simp: sa_less_lex [OF assms(1,2)] sa_less_lex [OF assms(2,3)] sa_less_lex [OF assms(1,3)])

interpretation sa_keys: key_order sa_wf sa_less sa_eq
proof
  show "\<not> sa_less a a" for a
    by (simp add: sa_less_def ip_less_irrefl)
  show "sa_wf a \<Longrightarrow> sa_wf b \<Longrightarrow> sa_wf c \<Longrightarrow> sa_less a b \<Longrightarrow> sa_less b c \<Longrightarrow> sa_less a c" for a b c
    by (rule sa_less_trans)
  show "sa_wf a \<Longrightarrow> sa_wf b \<Longrightarrow> sa_less a b \<or> sa_eq a b \<or> sa_less b a" for a b
    using ip_less_total [of "sa_ip a" "sa_ip b"]
    by (auto simp: sa_less_lex sa_eq_def EqualIPs_def EqualPorts_def sa_wf_def)
  show "sa_less a b \<Longrightarrow> \<not> sa_eq a b" for a b
    by (auto simp: sa_less_def sa_eq_def EqualIPs_def EqualPorts_def ip_less_irrefl split: if_splits)
  show "sa_eq a b \<Longrightarrow> sa_eq b a" for a b
    by (auto simp: sa_eq_def EqualIPs_def EqualPorts_def)
qed

text \<open>
  C32: socket addresses can be the keys of an ordered container: \<open>operator<\<close> is irreflexive
  and transitive, and two addresses neither of which is less than the other are exactly the
  ones \<open>operator==\<close> calls equal, which also have equal hashes.
\<close>

theorem socket_address_key_order:
  assumes "sa_wf a" and "sa_wf b" and "sa_wf c"
  shows "\<not> sa_less a a \<and> (sa_less a b \<and> sa_less b c \<longrightarrow> sa_less a c) \<and>
    (\<not> sa_less a b \<and> \<not> sa_less b a) = sa_eq a b \<and> (sa_eq a b \<longrightarrow> sa_Hash he a = sa_Hash he b)"
  using sa_keys.irrefl sa_keys.trans [OF assms] sa_keys.equivalence [OF assms(1,2)]
  by (auto simp: sa_eq_def EqualIPs_def EqualPorts_def sa_Hash_def)

lemma socket_address_key_order_witness:
  "sa_eq (SocketAddress_ip (AF_INET_ip 0) 80) (SocketAddress_ip (AF_INET_ip 0) 80) \<and>
   (\<not> sa_less (SocketAddress_ip (AF_INET_ip 0) 80) (SocketAddress_ip (AF_INET_ip 0) 80))"
  using socket_address_key_order [of "SocketAddress_ip (AF_INET_ip 0) 80"
      "SocketAddress_ip (AF_INET_ip 0) 80" "SocketAddress_ip AF_UNSPEC_ip 80"]
  by (simp add: SocketAddress_ip_def SetIP_def SetPort_def sa_Clear_def sa_wf_def
      sa_eq_def EqualIPs_def EqualPorts_def)

subsection \<open>Prefixes\<close>

definition word_bits :: "u32 \<Rightarrow> bool list" where
  "word_bits w = map (\<lambda>i. bit w (31 - i)) [0..<32]"

fun ip_bits :: "ip_address \<Rightarrow> bool list" where
  "ip_bits (AF_INET_ip a) = word_bits a"
| "ip_bits (AF_INET6_ip b) = concat (map word_bits (v6_ints b))"
| "ip_bits AF_UNSPEC_ip = []"

lemma length_word_bits [simp]: "length (word_bits w) = 32"
  by (simp add: word_bits_def)

lemma word_bits_mask:
  assumes "n \<le> 32" and "\<And>i. i < 32 \<Longrightarrow> bit m i = (32 - n \<le> i)"
  shows "word_bits (w AND m) = take n (word_bits w) @ replicate (32 - n) False"
  by (rule nth_equalityI) (use assms in \<open>auto simp: word_bits_def bit_and_iff nth_append\<close>)

lemma word_bits_0: "word_bits 0 = replicate 32 False"
  by (rule nth_equalityI) (auto simp: word_bits_def)

lemma ones32: "(0xFFFFFFFF :: u32) = mask 32" and ones64: "(0xFFFFFFFF :: u64) = mask 32"
  by (simp_all add: mask_numeral)

lemma bit_v4_mask: "n \<le> 32 \<Longrightarrow> i < 32 \<Longrightarrow> bit (push_bit (32 - n) (0xFFFFFFFF :: u32)) i = (32 - n \<le> i)"
  unfolding ones32 by (auto simp: bit_simps)

lemma bit_v6_mask:
  "n \<le> 32 \<Longrightarrow> i < 32 \<Longrightarrow>
     bit (ucast (push_bit (32 - n) (0xFFFFFFFF :: u64)) :: u32) i = (32 - n \<le> i)"
  unfolding ones64 by (auto simp: bit_simps)

lemma v6_ints_of_ints: "v6_ints (v6_of_ints (map f [0..<4])) = map f [0..<4]"
  by (simp add: v6_ints_def v6_of_ints_def upt_rec)

lemma v6_intsE:
  obtains w0 w1 w2 w3 where "v6_ints b = [w0, w1, w2, w3]"
  by (simp add: v6_ints_def upt_rec)


lemma concat_bits_mask:
  assumes "p < 4" and "r < 32" and "\<And>i. i < 32 \<Longrightarrow> bit m i = (32 - r \<le> i)"
  shows "concat (map word_bits (map (\<lambda>i. if i = p then [w0, w1, w2, w3] ! i AND m
             else if i > p then 0 else [w0, w1, w2, w3] ! i) [0..<4])) =
         take (32 * p + r) (concat (map word_bits [w0, w1, w2, w3])) @ replicate (128 - (32 * p + r)) False"
proof -
  have m: "word_bits (w AND m) = take r (word_bits w) @ replicate (32 - r) False" for w
    using assms by (intro word_bits_mask) auto
  have "p = 0 \<or> p = 1 \<or> p = 2 \<or> p = 3" using assms(1) by linarith
  then show ?thesis
    using assms(2)
    by (elim disjE) (simp_all add: upt_rec m word_bits_0 flip: replicate_add)
qed

lemma TruncateIP_v6:
  assumes "0 < n" and "n \<le> 127"
  shows "ip_bits (TruncateIP (AF_INET6_ip b) n) =
           take (nat n) (ip_bits (AF_INET6_ip b)) @ replicate (128 - nat n) False"
proof -
  obtain w0 w1 w2 w3 where w: "v6_ints b = [w0, w1, w2, w3]" by (rule v6_intsE)
  define p r where "p = nat (n div 32)" and "r = nat (n mod 32)"
  have n: "nat n = 32 * p + r" "p < 4" "r < 32"
    using assms by (simp_all add: p_def r_def nat_mod_distrib nat_div_distrib)
  have inner: "nat (32 - (n - int p * 32)) = 32 - r"
    using assms by (simp add: p_def r_def minus_div_mult_eq_mod nat_diff_distrib)
  have "ip_bits (TruncateIP (AF_INET6_ip b) n) =
      concat (map word_bits (map (\<lambda>i. if i = p then [w0, w1, w2, w3] ! i
          AND (ucast (push_bit (32 - r) (0xFFFFFFFF :: u64)) :: u32)
             else if i > p then 0 else [w0, w1, w2, w3] ! i) [0..<4]))"
    using assms
    by (simp only: TruncateIP_def Let_def v6_ints_of_ints w ip_bits.simps ip_address.case if_False
        if_not_P not_less less_imp_le order_less_imp_not_eq2 inner flip: p_def)
  also have "\<dots> = take (32 * p + r) (concat (map word_bits [w0, w1, w2, w3])) @
      replicate (128 - (32 * p + r)) False"
    using n(2,3) by (intro concat_bits_mask bit_v6_mask) auto
  finally show ?thesis using n w by simp
qed

text \<open>
  Truncating an address to \<open>n\<close> bits keeps exactly its first \<open>n\<close> bits and clears all the
  others, for both families and every prefix length.
\<close>

theorem TruncateIP_prefix:
  assumes "ip_wf ip" and "0 \<le> n" and "n \<le> int (length (ip_bits ip))" and "ip_fam ip \<noteq> AF_UNSPEC"
  shows "ip_bits (TruncateIP ip n) =
           take (nat n) (ip_bits ip) @ replicate (length (ip_bits ip) - nat n) False"
proof (cases ip)
  case (AF_INET_ip a)
  show ?thesis
  proof (cases "0 < n \<and> n \<le> 31")
    case True
    then have "nat (32 - n) = 32 - nat n" "nat n \<le> 32" by auto
    with True AF_INET_ip show ?thesis
      using word_bits_mask [of "nat n" "push_bit (32 - nat n) 0xFFFFFFFF" a] bit_v4_mask [of "nat n"]
      by (simp add: TruncateIP_def Let_def)
  next
    case False
    with AF_INET_ip assms show ?thesis
      by (auto simp: TruncateIP_def INADDR_ANY_def word_bits_0)
  qed
next
  case (AF_INET6_ip b)
  obtain w0 w1 w2 w3 where w: "v6_ints b = [w0, w1, w2, w3]" by (rule v6_intsE)
  have any: "v6_ints in6addr_any = [0, 0, 0, 0]"
    by (simp add: v6_ints_def in6addr_any_def upt_rec GetBE32_def Get8_def)
  show ?thesis
  proof (cases "0 < n \<and> n \<le> 127")
    case True
    then show ?thesis using AF_INET6_ip w TruncateIP_v6 [of n b] by simp
  next
    case False
    with AF_INET6_ip assms w any show ?thesis
      by (auto simp: TruncateIP_def word_bits_0 simp flip: replicate_add)
  qed
qed (use assms in simp)


lemma TruncateIP_prefix_witness:
  "ip_bits (TruncateIP (AF_INET_ip 0xC0A80101) 24) =
     take 24 (ip_bits (AF_INET_ip 0xC0A80101)) @ replicate (length (ip_bits (AF_INET_ip 0xC0A80101)) - 24) False \<and>
   TruncateIP (AF_INET_ip 0xC0A80101) 24 = AF_INET_ip 0xC0A80100"
  using TruncateIP_prefix [of "AF_INET_ip 0xC0A80101" 24] by (simp add: TruncateIP_def)

subsection \<open>Netmasks\<close>

definition netmask_word :: "nat \<Rightarrow> u32" where
  "netmask_word n = push_bit (32 - n) 0xFFFFFFFF"

lemma count_zeroes_netmask:
  assumes "1 \<le> n" and "n \<le> 32"
  shows "netmask_word n \<noteq> 0 \<and> 32 - count_zeroes (netmask_word n) = n"
proof -
  have "n \<in> set [1..<33]" using assms by auto
  then show ?thesis
    by (simp add: upt_rec) (elim disjE; simp add: netmask_word_def count_zeroes_def)
qed


lemma all_ones_and: "(0xFFFFFFFF :: u32) AND w = w"
  unfolding ones32 by (rule bit_word_eqI) (auto simp: bit_simps)

lemma inner_mask_netmask: "r \<le> 32 \<Longrightarrow> ucast (push_bit (32 - r) (0xFFFFFFFF :: u64)) = netmask_word r"
  by (rule bit_word_eqI) (simp add: netmask_word_def bit_v4_mask bit_v6_mask)

lemma netmask_word_inj:
  assumes "r < 32"
  shows "netmask_word r \<noteq> 0xFFFFFFFF"
proof
  assume "netmask_word r = 0xFFFFFFFF"
  then have "bit (netmask_word r) 0 = bit (0xFFFFFFFF :: u32) 0" by simp
  then show False
    using assms bit_v4_mask [of r 0] by (simp add: netmask_word_def)
qed

lemma v6_ints_all_ones: "v6_ints (replicate 16 0xFF) = replicate 4 0xFFFFFFFF"
proof -
  have "GetBE32 (replicate 4 0xFF) = 0xFFFFFFFF" by (simp add: GetBE32_def Get8_def)
  then have "i < 4 \<Longrightarrow> GetBE32 (take 4 (drop (4 * i) (replicate 16 0xFF))) = 0xFFFFFFFF" for i
    using min_absorb1 [of 4 "16 - 4 * i"] by simp
  then show ?thesis
    by (intro nth_equalityI) (simp_all add: v6_ints_def)
qed

lemma full_words_all: "full_words (replicate n 0xFFFFFFFF) = n"
  by (induction n) auto

lemma netmask_word_0: "netmask_word 0 = 0"
  unfolding netmask_word_def ones32 by (rule bit_word_eqI) (auto simp: bit_simps)

lemma full_words_prefix: "w \<noteq> 0xFFFFFFFF \<Longrightarrow> full_words (replicate p 0xFFFFFFFF @ w # ws) = p"
  by (induction p) auto

lemma CountIPMaskBits_v6:
  assumes "p < 4" and "r < 32" and "v6_ints b = replicate p 0xFFFFFFFF @ netmask_word r # replicate (3 - p) 0"
  shows "CountIPMaskBits (AF_INET6_ip b) = 32 * p + r"
proof (cases "r = 0")
  case True
  show ?thesis
    using assms True full_words_prefix [OF netmask_word_inj [of 0]]
    by (simp add: CountIPMaskBits_def nth_append netmask_word_0)
next
  case False
  with assms(2) have "netmask_word r \<noteq> 0" "32 - count_zeroes (netmask_word r) = r"
    using count_zeroes_netmask [of r] by auto
  then show ?thesis
    using assms full_words_prefix [OF netmask_word_inj [OF assms(2)]]
    by (simp add: CountIPMaskBits_def nth_append Let_def)
qed

lemma TruncateIP_ones_v6:
  assumes "0 < n" and "n \<le> 127"
  shows "\<exists>b. TruncateIP (AF_INET6_ip (replicate 16 0xFF)) n = AF_INET6_ip b \<and>
    v6_ints b = replicate (nat (n div 32)) 0xFFFFFFFF @ netmask_word (nat (n mod 32))
       # replicate (3 - nat (n div 32)) 0"
proof -
  define p r where "p = nat (n div 32)" and "r = nat (n mod 32)"
  have n: "p < 4" "r < 32" using assms by (simp_all add: p_def r_def)
  have inner: "nat (32 - (n - int p * 32)) = 32 - r"
    using assms by (simp add: p_def r_def minus_div_mult_eq_mod nat_diff_distrib)
  let ?f = "\<lambda>i. if i = p then replicate 4 0xFFFFFFFF ! i AND netmask_word r
             else if i > p then 0 else replicate 4 0xFFFFFFFF ! i"
  have "TruncateIP (AF_INET6_ip (replicate 16 0xFF)) n = AF_INET6_ip (v6_of_ints (map ?f [0..<4]))"
    using assms n
    by (simp only: TruncateIP_def Let_def v6_ints_all_ones ip_address.case if_False if_not_P not_less
        less_imp_le order_less_imp_not_eq2 inner inner_mask_netmask flip: p_def)
  moreover have "map ?f [0..<4] = replicate p 0xFFFFFFFF @ netmask_word r # replicate (3 - p) 0"
  proof -
    have "p = 0 \<or> p = 1 \<or> p = 2 \<or> p = 3" using n(1) by linarith
    then show ?thesis by (elim disjE) (simp_all add: upt_rec all_ones_and numeral_3_eq_3 numeral_2_eq_2)
  qed
  ultimately show ?thesis using v6_ints_of_ints [of ?f] by (simp flip: p_def r_def)
qed

text \<open>
  Counting the leading ones of a netmask is exact: for every prefix length \<open>n\<close> of either
  family, the netmask made by truncating the all-ones address to \<open>n\<close> bits has \<open>n\<close> mask bits.
\<close>

theorem CountIPMaskBits_of_netmask:
  "(0 \<le> n \<and> n \<le> 32 \<longrightarrow> int (CountIPMaskBits (TruncateIP (AF_INET_ip 0xFFFFFFFF) n)) = n) \<and>
   (0 \<le> n \<and> n \<le> 128 \<longrightarrow>
      int (CountIPMaskBits (TruncateIP (AF_INET6_ip (replicate 16 0xFF)) n)) = n)"
proof (intro conjI impI; elim conjE)
  assume n: "0 \<le> n" "n \<le> 32"
  show "int (CountIPMaskBits (TruncateIP (AF_INET_ip 0xFFFFFFFF) n)) = n"
  proof (cases "n = 0")
    case False
    have m: "nat (32 - n) = 32 - nat n" "netmask_word 32 = 0xFFFFFFFF"
      using n by (auto simp: netmask_word_def)
    have "TruncateIP (AF_INET_ip 0xFFFFFFFF) n = AF_INET_ip (netmask_word (nat n))"
    proof (cases "n = 32")
      case True
      then show ?thesis by (simp add: TruncateIP_def m(2))
    next
      case neq: False
      then show ?thesis
        using n False m(1) by (simp add: TruncateIP_def all_ones_and netmask_word_def Let_def)
    qed
    then show ?thesis
      using False n count_zeroes_netmask [of "nat n"] by (simp add: CountIPMaskBits_def)
  qed (simp add: TruncateIP_def CountIPMaskBits_def INADDR_ANY_def)
next
  assume n: "0 \<le> n" "n \<le> 128"
  show "int (CountIPMaskBits (TruncateIP (AF_INET6_ip (replicate 16 0xFF)) n)) = n"
  proof (cases "0 < n \<and> n \<le> 127")
    case True
    then have "nat (n div 32) < 4" "nat (n mod 32) < 32" by auto
    then show ?thesis
      using TruncateIP_ones_v6 [of n] True CountIPMaskBits_v6 [of "nat (n div 32)" "nat (n mod 32)"]
      by auto
  next
    case False
    then have "n = 0 \<or> n = 128" using n by auto
    moreover have "v6_ints in6addr_any = [0, 0, 0, 0]"
      by (simp add: v6_ints_def in6addr_any_def upt_rec GetBE32_def Get8_def)
    ultimately show ?thesis
      by (auto simp: TruncateIP_def CountIPMaskBits_def v6_ints_all_ones full_words_all)
  qed
qed

lemma CountIPMaskBits_of_netmask_witness:
  "int (CountIPMaskBits (TruncateIP (AF_INET_ip 0xFFFFFFFF) 20)) = 20 \<and>
   int (CountIPMaskBits (TruncateIP (AF_INET6_ip (replicate 16 0xFF)) 64)) = 64"
  using CountIPMaskBits_of_netmask [of 20] CountIPMaskBits_of_netmask [of 64] by simp

subsection \<open>Unresolved host names\<close>

text \<open>
  Two addresses built from host names that are not literal IPs compare equal whenever
  their ports agree, whatever the names: \<open>EqualIPs\<close> looks at the host names only for an
  any-address, and an unresolved address has no family.
\<close>

theorem unresolved_hosts_compare_equal:
  assumes "pton4 h1 = None" and "pton6 h1 = None" and "pton4 h2 = None" and "pton6 h2 = None"
  shows "sa_eq (SocketAddress_name pton4 pton6 h1 port) (SocketAddress_name pton4 pton6 h2 port) \<and>
         \<not> sa_less (SocketAddress_name pton4 pton6 h1 port) (SocketAddress_name pton4 pton6 h2 port)"
  using assms
  by (simp add: SocketAddress_name_def SetIP_name_def SetPort_def IPFromString_def sa_eq_def
      EqualIPs_def EqualPorts_def sa_less_def IPIsAny_def)

lemma unresolved_hosts_compare_equal_witness:
  "sa_eq (SocketAddress_name (\<lambda>_. None) (\<lambda>_. None) ''stun1.example.com'' 3478)
         (SocketAddress_name (\<lambda>_. None) (\<lambda>_. None) ''stun2.example.com'' 3478) \<and>
   \<not> sa_less (SocketAddress_name (\<lambda>_. None) (\<lambda>_. None) ''stun1.example.com'' 3478)
         (SocketAddress_name (\<lambda>_. None) (\<lambda>_. None) ''stun2.example.com'' 3478)"
  by (rule unresolved_hosts_compare_equal) simp_all

subsection \<open>Socket structures and mapped addresses\<close>

lemma Normalized_AsIPv6: "ip_fam ip = AF_INET \<Longrightarrow> Normalized (AsIPv6Address ip) = ip"
  by (cases ip)
    (auto simp: IPIsV4Mapped_def IPIsHelper_def ExtractMappedAddress_def kV4MappedPrefix_def in6_prefix_def)

text \<open>
  C33: an address that went to the kernel as a socket structure comes back the same: the
  plain form restores IP, port and IPv6 scope, and the dual-stack form, which maps IPv4
  addresses into IPv6, restores the IPv4 address once it is normalized.  An IPv4-mapped IPv6 address
  is no exception to the plain form: it goes out as \<open>AF_INET6\<close> and comes back as it was, although
  \<open>socketaddress.h\<close> says that it is output as an \<open>AF_INET\<close> address.
\<close>

theorem sockaddr_roundtrip:
  assumes "ip_fam (sa_ip sa) \<noteq> AF_UNSPEC"
  shows "(\<exists>sa'. SocketAddressFromSockAddrStorage he (ToSockAddrStorage he sa) = Some sa' \<and>
           sa_ip sa' = sa_ip sa \<and> sa_port sa' = sa_port sa \<and>
           (ip_fam (sa_ip sa) = AF_INET6 \<longrightarrow> sa_scope_id sa' = sa_scope_id sa)) \<and>
    (\<exists>sa'. SocketAddressFromSockAddrStorage he (ToDualStackSockAddrStorage he sa) = Some sa' \<and>
           ip_fam (sa_ip sa') = AF_INET6 \<and> sa_port sa' = sa_port sa \<and>
           (ip_fam (sa_ip sa) = AF_INET \<longrightarrow> Normalized (sa_ip sa') = sa_ip sa))"
  using assms Normalized_AsIPv6 [of "sa_ip sa"]
  by (cases "sa_ip sa";
      simp add: ToSockAddrStorage_def ToDualStackSockAddrStorage_def ToSockAddrStorageHelper_def
        SocketAddressFromSockAddrStorage_def SocketAddress_ip_def SetIP_def SetPort_def
        NetworkToHost16_def)+

lemma sockaddr_roundtrip_witness:
  "\<exists>sa'. SocketAddressFromSockAddrStorage LittleEndianHost
       (ToDualStackSockAddrStorage LittleEndianHost (SocketAddress_ip (AF_INET_ip 0x7F000001) 5000)) = Some sa' \<and>
     ip_fam (sa_ip sa') = AF_INET6 \<and>
     Normalized (sa_ip sa') = AF_INET_ip 0x7F000001"
  using sockaddr_roundtrip [of "SocketAddress_ip (AF_INET_ip 0x7F000001) 5000" LittleEndianHost]
  by (auto simp: SocketAddress_ip_def SetIP_def SetPort_def)

end
