(* ===== verification/StunAttr.thy ===== *)
theory StunAttr
  imports ByteBuffer IPAddress "HOL-Library.Monad_Syntax"
begin

unbundle bit_operations_syntax

text \<open>
  The attribute classes of \<open>talk/p2p/base/stun.h\<close> and \<open>stun.cc\<close>.  The subclasses of
  \<open>StunAttribute\<close> are the constructors of \<open>attr_body\<close>.  \<open>owner_\<close> of an XOR address is a pointer to
  the message that holds the attribute or null, and only its transaction id is read: the model
  keeps whether it is set and passes the transaction id of the message.
\<close>

datatype stun_value_type =
  STUN_VALUE_UNKNOWN | STUN_VALUE_ADDRESS | STUN_VALUE_XOR_ADDRESS | STUN_VALUE_UINT32
| STUN_VALUE_UINT64 | STUN_VALUE_BYTE_STRING | STUN_VALUE_ERROR_CODE | STUN_VALUE_UINT16_LIST

datatype stun_address_family = STUN_ADDRESS_UNDEF | STUN_ADDRESS_IPV4 | STUN_ADDRESS_IPV6

fun family_code :: "stun_address_family \<Rightarrow> byte" where
  "family_code STUN_ADDRESS_UNDEF = 0"
| "family_code STUN_ADDRESS_IPV4 = 1"
| "family_code STUN_ADDRESS_IPV6 = 2"

datatype attr_body =
  AddressAttr socket_address
| XorAddressAttr socket_address bool
| UInt32Attr u32
| UInt64Attr u64
| ByteStringAttr "byte list"
| ErrorCodeAttr byte byte "byte list"
| UInt16ListAttr "u16 list"

record stun_attribute =
  at_type :: u16
  at_length :: u16
  at_body :: attr_body

definition kStunMagicCookie :: u32 where "kStunMagicCookie = 0x2112A442"
definition kStunTransactionIdLength :: nat where "kStunTransactionIdLength = 12"
definition kStunLegacyTransactionIdLength :: nat where "kStunLegacyTransactionIdLength = 16"

fun value_type :: "attr_body \<Rightarrow> stun_value_type" where
  "value_type (AddressAttr sa) = STUN_VALUE_ADDRESS"
| "value_type (XorAddressAttr sa ow) = STUN_VALUE_XOR_ADDRESS"
| "value_type (UInt32Attr v) = STUN_VALUE_UINT32"
| "value_type (UInt64Attr v) = STUN_VALUE_UINT64"
| "value_type (ByteStringAttr bs) = STUN_VALUE_BYTE_STRING"
| "value_type (ErrorCodeAttr c n r) = STUN_VALUE_ERROR_CODE"
| "value_type (UInt16ListAttr ts) = STUN_VALUE_UINT16_LIST"

subsection \<open>Construction\<close>

text \<open>\<open>SetOwner\<close> does something for XOR addresses only.\<close>

fun SetOwner :: "attr_body \<Rightarrow> attr_body" where
  "SetOwner (XorAddressAttr sa ow) = XorAddressAttr sa True"
| "SetOwner body = body"

definition StunAttribute_Create :: "stun_value_type \<Rightarrow> u16 \<Rightarrow> u16 \<Rightarrow> stun_attribute option" where
  "StunAttribute_Create vt type len =
     (case vt of
        STUN_VALUE_ADDRESS \<Rightarrow> Some \<lparr>at_type = type, at_length = len, at_body = AddressAttr sa_Clear\<rparr>
      | STUN_VALUE_XOR_ADDRESS \<Rightarrow> Some \<lparr>at_type = type, at_length = len, at_body = XorAddressAttr sa_Clear True\<rparr>
      | STUN_VALUE_UINT32 \<Rightarrow> Some \<lparr>at_type = type, at_length = 4, at_body = UInt32Attr 0\<rparr>
      | STUN_VALUE_UINT64 \<Rightarrow> Some \<lparr>at_type = type, at_length = 8, at_body = UInt64Attr 0\<rparr>
      | STUN_VALUE_BYTE_STRING \<Rightarrow> Some \<lparr>at_type = type, at_length = len, at_body = ByteStringAttr []\<rparr>
      | STUN_VALUE_ERROR_CODE \<Rightarrow> Some \<lparr>at_type = type, at_length = len, at_body = ErrorCodeAttr 0 0 []\<rparr>
      | STUN_VALUE_UINT16_LIST \<Rightarrow> Some \<lparr>at_type = type, at_length = len, at_body = UInt16ListAttr []\<rparr>
      | STUN_VALUE_UNKNOWN \<Rightarrow> None)"

definition attr_family :: "socket_address \<Rightarrow> stun_address_family" where
  "attr_family sa =
     (case ip_fam (sa_ip sa) of
        AF_INET \<Rightarrow> STUN_ADDRESS_IPV4 | AF_INET6 \<Rightarrow> STUN_ADDRESS_IPV6 | AF_UNSPEC \<Rightarrow> STUN_ADDRESS_UNDEF)"

definition EnsureAddressLength :: "socket_address \<Rightarrow> u16" where
  "EnsureAddressLength sa =
     (case attr_family sa of STUN_ADDRESS_IPV4 \<Rightarrow> 8 | STUN_ADDRESS_IPV6 \<Rightarrow> 20 | STUN_ADDRESS_UNDEF \<Rightarrow> 0)"

text \<open>\<open>SetAddress\<close> of both address classes.\<close>

definition SetAddress :: "stun_attribute \<Rightarrow> socket_address \<Rightarrow> stun_attribute" where
  "SetAddress a sa =
     a\<lparr>at_length := EnsureAddressLength sa,
       at_body := (case at_body a of XorAddressAttr _ ow \<Rightarrow> XorAddressAttr sa ow | _ \<Rightarrow> AddressAttr sa)\<rparr>"

definition StunAddressAttribute :: "u16 \<Rightarrow> socket_address \<Rightarrow> stun_attribute" where
  "StunAddressAttribute type sa = SetAddress \<lparr>at_type = type, at_length = 0, at_body = AddressAttr sa_Clear\<rparr> sa"

definition StunXorAddressAttribute :: "u16 \<Rightarrow> socket_address \<Rightarrow> stun_attribute" where
  "StunXorAddressAttribute type sa =
     SetAddress \<lparr>at_type = type, at_length = 0, at_body = XorAddressAttr sa_Clear False\<rparr> sa"

definition StunUInt32Attribute :: "u16 \<Rightarrow> u32 \<Rightarrow> stun_attribute" where
  "StunUInt32Attribute type v = \<lparr>at_type = type, at_length = 4, at_body = UInt32Attr v\<rparr>"

definition StunUInt64Attribute :: "u16 \<Rightarrow> u64 \<Rightarrow> stun_attribute" where
  "StunUInt64Attribute type v = \<lparr>at_type = type, at_length = 8, at_body = UInt64Attr v\<rparr>"

text \<open>\<open>CopyBytes\<close> stores a copy and \<open>SetLength\<close> cuts the length to 16 bits.\<close>

definition CopyBytes :: "stun_attribute \<Rightarrow> byte list \<Rightarrow> stun_attribute" where
  "CopyBytes a bytes = a\<lparr>at_length := of_nat (length bytes), at_body := ByteStringAttr bytes\<rparr>"

definition StunByteStringAttribute :: "u16 \<Rightarrow> byte list \<Rightarrow> stun_attribute" where
  "StunByteStringAttribute type bytes =
     CopyBytes \<lparr>at_type = type, at_length = 0, at_body = ByteStringAttr []\<rparr> bytes"

definition SetCode :: "attr_body \<Rightarrow> int \<Rightarrow> attr_body" where
  "SetCode body code =
     (case body of
        ErrorCodeAttr c n r \<Rightarrow> ErrorCodeAttr (of_int (sgn code * (\<bar>code\<bar> div 100))) (of_int (sgn code * (\<bar>code\<bar> mod 100))) r
      | _ \<Rightarrow> body)"

definition error_code :: "attr_body \<Rightarrow> int" where
  "error_code body = (case body of ErrorCodeAttr c n r \<Rightarrow> uint c * 100 + uint n | _ \<Rightarrow> 0)"

definition SetReason :: "stun_attribute \<Rightarrow> byte list \<Rightarrow> stun_attribute" where
  "SetReason a reason =
     a\<lparr>at_length := 4 + of_nat (length reason),
       at_body := (case at_body a of ErrorCodeAttr c n r \<Rightarrow> ErrorCodeAttr c n reason | b \<Rightarrow> b)\<rparr>"

definition StunErrorCodeAttribute :: "u16 \<Rightarrow> int \<Rightarrow> byte list \<Rightarrow> stun_attribute" where
  "StunErrorCodeAttribute type code reason =
     SetReason \<lparr>at_type = type, at_length = 0, at_body = SetCode (ErrorCodeAttr 0 0 []) code\<rparr> reason"

definition AddType :: "stun_attribute \<Rightarrow> u16 \<Rightarrow> stun_attribute" where
  "AddType a v =
     (case at_body a of
        UInt16ListAttr ts \<Rightarrow> a\<lparr>at_body := UInt16ListAttr (ts @ [v]), at_length := of_nat ((length ts + 1) * 2)\<rparr>
      | _ \<Rightarrow> a)"

text \<open>\<open>GetBit\<close> and \<open>SetBit\<close> of a 32-bit attribute, for an index below 32.\<close>

definition GetBit :: "u32 \<Rightarrow> nat \<Rightarrow> bool" where
  "GetBit bits index = (drop_bit index bits AND 1 \<noteq> 0)"

definition SetBit :: "u32 \<Rightarrow> nat \<Rightarrow> bool \<Rightarrow> u32" where
  "SetBit bits index v =
     (bits AND NOT (push_bit index 1)) OR (if v then push_bit index 1 else 0)"

subsection \<open>Reading and writing\<close>

definition ConsumePadding :: "u16 \<Rightarrow> byte_buffer \<Rightarrow> byte_buffer" where
  "ConsumePadding len buf =
     (let remainder = unat len mod 4 in
      if remainder > 0
      then (case Consume buf (4 - remainder) of Some buf' \<Rightarrow> buf' | None \<Rightarrow> buf)
      else buf)"

definition WritePadding :: "u16 \<Rightarrow> byte_buffer \<Rightarrow> byte_buffer" where
  "WritePadding len buf =
     (let remainder = unat len mod 4 in
      if remainder > 0 then WriteBytes buf (replicate (4 - remainder) 0) else buf)"

text \<open>
  \<open>StunAddressAttribute::Read\<close>: the address read, or \<open>None\<close> for \<open>false\<close>.  The four bytes of an
  \<open>in_addr\<close> are the big-endian image of the address.
\<close>

definition ReadAddress :: "endian \<Rightarrow> u16 \<Rightarrow> byte_buffer \<Rightarrow> (socket_address \<times> byte_buffer) option" where
  "ReadAddress he len buf = do {
     (dummy, buf) \<leftarrow> ReadUInt8 buf;
     (stun_family, buf) \<leftarrow> ReadUInt8 buf;
     (port, buf) \<leftarrow> ReadUInt16 he buf;
     if stun_family = 1 then
       if len \<noteq> 8 then None
       else do {
         (v4addr, buf) \<leftarrow> ReadBytes buf 4;
         Some (SocketAddress_ip (AF_INET_ip (GetBE32 v4addr)) (uint port), buf)
       }
     else if stun_family = 2 then
       if len \<noteq> 20 then None
       else do {
         (v6addr, buf) \<leftarrow> ReadBytes buf 16;
         Some (SocketAddress_ip (AF_INET6_ip v6addr) (uint port), buf)
       }
     else None
   }"

text \<open>The bytes of an address in the buffer, shared by both \<open>Write\<close> functions.\<close>

definition WriteIPBytes :: "byte_buffer \<Rightarrow> ip_address \<Rightarrow> byte_buffer" where
  "WriteIPBytes buf ip =
     (case ip of AF_INET_ip a \<Rightarrow> WriteBytes buf (be32 a) | AF_INET6_ip b \<Rightarrow> WriteBytes buf b | AF_UNSPEC_ip \<Rightarrow> buf)"

definition WriteAddress :: "endian \<Rightarrow> socket_address \<Rightarrow> byte_buffer \<Rightarrow> byte_buffer option" where
  "WriteAddress he sa buf =
     (if attr_family sa = STUN_ADDRESS_UNDEF then None
      else
        let buf = WriteUInt8 buf 0;
            buf = WriteUInt8 buf (family_code (attr_family sa));
            buf = WriteUInt16 he buf (sa_port sa)
        in Some (WriteIPBytes buf (sa_ip sa)))"

text \<open>
  The XOR of two 32-bit objects in memory, on the integers the host sees there.
\<close>

definition xor_mem :: "endian \<Rightarrow> byte list \<Rightarrow> u32 \<Rightarrow> byte list" where
  "xor_mem he m v = image32 he (value32 he m XOR v)"

definition GetXoredIP :: "endian \<Rightarrow> byte list \<Rightarrow> bool \<Rightarrow> ip_address \<Rightarrow> ip_address" where
  "GetXoredIP he transaction_id owner ip =
     (if owner then
        (case ip of
           AF_INET_ip a \<Rightarrow> AF_INET_ip (GetBE32 (xor_mem he (be32 a) (HostToNetwork32 he kStunMagicCookie)))
         | AF_INET6_ip b \<Rightarrow>
             if length transaction_id = kStunTransactionIdLength then
               AF_INET6_ip
                 (xor_mem he (take 4 b) (HostToNetwork32 he kStunMagicCookie) @
                  xor_mem he (take 4 (drop 4 b)) (value32 he (take 4 transaction_id)) @
                  xor_mem he (take 4 (drop 8 b)) (value32 he (take 4 (drop 4 transaction_id))) @
                  xor_mem he (take 4 (drop 12 b)) (value32 he (take 4 (drop 8 transaction_id))))
             else AF_UNSPEC_ip
         | AF_UNSPEC_ip \<Rightarrow> AF_UNSPEC_ip)
      else AF_UNSPEC_ip)"

definition xor_port :: "u16 \<Rightarrow> u16" where
  "xor_port p = p XOR ucast (drop_bit 16 kStunMagicCookie)"

definition WriteXorAddress :: "endian \<Rightarrow> byte list \<Rightarrow> bool \<Rightarrow> socket_address \<Rightarrow> byte_buffer \<Rightarrow> byte_buffer option" where
  "WriteXorAddress he transaction_id owner sa buf =
     (if attr_family sa = STUN_ADDRESS_UNDEF then None
      else
        let xored_ip = GetXoredIP he transaction_id owner (sa_ip sa) in
        if ip_fam xored_ip = AF_UNSPEC then None
        else
          let buf = WriteUInt8 buf 0;
              buf = WriteUInt8 buf (family_code (attr_family sa));
              buf = WriteUInt16 he buf (xor_port (sa_port sa))
          in Some (WriteIPBytes buf xored_ip))"

fun ReadTypes :: "endian \<Rightarrow> nat \<Rightarrow> u16 list \<Rightarrow> byte_buffer \<Rightarrow> (u16 list \<times> byte_buffer) option" where
  "ReadTypes he 0 ts buf = Some (ts, buf)"
| "ReadTypes he (Suc n) ts buf = do {
     (t, buf) \<leftarrow> ReadUInt16 he buf;
     ReadTypes he n (ts @ [t]) buf
   }"

text \<open>
  \<open>Read\<close> and \<open>Write\<close> of the subclasses.  A \<open>Read\<close> runs on an attribute created with the type and
  length of the wire.
\<close>

definition Address_Read :: "endian \<Rightarrow> stun_attribute \<Rightarrow> byte_buffer \<Rightarrow> (stun_attribute \<times> byte_buffer) option" where
  "Address_Read he a buf = do {
     (sa, buf) \<leftarrow> ReadAddress he (at_length a) buf;
     Some (SetAddress a sa, buf)
   }"

definition XorAddress_Read ::
  "endian \<Rightarrow> byte list \<Rightarrow> bool \<Rightarrow> stun_attribute \<Rightarrow> byte_buffer \<Rightarrow> (stun_attribute \<times> byte_buffer) option" where
  "XorAddress_Read he transaction_id owner a buf = do {
     (sa, buf) \<leftarrow> ReadAddress he (at_length a) buf;
     Some (SetAddress a (SocketAddress_ip (GetXoredIP he transaction_id owner (sa_ip sa))
       (uint (xor_port (sa_port sa)))), buf)
   }"

definition UInt32_Read :: "endian \<Rightarrow> stun_attribute \<Rightarrow> byte_buffer \<Rightarrow> (stun_attribute \<times> byte_buffer) option" where
  "UInt32_Read he a buf =
     (if at_length a \<noteq> 4 then None
      else do {
        (v, buf) \<leftarrow> ReadUInt32 he buf;
        Some (a\<lparr>at_body := UInt32Attr v\<rparr>, buf)
      })"

definition UInt32_Write :: "endian \<Rightarrow> u32 \<Rightarrow> byte_buffer \<Rightarrow> byte_buffer option" where
  "UInt32_Write he v buf = Some (WriteUInt32 he buf v)"

definition UInt64_Read :: "endian \<Rightarrow> stun_attribute \<Rightarrow> byte_buffer \<Rightarrow> (stun_attribute \<times> byte_buffer) option" where
  "UInt64_Read he a buf =
     (if at_length a \<noteq> 8 then None
      else do {
        (v, buf) \<leftarrow> ReadUInt64 he buf;
        Some (a\<lparr>at_body := UInt64Attr v\<rparr>, buf)
      })"

definition UInt64_Write :: "endian \<Rightarrow> u64 \<Rightarrow> byte_buffer \<Rightarrow> byte_buffer option" where
  "UInt64_Write he v buf = Some (WriteUInt64 he buf v)"

definition ByteString_Read :: "stun_attribute \<Rightarrow> byte_buffer \<Rightarrow> (stun_attribute \<times> byte_buffer) option" where
  "ByteString_Read a buf = do {
     (bytes, buf) \<leftarrow> ReadBytes buf (unat (at_length a));
     Some (a\<lparr>at_body := ByteStringAttr bytes\<rparr>, ConsumePadding (at_length a) buf)
   }"

definition ByteString_Write :: "u16 \<Rightarrow> byte list \<Rightarrow> byte_buffer \<Rightarrow> byte_buffer option" where
  "ByteString_Write len bytes buf = Some (WritePadding len (WriteBytes buf (take (unat len) bytes)))"

definition ErrorCode_Read ::
  "endian \<Rightarrow> byte list \<Rightarrow> stun_attribute \<Rightarrow> byte_buffer \<Rightarrow> (stun_attribute \<times> byte_buffer) option" where
  "ErrorCode_Read he reason a buf =
     (if at_length a < 4 then None
      else do {
        (val, buf) \<leftarrow> ReadUInt32 he buf;
        (reason, buf) \<leftarrow> ReadString buf reason (unat (at_length a) - 4);
        Some (a\<lparr>at_body := ErrorCodeAttr (ucast (drop_bit 8 val AND 0x7)) (ucast (val AND 0xff)) reason\<rparr>,
          ConsumePadding (at_length a) buf)
      })"

definition ErrorCode_Write :: "endian \<Rightarrow> u16 \<Rightarrow> byte \<Rightarrow> byte \<Rightarrow> byte list \<Rightarrow> byte_buffer \<Rightarrow> byte_buffer option" where
  "ErrorCode_Write he len c n reason buf =
     Some (WritePadding len (WriteString (WriteUInt32 he buf (push_bit 8 (ucast c) OR ucast n)) reason))"

definition UInt16List_Read ::
  "endian \<Rightarrow> u16 list \<Rightarrow> stun_attribute \<Rightarrow> byte_buffer \<Rightarrow> (stun_attribute \<times> byte_buffer) option" where
  "UInt16List_Read he ts a buf =
     (if unat (at_length a) mod 2 \<noteq> 0 then None
      else do {
        (ts, buf) \<leftarrow> ReadTypes he (unat (at_length a) div 2) ts buf;
        Some (a\<lparr>at_body := UInt16ListAttr ts\<rparr>, ConsumePadding (at_length a) buf)
      })"

definition UInt16List_Write :: "endian \<Rightarrow> u16 \<Rightarrow> u16 list \<Rightarrow> byte_buffer \<Rightarrow> byte_buffer option" where
  "UInt16List_Write he len ts buf = Some (WritePadding len (foldl (WriteUInt16 he) buf ts))"

text \<open>The virtual calls.\<close>

definition attr_Read :: "endian \<Rightarrow> byte list \<Rightarrow> stun_attribute \<Rightarrow> byte_buffer \<Rightarrow> (stun_attribute \<times> byte_buffer) option" where
  "attr_Read he transaction_id a buf =
     (case at_body a of
        AddressAttr _ \<Rightarrow> Address_Read he a buf
      | XorAddressAttr _ owner \<Rightarrow> XorAddress_Read he transaction_id owner a buf
      | UInt32Attr _ \<Rightarrow> UInt32_Read he a buf
      | UInt64Attr _ \<Rightarrow> UInt64_Read he a buf
      | ByteStringAttr _ \<Rightarrow> ByteString_Read a buf
      | ErrorCodeAttr c n r \<Rightarrow> ErrorCode_Read he r a buf
      | UInt16ListAttr ts \<Rightarrow> UInt16List_Read he ts a buf)"

definition attr_Write :: "endian \<Rightarrow> byte list \<Rightarrow> stun_attribute \<Rightarrow> byte_buffer \<Rightarrow> byte_buffer option" where
  "attr_Write he transaction_id a buf =
     (case at_body a of
        AddressAttr sa \<Rightarrow> WriteAddress he sa buf
      | XorAddressAttr sa owner \<Rightarrow> WriteXorAddress he transaction_id owner sa buf
      | UInt32Attr v \<Rightarrow> UInt32_Write he v buf
      | UInt64Attr v \<Rightarrow> UInt64_Write he v buf
      | ByteStringAttr bytes \<Rightarrow> ByteString_Write (at_length a) bytes buf
      | ErrorCodeAttr c n r \<Rightarrow> ErrorCode_Write he (at_length a) c n r buf
      | UInt16ListAttr ts \<Rightarrow> UInt16List_Write he (at_length a) ts buf)"

lemmas attr_Read_defs = attr_Read_def Address_Read_def XorAddress_Read_def UInt32_Read_def UInt64_Read_def
  ByteString_Read_def ErrorCode_Read_def UInt16List_Read_def

lemmas attr_Write_defs = attr_Write_def UInt32_Write_def UInt64_Write_def ByteString_Write_def
  ErrorCode_Write_def UInt16List_Write_def


subsection \<open>XOR on addresses\<close>

abbreviation xor_bytes :: "byte list \<Rightarrow> byte list \<Rightarrow> byte list" where
  "xor_bytes xs ys \<equiv> map2 (XOR) xs ys"

lemma xor_bytes_cancel: "length xs = length ys \<Longrightarrow> xor_bytes (xor_bytes xs ys) ys = xs"
  by (induction xs ys rule: list_induct2) (simp_all add: xor.assoc)

lemma Get32_xor:
  "GetBE32 (xor_bytes [a, b, c, d] [a', b', c', d']) = GetBE32 [a, b, c, d] XOR GetBE32 [a', b', c', d']"
  "GetLE32 (xor_bytes [a, b, c, d] [a', b', c', d']) = GetLE32 [a, b, c, d] XOR GetLE32 [a', b', c', d']"
proof -
  have high: "\<not> bit x k" if "8 \<le> k" for x :: byte and k
    using that bit_imp_le_length [of x k] by auto
  show "GetBE32 (xor_bytes [a, b, c, d] [a', b', c', d']) = GetBE32 [a, b, c, d] XOR GetBE32 [a', b', c', d']"
    apply (rule bit_word_eqI)
    subgoal for n
      by (cases "n < 8"; cases "n < 16"; cases "n < 24") (auto simp: GetBE32_def Get8_def bit_simps high)
    done
  show "GetLE32 (xor_bytes [a, b, c, d] [a', b', c', d']) = GetLE32 [a, b, c, d] XOR GetLE32 [a', b', c', d']"
    apply (rule bit_word_eqI)
    subgoal for n
      by (cases "n < 8"; cases "n < 16"; cases "n < 24") (auto simp: GetLE32_def Get8_def bit_simps high)
    done
qed

lemma value32_xor:
  assumes "length x = 4" and "length y = 4"
  shows "value32 he (xor_bytes x y) = value32 he x XOR value32 he y"
proof -
  obtain a b c d where x: "x = [a, b, c, d]"
    using assms(1) by (auto simp: length_Suc_conv eval_nat_numeral)
  obtain a' b' c' d' where y: "y = [a', b', c', d']"
    using assms(2) by (auto simp: length_Suc_conv eval_nat_numeral)
  show ?thesis unfolding x y value32_def Get32_xor by simp
qed

lemma xor_mem_bytes:
  assumes "length x = 4" and "length y = 4"
  shows "xor_mem he x (value32 he y) = xor_bytes x y"
  using assms by (simp add: xor_mem_def value32_xor [symmetric] image32_value32)

lemma HostToNetwork32_value: "HostToNetwork32 he k = value32 he (be32 k)"
  by (simp add: HostToNetwork32_def SetBE32_be)

lemma xor_be32: "xor_bytes (be32 a) (be32 k) = be32 (a XOR k)"
  by (simp add: be32_bytes) (auto intro!: bit_word_eqI simp: bit_simps)

lemma GetXoredIP_v4 [simp]: "GetXoredIP he tid True (AF_INET_ip a) = AF_INET_ip (a XOR kStunMagicCookie)"
  by (simp add: GetXoredIP_def HostToNetwork32_value xor_mem_bytes xor_be32)

lemma xor_bytes_split4:
  assumes "length x = 16" and "length y = 16"
  shows "xor_bytes x y =
    xor_bytes (take 4 x) (take 4 y) @ xor_bytes (take 4 (drop 4 x)) (take 4 (drop 4 y)) @
    xor_bytes (take 4 (drop 8 x)) (take 4 (drop 8 y)) @ xor_bytes (take 4 (drop 12 x)) (take 4 (drop 12 y))"
proof -
  have split: "z = take 4 z @ take 4 (drop 4 z) @ take 4 (drop 8 z) @ take 4 (drop 12 z)" if "length z = 16" for z :: "byte list"
    using that append_take_drop_id [of 4 z] append_take_drop_id [of 4 "drop 4 z"] append_take_drop_id [of 4 "drop 8 z"]
    by simp
  show ?thesis
    by (subst split [OF assms(1)], subst split [OF assms(2)]) (simp add: assms)
qed

lemma GetXoredIP_v6 [simp]:
  assumes "length b = 16" and "length tid = 12"
  shows "GetXoredIP he tid True (AF_INET6_ip b) = AF_INET6_ip (xor_bytes b (be32 kStunMagicCookie @ tid))"
  using assms by (simp add: GetXoredIP_def kStunTransactionIdLength_def HostToNetwork32_value xor_mem_bytes xor_bytes_split4)

text \<open>
  The XOR of an address with the magic cookie and the transaction id is undone by a second one,
  on hosts of either byte order: IPv4 addresses with every transaction id, IPv6 addresses with the
  twelve-byte id of RFC 5389.
\<close>

theorem xored_ip_involution:
  assumes "length b = 16" and "length tid = 12"
  shows "GetXoredIP he tid True (GetXoredIP he' tid True (AF_INET6_ip b)) = AF_INET6_ip b \<and>
    GetXoredIP he tid' True (GetXoredIP he' tid' True (AF_INET_ip a)) = AF_INET_ip a"
  using assms by (simp add: xor_bytes_cancel xor.assoc)

theorem xored_ip_involution_witness:
  "GetXoredIP LittleEndianHost (replicate 12 0x37) True (GetXoredIP BigEndianHost (replicate 12 0x37) True
     (AF_INET6_ip (replicate 16 0xFE))) = AF_INET6_ip (replicate 16 0xFE) \<and>
   GetXoredIP LittleEndianHost [] True (GetXoredIP BigEndianHost [] True (AF_INET_ip 0x7F000001)) = AF_INET_ip 0x7F000001"
  using xored_ip_involution [of "replicate 16 0xFE" "replicate 12 0x37" LittleEndianHost BigEndianHost "[]" "0x7F000001"] by simp

subsection \<open>The wire format of an attribute\<close>

text \<open>
  \<open>attr_bytes\<close> is the body of RFC 5389, section 15, padded to a multiple of four; \<open>attr_wf\<close> says that
  the stored length is that of the body and that the body can be encoded.
\<close>

definition pad4 :: "nat \<Rightarrow> byte list" where
  "pad4 n = replicate ((4 - n mod 4) mod 4) 0"

fun xor_ip :: "byte list \<Rightarrow> ip_address \<Rightarrow> ip_address" where
  "xor_ip tid (AF_INET_ip a) = AF_INET_ip (a XOR kStunMagicCookie)"
| "xor_ip tid (AF_INET6_ip b) = AF_INET6_ip (xor_bytes b (be32 kStunMagicCookie @ tid))"
| "xor_ip tid AF_UNSPEC_ip = AF_UNSPEC_ip"

fun ip_bytes :: "ip_address \<Rightarrow> byte list" where
  "ip_bytes (AF_INET_ip a) = be32 a"
| "ip_bytes (AF_INET6_ip b) = b"
| "ip_bytes AF_UNSPEC_ip = []"

definition address_bytes :: "ip_address \<Rightarrow> u16 \<Rightarrow> byte list" where
  "address_bytes ip port = [0, (case ip of AF_INET_ip _ \<Rightarrow> 1 | _ \<Rightarrow> 2)] @ be16 port @ ip_bytes ip"

definition attr_bytes :: "byte list \<Rightarrow> stun_attribute \<Rightarrow> byte list" where
  "attr_bytes tid a =
     (case at_body a of
        AddressAttr sa \<Rightarrow> address_bytes (sa_ip sa) (sa_port sa)
      | XorAddressAttr sa ow \<Rightarrow> address_bytes (xor_ip tid (sa_ip sa)) (xor_port (sa_port sa))
      | UInt32Attr v \<Rightarrow> be32 v
      | UInt64Attr v \<Rightarrow> be64 v
      | ByteStringAttr bs \<Rightarrow> bs @ pad4 (length bs)
      | ErrorCodeAttr c n r \<Rightarrow> be32 (push_bit 8 (ucast c) OR ucast n) @ r @ pad4 (length r)
      | UInt16ListAttr ts \<Rightarrow> concat (map be16 ts) @ pad4 (2 * length ts))"

definition addr_wf :: "socket_address \<Rightarrow> u16 \<Rightarrow> bool" where
  "addr_wf sa len \<longleftrightarrow>
     sa = SocketAddress_ip (sa_ip sa) (uint (sa_port sa)) \<and> ip_wf (sa_ip sa) \<and>
     sa_ip sa \<noteq> AF_UNSPEC_ip \<and> len = EnsureAddressLength sa"

definition attr_wf :: "byte list \<Rightarrow> stun_attribute \<Rightarrow> bool" where
  "attr_wf tid a \<longleftrightarrow>
     (case at_body a of
        AddressAttr sa \<Rightarrow> addr_wf sa (at_length a)
      | XorAddressAttr sa ow \<Rightarrow>
          addr_wf sa (at_length a) \<and> ow \<and> (ip_fam (sa_ip sa) = AF_INET6 \<longrightarrow> length tid = 12)
      | UInt32Attr v \<Rightarrow> at_length a = 4
      | UInt64Attr v \<Rightarrow> at_length a = 8
      | ByteStringAttr bs \<Rightarrow> unat (at_length a) = length bs
      | ErrorCodeAttr c n r \<Rightarrow> unat (at_length a) = 4 + length r \<and> c < 8
      | UInt16ListAttr ts \<Rightarrow> unat (at_length a) = 2 * length ts)"

lemma length_pad4: "length (pad4 n) = (4 - n mod 4) mod 4"
  by (simp add: pad4_def)

lemma pad4_cases: "pad4 n = (if n mod 4 > 0 then replicate (4 - n mod 4) 0 else [])"
  by (auto simp: pad4_def)

lemma pad4_shift: "pad4 (4 + n) = pad4 n"
  by (simp add: pad4_def)

abbreviation net :: "byte_buffer \<Rightarrow> bool" where
  "net \<equiv> ordered_ok ORDER_NETWORK"

lemmas net_simps = bb.rd_eq [of ORDER_NETWORK] bb.ok_adv [of ORDER_NETWORK] bb.dat_adv [of ORDER_NETWORK]
  bb.ok_wr [of ORDER_NETWORK] bb.dat_wr [of ORDER_NETWORK] ReadString_eq [of ORDER_NETWORK]
  Consume_eq [of ORDER_NETWORK] ReadUInt8_eq [of ORDER_NETWORK] ReadUInt16_net ReadUInt32_net ReadUInt64_net
  WriteUInt_net Length_eq [of ORDER_NETWORK]

lemma WritePadding_eq:
  "net b \<Longrightarrow> net (WritePadding len b) \<and> contents (WritePadding len b) = contents b @ pad4 (unat len)"
  by (simp add: WritePadding_def pad4_cases net_simps)

lemma ConsumePadding_pad:
  "net b \<Longrightarrow> contents b = pad4 (unat len) @ rest \<Longrightarrow>
     net (ConsumePadding len b) \<and> contents (ConsumePadding len b) = rest"
  by (auto simp: ConsumePadding_def pad4_cases net_simps Let_def)

lemma foldl_WriteUInt16:
  "net b \<Longrightarrow> net (foldl (WriteUInt16 he) b ts) \<and> contents (foldl (WriteUInt16 he) b ts) = contents b @ concat (map be16 ts)"
  by (induction ts arbitrary: b) (simp_all add: net_simps)

lemma WriteIPBytes_eq:
  "net b \<Longrightarrow> net (WriteIPBytes b ip) \<and> contents (WriteIPBytes b ip) = contents b @ ip_bytes ip"
  by (cases ip) (simp_all add: WriteIPBytes_def net_simps)

lemma family_code_address:
  "ip \<noteq> AF_UNSPEC_ip \<Longrightarrow> sa_ip sa = ip \<Longrightarrow>
     attr_family sa \<noteq> STUN_ADDRESS_UNDEF \<and> family_code (attr_family sa) = (case ip of AF_INET_ip _ \<Rightarrow> 1 | _ \<Rightarrow> 2)"
  by (cases ip) (simp_all add: attr_family_def)

lemma GetXoredIP_xor_ip:
  "ip_wf ip \<Longrightarrow> (ip_fam ip = AF_INET6 \<longrightarrow> length tid = 12) \<Longrightarrow> GetXoredIP he tid True ip = xor_ip tid ip"
  by (cases ip) (simp_all add: GetXoredIP_def [of he tid True AF_UNSPEC_ip])

lemma attr_Write_bytes:
  assumes "attr_wf tid a" and "net b"
  shows "\<exists>b'. attr_Write he tid a b = Some b' \<and> net b' \<and> contents b' = contents b @ attr_bytes tid a"
proof (cases "at_body a")
  case (AddressAttr sa)
  then have "sa_ip sa \<noteq> AF_UNSPEC_ip" using assms(1) by (simp add: attr_wf_def addr_wf_def)
  then show ?thesis
    using AddressAttr assms(2) family_code_address [of "sa_ip sa" sa]
    by (simp add: attr_Write_defs WriteAddress_def attr_bytes_def address_bytes_def net_simps WriteIPBytes_eq Let_def)
next
  case (XorAddressAttr sa ow)
  then have wf: "sa_ip sa \<noteq> AF_UNSPEC_ip" "ow" "ip_wf (sa_ip sa)" "ip_fam (sa_ip sa) = AF_INET6 \<longrightarrow> length tid = 12"
    using assms(1) by (simp_all add: attr_wf_def addr_wf_def)
  have x: "GetXoredIP he tid ow (sa_ip sa) = xor_ip tid (sa_ip sa)" using wf by (simp add: GetXoredIP_xor_ip)
  have "ip_fam (xor_ip tid (sa_ip sa)) \<noteq> AF_UNSPEC"
    "(case xor_ip tid (sa_ip sa) of AF_INET_ip _ \<Rightarrow> 1 | _ \<Rightarrow> 2) = (case sa_ip sa of AF_INET_ip _ \<Rightarrow> 1 | _ \<Rightarrow> (2 :: byte))"
    using wf(1) by (cases "sa_ip sa"; simp)+
  then show ?thesis
    using XorAddressAttr assms(2) family_code_address [OF wf(1) refl]
    by (simp add: attr_Write_defs WriteXorAddress_def attr_bytes_def address_bytes_def net_simps WriteIPBytes_eq Let_def x)
next
  case (ErrorCodeAttr c n r)
  then show ?thesis
    using assms WritePadding_eq pad4_shift [of "length r"]
    by (simp add: attr_Write_defs attr_bytes_def attr_wf_def net_simps)
qed (use assms WritePadding_eq foldl_WriteUInt16 in \<open>simp_all add: attr_Write_defs attr_bytes_def attr_wf_def net_simps\<close>)

subsection \<open>What was written is read back\<close>

lemma ReadAddress_bytes:
  assumes "net b" and "contents b = address_bytes ip port @ rest"
    and "ip_wf ip" and "ip \<noteq> AF_UNSPEC_ip" and "len = (case ip of AF_INET_ip _ \<Rightarrow> 8 | _ \<Rightarrow> 20)"
  shows "\<exists>b'. ReadAddress he len b = Some (SocketAddress_ip ip (uint port), b') \<and> net b' \<and> contents b' = rest"
proof (cases ip)
  case (AF_INET_ip a)
  then show ?thesis
    using assms by (simp add: ReadAddress_def address_bytes_def net_simps)
next
  case (AF_INET6_ip v)
  then show ?thesis
    using assms by (simp add: ReadAddress_def address_bytes_def net_simps)
qed (use assms in simp)

lemma ReadTypes_bytes:
  "net b \<Longrightarrow> contents b = concat (map be16 ts) @ rest \<Longrightarrow>
     \<exists>b'. ReadTypes he (length ts) us b = Some (us @ ts, b') \<and> net b' \<and> contents b' = rest"
proof (induction ts arbitrary: us b)
  case (Cons t ts)
  then have "ReadUInt16 he b = Some (t, advance b 2)" "net (advance b 2)" "contents (advance b 2) = concat (map be16 ts) @ rest"
    by (simp_all add: net_simps)
  then show ?case using Cons.IH [of "advance b 2" "us @ [t]"] by auto
qed simp

lemma error_code_bytes:
  fixes c n :: byte
  assumes "c < 8"
  shows "ucast ((drop_bit 8 (push_bit 8 (ucast c)) OR drop_bit 8 (ucast n :: u32)) AND 7) = c"
    and "ucast ((push_bit 8 (ucast c) OR ucast n :: u32) AND 0xff) = n"
proof -
  have m: "(7 :: u32) = mask 3" "(0xff :: u32) = mask 8" by (simp_all add: mask_numeral)
  have c: "k < 3" if "bit c k" for k
  proof -
    have "unat c < 2 ^ 3" using assms by (simp add: word_less_nat_alt)
    then have "take_bit 3 c = c" by (metis take_bit_nat_eq_self unsigned_take_bit_eq word_unat_eq_iff)
    then show ?thesis using that by (metis bit_take_bit_iff)
  qed
  show "ucast ((drop_bit 8 (push_bit 8 (ucast c)) OR drop_bit 8 (ucast n :: u32)) AND 7) = c"
    unfolding m by (rule bit_word_eqI) (auto simp: bit_simps dest: c bit_imp_le_length)
  show "ucast ((push_bit 8 (ucast c) OR ucast n :: u32) AND 0xff) = n"
    unfolding m by (rule bit_word_eqI) (auto simp: bit_simps)
qed

lemma EnsureAddressLength_ip:
  "sa_ip sa \<noteq> AF_UNSPEC_ip \<Longrightarrow> EnsureAddressLength sa = (case sa_ip sa of AF_INET_ip _ \<Rightarrow> 8 | _ \<Rightarrow> 20)"
  by (cases "sa_ip sa") (simp_all add: EnsureAddressLength_def attr_family_def)

lemma xor_port_cancel [simp]: "xor_port (xor_port p) = p"
  by (simp add: xor_port_def xor.assoc)

lemma sa_fields [simp]: "sa_ip (SocketAddress_ip ip p) = ip" "sa_port (SocketAddress_ip ip p) = of_int p"
  by (simp_all add: SocketAddress_ip_def SetIP_def SetPort_def)

lemma xor_ip_wf:
  assumes "ip_wf ip" and "ip_fam ip = AF_INET6 \<longrightarrow> length tid = 12" and "ip \<noteq> AF_UNSPEC_ip"
  shows "ip_wf (xor_ip tid ip)" and "xor_ip tid ip \<noteq> AF_UNSPEC_ip" and "ip_fam (xor_ip tid ip) = ip_fam ip"
    and "xor_ip tid (xor_ip tid ip) = ip"
  using assms by (cases ip; simp add: xor_bytes_cancel xor.assoc)+

lemma attr_Read_bytes:
  assumes "attr_wf tid a" and "net b" and "contents b = attr_bytes tid a @ rest"
    and "StunAttribute_Create (value_type (at_body a)) (at_type a) (at_length a) = Some a0"
  shows "\<exists>b'. attr_Read he tid a0 b = Some (a, b') \<and> net b' \<and> contents b' = rest"
proof (cases "at_body a")
  case (AddressAttr sa)
  then have wf: "sa = SocketAddress_ip (sa_ip sa) (uint (sa_port sa))" "ip_wf (sa_ip sa)" "sa_ip sa \<noteq> AF_UNSPEC_ip"
    "at_length a = EnsureAddressLength sa"
    using assms(1) by (simp_all add: attr_wf_def addr_wf_def)
  have a0: "a0 = a\<lparr>at_body := AddressAttr sa_Clear\<rparr>"
    using AddressAttr assms(4) by (cases a) (auto simp: StunAttribute_Create_def)
  obtain b' where "ReadAddress he (at_length a) b = Some (sa, b')" "net b'" "contents b' = rest"
    using ReadAddress_bytes [OF assms(2), of "sa_ip sa" "sa_port sa" rest "at_length a" he] AddressAttr assms(3) wf
    by (auto simp: attr_bytes_def EnsureAddressLength_ip)
  moreover have "SetAddress a0 sa = a" using AddressAttr wf(4) by (simp add: a0 SetAddress_def)
  ultimately show ?thesis by (simp add: attr_Read_defs a0)
next
  case (XorAddressAttr sa ow)
  then have wf: "sa = SocketAddress_ip (sa_ip sa) (uint (sa_port sa))" "ip_wf (sa_ip sa)" "sa_ip sa \<noteq> AF_UNSPEC_ip"
    "at_length a = EnsureAddressLength sa" "ow" "ip_fam (sa_ip sa) = AF_INET6 \<longrightarrow> length tid = 12"
    using assms(1) by (simp_all add: attr_wf_def addr_wf_def)
  have a0: "a0 = a\<lparr>at_body := XorAddressAttr sa_Clear True\<rparr>"
    using XorAddressAttr assms(4) by (cases a) (auto simp: StunAttribute_Create_def)
  let ?ip = "xor_ip tid (sa_ip sa)" and ?port = "xor_port (sa_port sa)"
  note x = xor_ip_wf [OF wf(2,6,3)]
  have len: "at_length a = (case ?ip of AF_INET_ip _ \<Rightarrow> 8 | _ \<Rightarrow> 20)"
    unfolding wf(4) EnsureAddressLength_ip [OF wf(3)] using wf(3) by (cases "sa_ip sa") simp_all
  obtain b' where r: "ReadAddress he (at_length a) b = Some (SocketAddress_ip ?ip (uint ?port), b')" "net b'" "contents b' = rest"
    using ReadAddress_bytes [OF assms(2) _ x(1,2) len, of ?port rest he] XorAddressAttr assms(3)
    by (auto simp: attr_bytes_def)
  have "GetXoredIP he tid True ?ip = sa_ip sa"
    using GetXoredIP_xor_ip [OF x(1), of tid he] x wf(6) by simp
  moreover have "SetAddress a0 sa = a" using XorAddressAttr wf by (simp add: a0 SetAddress_def)
  ultimately show ?thesis using r wf(1) by (simp add: attr_Read_defs a0)
next
  case (ErrorCodeAttr c n r)
  then have wf: "unat (at_length a) = 4 + length r" "c < 8" using assms(1) by (simp_all add: attr_wf_def)
  have a0: "a0 = a\<lparr>at_body := ErrorCodeAttr 0 0 []\<rparr>"
    using ErrorCodeAttr assms(4) by (cases a) (auto simp: StunAttribute_Create_def)
  have "\<not> at_length a < 4" using wf(1) by (simp add: word_less_nat_alt)
  moreover have "contents (advance (advance b 4) (length r)) = pad4 (unat (at_length a)) @ rest" "net (advance (advance b 4) (length r))"
    using ErrorCodeAttr assms(2,3) wf(1) pad4_shift [of "length r"] by (simp_all add: attr_bytes_def net_simps)
  ultimately show ?thesis
    using ErrorCodeAttr assms(2,3) wf ConsumePadding_pad [of "advance (advance b 4) (length r)" "at_length a" rest]
    by (simp add: attr_Read_defs a0 attr_bytes_def net_simps error_code_bytes)
next
  case (ByteStringAttr bs)
  then have wf: "unat (at_length a) = length bs" using assms(1) by (simp add: attr_wf_def)
  have a0: "a0 = a\<lparr>at_body := ByteStringAttr []\<rparr>"
    using ByteStringAttr assms(4) by (cases a) (auto simp: StunAttribute_Create_def)
  have "contents (advance b (length bs)) = pad4 (unat (at_length a)) @ rest" "net (advance b (length bs))"
    using ByteStringAttr assms(2,3) wf by (simp_all add: attr_bytes_def net_simps)
  then show ?thesis
    using ByteStringAttr assms(2,3) wf ConsumePadding_pad [of "advance b (length bs)" "at_length a" rest]
    by (simp add: attr_Read_defs a0 attr_bytes_def net_simps)
next
  case (UInt16ListAttr ts)
  then have wf: "unat (at_length a) = 2 * length ts" using assms(1) by (simp add: attr_wf_def)
  have a0: "a0 = a\<lparr>at_body := UInt16ListAttr []\<rparr>"
    using UInt16ListAttr assms(4) by (cases a) (auto simp: StunAttribute_Create_def)
  obtain b' where "ReadTypes he (length ts) [] b = Some (ts, b')" "net b'" "contents b' = pad4 (unat (at_length a)) @ rest"
    using ReadTypes_bytes [OF assms(2), of ts "pad4 (2 * length ts) @ rest" he "[]"] UInt16ListAttr assms(3) wf
    by (auto simp: attr_bytes_def)
  then show ?thesis
    using UInt16ListAttr wf ConsumePadding_pad [of b' "at_length a" rest] by (simp add: attr_Read_defs a0)
next
  case (UInt32Attr v)
  then have "a0 = a\<lparr>at_body := UInt32Attr 0\<rparr>" "at_length a = 4"
    using assms(1,4) by (cases a; auto simp: StunAttribute_Create_def attr_wf_def)+
  then show ?thesis using UInt32Attr assms(2,3) by (simp add: attr_Read_defs attr_bytes_def net_simps)
next
  case (UInt64Attr v)
  then have "a0 = a\<lparr>at_body := UInt64Attr 0\<rparr>" "at_length a = 8"
    using assms(1,4) by (cases a; auto simp: StunAttribute_Create_def attr_wf_def)+
  then show ?thesis using UInt64Attr assms(2,3) by (simp add: attr_Read_defs attr_bytes_def net_simps)
qed

end
