(* ===== verification/Crc32.thy ===== *)
theory Crc32
  imports Jingle_Prelude
begin

unbundle bit_operations_syntax

text \<open>
  \<open>talk/base/crc32.cc\<close>: the table-driven CRC-32 of the STUN FINGERPRINT attribute.  The
  table is a static array that the first call fills; it is passed as state.  The reference
  is the bit-serial shift register the polynomial defines.
\<close>

definition kCrc32Polynomial :: u32 where
  "kCrc32Polynomial = 0xEDB88320"

text \<open>One round of the inner loop, and the eight rounds that make one table entry.\<close>

definition crc_round :: "u32 \<Rightarrow> u32" where
  "crc_round c = (if c AND 1 \<noteq> 0 then kCrc32Polynomial XOR drop_bit 1 c else drop_bit 1 c)"

fun crc_rounds :: "nat \<Rightarrow> u32 \<Rightarrow> u32" where
  "crc_rounds 0 c = c"
| "crc_rounds (Suc j) c = crc_rounds j (crc_round c)"

definition kCrc32Table_init :: "u32 list" where
  "kCrc32Table_init = replicate 256 0"

definition EnsureCrc32TableInited :: "u32 list \<Rightarrow> u32 list" where
  "EnsureCrc32TableInited table =
     (if table ! (256 - 1) \<noteq> 0 then table
      else map (\<lambda>i. crc_rounds 8 (of_nat i)) [0..<256])"

fun crc_loop :: "u32 list \<Rightarrow> u32 \<Rightarrow> byte list \<Rightarrow> u32" where
  "crc_loop table c [] = c"
| "crc_loop table c (u # us) =
     crc_loop table (table ! unat ((c XOR ucast u) AND 0xFF) XOR drop_bit 8 c) us"

definition UpdateCrc32 :: "u32 list \<Rightarrow> u32 \<Rightarrow> byte list \<Rightarrow> u32 \<times> u32 list" where
  "UpdateCrc32 table start buf =
     (let table = EnsureCrc32TableInited table;
          c = start XOR 0xFFFFFFFF;
          c = crc_loop table c buf
      in (c XOR 0xFFFFFFFF, table))"

definition ComputeCrc32 :: "u32 list \<Rightarrow> byte list \<Rightarrow> u32 \<times> u32 list" where
  "ComputeCrc32 table buf = UpdateCrc32 table 0 buf"

subsection \<open>The bit-serial reference\<close>

fun crc_serial :: "u32 \<Rightarrow> byte list \<Rightarrow> u32" where
  "crc_serial c [] = c"
| "crc_serial c (u # us) = crc_serial (crc_rounds 8 (c XOR ucast u)) us"

definition crc32_spec :: "u32 \<Rightarrow> byte list \<Rightarrow> u32" where
  "crc32_spec start buf = NOT (crc_serial (NOT start) buf)"

text \<open>The two states the static table can be in.\<close>

definition crc_table :: "u32 list" where
  "crc_table = map (\<lambda>i. crc_rounds 8 (of_nat i)) [0..<256]"

definition table_ok :: "u32 list \<Rightarrow> bool" where
  "table_ok t = (t = kCrc32Table_init \<or> t = crc_table)"

subsection \<open>The register is linear\<close>

lemma low_bit: "(c AND 1 \<noteq> 0) = odd (c :: u32)"
  by (simp add: and_one_eq mod_2_eq_odd)

lemma crc_round_xor: "crc_round (a XOR b) = crc_round a XOR crc_round b"
  by (auto simp: crc_round_def low_bit even_xor_iff drop_bit_xor xor.assoc xor.left_commute)

lemma crc_rounds_xor: "crc_rounds n (a XOR b) = crc_rounds n a XOR crc_rounds n b"
  by (induction n arbitrary: a b) (simp_all add: crc_round_xor)

lemma crc_rounds_shift: "take_bit n c = 0 \<Longrightarrow> crc_rounds n c = drop_bit n c"
proof (induction n arbitrary: c)
  case 0
  then show ?case by simp
next
  case (Suc n)
  have "\<not> bit c 0"
    using arg_cong [OF Suc.prems, of "\<lambda>x. bit x 0"] by (simp add: bit_take_bit_iff)
  then have even: "even c"
    by (simp add: bit_0)
  have "take_bit n (drop_bit 1 c) = 0"
    using Suc.prems by (simp add: take_bit_drop_bit)
  then show ?case
    using Suc.IH [of "drop_bit 1 c"] even by (simp add: crc_round_def low_bit drop_bit_drop_bit)
qed

lemma crc_table_step:
  "crc_table ! unat (x AND 0xFF) XOR drop_bit 8 x = crc_rounds 8 x"
proof -
  let ?lo = "take_bit 8 x" and ?hi = "push_bit 8 (drop_bit 8 x)"
  have split: "x = ?lo XOR ?hi"
    by (rule bit_word_eqI) (auto simp: bit_simps)
  have lo: "x AND 0xFF = ?lo"
    by (simp add: take_bit_eq_mask mask_numeral)
  have "unat ?lo < 256"
    by (simp add: unsigned_take_bit_eq) (simp add: take_bit_nat_def)
  then have "crc_table ! unat ?lo = crc_rounds 8 ?lo"
    by (simp add: crc_table_def)
  moreover have "crc_rounds 8 ?hi = drop_bit 8 x"
  proof -
    have "take_bit 8 ?hi = 0"
      by (rule bit_word_eqI) (auto simp: bit_simps)
    then have "crc_rounds 8 ?hi = drop_bit 8 ?hi" by (rule crc_rounds_shift)
    also have "\<dots> = drop_bit 8 x"
      by (rule bit_word_eqI) (auto simp: bit_simps dest: bit_imp_le_length)
    finally show ?thesis .
  qed
  ultimately show ?thesis
    using crc_rounds_xor [of 8 ?lo ?hi] split lo by simp
qed

lemma drop_bit_8_ucast: "drop_bit 8 (c XOR ucast (u :: byte)) = drop_bit 8 (c :: u32)"
  by (rule bit_word_eqI) (auto simp: bit_simps dest: bit_imp_le_length)

lemma crc_loop_serial: "crc_loop crc_table c us = crc_serial c us"
proof (induction us arbitrary: c)
  case (Cons u us)
  then show ?case
    using crc_table_step [of "c XOR ucast u"] by (simp only: drop_bit_8_ucast crc_loop.simps crc_serial.simps)
qed simp

lemma crc_rounds_numeral:
  "crc_rounds (numeral k) c = crc_rounds (pred_numeral k) (crc_round c)"
  by (simp add: numeral_eq_Suc)

lemma crc_table_last: "crc_table ! 255 = 0x2D02EF8D"
proof -
  have "crc_table ! 255 = crc_rounds 8 255" by (simp add: crc_table_def)
  also have "\<dots> = 0x2D02EF8D" by (simp add: crc_rounds_numeral crc_round_def kCrc32Polynomial_def)
  finally show ?thesis .
qed

lemma EnsureCrc32TableInited_ok: "table_ok t \<Longrightarrow> EnsureCrc32TableInited t = crc_table"
  using crc_table_last
  by (auto simp: table_ok_def EnsureCrc32TableInited_def kCrc32Table_init_def crc_table_def)

lemma crc32_update_spec:
  assumes "table_ok t"
  shows "UpdateCrc32 t start buf = (crc32_spec start buf, crc_table)"
proof -
  have not: "x XOR 0xFFFFFFFF = NOT x" for x :: u32
  proof -
    have ones: "(0xFFFFFFFF :: u32) = mask 32" by (simp add: mask_numeral)
    show ?thesis unfolding ones by (rule bit_word_eqI) (auto simp: bit_simps)
  qed
  show ?thesis
    using assms
    by (simp add: UpdateCrc32_def EnsureCrc32TableInited_ok crc_loop_serial crc32_spec_def not)
qed

text \<open>
  C28: the table-driven CRC-32 computes the bit-serial CRC of the polynomial, for every
  start value and every input, whether or not the static table was already filled, and
  leaves the table filled for the next call.
\<close>

theorem crc32_table_correct:
  assumes "table_ok t"
  shows "UpdateCrc32 t start buf = (crc32_spec start buf, crc_table) \<and> table_ok crc_table"
  using crc32_update_spec [OF assms] by (simp add: table_ok_def)

lemma crc32_table_correct_witness:
  "table_ok kCrc32Table_init \<and>
   UpdateCrc32 kCrc32Table_init 0 [0x61] = (crc32_spec 0 [0x61], crc_table) \<and>
   crc32_spec 0 [0x61] = 0xE8B7BE43"
proof -
  have ok: "table_ok kCrc32Table_init" by (simp add: table_ok_def)
  have "crc32_spec 0 [0x61] = 0xE8B7BE43"
    by (simp add: crc32_spec_def crc_rounds_numeral crc_round_def kCrc32Polynomial_def)
  then show ?thesis using ok crc32_table_correct [OF ok, of 0 "[0x61]"] by simp
qed


subsection \<open>Any change within one byte is detected\<close>

lemma crc_round_zero: "crc_round x = 0 \<Longrightarrow> x = 0"
proof (cases "odd x")
  case True
  assume "crc_round x = 0"
  with True have "drop_bit 1 x = kCrc32Polynomial"
    by (simp add: crc_round_def low_bit xor_eq_0_iff)
  then have "bit (drop_bit 1 x) 31"
    by (simp add: kCrc32Polynomial_def)
  then show ?thesis
    by (auto simp: bit_simps dest: bit_imp_le_length)
next
  case False
  assume "crc_round x = 0"
  with False have z: "drop_bit 1 x = 0" by (simp add: crc_round_def low_bit)
  show ?thesis
  proof (rule bit_word_eqI)
    fix n
    show "bit x n = bit 0 n"
    proof (cases n)
      case 0
      with False show ?thesis by (simp add: bit_0)
    next
      case (Suc m)
      then show ?thesis
        using arg_cong [OF z, of "\<lambda>y. bit y m"] by (simp add: bit_drop_bit_eq)
    qed
  qed
qed

lemma crc_rounds_inj: "crc_rounds n a = crc_rounds n b \<Longrightarrow> a = b"
proof (induction n arbitrary: a b)
  case (Suc n)
  then have "crc_round a = crc_round b" by simp
  then have "crc_round (a XOR b) = 0" by (simp add: crc_round_xor xor_eq_0_iff)
  then show ?case by (auto simp: xor_eq_0_iff dest: crc_round_zero)
qed simp

lemma crc_serial_inj: "crc_serial a us = crc_serial b us \<Longrightarrow> a = b"
proof (induction us arbitrary: a b)
  case (Cons u us)
  then have "crc_rounds 8 (a XOR ucast u) = crc_rounds 8 (b XOR ucast u)" by simp
  then show ?case by (auto simp: xor_right_cancel dest: crc_rounds_inj)
qed simp

lemma crc_serial_append: "crc_serial c (us @ vs) = crc_serial (crc_serial c us) vs"
  by (induction us arbitrary: c) auto

lemma ucast_ucast_id_byte: "ucast (ucast (u :: byte) :: u32) = u"
  by (rule bit_word_eqI) (auto simp: bit_simps)

lemma ucast_byte_inj: "(ucast (u :: byte) :: u32) = ucast v \<Longrightarrow> u = v"
  by (metis (mono_tags) ucast_ucast_id_byte)

text \<open>
  C29: two messages that differ in exactly one byte never have the same CRC-32, so the
  FINGERPRINT check detects every corruption confined to a single byte.
\<close>

theorem crc32_detects_byte_error:
  assumes "table_ok t" and "u \<noteq> v"
  shows "fst (ComputeCrc32 t (xs @ u # ys)) \<noteq> fst (ComputeCrc32 t (xs @ v # ys))"
proof
  assume "fst (ComputeCrc32 t (xs @ u # ys)) = fst (ComputeCrc32 t (xs @ v # ys))"
  then have "crc_serial (NOT 0) (xs @ u # ys) = crc_serial (NOT 0) (xs @ v # ys)"
    using crc32_update_spec [OF assms(1)] by (simp add: ComputeCrc32_def crc32_spec_def)
  then have "crc_serial (NOT 0) xs XOR ucast u = crc_serial (NOT 0) xs XOR ucast v"
    by (auto simp: crc_serial_append dest!: crc_serial_inj crc_rounds_inj)
  then have "(ucast u :: u32) = ucast v"
    by (simp add: xor_left_cancel)
  with assms(2) show False by (auto dest: ucast_byte_inj)
qed

lemma crc32_detects_byte_error_witness:
  "fst (ComputeCrc32 kCrc32Table_init ([1, 2] @ 3 # [4])) \<noteq>
   fst (ComputeCrc32 kCrc32Table_init ([1, 2] @ 0x83 # [4]))"
  by (rule crc32_detects_byte_error) (simp_all add: table_ok_def)

end
