(* ===== verification/BlockHash.thy ===== *)
theory BlockHash
  imports ByteOrder
begin

unbundle bit_operations_syntax

text \<open>
  What \<open>sha1.cc\<close> and \<open>md5.cc\<close> share: a compression function \<open>T\<close> run over 64-byte blocks,
  a bit counter kept in two 32-bit words, and a buffer for the bytes of the unfinished
  block.  \<open>absorb\<close> is the specification (all complete blocks, in order), \<open>residue\<close> the bytes
  after the last complete block.
\<close>

function absorb :: "('s \<Rightarrow> byte list \<Rightarrow> 's) \<Rightarrow> 's \<Rightarrow> byte list \<Rightarrow> 's" where
  "absorb T s m = (if length m < 64 then s else absorb T (T s (take 64 m)) (drop 64 m))"
  by pat_completeness auto
termination
  by (relation "measure (\<lambda>(T, s, m). length m)") auto

declare absorb.simps [simp del]

definition residue :: "byte list \<Rightarrow> byte list" where
  "residue m = drop (64 * (length m div 64)) m"

lemma length_residue: "length (residue m) = length m mod 64"
  by (simp add: residue_def minus_mult_div_eq_mod)

lemma residue_short [simp]: "length m < 64 \<Longrightarrow> residue m = m"
  by (simp add: residue_def)

lemma absorb_short [simp]: "length m < 64 \<Longrightarrow> absorb T s m = s"
  by (simp add: absorb.simps)

lemma absorb_block: "length b = 64 \<Longrightarrow> absorb T s (b @ m) = absorb T (T s b) m"
  by (simp add: absorb.simps [of T s "b @ m"])

lemma residue_block: "length b = 64 \<Longrightarrow> residue (b @ m) = residue m"
  using div_add_self1 [of 64 "length m"] by (simp add: residue_def add_mult_distrib2)

lemma absorb_residue:
  "absorb T s (m @ d) = absorb T (absorb T s m) (residue m @ d) \<and> residue (m @ d) = residue (residue m @ d)"
proof (induction "length m" arbitrary: s m rule: less_induct)
  case less
  show ?case
  proof (cases "length m < 64")
    case True
    then show ?thesis by simp
  next
    case False
    then have b: "length (take 64 m) = 64" and m: "m = take 64 m @ drop 64 m" by simp_all
    have IH: "absorb T (T s (take 64 m)) (drop 64 m @ d) =
        absorb T (absorb T (T s (take 64 m)) (drop 64 m)) (residue (drop 64 m) @ d)"
      "residue (drop 64 m @ d) = residue (residue (drop 64 m) @ d)"
      using less [of "drop 64 m" "T s (take 64 m)"] False by simp_all
    have "absorb T s m = absorb T (T s (take 64 m)) (drop 64 m)" "residue m = residue (drop 64 m)"
      using absorb_block [OF b, of T s "drop 64 m"] residue_block [OF b, of "drop 64 m"] m by auto
    moreover have "absorb T s (m @ d) = absorb T (T s (take 64 m)) (drop 64 m @ d)"
      "residue (m @ d) = residue (drop 64 m @ d)"
      using absorb_block [OF b, of T s "drop 64 m @ d"] residue_block [OF b, of "drop 64 m @ d"] m
      by (metis append_assoc)+
    ultimately show ?thesis using IH by simp
  qed
qed

lemmas absorb_append = absorb_residue [THEN conjunct1]
lemmas residue_append = absorb_residue [THEN conjunct2]

text \<open>A loop over the whole blocks of the input from offset \<open>i\<close>, as both files write it.\<close>

function block_loop :: "('s \<Rightarrow> byte list \<Rightarrow> 's) \<Rightarrow> 's \<Rightarrow> byte list \<Rightarrow> nat \<Rightarrow> 's \<times> nat" where
  "block_loop T s data i =
     (if i + 63 < length data then block_loop T (T s (take 64 (drop i data))) data (i + 64) else (s, i))"
  by pat_completeness auto
termination
  by (relation "measure (\<lambda>(T, s, data, i). length data - i)") auto

declare block_loop.simps [simp del]

lemma block_loop_absorb:
  "i \<le> length data \<Longrightarrow>
     fst (block_loop T s data i) = absorb T s (drop i data) \<and>
     drop (snd (block_loop T s data i)) data = residue (drop i data) \<and>
     snd (block_loop T s data i) \<le> length data"
proof (induction T s data i rule: block_loop.induct)
  case (1 T s data i)
  show ?case
  proof (cases "i + 63 < length data")
    case True
    let ?b = "take 64 (drop i data)"
    have b: "length ?b = 64" and d: "drop i data = ?b @ drop (i + 64) data"
      using True append_take_drop_id [of 64 "drop i data"] by (simp_all add: add.commute)
    show ?thesis
      using "1.IH" [OF True] True
      by (subst d, subst (2) d) (simp add: block_loop.simps [of T s data i] absorb_block [OF b] residue_block [OF b])
  next
    case False
    then show ?thesis by (simp add: block_loop.simps [of T s data i] "1.prems")
  qed
qed

lemma block_loop_cong:
  assumes "\<And>s b. length b = 64 \<Longrightarrow> T s b = T' s b"
  shows "block_loop T s data i = block_loop T' s data i"
proof (induction "length data - i" arbitrary: s i rule: less_induct)
  case less
  then show ?case
    using assms by (cases "i + 63 < length data") (simp_all add: block_loop.simps [of _ s data i])
qed

subsection \<open>The bit counter\<close>

text \<open>\<open>count_bits lo hi n\<close>: the two words hold \<open>8 n\<close> modulo \<open>2^64\<close>.\<close>

definition count_bits :: "u32 \<Rightarrow> u32 \<Rightarrow> nat \<Rightarrow> bool" where
  "count_bits lo hi n = (unat lo + 2 ^ 32 * unat hi = (8 * n) mod 2 ^ 64)"

text \<open>
  Adding the bits of \<open>len\<close> more bytes.  \<open>static_cast<uint32>(len << 3)\<close> keeps the low 32 bits
  of the shifted length, \<open>len >> 29\<close> is what that drops.
\<close>

definition add_low :: "u32 \<Rightarrow> nat \<Rightarrow> u32" where
  "add_low lo len = lo + of_nat (8 * len)"

definition add_high :: "u32 \<Rightarrow> u32 \<Rightarrow> nat \<Rightarrow> u32" where
  "add_high lo hi len =
     (let hi = (if add_low lo len < of_nat (8 * len) then hi + 1 else hi)
      in hi + of_nat (len div 2 ^ 29))"

lemma unat_of_nat32: "unat (of_nat n :: u32) = n mod 2 ^ 32"
  by (simp add: unat_of_nat take_bit_eq_mod)

lemma carry_nat:
  assumes "a < M" and "x < M"
  shows "(a + x) mod M + M * of_bool ((a + x) mod M < x) = a + (x :: nat)"
proof (cases "a + x < M")
  case True
  then show ?thesis by simp
next
  case False
  then have "(a + x) mod M = a + x - M" using assms by (simp add: mod_if)
  then show ?thesis using False assms by simp
qed

lemma add_low_carry:
  "unat (add_low lo len) + 2 ^ 32 * of_bool (add_low lo len < of_nat (8 * len)) =
     unat lo + (8 * len) mod 2 ^ 32"
proof -
  have l: "unat lo < 2 ^ 32" using unat_bound [of lo] by simp
  have s: "unat (add_low lo len) = (unat lo + (8 * len) mod 2 ^ 32) mod 2 ^ 32"
    unfolding add_low_def unat_word_ariths unat_of_nat32 by simp
  show ?thesis
    unfolding word_less_nat_alt s unat_of_nat32 by (rule carry_nat [OF l]) simp
qed


text \<open>The carry can be seen against either summand: \<open>md5.cc\<close> compares with the old low word.\<close>

lemma add_low_carry_old: "add_low lo len < lo \<longleftrightarrow> add_low lo len < of_nat (8 * len)"
proof -
  have either: "(a + x) mod M < a \<longleftrightarrow> (a + x) mod M < x" if "a < M" "x < M" for a x M :: nat
    using that by (cases "a + x < M") (auto simp: mod_if)
  have "unat lo < 2 ^ 32" using unat_bound [of lo] by simp
  from either [OF this, of "(8 * len) mod 2 ^ 32"] show ?thesis
    unfolding word_less_nat_alt unat_of_nat32 add_low_def unat_word_ariths by simp
qed

lemma mod_pair: "L < M \<Longrightarrow> (L + M * X) mod (M * M) = L + M * (X mod M)" for L M X :: nat
  by (simp add: mod_mult2_eq)

lemma count_bits_add:
  assumes "count_bits lo hi n"
  shows "count_bits (add_low lo len) (add_high lo hi len) (n + len)"
proof -
  define c where "c = (of_bool (add_low lo len < of_nat (8 * len)) :: nat)"
  define L where "L = unat (add_low lo len)"
  have L: "L + 2 ^ 32 * c = unat lo + (8 * len) mod 2 ^ 32" and "L < 2 ^ 32"
    using add_low_carry [of lo len] unat_bound [of "add_low lo len"] by (simp_all add: L_def c_def)
  have "add_high lo hi len = hi + of_nat c + of_nat (len div 2 ^ 29)"
    by (simp add: add_high_def c_def)
  then have H: "unat (add_high lo hi len) = (unat hi + c + len div 2 ^ 29) mod 2 ^ 32"
    by (simp add: unat_word_ariths unat_of_nat32 mod_add_left_eq mod_add_right_eq del: unat_of_nat)
  have q: "8 * len = 2 ^ 32 * (len div 2 ^ 29) + (8 * len) mod 2 ^ 32"
    using div_mult_mod_eq [of "8 * len" "2 ^ 32"] by simp
  have "L + 2 ^ 32 * unat (add_high lo hi len) =
      (L + 2 ^ 32 * (unat hi + c + len div 2 ^ 29)) mod 2 ^ 64"
    unfolding H mod_pair [OF \<open>L < 2 ^ 32\<close>, symmetric] by (simp flip: power_add)
  also have "L + 2 ^ 32 * (unat hi + c + len div 2 ^ 29) = (unat lo + 2 ^ 32 * unat hi) + 8 * len"
    using L q by (simp add: algebra_simps)
  also have "\<dots> mod 2 ^ 64 = (8 * (n + len)) mod 2 ^ 64"
    unfolding assms [unfolded count_bits_def] distrib_left by (rule mod_add_left_eq)
  finally show ?thesis by (simp add: count_bits_def L_def)
qed

lemma buffer_index: "unat (drop_bit 3 (lo :: u32) AND 63) = unat lo div 8 mod 64"
proof -
  have "drop_bit 3 lo AND 63 = take_bit 6 (drop_bit 3 lo)"
    by (simp add: take_bit_eq_mask mask_numeral)
  then show ?thesis
    by (simp only:) (subst unsigned_take_bit_eq, subst unat_drop_bit_eq,
      simp add: drop_bit_eq_div take_bit_eq_mod)
qed

lemma count_bits_index:
  assumes "count_bits lo hi n"
  shows "unat (drop_bit 3 lo AND 63) = n mod 64"
proof -
  have "unat lo = (8 * n) mod 2 ^ 32"
  proof -
    have "unat lo = (unat lo + 2 ^ 32 * unat hi) mod 2 ^ 32" using unat_bound [of lo] by simp
    also have "\<dots> = (8 * n) mod 2 ^ 64 mod 2 ^ 32" using assms by (simp add: count_bits_def)
    also have "\<dots> = (8 * n) mod 2 ^ 32" by (simp add: mod_mod_cancel)
    finally show ?thesis .
  qed
  moreover have "(8 * n) mod 2 ^ 32 div 8 mod 64 = n mod 64"
  proof -
    have "(8 * n) mod 2 ^ 32 = 8 * (n mod 2 ^ 29)"
      using mod_mult_mult1 [of 8 n "2 ^ 29"] by simp
    moreover have "n mod 2 ^ 29 mod 64 = n mod 64"
      by (rule mod_mod_cancel) simp
    ultimately show ?thesis by simp
  qed
  ultimately show ?thesis by (simp add: buffer_index)
qed

subsection \<open>The streaming invariant\<close>

text \<open>
  \<open>hash_inv T s0 m st lo hi buf\<close>: after the bytes \<open>m\<close>, the chaining value has absorbed every whole
  block, the counter holds the bit length and the buffer starts with the bytes left over.
\<close>

definition hash_inv ::
  "('s \<Rightarrow> byte list \<Rightarrow> 's) \<Rightarrow> 's \<Rightarrow> byte list \<Rightarrow> 's \<Rightarrow> u32 \<Rightarrow> u32 \<Rightarrow> byte list \<Rightarrow> bool" where
  "hash_inv T s0 m st lo hi buf \<longleftrightarrow>
     st = absorb T s0 m \<and> count_bits lo hi (length m) \<and>
     length buf = 64 \<and> take (length m mod 64) buf = residue m"

lemma hash_inv_init: "length buf = 64 \<Longrightarrow> hash_inv T s0 [] s0 0 0 buf"
  by (simp add: hash_inv_def count_bits_def)

lemma hash_inv_index: "hash_inv T s0 m st lo hi buf \<Longrightarrow> unat (drop_bit 3 lo AND 63) = length m mod 64"
  unfolding hash_inv_def by (blast intro: count_bits_index)

text \<open>The input fits in the unfinished block.\<close>

lemma hash_inv_short:
  assumes "hash_inv T s0 m st lo hi buf" and "length m mod 64 + length data < 64"
  shows "hash_inv T s0 (m @ data) st (add_low lo (length data)) (add_high lo hi (length data))
    (memcpy_at buf (length m mod 64) data)"
proof -
  have s: "length (residue m @ data) < 64" using assms(2) by (simp add: length_residue)
  have "(length m + length data) mod 64 = length m mod 64 + length data"
    using assms(2) by (metis mod_add_left_eq mod_less)
  moreover have "take (length m mod 64 + length data) (memcpy_at buf (length m mod 64) data) = residue m @ data"
    using assms by (simp add: take_memcpy_at hash_inv_def)
  moreover have "absorb T s0 (m @ data) = absorb T s0 m" "residue (m @ data) = residue m @ data"
    using s by (simp_all only: absorb_append [of T s0 m data] residue_append [of m data] absorb_short residue_short)
  ultimately show ?thesis
    using assms by (simp add: hash_inv_def count_bits_add)
qed

text \<open>The input completes the block: the filled buffer is the residue and the first bytes of the input.\<close>

lemma hash_inv_fill:
  assumes "hash_inv T s0 m st lo hi buf" and "64 \<le> length m mod 64 + length data"
  defines "i \<equiv> 64 - length m mod 64"
  shows "memcpy_at buf (length m mod 64) (take i data) = residue m @ take i data"
    and "absorb T s0 (m @ data) = absorb T (T st (residue m @ take i data)) (drop i data)"
    and "residue (m @ data) = residue (drop i data)"
proof -
  have i: "i \<le> length data" "length m mod 64 + i = 64" "0 < i"
    using assms(2) by (auto simp: i_def)
  show "memcpy_at buf (length m mod 64) (take i data) = residue m @ take i data"
    using assms(1) i by (simp add: memcpy_at_def hash_inv_def)
  have b: "length (residue m @ take i data) = 64" using i by (simp add: length_residue)
  have e: "residue m @ data = (residue m @ take i data) @ drop i data" by simp
  show "absorb T s0 (m @ data) = absorb T (T st (residue m @ take i data)) (drop i data)"
    using assms(1) by (simp only: absorb_append [of T s0 m data] e absorb_block [OF b] hash_inv_def)
  show "residue (m @ data) = residue (drop i data)"
    by (simp only: residue_append [of m data] e residue_block [OF b])
qed

lemma hash_inv_long:
  assumes "hash_inv T s0 m st lo hi buf" and "st' = absorb T s0 (m @ data)"
    and "rest = residue (m @ data)" and "length buf' = 64"
  shows "hash_inv T s0 (m @ data) st' (add_low lo (length data)) (add_high lo hi (length data))
    (memcpy_at buf' 0 rest)"
proof -
  have "length rest = length (m @ data) mod 64" by (simp add: assms(3) length_residue)
  then have "take (length (m @ data) mod 64) (memcpy_at buf' 0 rest) = rest"
    and "length rest < 64"
    by (auto simp: memcpy_at_def)
  then show ?thesis
    using assms by (simp add: hash_inv_def count_bits_add)
qed

subsection \<open>Padding\<close>

text \<open>
  Both digests append the byte \<open>0x80\<close>, zeros up to 56 modulo 64, and the 64-bit length in bits.
\<close>

definition pad_zeros :: "nat \<Rightarrow> nat" where
  "pad_zeros n = (119 - n mod 64) mod 64"

lemma pad_zeros_56: "(n + 1 + pad_zeros n) mod 64 = 56"
proof -
  define r where "r = n mod 64"
  have "(n + 1 + (119 - r) mod 64) mod 64 = (r + 1 + (119 - r)) mod 64"
    unfolding r_def by (metis (no_types, lifting) mod_add_left_eq mod_add_right_eq)
  also have "r + 1 + (119 - r) = 120" using mod_less_divisor [of 64 n] by (simp add: r_def)
  finally show ?thesis by (simp add: pad_zeros_def r_def)
qed

lemma pad_step: "n mod 64 \<noteq> 56 \<Longrightarrow> (120 - n mod 64) mod 64 = Suc ((120 - Suc n mod 64) mod 64)"
proof -
  define r where "r = n mod 64"
  assume "n mod 64 \<noteq> 56"
  then have r: "r < 64" "r \<noteq> 56" by (simp_all add: r_def)
  have below: "(64 + k - r) mod 64 = k - r" if "r \<le> k" "k < 64" for k r :: nat
    using that by (simp add: le_mod_geq)
  consider "r < 56" | "56 < r" "r < 63" | "r = 63" using r by linarith
  then show ?thesis
  proof cases
    case 1
    then show ?thesis
      using below [of r 56] below [of "Suc r" 56] by (simp add: mod_Suc flip: r_def)
  qed (simp_all add: mod_Suc flip: r_def)
qed

lemma pad_zeros_Suc: "(120 - Suc n mod 64) mod 64 = pad_zeros n"
  by (auto simp: pad_zeros_def mod_Suc)

lemma ucast_and_255: "(ucast (v AND 255 :: u32) :: byte) = ucast v"
proof -
  have m: "(255 :: u32) = mask 8" by (simp add: mask_numeral)
  show ?thesis unfolding m by (rule bit_word_eqI) (auto simp: bit_simps)
qed

lemma ucast_halves_of_nat:
  "ucast (drop_bit 32 (of_nat k :: u64)) = (of_nat (k div 2 ^ 32) :: u32)"
  "ucast (of_nat k :: u64) = (of_nat k :: u32)"
  unfolding drop_bit_eq_div [symmetric]
  by (auto intro!: bit_word_eqI simp: bit_simps bit_of_nat_iff ac_simps)

lemma count_bits_split:
  assumes "count_bits lo hi n"
  shows "lo = of_nat (8 * n)" and "hi = of_nat (8 * n div 2 ^ 32)"
proof -
  have e: "unat lo + 2 ^ 32 * unat hi = (8 * n) mod 2 ^ 64" using assms by (simp add: count_bits_def)
  have l: "unat lo < 2 ^ 32" using unat_bound [of lo] by simp
  have "unat lo = (unat lo + 2 ^ 32 * unat hi) mod 2 ^ 32" using l by simp
  also have "\<dots> = (8 * n) mod 2 ^ 32" unfolding e by (rule mod_mod_cancel) simp
  finally show "lo = of_nat (8 * n)" by (metis unat_of_nat32 word_unat_eq_iff)
  have "unat hi = (unat lo + 2 ^ 32 * unat hi) div 2 ^ 32" using l by simp
  also have "\<dots> = (8 * n) div 2 ^ 32 mod 2 ^ 32"
    unfolding e using mod_mult2_eq [of "8 * n" "2 ^ 32" "2 ^ 32"] by simp
  finally show "hi = of_nat (8 * n div 2 ^ 32)" by (metis unat_of_nat32 word_unat_eq_iff)
qed

lemma count_bits_be64:
  assumes "count_bits lo hi n"
  shows "be64 (of_nat (8 * n)) = be32 hi @ be32 lo"
  unfolding be64_def ucast_halves_of_nat count_bits_split [OF assms] ..

end
