(* ===== verification/Sha1.thy ===== *)
theory Sha1
  imports BlockHash
begin

unbundle bit_operations_syntax

text \<open>
  SHA-1 as \<open>talk/base/sha1.cc\<close> computes it, on a host of either byte order, and the proof that
  it is the function of FIPS 180-4: \<open>SHA1Transform\<close> keeps only sixteen words of the message
  schedule and expands them during the rounds, \<open>SHA1Update\<close> buffers partial blocks, and
  \<open>SHA1Final\<close> pads by feeding single bytes until the bit counter says the block has room
  for the length.
\<close>

definition rol :: "u32 \<Rightarrow> nat \<Rightarrow> u32" where
  "rol v bits = push_bit bits v OR drop_bit (32 - bits) v"

text \<open>
  \<open>block->l\<close> is the sixteen-word view of the workspace.  \<open>blk0\<close> and \<open>blk\<close> assign to it and
  return the value assigned.
\<close>

definition blk0 :: "endian \<Rightarrow> u32 list \<Rightarrow> nat \<Rightarrow> u32 \<times> u32 list" where
  "blk0 he l i =
     (if IsHostBigEndian he then (l ! i, l)
      else let t = (rol (l ! i) 24 AND 0xFF00FF00) OR (rol (l ! i) 8 AND 0x00FF00FF)
           in (t, l[i := t]))"

definition blk :: "u32 list \<Rightarrow> nat \<Rightarrow> u32 \<times> u32 list" where
  "blk l i =
     (let t = rol (l ! ((i + 13) mod 16) XOR l ! ((i + 8) mod 16) XOR l ! ((i + 2) mod 16) XOR l ! (i mod 16)) 1
      in (t, l[i mod 16 := t]))"

type_synonym sha1_regs = "u32 \<times> u32 \<times> u32 \<times> u32 \<times> u32"

fun R0 :: "endian \<Rightarrow> nat \<Rightarrow> u32 list \<times> sha1_regs \<Rightarrow> u32 list \<times> sha1_regs" where
  "R0 he i (l, v, w, x, y, z) =
     (let (t, l) = blk0 he l i
      in (l, v, rol w 30, x, y, z + (((w AND (x XOR y)) XOR y) + t + 0x5A827999 + rol v 5)))"

fun R1 :: "nat \<Rightarrow> u32 list \<times> sha1_regs \<Rightarrow> u32 list \<times> sha1_regs" where
  "R1 i (l, v, w, x, y, z) =
     (let (t, l) = blk l i
      in (l, v, rol w 30, x, y, z + (((w AND (x XOR y)) XOR y) + t + 0x5A827999 + rol v 5)))"

fun R2 :: "nat \<Rightarrow> u32 list \<times> sha1_regs \<Rightarrow> u32 list \<times> sha1_regs" where
  "R2 i (l, v, w, x, y, z) =
     (let (t, l) = blk l i
      in (l, v, rol w 30, x, y, z + ((w XOR x XOR y) + t + 0x6ED9EBA1 + rol v 5)))"

fun R3 :: "nat \<Rightarrow> u32 list \<times> sha1_regs \<Rightarrow> u32 list \<times> sha1_regs" where
  "R3 i (l, v, w, x, y, z) =
     (let (t, l) = blk l i
      in (l, v, rol w 30, x, y, z + ((((w OR x) AND y) OR (w AND x)) + t + 0x8F1BBCDC + rol v 5)))"

fun R4 :: "nat \<Rightarrow> u32 list \<times> sha1_regs \<Rightarrow> u32 list \<times> sha1_regs" where
  "R4 i (l, v, w, x, y, z) =
     (let (t, l) = blk l i
      in (l, v, rol w 30, x, y, z + ((w XOR x XOR y) + t + 0xCA62C1D6 + rol v 5)))"

text \<open>
  The 80 macro calls of \<open>SHA1Transform\<close>: the call for \<open>i\<close> names the registers in the order in
  which the call for \<open>i - 1\<close> had them, rotated by one.  80 is a multiple of 5, so after the
  last call the registers are back at their names.
\<close>

fun rotate_regs :: "u32 list \<times> sha1_regs \<Rightarrow> u32 list \<times> sha1_regs" where
  "rotate_regs (l, v, w, x, y, z) = (l, z, v, w, x, y)"

definition sha1_round :: "endian \<Rightarrow> nat \<Rightarrow> u32 list \<times> sha1_regs \<Rightarrow> u32 list \<times> sha1_regs" where
  "sha1_round he i s =
     rotate_regs
      (if i < 16 then R0 he i s
       else if i < 20 then R1 i s
       else if i < 40 then R2 i s
       else if i < 60 then R3 i s
       else R4 i s)"

definition SHA1Transform :: "endian \<Rightarrow> u32 list \<Rightarrow> byte list \<Rightarrow> u32 list" where
  "SHA1Transform he state buffer =
     (let workspace = map (\<lambda>i. value32 he (take 4 (drop (4 * i) buffer))) [0..<16];
          (l, a, b, c, d, e) =
            fold (sha1_round he) [0..<80]
              (workspace, state ! 0, state ! 1, state ! 2, state ! 3, state ! 4)
      in [state ! 0 + a, state ! 1 + b, state ! 2 + c, state ! 3 + d, state ! 4 + e])"

record sha1_ctx =
  sha_state :: "u32 list"
  sha_count0 :: u32
  sha_count1 :: u32
  sha_buffer :: "byte list"

definition SHA1Init :: "sha1_ctx \<Rightarrow> sha1_ctx" where
  "SHA1Init c = c\<lparr>sha_state := [0x67452301, 0xEFCDAB89, 0x98BADCFE, 0x10325476, 0xC3D2E1F0],
     sha_count0 := 0, sha_count1 := 0\<rparr>"

definition SHA1Update :: "endian \<Rightarrow> sha1_ctx \<Rightarrow> byte list \<Rightarrow> sha1_ctx" where
  "SHA1Update he c data =
     (let index = unat (drop_bit 3 (sha_count0 c) AND 63);
          input_len = length data;
          c = c\<lparr>sha_count0 := add_low (sha_count0 c) input_len,
                sha_count1 := add_high (sha_count0 c) (sha_count1 c) input_len\<rparr>
      in if index + input_len > 63 then
           let buffer = memcpy_at (sha_buffer c) index (take (64 - index) data);
               (state, i) = block_loop (SHA1Transform he) (SHA1Transform he (sha_state c) buffer) data (64 - index)
           in c\<lparr>sha_state := state, sha_buffer := memcpy_at buffer 0 (drop i data)\<rparr>
         else c\<lparr>sha_buffer := memcpy_at (sha_buffer c) index data\<rparr>)"

text \<open>The loop \<open>while ((count[0] & 504) != 448) SHA1Update(context, "\0", 1)\<close>.\<close>

lemma count_index_step:
  "unat (drop_bit 3 (c + 8 :: u32) AND 63) = (unat (drop_bit 3 c AND 63) + 1) mod 64"
proof -
  define n where "n = unat c"
  have "unat (c + 8) = (n + 8) mod 2 ^ 32" by (simp add: unat_word_ariths n_def)
  moreover have "(n + 8) mod 2 ^ 32 div 8 mod 64 = Suc (n div 8) mod 64"
  proof -
    have "(n + 8) mod 2 ^ 32 div 8 = (n + 8) div 8 mod 2 ^ 29"
      using mod_mult2_eq [of "n + 8" 8 "2 ^ 29"] by simp
    also have "(n + 8) div 8 = Suc (n div 8)" by simp
    finally show ?thesis using mod_mod_cancel [of 64 "2 ^ 29" "Suc (n div 8)"] by simp
  qed
  ultimately show ?thesis by (simp add: buffer_index n_def mod_simps)
qed

lemma count_504: "(c AND 504 = 448) = (unat (drop_bit 3 (c :: u32) AND 63) = 56)"
proof -
  have masks: "(504 :: u32) = push_bit 3 (mask 6)" "(63 :: u32) = mask 6"
    by (simp_all add: mask_numeral push_bit_eq_mult)
  have e: "c AND 504 = push_bit 3 (drop_bit 3 c AND 63)" "drop_bit 3 (c AND 504) = drop_bit 3 c AND 63"
    unfolding masks by (rule bit_word_eqI, auto simp: bit_simps)+
  have "c AND 504 = 448 \<longleftrightarrow> drop_bit 3 c AND 63 = 56"
  proof
    assume "c AND 504 = 448"
    then show "drop_bit 3 c AND 63 = 56" using e(2) by simp
  next
    assume "drop_bit 3 c AND 63 = 56"
    then show "c AND 504 = 448" using e(1) by simp
  qed
  also have "\<dots> \<longleftrightarrow> unat (drop_bit 3 c AND 63) = 56"
    by (simp add: word_unat_eq_iff)
  finally show ?thesis .
qed

lemma SHA1Update_count0: "sha_count0 (SHA1Update he c data) = add_low (sha_count0 c) (length data)"
  by (simp add: SHA1Update_def Let_def split: prod.split)

function sha1_pad_loop :: "endian \<Rightarrow> sha1_ctx \<Rightarrow> sha1_ctx" where
  "sha1_pad_loop he c =
     (if sha_count0 c AND 504 \<noteq> 448 then sha1_pad_loop he (SHA1Update he c [0]) else c)"
  by pat_completeness auto
termination
proof (relation "measure (\<lambda>(he, c). (120 - unat (drop_bit 3 (sha_count0 c) AND 63)) mod 64)")
  fix he and c :: sha1_ctx
  assume "sha_count0 c AND 504 \<noteq> 448"
  then have n: "unat (drop_bit 3 (sha_count0 c) AND 63) \<noteq> 56" by (simp add: count_504)
  define n where "n = unat (drop_bit 3 (sha_count0 c) AND 63)"
  have "n < 64" by (simp add: n_def buffer_index)
  moreover have "sha_count0 (SHA1Update he c [0]) = sha_count0 c + 8"
    by (simp add: SHA1Update_count0 add_low_def)
  moreover have "(120 - Suc n mod 64) mod 64 < (120 - n mod 64) mod 64"
    using pad_step [of n] n calculation(1) by (simp add: n_def)
  ultimately show "((he, SHA1Update he c [0]), he, c)
      \<in> measure (\<lambda>(he, c). (120 - unat (drop_bit 3 (sha_count0 c) AND 63)) mod 64)"
    using n by (simp add: count_index_step n_def)
qed simp

declare sha1_pad_loop.simps [simp del]

definition SHA1_DIGEST_SIZE :: nat where
  "SHA1_DIGEST_SIZE = 20"

text \<open>\<open>SHA1Final\<close> returns the digest and the wiped context.\<close>

definition SHA1Final :: "endian \<Rightarrow> sha1_ctx \<Rightarrow> byte list \<times> sha1_ctx" where
  "SHA1Final he c =
     (let finalcount = map (\<lambda>i. ucast (drop_bit ((3 - i mod 4) * 8) (if 4 \<le> i then sha_count0 c else sha_count1 c) AND 255)) [0..<8];
          c = SHA1Update he c [0x80];
          c = sha1_pad_loop he c;
          c = SHA1Update he c finalcount;
          digest = map (\<lambda>i. ucast (drop_bit ((3 - i mod 4) * 8) (sha_state c ! (i div 4)) AND 255)) [0..<SHA1_DIGEST_SIZE];
          c = c\<lparr>sha_buffer := replicate 64 0, sha_state := replicate 5 0, sha_count0 := 0, sha_count1 := 0\<rparr>
      in (digest, c\<lparr>sha_state := SHA1Transform he (sha_state c) (sha_buffer c)\<rparr>))"

subsection \<open>The reference: FIPS 180-4\<close>

definition Ch :: "u32 \<Rightarrow> u32 \<Rightarrow> u32 \<Rightarrow> u32" where
  "Ch x y z = (x AND y) XOR (NOT x AND z)"

definition Parity :: "u32 \<Rightarrow> u32 \<Rightarrow> u32 \<Rightarrow> u32" where
  "Parity x y z = x XOR y XOR z"

definition Maj :: "u32 \<Rightarrow> u32 \<Rightarrow> u32 \<Rightarrow> u32" where
  "Maj x y z = (x AND y) XOR (x AND z) XOR (y AND z)"

definition sha1_f :: "nat \<Rightarrow> u32 \<Rightarrow> u32 \<Rightarrow> u32 \<Rightarrow> u32" where
  "sha1_f t = (if t < 20 then Ch else if t < 40 then Parity else if t < 60 then Maj else Parity)"

definition sha1_K :: "nat \<Rightarrow> u32" where
  "sha1_K t = (if t < 20 then 0x5A827999 else if t < 40 then 0x6ED9EBA1
     else if t < 60 then 0x8F1BBCDC else 0xCA62C1D6)"

text \<open>The message schedule: eighty words, the first sixteen big-endian from the block.\<close>

fun sha1_W :: "byte list \<Rightarrow> nat \<Rightarrow> u32" where
  "sha1_W m t =
     (if t < 16 then GetBE32 (drop (4 * t) m)
      else rol (sha1_W m (t - 3) XOR sha1_W m (t - 8) XOR sha1_W m (t - 14) XOR sha1_W m (t - 16)) 1)"

declare sha1_W.simps [simp del]

fun fips_round :: "byte list \<Rightarrow> nat \<Rightarrow> sha1_regs \<Rightarrow> sha1_regs" where
  "fips_round m t (a, b, c, d, e) =
     (rol a 5 + sha1_f t b c d + e + sha1_K t + sha1_W m t, a, rol b 30, c, d)"

definition sha1_compress :: "u32 list \<Rightarrow> byte list \<Rightarrow> u32 list" where
  "sha1_compress H m =
     (let (a, b, c, d, e) = fold (fips_round m) [0..<80] (H ! 0, H ! 1, H ! 2, H ! 3, H ! 4)
      in [H ! 0 + a, H ! 1 + b, H ! 2 + c, H ! 3 + d, H ! 4 + e])"

definition sha1_H0 :: "u32 list" where
  "sha1_H0 = [0x67452301, 0xEFCDAB89, 0x98BADCFE, 0x10325476, 0xC3D2E1F0]"

definition sha1_pad :: "nat \<Rightarrow> byte list" where
  "sha1_pad n = [0x80] @ replicate (pad_zeros n) 0 @ be64 (of_nat (8 * n))"

definition sha1_spec :: "byte list \<Rightarrow> byte list" where
  "sha1_spec m = concat (map be32 (absorb sha1_compress sha1_H0 (m @ sha1_pad (length m))))"


subsection \<open>The rounds compute the reference\<close>

lemma ch_mux: "(w AND (x XOR y)) XOR y = Ch w x y"
  unfolding Ch_def by (rule bit_word_eqI) (auto simp: bit_simps)

lemma maj_or: "((w OR x) AND y) OR (w AND x) = Maj w x y"
  unfolding Maj_def by (rule bit_word_eqI) (auto simp: bit_simps)

text \<open>The byte swap of \<open>blk0\<close> on a little-endian host.\<close>

lemma swap_le32:
  assumes "length m = 4"
  shows "(rol (GetLE32 m) 24 AND 0xFF00FF00) OR (rol (GetLE32 m) 8 AND 0x00FF00FF) = GetBE32 m"
proof -
  obtain a b c d where m: "m = [a, b, c, d]"
    using assms by (auto simp: length_Suc_conv eval_nat_numeral)
  have masks: "(0xFF00FF00 :: u32) = push_bit 8 (mask 8) OR push_bit 24 (mask 8)"
    "(0x00FF00FF :: u32) = mask 8 OR push_bit 16 (mask 8)"
    by (simp_all add: mask_numeral push_bit_eq_mult)
  have high: "\<not> bit x k" if "8 \<le> k" for x :: byte and k
    using that bit_imp_le_length [of x k] by auto
  show ?thesis
    unfolding m masks GetLE32_def GetBE32_def Get8_def rol_def
    apply (rule bit_word_eqI)
    subgoal for n
      by (cases "n < 8"; cases "n < 16"; cases "n < 24") (auto simp: bit_simps high)
    done
qed

text \<open>
  After \<open>n\<close> rounds the workspace holds the last sixteen words of the schedule so far, each at its
  index modulo 16, and the words not yet used are still the raw ones.
\<close>

definition workspace_ok :: "endian \<Rightarrow> byte list \<Rightarrow> nat \<Rightarrow> u32 list \<Rightarrow> bool" where
  "workspace_ok he m n l \<longleftrightarrow>
     length l = 16 \<and>
     (\<forall>t < n. n \<le> t + 16 \<longrightarrow> l ! (t mod 16) = sha1_W m t) \<and>
     (\<forall>j < 16. n \<le> j \<longrightarrow> l ! j = value32 he (take 4 (drop (4 * j) m)))"

lemma workspace_0: "workspace_ok he m 0 (map (\<lambda>i. value32 he (take 4 (drop (4 * i) m))) [0..<16])"
  by (simp add: workspace_ok_def)

lemma blk0_ok:
  assumes "workspace_ok he m n l" and "n < 16" and "length m = 64"
  shows "fst (blk0 he l n) = sha1_W m n \<and> workspace_ok he m (Suc n) (snd (blk0 he l n))"
proof -
  have b: "length (take 4 (drop (4 * n) m)) = 4" using assms by simp
  have raw: "l ! n = value32 he (take 4 (drop (4 * n) m))" using assms by (auto simp: workspace_ok_def)
  have W: "sha1_W m n = GetBE32 (take 4 (drop (4 * n) m))"
    using assms by (simp add: sha1_W.simps GetBE32_def Get8_def)
  have fst: "fst (blk0 he l n) = sha1_W m n"
    using swap_le32 [OF b] by (simp add: blk0_def Let_def raw value32_def W)
  moreover have "snd (blk0 he l n) = l[n := sha1_W m n]"
    using fst by (metis (no_types, lifting) blk0_def fst_conv list_update_id snd_conv)
  moreover have "workspace_ok he m (Suc n) (l[n := sha1_W m n])"
    using assms by (auto simp: workspace_ok_def nth_list_update less_Suc_eq)
  ultimately show ?thesis by simp
qed

lemma blk_ok:
  assumes "workspace_ok he m n l" and "16 \<le> n"
  shows "fst (blk l n) = sha1_W m n \<and> workspace_ok he m (Suc n) (snd (blk l n))"
proof -
  have at: "l ! (t mod 16) = sha1_W m t" if "t < n" "n \<le> t + 16" for t
    using assms that by (auto simp: workspace_ok_def)
  have ix: "(n + 13) mod 16 = (n - 3) mod 16" "(n + 8) mod 16 = (n - 8) mod 16"
    "(n + 2) mod 16 = (n - 14) mod 16" "n mod 16 = (n - 16) mod 16"
    using assms(2) mod_add_self2 [of "n - 3" 16] mod_add_self2 [of "n - 8" 16] mod_add_self2 [of "n - 14" 16]
      mod_add_self2 [of "n - 16" 16]
    by (simp_all add: add.commute del: mod_add_self2 mod_add_self1)
  have v: "fst (blk l n) = sha1_W m n"
    unfolding blk_def Let_def ix fst_conv using assms(2) by (subst sha1_W.simps) (simp add: at)
  have s: "snd (blk l n) = l[n mod 16 := sha1_W m n]"
    using v by (simp add: blk_def Let_def)
  have "n mod 16 \<noteq> t mod 16" if "t < n" "n \<le> 15 + t" for t
  proof
    assume "n mod 16 = t mod 16"
    then have "16 dvd n - t" using that mod_eq_dvd_iff_nat [of t n 16] by simp
    then show False using that nat_dvd_not_less [of "n - t" 16] by simp
  qed
  then have "workspace_ok he m (Suc n) (l[n mod 16 := sha1_W m n])"
    using assms by (auto simp: workspace_ok_def nth_list_update less_Suc_eq)
  then show ?thesis using v s by simp
qed

lemma sha1_round_fips:
  assumes "workspace_ok he m n l" and "length m = 64"
  shows "\<exists>l'. sha1_round he n (l, r) = (l', fips_round m n r) \<and> workspace_ok he m (Suc n) l'"
proof -
  obtain a b c d e where r: "r = (a, b, c, d, e)" by (metis prod_cases5)
  show ?thesis
  proof (cases "n < 16")
    case True
    obtain l' where "blk0 he l n = (sha1_W m n, l')" "workspace_ok he m (Suc n) l'"
      using blk0_ok [OF assms(1) True assms(2)] by (metis prod.collapse)
    then show ?thesis
      using True by (simp add: r sha1_round_def sha1_f_def sha1_K_def ch_mux add.assoc add.commute add.left_commute)
  next
    case False
    then obtain l' where "blk l n = (sha1_W m n, l')" "workspace_ok he m (Suc n) l'"
      using blk_ok [OF assms(1)] by (metis not_le prod.collapse)
    then show ?thesis
      using False by (simp add: r sha1_round_def sha1_f_def sha1_K_def ch_mux maj_or Parity_def
          add.assoc add.commute add.left_commute)
  qed
qed

lemma sha1_rounds_fips:
  assumes "length m = 64"
  shows "\<exists>l'. fold (sha1_round he) [0..<n]
      (map (\<lambda>i. value32 he (take 4 (drop (4 * i) m))) [0..<16], r) = (l', fold (fips_round m) [0..<n] r)
    \<and> workspace_ok he m n l'"
proof (induction n)
  case 0
  show ?case using workspace_0 by simp
next
  case (Suc n)
  then show ?case using sha1_round_fips [OF _ assms] by fastforce
qed

lemma SHA1Transform_compress:
  assumes "length m = 64"
  shows "SHA1Transform he H m = sha1_compress H m"
  using sha1_rounds_fips [OF assms, of he 80 "(H ! 0, H ! 1, H ! 2, H ! 3, H ! 4)"]
  by (auto simp: SHA1Transform_def sha1_compress_def)

subsection \<open>Streaming and padding\<close>

definition sha1_inv :: "sha1_ctx \<Rightarrow> byte list \<Rightarrow> bool" where
  "sha1_inv c m = hash_inv sha1_compress sha1_H0 m (sha_state c) (sha_count0 c) (sha_count1 c) (sha_buffer c)"

lemma SHA1Init_inv: "length (sha_buffer c) = 64 \<Longrightarrow> sha1_inv (SHA1Init c) []"
  by (simp add: sha1_inv_def SHA1Init_def hash_inv_init flip: sha1_H0_def)

lemma SHA1Update_inv:
  assumes "sha1_inv c m"
  shows "sha1_inv (SHA1Update he c data) (m @ data)"
proof (cases "length m mod 64 + length data > 63")
  case False
  then show ?thesis
    using assms hash_inv_short [OF assms [unfolded sha1_inv_def], of data]
    by (simp add: sha1_inv_def SHA1Update_def Let_def hash_inv_index [OF assms [unfolded sha1_inv_def]])
next
  case True
  note inv = assms [unfolded sha1_inv_def]
  define i where "i = 64 - length m mod 64"
  have i: "i \<le> length data" using True by (simp add: i_def)
  have long: "64 \<le> length m mod 64 + length data" using True by simp
  note fill = hash_inv_fill [OF inv long, folded i_def]
  have buf: "length (residue m @ take i data) = 64"
    using i by (simp add: length_residue) (simp add: i_def)
  define B where "B = block_loop (SHA1Transform he)
    (SHA1Transform he (sha_state c) (residue m @ take i data)) data i"
  have B: "fst B = absorb sha1_compress sha1_H0 (m @ data)" "drop (snd B) data = residue (m @ data)"
    using block_loop_absorb [OF i, of sha1_compress "sha1_compress (sha_state c) (residue m @ take i data)"]
      block_loop_cong [of "SHA1Transform he" sha1_compress, OF SHA1Transform_compress]
    by (simp_all add: B_def fill(2,3) SHA1Transform_compress [OF buf])
  have "SHA1Update he c data = c\<lparr>sha_count0 := add_low (sha_count0 c) (length data),
      sha_count1 := add_high (sha_count0 c) (sha_count1 c) (length data),
      sha_state := fst B, sha_buffer := memcpy_at (residue m @ take i data) 0 (drop (snd B) data)\<rparr>"
    using True by (simp add: SHA1Update_def Let_def hash_inv_index [OF inv] fill(1) split_beta B_def
        flip: i_def)
  then show ?thesis
    using hash_inv_long [OF inv B buf] by (simp add: sha1_inv_def)
qed

lemma SHA1Updates_inv:
  "sha1_inv c m \<Longrightarrow> sha1_inv (fold (\<lambda>d c. SHA1Update he c d) ds c) (m @ concat ds)"
proof (induction ds arbitrary: c m)
  case (Cons d ds)
  then show ?case using Cons.IH [OF SHA1Update_inv [OF Cons.prems]] by simp
qed simp

lemma sha1_pad_loop_inv:
  "sha1_inv c m \<Longrightarrow> sha1_inv (sha1_pad_loop he c) (m @ replicate ((120 - length m mod 64) mod 64) 0)"
proof (induction he c arbitrary: m rule: sha1_pad_loop.induct)
  case (1 he c)
  have idx: "unat (drop_bit 3 (sha_count0 c) AND 63) = length m mod 64"
    using "1.prems" by (auto simp: sha1_inv_def intro: hash_inv_index)
  show ?case
  proof (cases "length m mod 64 = 56")
    case True
    then show ?thesis using "1.prems" idx by (simp add: sha1_pad_loop.simps [of he c] count_504)
  next
    case False
    then have loop: "sha_count0 c AND 504 \<noteq> 448" using idx by (simp add: count_504)
    have "sha1_inv (SHA1Update he c [0]) (m @ [0])" by (rule SHA1Update_inv [OF "1.prems"])
    from "1.IH" [OF loop this] show ?thesis
      using loop pad_step [OF False] by (simp add: sha1_pad_loop.simps [of he c])
  qed
qed

lemma length_absorb_sha1:
  "length s = 5 \<Longrightarrow> length (absorb sha1_compress s m) = 5"
proof (induction sha1_compress s m rule: absorb.induct)
  case (1 s m)
  then show ?case
    by (subst absorb.simps) (simp add: sha1_compress_def split: prod.split)
qed

lemma sha1_digest_bytes:
  assumes "length st = 5"
  shows "map (\<lambda>i. ucast (drop_bit ((3 - i mod 4) * 8) (st ! (i div 4)) AND 255)) [0..<20] = concat (map be32 st)"
proof -
  obtain a b c d e where st: "st = [a, b, c, d, e]"
    using assms by (auto simp: length_Suc_conv eval_nat_numeral)
  have "[0..<20] = [0, 1, 2, 3, 4, 5, 6, 7, 8, 9, 10, 11, 12, 13, 14, 15, 16, 17, 18, 19 :: nat]" by code_simp
  then show ?thesis by (simp add: st ucast_and_255 be32_bytes)
qed

lemma sha1_finalcount:
  assumes "count_bits lo hi n"
  shows "map (\<lambda>i. ucast (drop_bit ((3 - i mod 4) * 8) (if 4 \<le> i then lo else hi) AND 255)) [0..<8]
    = be64 (of_nat (8 * n))"
proof -
  have "[0..<8] = [0, 1, 2, 3, 4, 5, 6, 7 :: nat]" by code_simp
  then show ?thesis
    unfolding count_bits_be64 [OF assms] by (simp add: ucast_and_255 be32_bytes)
qed

lemma SHA1Final_digest:
  assumes "sha1_inv c m"
  shows "fst (SHA1Final he c) = sha1_spec m"
proof -
  have cb: "count_bits (sha_count0 c) (sha_count1 c) (length m)"
    using assms by (simp add: sha1_inv_def hash_inv_def)
  define c1 where "c1 = sha1_pad_loop he (SHA1Update he c [0x80])"
  define bits where "bits = be64 (of_nat (8 * length m))"
  define c2 where "c2 = SHA1Update he c1 bits"
  have "sha1_inv c1 ((m @ [0x80]) @ replicate (pad_zeros (length m)) 0)"
    using sha1_pad_loop_inv [OF SHA1Update_inv [OF assms], of he he "[0x80]"]
    by (simp add: c1_def pad_zeros_Suc)
  from SHA1Update_inv [OF this] have "sha1_inv c2 (m @ sha1_pad (length m))"
    by (simp add: c2_def sha1_pad_def bits_def)
  then have st: "sha_state c2 = absorb sha1_compress sha1_H0 (m @ sha1_pad (length m))"
    by (simp add: sha1_inv_def hash_inv_def)
  moreover have "length (sha_state c2) = 5"
    unfolding st by (rule length_absorb_sha1) (simp add: sha1_H0_def)
  moreover have "fst (SHA1Final he c) =
      map (\<lambda>i. ucast (drop_bit ((3 - i mod 4) * 8) (sha_state c2 ! (i div 4)) AND 255)) [0..<20]"
    by (simp add: SHA1Final_def Let_def sha1_finalcount [OF cb, folded bits_def] SHA1_DIGEST_SIZE_def
        flip: c1_def c2_def)
  ultimately show ?thesis by (simp add: sha1_digest_bytes sha1_spec_def)
qed

text \<open>
  C21: SHA-1 over any sequence of \<open>SHA1Update\<close> calls, on a host of either byte order, is the
  FIPS 180-4 digest of the concatenated input: how the input is cut into calls, the
  sixteen-word circular schedule and the byte-wise padding loop make no difference.
\<close>

theorem sha1_streaming_correct:
  assumes "length (sha_buffer c) = 64"
  shows "fst (SHA1Final he (fold (\<lambda>d c. SHA1Update he c d) ds (SHA1Init c))) = sha1_spec (concat ds)"
  using SHA1Final_digest [OF SHA1Updates_inv [OF SHA1Init_inv [OF assms]]] by simp

definition sha1_zero_ctx :: sha1_ctx where
  "sha1_zero_ctx = \<lparr>sha_state = replicate 5 0, sha_count0 = 0, sha_count1 = 0, sha_buffer = replicate 64 0\<rparr>"

theorem sha1_streaming_correct_witness:
  "fst (SHA1Final LittleEndianHost (fold (\<lambda>d c. SHA1Update LittleEndianHost c d) [[0x61], [0x62, 0x63]] (SHA1Init sha1_zero_ctx)))
     = sha1_spec [0x61, 0x62, 0x63]"
  using sha1_streaming_correct [of sha1_zero_ctx LittleEndianHost "[[0x61], [0x62, 0x63]]"]
  by (simp add: sha1_zero_ctx_def)

end
