(* ===== verification/Md5.thy ===== *)
theory Md5
  imports BlockHash
begin

unbundle bit_operations_syntax

text \<open>
  MD5 as \<open>talk/base/md5.cc\<close> computes it, on a host of either byte order, and the proof that it is
  the function of RFC 1321.  The storage of \<open>in[16]\<close>, which the code also accesses as 64 bytes,
  is the byte list \<open>md_in\<close>; \<open>words_of\<close> and \<open>bytes_of\<close> are its word view on a given host.
\<close>

record md5_ctx =
  md_buf :: "u32 list"
  md_bits0 :: u32
  md_bits1 :: u32
  md_in :: "byte list"

definition words_of :: "endian \<Rightarrow> byte list \<Rightarrow> u32 list" where
  "words_of he bs = map (\<lambda>i. value32 he (take 4 (drop (4 * i) bs))) [0..<16]"

definition bytes_of :: "endian \<Rightarrow> u32 list \<Rightarrow> byte list" where
  "bytes_of he ws = concat (map (image32 he) ws)"

definition ByteReverse :: "endian \<Rightarrow> u32 list \<Rightarrow> nat \<Rightarrow> u32 list" where
  "ByteReverse he buf len =
     (if IsHostBigEndian he
      then map (\<lambda>w. GetLE32 (image32 he w)) (take len buf) @ drop len buf
      else buf)"

definition MD5Init :: "md5_ctx \<Rightarrow> md5_ctx" where
  "MD5Init c = c\<lparr>md_buf := [0x67452301, 0xefcdab89, 0x98badcfe, 0x10325476],
     md_bits0 := 0, md_bits1 := 0\<rparr>"

definition F1 :: "u32 \<Rightarrow> u32 \<Rightarrow> u32 \<Rightarrow> u32" where
  "F1 x y z = z XOR (x AND (y XOR z))"

definition F2 :: "u32 \<Rightarrow> u32 \<Rightarrow> u32 \<Rightarrow> u32" where
  "F2 x y z = F1 z x y"

definition F3 :: "u32 \<Rightarrow> u32 \<Rightarrow> u32 \<Rightarrow> u32" where
  "F3 x y z = x XOR y XOR z"

definition F4 :: "u32 \<Rightarrow> u32 \<Rightarrow> u32 \<Rightarrow> u32" where
  "F4 x y z = y XOR (x OR NOT z)"

text \<open>
  The 64 calls of \<open>MD5STEP\<close> in the order of the source, each with the word of \<open>in\<close> it reads, its
  constant and its shift.  Every call names the registers rotated by one against the call before.
\<close>

definition md5_round1 :: "(nat \<times> u32 \<times> nat) list" where
  "md5_round1 =
    [(0, 0xd76aa478, 7), (1, 0xe8c7b756, 12), (2, 0x242070db, 17), (3, 0xc1bdceee, 22),
     (4, 0xf57c0faf, 7), (5, 0x4787c62a, 12), (6, 0xa8304613, 17), (7, 0xfd469501, 22),
     (8, 0x698098d8, 7), (9, 0x8b44f7af, 12), (10, 0xffff5bb1, 17), (11, 0x895cd7be, 22),
     (12, 0x6b901122, 7), (13, 0xfd987193, 12), (14, 0xa679438e, 17), (15, 0x49b40821, 22)]"

definition md5_round2 :: "(nat \<times> u32 \<times> nat) list" where
  "md5_round2 =
    [(1, 0xf61e2562, 5), (6, 0xc040b340, 9), (11, 0x265e5a51, 14), (0, 0xe9b6c7aa, 20),
     (5, 0xd62f105d, 5), (10, 0x02441453, 9), (15, 0xd8a1e681, 14), (4, 0xe7d3fbc8, 20),
     (9, 0x21e1cde6, 5), (14, 0xc33707d6, 9), (3, 0xf4d50d87, 14), (8, 0x455a14ed, 20),
     (13, 0xa9e3e905, 5), (2, 0xfcefa3f8, 9), (7, 0x676f02d9, 14), (12, 0x8d2a4c8a, 20)]"

definition md5_round3 :: "(nat \<times> u32 \<times> nat) list" where
  "md5_round3 =
    [(5, 0xfffa3942, 4), (8, 0x8771f681, 11), (11, 0x6d9d6122, 16), (14, 0xfde5380c, 23),
     (1, 0xa4beea44, 4), (4, 0x4bdecfa9, 11), (7, 0xf6bb4b60, 16), (10, 0xbebfbc70, 23),
     (13, 0x289b7ec6, 4), (0, 0xeaa127fa, 11), (3, 0xd4ef3085, 16), (6, 0x04881d05, 23),
     (9, 0xd9d4d039, 4), (12, 0xe6db99e5, 11), (15, 0x1fa27cf8, 16), (2, 0xc4ac5665, 23)]"

definition md5_round4 :: "(nat \<times> u32 \<times> nat) list" where
  "md5_round4 =
    [(0, 0xf4292244, 6), (7, 0x432aff97, 10), (14, 0xab9423a7, 15), (5, 0xfc93a039, 21),
     (12, 0x655b59c3, 6), (3, 0x8f0ccc92, 10), (10, 0xffeff47d, 15), (1, 0x85845dd1, 21),
     (8, 0x6fa87e4f, 6), (15, 0xfe2ce6e0, 10), (6, 0xa3014314, 15), (13, 0x4e0811a1, 21),
     (4, 0xf7537e82, 6), (11, 0xbd3af235, 10), (2, 0x2ad7d2bb, 15), (9, 0xeb86d391, 21)]"

type_synonym md5_regs = "u32 \<times> u32 \<times> u32 \<times> u32"

text \<open>One step, with the rotation of the register names for the next one.\<close>

fun MD5STEP :: "(u32 \<Rightarrow> u32 \<Rightarrow> u32 \<Rightarrow> u32) \<Rightarrow> u32 list \<Rightarrow> nat \<times> u32 \<times> nat \<Rightarrow> md5_regs \<Rightarrow> md5_regs" where
  "MD5STEP f inp (k, t, s) (w, x, y, z) =
     (let w = w + (f x y z + (inp ! k + t));
          w = push_bit s w OR drop_bit (32 - s) w;
          w = w + x
      in (z, w, x, y))"

definition MD5Transform :: "u32 list \<Rightarrow> u32 list \<Rightarrow> u32 list" where
  "MD5Transform buf inp =
     (let r = (buf ! 0, buf ! 1, buf ! 2, buf ! 3);
          r = fold (MD5STEP F1 inp) md5_round1 r;
          r = fold (MD5STEP F2 inp) md5_round2 r;
          r = fold (MD5STEP F3 inp) md5_round3 r;
          (a, b, c, d) = fold (MD5STEP F4 inp) md5_round4 r
      in [buf ! 0 + a, buf ! 1 + b, buf ! 2 + c, buf ! 3 + d])"

text \<open>\<open>ByteReverse(ctx->in, 16); MD5Transform(ctx->buf, ctx->in)\<close>.\<close>

definition md5_block :: "endian \<Rightarrow> md5_ctx \<Rightarrow> md5_ctx" where
  "md5_block he c =
     (let inp = ByteReverse he (words_of he (md_in c)) 16
      in c\<lparr>md_in := bytes_of he inp, md_buf := MD5Transform (md_buf c) inp\<rparr>)"

text \<open>The loop over the 64-byte chunks returns the context and the bytes that are left.\<close>

function md5_loop :: "endian \<Rightarrow> md5_ctx \<Rightarrow> byte list \<Rightarrow> md5_ctx \<times> byte list" where
  "md5_loop he c buf =
     (if length buf \<ge> 64
      then md5_loop he (md5_block he (c\<lparr>md_in := memcpy_at (md_in c) 0 (take 64 buf)\<rparr>)) (drop 64 buf)
      else (c, buf))"
  by pat_completeness auto
termination
  by (relation "measure (\<lambda>(he, c, buf). length buf)") auto

declare md5_loop.simps [simp del]

definition MD5Update :: "endian \<Rightarrow> md5_ctx \<Rightarrow> byte list \<Rightarrow> md5_ctx" where
  "MD5Update he c buf =
     (let len = length buf;
          t = md_bits0 c;
          bits0 = t + push_bit 3 (of_nat len);
          bits1 = (if bits0 < t then md_bits1 c + 1 else md_bits1 c) + of_nat (len div 2 ^ 29);
          c = c\<lparr>md_bits0 := bits0, md_bits1 := bits1\<rparr>;
          t = unat (drop_bit 3 t AND 0x3f);
          rest = (\<lambda>c buf. case md5_loop he c buf of (c, buf) \<Rightarrow> c\<lparr>md_in := memcpy_at (md_in c) 0 buf\<rparr>)
      in if t \<noteq> 0 then
           if len < 64 - t then c\<lparr>md_in := memcpy_at (md_in c) t buf\<rparr>
           else rest (md5_block he (c\<lparr>md_in := memcpy_at (md_in c) t (take (64 - t) buf)\<rparr>)) (drop (64 - t) buf)
         else rest c buf)"

text \<open>\<open>MD5Final\<close> returns the digest and the wiped context.\<close>

definition MD5Final :: "endian \<Rightarrow> md5_ctx \<Rightarrow> byte list \<times> md5_ctx" where
  "MD5Final he c =
     (let count = unat (drop_bit 3 (md_bits0 c) AND 0x3F);
          c = c\<lparr>md_in := (md_in c)[count := 0x80]\<rparr>;
          p = count + 1;
          count = 64 - 1 - count;
          c = (if count < 8
               then let c = md5_block he (c\<lparr>md_in := memcpy_at (md_in c) p (replicate count 0)\<rparr>)
                    in c\<lparr>md_in := memcpy_at (md_in c) 0 (replicate 56 0)\<rparr>
               else c\<lparr>md_in := memcpy_at (md_in c) p (replicate (count - 8) 0)\<rparr>);
          inp = (ByteReverse he (words_of he (md_in c)) 14)[14 := md_bits0 c, 15 := md_bits1 c];
          buf = ByteReverse he (MD5Transform (md_buf c) inp) 4
      in (bytes_of he buf,
          \<lparr>md_buf = replicate 4 0, md_bits0 = 0, md_bits1 = 0, md_in = replicate 64 0\<rparr>))"


subsection \<open>The reference: RFC 1321\<close>

definition rfc_F :: "nat \<Rightarrow> u32 \<Rightarrow> u32 \<Rightarrow> u32 \<Rightarrow> u32" where
  "rfc_F r x y z =
     (if r = 0 then (x AND y) OR (NOT x AND z)
      else if r = 1 then (x AND z) OR (y AND NOT z)
      else if r = 2 then x XOR y XOR z
      else y XOR (x OR NOT z))"

definition rfc_k :: "nat \<Rightarrow> nat \<Rightarrow> nat" where
  "rfc_k r i = (if r = 0 then i else if r = 1 then 5 * i + 1 else if r = 2 then 3 * i + 5 else 7 * i) mod 16"

definition rfc_s :: "nat \<Rightarrow> nat \<Rightarrow> nat" where
  "rfc_s r i =
     (if r = 0 then [7, 12, 17, 22] else if r = 1 then [5, 9, 14, 20]
      else if r = 2 then [4, 11, 16, 23] else [6, 10, 15, 21]) ! (i mod 4)"

text \<open>The table \<open>T[1..64]\<close>, the integer parts of \<open>2^32\<close> times the sine of the index.\<close>

definition rfc_T :: "u32 list" where
  "rfc_T =
    [0xd76aa478, 0xe8c7b756, 0x242070db, 0xc1bdceee, 0xf57c0faf, 0x4787c62a, 0xa8304613, 0xfd469501,
     0x698098d8, 0x8b44f7af, 0xffff5bb1, 0x895cd7be, 0x6b901122, 0xfd987193, 0xa679438e, 0x49b40821,
     0xf61e2562, 0xc040b340, 0x265e5a51, 0xe9b6c7aa, 0xd62f105d, 0x02441453, 0xd8a1e681, 0xe7d3fbc8,
     0x21e1cde6, 0xc33707d6, 0xf4d50d87, 0x455a14ed, 0xa9e3e905, 0xfcefa3f8, 0x676f02d9, 0x8d2a4c8a,
     0xfffa3942, 0x8771f681, 0x6d9d6122, 0xfde5380c, 0xa4beea44, 0x4bdecfa9, 0xf6bb4b60, 0xbebfbc70,
     0x289b7ec6, 0xeaa127fa, 0xd4ef3085, 0x04881d05, 0xd9d4d039, 0xe6db99e5, 0x1fa27cf8, 0xc4ac5665,
     0xf4292244, 0x432aff97, 0xab9423a7, 0xfc93a039, 0x655b59c3, 0x8f0ccc92, 0xffeff47d, 0x85845dd1,
     0x6fa87e4f, 0xfe2ce6e0, 0xa3014314, 0x4e0811a1, 0xf7537e82, 0xbd3af235, 0x2ad7d2bb, 0xeb86d391]"

fun rfc_step :: "byte list \<Rightarrow> nat \<Rightarrow> md5_regs \<Rightarrow> md5_regs" where
  "rfc_step m i (a, b, c, d) =
     (let r = i div 16;
          v = a + rfc_F r b c d + GetLE32 (take 4 (drop (4 * rfc_k r (i mod 16)) m)) + rfc_T ! i;
          s = rfc_s r (i mod 16)
      in (d, b + (push_bit s v OR drop_bit (32 - s) v), b, c))"

definition md5_compress :: "u32 list \<Rightarrow> byte list \<Rightarrow> u32 list" where
  "md5_compress H m =
     (let (a, b, c, d) = fold (rfc_step m) [0..<64] (H ! 0, H ! 1, H ! 2, H ! 3)
      in [H ! 0 + a, H ! 1 + b, H ! 2 + c, H ! 3 + d])"

definition md5_H0 :: "u32 list" where
  "md5_H0 = [0x67452301, 0xefcdab89, 0x98badcfe, 0x10325476]"

definition md5_pad :: "nat \<Rightarrow> byte list" where
  "md5_pad n = [0x80] @ replicate (pad_zeros n) 0 @ rev (be64 (of_nat (8 * n)))"

definition md5_spec :: "byte list \<Rightarrow> byte list" where
  "md5_spec m = concat (map (\<lambda>w. rev (be32 w)) (absorb md5_compress md5_H0 (m @ md5_pad (length m))))"


subsection \<open>The steps compute the reference\<close>

definition md5_row :: "nat \<Rightarrow> nat \<times> u32 \<times> nat" where
  "md5_row i = (rfc_k (i div 16) (i mod 16), rfc_T ! i, rfc_s (i div 16) (i mod 16))"

lemma md5_tables:
  "md5_round1 = map md5_row [0..<16]" "md5_round2 = map md5_row [16..<32]"
  "md5_round3 = map md5_row [32..<48]" "md5_round4 = map md5_row [48..<64]"
  by code_simp+

lemma rfc_F_code: "rfc_F 0 = F1" "rfc_F 1 = F2" "rfc_F 2 = F3" "rfc_F 3 = F4"
  by (auto simp: fun_eq_iff rfc_F_def F1_def F2_def F3_def F4_def intro!: bit_word_eqI)
    (auto simp: bit_simps)

lemma MD5STEP_rfc:
  assumes "inp = map (\<lambda>i. GetLE32 (take 4 (drop (4 * i) m))) [0..<16]" and "rfc_F (i div 16) = f"
  shows "MD5STEP f inp (md5_row i) r = rfc_step m i r"
proof -
  have k: "rfc_k (i div 16) (i mod 16) < 16" by (simp add: rfc_k_def)
  then have "inp ! rfc_k (i div 16) (i mod 16) = GetLE32 (take 4 (drop (4 * rfc_k (i div 16) (i mod 16)) m))"
    by (simp add: assms(1))
  then show ?thesis
    by (cases r) (simp add: md5_row_def Let_def assms(2) add.assoc add.commute add.left_commute)
qed

lemma MD5STEPs_rfc:
  assumes "inp = map (\<lambda>i. GetLE32 (take 4 (drop (4 * i) m))) [0..<16]"
    and "rfc_F r = f" and "\<And>i. a \<le> i \<Longrightarrow> i < b \<Longrightarrow> i div 16 = r"
  shows "fold (MD5STEP f inp) (map md5_row [a..<b]) = fold (rfc_step m) [a..<b]"
  unfolding fold_map using assms(2,3)
  by (intro ext fold_cong refl) (auto simp: fun_eq_iff MD5STEP_rfc [OF assms(1)])

lemma MD5Transform_compress:
  assumes "inp = map (\<lambda>i. GetLE32 (take 4 (drop (4 * i) m))) [0..<16]"
  shows "MD5Transform H inp = md5_compress H m"
proof -
  have u: "[0..<64] = [0..<16] @ [16..<32] @ [32..<48] @ [48..<64 :: nat]"
    by code_simp
  have q: "i div 16 = r" if "16 * r \<le> i" "i < 16 * r + 16" for i r :: nat
    using that by (simp add: div_nat_eqI)
  have r: "fold (MD5STEP F1 inp) md5_round1 = fold (rfc_step m) [0..<16]"
    "fold (MD5STEP F2 inp) md5_round2 = fold (rfc_step m) [16..<32]"
    "fold (MD5STEP F3 inp) md5_round3 = fold (rfc_step m) [32..<48]"
    "fold (MD5STEP F4 inp) md5_round4 = fold (rfc_step m) [48..<64]"
    unfolding md5_tables
    using MD5STEPs_rfc [OF assms rfc_F_code(1), of 0 16] MD5STEPs_rfc [OF assms rfc_F_code(2), of 16 32]
      MD5STEPs_rfc [OF assms rfc_F_code(3), of 32 48] MD5STEPs_rfc [OF assms rfc_F_code(4), of 48 64]
      q [of 0] q [of 1] q [of 2] q [of 3] by simp_all
  show ?thesis
    unfolding MD5Transform_def md5_compress_def u fold_append r Let_def by simp
qed

lemma length_bytes_of [simp]: "length (bytes_of he ws) = 4 * length ws"
  by (induction ws) (simp_all add: bytes_of_def)

lemma length_ByteReverse [simp]: "length (ByteReverse he ws n) = length ws"
  by (auto simp: ByteReverse_def)

lemma length_words_of [simp]: "length (words_of he bs) = 16"
  by (simp add: words_of_def)

text \<open>On either host, the words that reach the transform are the little-endian words of the bytes.\<close>

lemma ByteReverse_words:
  assumes "length bs = 64" and "i < n" and "n \<le> 16"
  shows "ByteReverse he (words_of he bs) n ! i = GetLE32 (take 4 (drop (4 * i) bs))"
proof -
  have "words_of he bs ! i = value32 he (take 4 (drop (4 * i) bs))"
    using assms by (simp add: words_of_def)
  then show ?thesis
    using assms by (cases "IsHostBigEndian he")
      (simp add: ByteReverse_def nth_append image32_value32, simp add: ByteReverse_def value32_def)
qed

lemma ByteReverse_words_all:
  "length bs = 64 \<Longrightarrow>
     ByteReverse he (words_of he bs) 16 = map (\<lambda>i. GetLE32 (take 4 (drop (4 * i) bs))) [0..<16]"
  by (rule nth_equalityI) (simp_all add: ByteReverse_words)

lemma md5_block_compress:
  assumes "length (md_in c) = 64"
  shows "md_buf (md5_block he c) = md5_compress (md_buf c) (md_in c)"
    and "length (md_in (md5_block he c)) = 64"
    and "md_bits0 (md5_block he c) = md_bits0 c" and "md_bits1 (md5_block he c) = md_bits1 c"
  using assms MD5Transform_compress [OF ByteReverse_words_all]
  by (simp_all add: md5_block_def Let_def)

lemma md5_digest_bytes:
  assumes "length ws = 4"
  shows "bytes_of he (ByteReverse he ws 4) = concat (map (\<lambda>w. rev (be32 w)) ws)"
proof -
  have "image32 he (GetLE32 (image32 he w)) = rev (be32 w)" if "IsHostBigEndian he" for w
    using that by (simp add: image32_def SetBE32_be GetLE32_rev be32_GetBE32)
  then show ?thesis
    using assms by (auto simp: bytes_of_def ByteReverse_def image32_def SetLE32_rev cong: map_cong)
qed


subsection \<open>Streaming\<close>

definition md5_inv :: "md5_ctx \<Rightarrow> byte list \<Rightarrow> bool" where
  "md5_inv c m = hash_inv md5_compress md5_H0 m (md_buf c) (md_bits0 c) (md_bits1 c) (md_in c)"

lemma MD5Init_inv: "length (md_in c) = 64 \<Longrightarrow> md5_inv (MD5Init c) []"
  by (simp add: md5_inv_def MD5Init_def hash_inv_init flip: md5_H0_def)

lemma md5_loop_absorb:
  assumes "length (md_in c) = 64"
  shows "md_buf (fst (md5_loop he c buf)) = absorb md5_compress (md_buf c) buf \<and>
    snd (md5_loop he c buf) = residue buf \<and>
    length (md_in (fst (md5_loop he c buf))) = 64 \<and>
    md_bits0 (fst (md5_loop he c buf)) = md_bits0 c \<and>
    md_bits1 (fst (md5_loop he c buf)) = md_bits1 c"
  using assms
proof (induction he c buf rule: md5_loop.induct)
  case (1 he c buf)
  show ?case
  proof (cases "64 \<le> length buf")
    case True
    have b: "length (take 64 buf) = 64" and e: "buf = take 64 buf @ drop 64 buf" using True by simp_all
    define c1 where "c1 = c\<lparr>md_in := memcpy_at (md_in c) 0 (take 64 buf)\<rparr>"
    have c1: "md_in c1 = take 64 buf" "md_buf c1 = md_buf c" "md_bits0 c1 = md_bits0 c" "md_bits1 c1 = md_bits1 c"
      using True "1.prems" by (simp_all add: c1_def memcpy_at_def)
    have blk: "length (md_in c1) = 64" using c1 b by simp
    note IH = "1.IH" [OF True, folded c1_def, OF md5_block_compress(2) [OF blk]]
    have loop: "md5_loop he c buf = md5_loop he (md5_block he c1) (drop 64 buf)"
      using True by (simp add: md5_loop.simps [of he c buf] c1_def)
    have "absorb md5_compress (md_buf c) buf = absorb md5_compress (md5_compress (md_buf c) (take 64 buf)) (drop 64 buf)"
      "residue buf = residue (drop 64 buf)"
      using absorb_block [OF b] residue_block [OF b] e by metis+
    then show ?thesis using IH by (simp add: loop md5_block_compress [OF blk] c1)
  next
    case False
    then show ?thesis using "1.prems" by (simp add: md5_loop.simps [of he c buf])
  qed
qed

lemma md5_count:
  "lo + push_bit 3 (of_nat len) = add_low lo len"
  "(if add_low lo len < lo then hi + 1 else hi) + of_nat (len div 2 ^ 29) = add_high lo hi len"
  unfolding add_high_def Let_def add_low_carry_old by (simp_all add: add_low_def push_bit_eq_mult mult.commute)

lemma MD5Update_inv:
  assumes "md5_inv c m"
  shows "md5_inv (MD5Update he c data) (m @ data)"
proof -
  note inv = assms [unfolded md5_inv_def]
  define t where "t = length m mod 64"
  define c1 where "c1 = c\<lparr>md_bits0 := add_low (md_bits0 c) (length data),
    md_bits1 := add_high (md_bits0 c) (md_bits1 c) (length data)\<rparr>"
  define rest where "rest = (\<lambda>c buf. case md5_loop he c buf of (c, buf) \<Rightarrow> c\<lparr>md_in := memcpy_at (md_in c) 0 buf\<rparr>)"
  have upd: "MD5Update he c data =
      (if t \<noteq> 0 then
         if length data < 64 - t then c1\<lparr>md_in := memcpy_at (md_in c1) t data\<rparr>
         else rest (md5_block he (c1\<lparr>md_in := memcpy_at (md_in c1) t (take (64 - t) data)\<rparr>)) (drop (64 - t) data)
       else rest c1 data)"
    unfolding MD5Update_def Let_def md5_count c1_def rest_def t_def hash_inv_index [OF inv] by simp
  have c1: "md_in c1 = md_in c" "md_buf c1 = md_buf c" "md_bits0 c1 = add_low (md_bits0 c) (length data)"
    "md_bits1 c1 = add_high (md_bits0 c) (md_bits1 c) (length data)"
    by (simp_all add: c1_def)
  have len: "length (md_in c) = 64" using inv by (simp add: hash_inv_def)
  have rest_ok: "hash_inv md5_compress md5_H0 (m @ data) (md_buf (rest c' buf)) (md_bits0 (rest c' buf))
      (md_bits1 (rest c' buf)) (md_in (rest c' buf))"
    if "length (md_in c') = 64" "md_bits0 c' = md_bits0 c1" "md_bits1 c' = md_bits1 c1"
      and a: "absorb md5_compress md5_H0 (m @ data) = absorb md5_compress (md_buf c') buf"
      "residue (m @ data) = residue buf" for c' buf
  proof -
    obtain c2 b2 where l: "md5_loop he c' buf = (c2, b2)" by fastforce
    then have "md_buf c2 = absorb md5_compress md5_H0 (m @ data)" "b2 = residue (m @ data)"
      "length (md_in c2) = 64" "md_bits0 c2 = md_bits0 c1" "md_bits1 c2 = md_bits1 c1"
      using md5_loop_absorb [OF that(1), of he buf] that by simp_all
    with hash_inv_long [OF inv this(1-3)] show ?thesis by (simp add: rest_def l c1)
  qed
  consider (aligned) "t = 0" | (short) "t \<noteq> 0" "length data < 64 - t" | (long) "t \<noteq> 0" "64 - t \<le> length data"
    by linarith
  then show ?thesis
  proof cases
    case aligned
    then have "residue m = []" using length_residue [of m] by (simp add: t_def)
    then have "absorb md5_compress md5_H0 (m @ data) = absorb md5_compress (md_buf c1) data" "residue (m @ data) = residue data"
      using inv absorb_append [of md5_compress md5_H0 m data] residue_append [of m data]
      by (simp_all add: c1 hash_inv_def)
    from rest_ok [OF _ _ _ this] show ?thesis
      using aligned len by (simp add: upd md5_inv_def c1)
  next
    case short
    then show ?thesis
      using hash_inv_short [OF inv, of data] by (simp add: upd md5_inv_def c1 t_def)
  next
    case long
    then have l: "64 \<le> length m mod 64 + length data" by (simp add: t_def)
    note fill = hash_inv_fill [OF inv l, folded t_def]
    have buf: "length (residue m @ take (64 - t) data) = 64"
      using long mod_less_divisor [of 64 "length m"] by (simp add: length_residue flip: t_def)
    define c2 where "c2 = c1\<lparr>md_in := residue m @ take (64 - t) data\<rparr>"
    have c2: "length (md_in c2) = 64" using buf by (simp add: c2_def)
    have "MD5Update he c data = rest (md5_block he c2) (drop (64 - t) data)"
      using long by (simp add: upd c1 fill(1) c2_def)
    then show ?thesis
      using rest_ok [of "md5_block he c2" "drop (64 - t) data"] fill(2,3) md5_block_compress [OF c2]
      by (simp add: md5_inv_def c2_def c1)
  qed
qed

lemma MD5Updates_inv:
  "md5_inv c m \<Longrightarrow> md5_inv (fold (\<lambda>d c. MD5Update he c d) ds c) (m @ concat ds)"
proof (induction ds arbitrary: c m)
  case (Cons d ds)
  then show ?case using Cons.IH [OF MD5Update_inv [OF Cons.prems]] by simp
qed simp

subsection \<open>Padding\<close>

lemma length_absorb_md5: "length s = 4 \<Longrightarrow> length (absorb md5_compress s m) = 4"
proof (induction md5_compress s m rule: absorb.induct)
  case (1 s m)
  then show ?case
    by (subst absorb.simps) (simp add: md5_compress_def split: prod.split)
qed

text \<open>The words 14 and 15 of the last block are stored directly; they are the length in little-endian bytes.\<close>

lemma md5_last_block:
  assumes "length bs = 64" and "count_bits lo hi n"
  shows "(ByteReverse he (words_of he bs) 14)[14 := lo, 15 := hi] =
    map (\<lambda>i. GetLE32 (take 4 (drop (4 * i) (take 56 bs @ rev (be64 (of_nat (8 * n))))))) [0..<16]"
unfolding count_bits_be64 [OF assms(2)]
proof (rule nth_equalityI)
  fix i assume "i < length ((ByteReverse he (words_of he bs) 14)[14 := lo, 15 := hi])"
  then have "i < 16" by simp
  then consider "i < 14" | "i = 14" | "i = 15" by linarith
  then show "(ByteReverse he (words_of he bs) 14)[14 := lo, 15 := hi] ! i =
      map (\<lambda>i. GetLE32 (take 4 (drop (4 * i) (take 56 bs @ rev (be32 hi @ be32 lo))))) [0..<16] ! i"
  proof cases
    case 1
    then have "min 4 (56 - 4 * i) = 4" by simp
    with 1 show ?thesis using assms by (simp add: nth_list_update ByteReverse_words drop_take)
  qed (use assms in \<open>simp_all add: nth_list_update GetLE32_rev\<close>)
qed simp

lemma MD5Final_digest:
  assumes "md5_inv c m"
  shows "fst (MD5Final he c) = md5_spec m"
proof -
  note inv = assms [unfolded md5_inv_def]
  define r where "r = length m mod 64"
  define bits where "bits = rev (be64 (of_nat (8 * length m)))"
  define in1 where "in1 = (md_in c)[r := 0x80]"
  have r: "r < 64" "length (residue m) = r" by (simp_all add: r_def length_residue)
  have len: "length (md_in c) = 64" "take r (md_in c) = residue m" "count_bits (md_bits0 c) (md_bits1 c) (length m)"
    using inv by (simp_all add: hash_inv_def r_def)
  have in1: "take (Suc r) in1 = residue m @ [0x80]" "length in1 = 64"
    using len r by (simp_all add: in1_def take_Suc_conv_app_nth)
  define H where "H = absorb md5_compress md5_H0 (m @ md5_pad (length m))"
  have H: "H = absorb md5_compress (md_buf c) (residue m @ md5_pad (length m))"
    unfolding H_def absorb_append [of _ _ m] using inv by (simp add: hash_inv_def)
  have last: "MD5Transform st ((ByteReverse he (words_of he bs) 14)[14 := md_bits0 c, 15 := md_bits1 c]) =
      md5_compress st (take 56 bs @ bits)" if "length bs = 64" for st bs
    unfolding bits_def by (rule MD5Transform_compress [OF md5_last_block [OF that len(3)]])
  have final: "fst (MD5Final he c) = bytes_of he (ByteReverse he H 4)"
  proof (cases "63 - r < 8")
    case True
    define c1 where "c1 = c\<lparr>md_in := memcpy_at in1 (Suc r) (replicate (63 - r) 0)\<rparr>"
    have c1: "md_in c1 = residue m @ [0x80] @ replicate (63 - r) 0" "length (md_in c1) = 64"
      using in1 r by (simp_all add: c1_def memcpy_at_def)
    have "pad_zeros (length m) = (63 - r) + 56" using True r by (simp add: pad_zeros_def flip: r_def)
    then have "residue m @ md5_pad (length m) = md_in c1 @ (replicate 56 0 @ bits)"
      by (simp add: md5_pad_def c1(1) bits_def replicate_add)
    then have "H = md5_compress (md_buf (md5_block he c1)) (replicate 56 0 @ bits)"
      using absorb_block [of "replicate 56 0 @ bits" md5_compress _ "[]"]
      by (simp add: H absorb_block [OF c1(2)] md5_block_compress(1) [OF c1(2)] bits_def) (simp add: c1_def)
    moreover have "fst (MD5Final he c) = bytes_of he (ByteReverse he
        (MD5Transform (md_buf (md5_block he c1)) ((ByteReverse he (words_of he
          (memcpy_at (md_in (md5_block he c1)) 0 (replicate 56 0))) 14)[14 := md_bits0 c, 15 := md_bits1 c])) 4)"
      using True md5_block_compress(3,4) [OF c1(2)]
      by (simp add: MD5Final_def Let_def hash_inv_index [OF inv] c1_def flip: r_def in1_def)
    ultimately show ?thesis
      using md5_block_compress(2) [OF c1(2)] by (simp add: last memcpy_at_def)
  next
    case False
    define in2 where "in2 = memcpy_at in1 (Suc r) (replicate (55 - r) 0)"
    have in2: "take 56 in2 = residue m @ [0x80] @ replicate (55 - r) 0" "length in2 = 64"
      using in1 r False take_memcpy_at [of "Suc r" "replicate (55 - r) 0" in1] by (simp_all add: in2_def)
    have "pad_zeros (length m) = 55 - r" using False r by (simp add: pad_zeros_def le_mod_geq flip: r_def)
    then have e: "residue m @ md5_pad (length m) = take 56 in2 @ bits"
      by (simp add: md5_pad_def in2(1) bits_def)
    have "H = md5_compress (md_buf c) (take 56 in2 @ bits)"
      using absorb_block [of "take 56 in2 @ bits" md5_compress "md_buf c" "[]"]
      by (simp add: H e in2(2) bits_def)
    then show ?thesis
      using False last [OF in2(2)] by (simp add: MD5Final_def Let_def hash_inv_index [OF inv] in2_def flip: r_def in1_def)
  qed
  have "length H = 4" unfolding H_def by (rule length_absorb_md5) (simp add: md5_H0_def)
  then show ?thesis by (simp add: final md5_digest_bytes md5_spec_def H_def)
qed

text \<open>
  C22: MD5 over any sequence of \<open>MD5Update\<close> calls, on a host of either byte order, is the RFC 1321
  digest of the concatenated input.
\<close>

theorem md5_streaming_correct:
  assumes "length (md_in c) = 64"
  shows "fst (MD5Final he (fold (\<lambda>d c. MD5Update he c d) ds (MD5Init c))) = md5_spec (concat ds)"
  using MD5Final_digest [OF MD5Updates_inv [OF MD5Init_inv [OF assms]]] by simp

definition md5_zero_ctx :: md5_ctx where
  "md5_zero_ctx = \<lparr>md_buf = replicate 4 0, md_bits0 = 0, md_bits1 = 0, md_in = replicate 64 0\<rparr>"

theorem md5_streaming_correct_witness:
  "fst (MD5Final BigEndianHost (fold (\<lambda>d c. MD5Update BigEndianHost c d) [[0x61], [0x62, 0x63]] (MD5Init md5_zero_ctx)))
     = md5_spec [0x61, 0x62, 0x63]"
  using md5_streaming_correct [of md5_zero_ctx BigEndianHost "[[0x61], [0x62, 0x63]]"]
  by (simp add: md5_zero_ctx_def)

end
