(* ===== verification/StringEncode.thy ===== *)
theory StringEncode
  imports Jingle_Prelude
begin

unbundle bit_operations_syntax

text \<open>
  The string transforms of \<open>talk/base/stringencode.cc\<close>.  A transform writes into a buffer of
  \<open>buflen\<close> bytes and ends with a terminating zero: the model returns the bytes before the zero,
  so \<open>length\<close> of the result is the returned \<open>bufpos\<close> and the index the zero is written to.
  Characters are bytes.  A loop over \<open>source[srcpos..srclen)\<close> recurses on that suffix, with the
  output so far as \<open>out\<close>.
\<close>

definition ch_plus :: byte where "ch_plus = 0x2B"
definition ch_percent :: byte where "ch_percent = 0x25"
definition ch_space :: byte where "ch_space = 0x20"

subsection \<open>Hexadecimal digits\<close>

definition HEX :: "byte list" where
  "HEX = [0x30, 0x31, 0x32, 0x33, 0x34, 0x35, 0x36, 0x37, 0x38, 0x39, 0x61, 0x62, 0x63, 0x64, 0x65, 0x66]"

definition hex_encode1 :: "byte \<Rightarrow> byte" where
  "hex_encode1 val = (if val < 16 then HEX ! unat val else 0x21)"

definition hex_decode1 :: "byte \<Rightarrow> byte option" where
  "hex_decode1 ch =
     (if 0x30 \<le> ch \<and> ch \<le> 0x39 then Some (ch - 0x30)
      else if 0x41 \<le> ch \<and> ch \<le> 0x5A then Some (ch - 0x41 + 10)
      else if 0x61 \<le> ch \<and> ch \<le> 0x7A then Some (ch - 0x61 + 10)
      else None)"

text \<open>The two digits of a byte, and \<open>(h1 << 4) | h2\<close> cut to a \<open>char\<close>.\<close>

definition hex_pair :: "byte \<Rightarrow> byte list" where
  "hex_pair ch = [hex_encode1 (drop_bit 4 ch AND 0xF), hex_encode1 (ch AND 0xF)]"

definition hex_join :: "byte \<Rightarrow> byte \<Rightarrow> byte" where
  "hex_join h1 h2 = push_bit 4 h1 OR h2"

subsection \<open>Escaping\<close>

text \<open>\<open>strchr\<close> also finds the terminating zero of \<open>illegal\<close>.\<close>

definition strchr :: "byte list \<Rightarrow> byte \<Rightarrow> bool" where
  "strchr s ch \<longleftrightarrow> ch = 0 \<or> ch \<in> set s"

fun escape_loop :: "nat \<Rightarrow> byte list \<Rightarrow> byte \<Rightarrow> byte list \<Rightarrow> byte list \<Rightarrow> byte list" where
  "escape_loop buflen illegal esc out [] = out"
| "escape_loop buflen illegal esc out (ch # src) =
     (if length out + 1 < buflen then
        if ch = esc \<or> strchr illegal ch then
          if length out + 2 \<ge> buflen then out
          else escape_loop buflen illegal esc (out @ [esc, ch]) src
        else escape_loop buflen illegal esc (out @ [ch]) src
      else out)"

definition escape :: "nat \<Rightarrow> byte list \<Rightarrow> byte list \<Rightarrow> byte \<Rightarrow> byte list" where
  "escape buflen source illegal esc =
     (if buflen = 0 then [] else escape_loop buflen illegal esc [] source)"

fun unescape_loop :: "nat \<Rightarrow> byte \<Rightarrow> byte list \<Rightarrow> byte list \<Rightarrow> byte list" where
  "unescape_loop buflen esc out [] = out"
| "unescape_loop buflen esc out [ch] = (if length out + 1 < buflen then out @ [ch] else out)"
| "unescape_loop buflen esc out (ch # ch2 # src) =
     (if length out + 1 < buflen then
        if ch = esc then unescape_loop buflen esc (out @ [ch2]) src
        else unescape_loop buflen esc (out @ [ch]) (ch2 # src)
      else out)"

definition unescape :: "nat \<Rightarrow> byte list \<Rightarrow> byte \<Rightarrow> byte list" where
  "unescape buflen source esc = (if buflen = 0 then [] else unescape_loop buflen esc [] source)"

subsection \<open>Encoding with an escape character and two hex digits\<close>

fun encode_loop :: "nat \<Rightarrow> byte list \<Rightarrow> byte \<Rightarrow> byte list \<Rightarrow> byte list \<Rightarrow> byte list" where
  "encode_loop buflen illegal esc out [] = out"
| "encode_loop buflen illegal esc out (ch # src) =
     (if length out + 1 < buflen then
        if ch \<noteq> esc \<and> \<not> strchr illegal ch then encode_loop buflen illegal esc (out @ [ch]) src
        else if length out + 3 \<ge> buflen then out
        else encode_loop buflen illegal esc (out @ esc # hex_pair ch) src
      else out)"

definition encode :: "nat \<Rightarrow> byte list \<Rightarrow> byte list \<Rightarrow> byte \<Rightarrow> byte list" where
  "encode buflen source illegal esc =
     (if buflen = 0 then [] else encode_loop buflen illegal esc [] source)"

text \<open>The two digits after an escape character at the head of \<open>src\<close>, when they are there.\<close>

definition hex_ahead :: "byte list \<Rightarrow> byte option" where
  "hex_ahead src =
     (case src of
        c1 # c2 # _ \<Rightarrow>
          (case (hex_decode1 c1, hex_decode1 c2) of
             (Some h1, Some h2) \<Rightarrow> Some (hex_join h1 h2)
           | _ \<Rightarrow> None)
      | _ \<Rightarrow> None)"

function decode_loop :: "nat \<Rightarrow> byte \<Rightarrow> byte list \<Rightarrow> byte list \<Rightarrow> byte list" where
  "decode_loop buflen esc out [] = out"
| "decode_loop buflen esc out (ch # src) =
     (if length out + 1 < buflen then
        (case (if ch = esc then hex_ahead src else None) of
           Some v \<Rightarrow> decode_loop buflen esc (out @ [v]) (drop 2 src)
         | None \<Rightarrow> decode_loop buflen esc (out @ [ch]) src)
      else out)"
  by pat_completeness auto
termination
  by (relation "measure (\<lambda>(n, e, out, src). length src)") auto

definition decode :: "nat \<Rightarrow> byte list \<Rightarrow> byte \<Rightarrow> byte list" where
  "decode buflen source esc = (if buflen = 0 then [] else decode_loop buflen esc [] source)"

subsection \<open>URLs\<close>

text \<open>The table \<open>ASCII_CLASS\<close>: bit 0 is \<open>URL_UNSAFE\<close>, bit 1 \<open>XML_UNSAFE\<close> and \<open>HTML_UNSAFE\<close>.\<close>

definition ASCII_CLASS :: "nat list" where
  "ASCII_CLASS =
    [1,1,1,1,1,1,1,1,1,1,1,1,1,1,1,1,1,1,1,1,1,1,1,1,1,1,1,1,1,1,1,1,
     1,0,3,1,1,1,3,2,0,0,0,1,1,0,0,1,0,0,0,0,0,0,0,0,0,0,1,1,3,1,3,1,
     1,0,0,0,0,0,0,0,0,0,0,0,0,0,0,0,0,0,0,0,0,0,0,0,0,0,0,1,1,1,1,0,
     1,0,0,0,0,0,0,0,0,0,0,0,0,0,0,0,0,0,0,0,0,0,0,0,0,0,0,1,1,1,0,1]"

definition url_unsafe :: "byte \<Rightarrow> bool" where
  "url_unsafe ch \<longleftrightarrow> ch < 128 \<and> odd (ASCII_CLASS ! unat ch)"

definition xml_unsafe :: "byte \<Rightarrow> bool" where
  "xml_unsafe ch \<longleftrightarrow> ch < 128 \<and> odd (ASCII_CLASS ! unat ch div 2)"

fun url_encode_loop :: "nat \<Rightarrow> byte list \<Rightarrow> byte list \<Rightarrow> byte list" where
  "url_encode_loop buflen out [] = out"
| "url_encode_loop buflen out (ch # src) =
     (if length out + 1 < buflen then
        if url_unsafe ch then
          if length out + 3 \<ge> buflen then out
          else url_encode_loop buflen (out @ ch_percent # hex_pair ch) src
        else url_encode_loop buflen (out @ [ch]) src
      else out)"

definition url_encode :: "nat \<Rightarrow> byte list \<Rightarrow> byte list" where
  "url_encode buflen source = (if buflen = 0 then [] else url_encode_loop buflen [] source)"

function url_decode_loop :: "nat \<Rightarrow> byte list \<Rightarrow> byte list \<Rightarrow> byte list" where
  "url_decode_loop buflen out [] = out"
| "url_decode_loop buflen out (ch # src) =
     (if length out + 1 < buflen then
        if ch = ch_plus then url_decode_loop buflen (out @ [ch_space]) src
        else
          (case (if ch = ch_percent then hex_ahead src else None) of
             Some v \<Rightarrow> url_decode_loop buflen (out @ [v]) (drop 2 src)
           | None \<Rightarrow> url_decode_loop buflen (out @ [ch]) src)
      else out)"
  by pat_completeness auto
termination
  by (relation "measure (\<lambda>(n, out, src). length src)") auto

definition url_decode :: "nat \<Rightarrow> byte list \<Rightarrow> byte list" where
  "url_decode buflen source = (if buflen = 0 then [] else url_decode_loop buflen [] source)"

text \<open>\<open>s_transform\<close> asks the transform (with a null buffer) for the size, then runs it.\<close>

definition s_url_encode :: "byte list \<Rightarrow> byte list" where
  "s_url_encode source = url_encode (length source * 3 + 1) source"

definition s_url_decode :: "byte list \<Rightarrow> byte list" where
  "s_url_decode source = url_decode (length source + 1) source"


subsection \<open>UTF-8\<close>

definition utf8_encode :: "nat \<Rightarrow> u64 \<Rightarrow> byte list" where
  "utf8_encode buflen val =
     (if val \<le> 0x7F \<and> buflen \<ge> 1 then [ucast val]
      else if val \<le> 0x7FF \<and> buflen \<ge> 2 then
        [0xC0 OR ucast (drop_bit 6 val), 0x80 OR ucast (val AND 0x3F)]
      else if val \<le> 0xFFFF \<and> buflen \<ge> 3 then
        [0xE0 OR ucast (drop_bit 12 val), 0x80 OR ucast (drop_bit 6 val AND 0x3F), 0x80 OR ucast (val AND 0x3F)]
      else if val \<le> 0x1FFFFF \<and> buflen \<ge> 4 then
        [0xF0 OR ucast (drop_bit 18 val), 0x80 OR ucast (drop_bit 12 val AND 0x3F),
         0x80 OR ucast (drop_bit 6 val AND 0x3F), 0x80 OR ucast (val AND 0x3F)]
      else [])"

text \<open>The value and the number of bytes it took; \<open>None\<close> is the return value 0.\<close>

definition utf8_decode :: "byte list \<Rightarrow> (u64 \<times> nat) option" where
  "utf8_decode s =
     (let srclen = length s in
      if s ! 0 AND 0x80 = 0 then Some (ucast (s ! 0), 1)
      else if srclen < 2 \<or> s ! 1 AND 0xC0 \<noteq> 0x80 then None
      else
        let v = (ucast (s ! 1 AND 0x3F) :: u64) in
        if s ! 0 AND 0xE0 = 0xC0 then Some (push_bit 6 (ucast (s ! 0 AND 0x1F)) OR v, 2)
        else if srclen < 3 \<or> s ! 2 AND 0xC0 \<noteq> 0x80 then None
        else
          let v = push_bit 6 v OR ucast (s ! 2 AND 0x3F) in
          if s ! 0 AND 0xF0 = 0xE0 then Some (push_bit 12 (ucast (s ! 0 AND 0x0F)) OR v, 3)
          else if srclen < 4 \<or> s ! 3 AND 0xC0 \<noteq> 0x80 then None
          else
            let v = push_bit 6 v OR ucast (s ! 3 AND 0x3F) in
            if s ! 0 AND 0xF8 = 0xF0 then Some (push_bit 18 (ucast (s ! 0 AND 0x07)) OR v, 4)
            else None)"

subsection \<open>XML\<close>

definition xml_escseq :: "byte \<Rightarrow> byte list" where
  "xml_escseq ch =
     (if ch = 0x3C then [0x26, 0x6C, 0x74, 0x3B]
      else if ch = 0x3E then [0x26, 0x67, 0x74, 0x3B]
      else if ch = 0x27 then [0x26, 0x61, 0x70, 0x6F, 0x73, 0x3B]
      else if ch = 0x22 then [0x26, 0x71, 0x75, 0x6F, 0x74, 0x3B]
      else if ch = 0x26 then [0x26, 0x61, 0x6D, 0x70, 0x3B]
      else [])"

fun xml_encode_loop :: "nat \<Rightarrow> byte list \<Rightarrow> byte list \<Rightarrow> byte list" where
  "xml_encode_loop buflen out [] = out"
| "xml_encode_loop buflen out (ch # src) =
     (if length out + 1 < buflen then
        if xml_unsafe ch then
          if length out + length (xml_escseq ch) \<ge> buflen then out
          else xml_encode_loop buflen (out @ xml_escseq ch) src
        else xml_encode_loop buflen (out @ [ch]) src
      else out)"

definition xml_encode :: "nat \<Rightarrow> byte list \<Rightarrow> byte list" where
  "xml_encode buflen source = (if buflen = 0 then [] else xml_encode_loop buflen [] source)"

text \<open>
  \<open>strtoul\<close> of the C library: white space, a sign, for base 16 an optional \<open>0x\<close>, then digits; the
  result saturates at \<open>ULONG_MAX\<close> and a minus sign negates it.  It returns the value and the
  number of characters before \<open>*endptr\<close>, which is 0 when no digit was found.  The bytes end
  where \<open>source\<close> does: the check on \<open>ptr\<close> that follows every call rejects a number that runs to the end.
\<close>

definition digit_val :: "nat \<Rightarrow> byte \<Rightarrow> nat option" where
  "digit_val base ch =
     (let d = (if 0x30 \<le> ch \<and> ch \<le> 0x39 then unat (ch - 0x30)
               else if 0x41 \<le> ch \<and> ch \<le> 0x5A then unat (ch - 0x41) + 10
               else if 0x61 \<le> ch \<and> ch \<le> 0x7A then unat (ch - 0x61) + 10
               else base)
      in if d < base then Some d else None)"

fun strtoul_digits :: "nat \<Rightarrow> nat \<Rightarrow> byte list \<Rightarrow> nat \<times> nat" where
  "strtoul_digits base acc [] = (acc, 0)"
| "strtoul_digits base acc (c # s) =
     (case digit_val base c of
        Some d \<Rightarrow> (case strtoul_digits base (acc * base + d) s of (v, n) \<Rightarrow> (v, Suc n))
      | None \<Rightarrow> (acc, 0))"

definition strtoul :: "nat \<Rightarrow> byte list \<Rightarrow> u64 \<times> nat" where
  "strtoul base s =
     (let ws = length (takeWhile (\<lambda>c. c = 0x20 \<or> 0x09 \<le> c \<and> c \<le> 0x0D) s);
          s1 = drop ws s;
          sign = (if s1 \<noteq> [] \<and> (hd s1 = 0x2B \<or> hd s1 = 0x2D) then 1 else 0);
          s2 = drop sign s1;
          pre = (if base = 16 \<and> length s2 \<ge> 3 \<and> s2 ! 0 = 0x30 \<and> (s2 ! 1 = 0x78 \<or> s2 ! 1 = 0x58) \<and>
                    digit_val base (s2 ! 2) \<noteq> None then 2 else 0);
          (v, n) = strtoul_digits base 0 (drop pre s2);
          w = (if v < 2 ^ 64 then of_nat v else 0xFFFFFFFFFFFFFFFF)
      in if n = 0 then (0, 0)
         else (if sign = 1 \<and> hd s1 = 0x2D \<and> v < 2 ^ 64 then - w else w, ws + sign + pre + n))"

text \<open>\<open>memcmp(source + srcpos, name, n) == 0\<close> guarded by \<open>srcpos + n - 1 < srclen\<close>.\<close>

definition starts_with :: "byte list \<Rightarrow> byte list \<Rightarrow> bool" where
  "starts_with src name \<longleftrightarrow> length name \<le> length src \<and> take (length name) src = name"

definition xml_names :: "(byte list \<times> byte) list" where
  "xml_names =
    [([0x6C, 0x74, 0x3B], 0x3C), ([0x67, 0x74, 0x3B], 0x3E), ([0x61, 0x70, 0x6F, 0x73, 0x3B], 0x27),
     ([0x71, 0x75, 0x6F, 0x74, 0x3B], 0x22), ([0x61, 0x6D, 0x70, 0x3B], 0x26)]"

text \<open>
  A numeric reference after \<open>&\<close>: the code point and the suffix after \<open>;\<close>.  \<open>src\<close> starts at the
  \<open>#\<close>; with an \<open>x\<close> after it the code skips one character and then still starts at \<open>srcpos + 1\<close>.
\<close>

definition xml_numeric :: "byte list \<Rightarrow> (u64 \<times> byte list) option" where
  "xml_numeric src =
     (let hexa = (length src > 1 \<and> src ! 1 = 0x78);
          start = (if hexa then 2 else 1);
          (val, n) = strtoul (if hexa then 16 else 10) (drop start src)
      in if start + n < length src \<and> src ! (start + n) = 0x3B
         then Some (val, drop (start + n + 1) src) else None)"

function xml_decode_loop :: "nat \<Rightarrow> byte list \<Rightarrow> byte list \<Rightarrow> byte list" where
  "xml_decode_loop buflen out [] = out"
| "xml_decode_loop buflen out (ch # src) =
     (if length out + 1 < buflen then
        if ch \<noteq> 0x26 then xml_decode_loop buflen (out @ [ch]) src
        else
          (case find (\<lambda>(name, c). starts_with src name) xml_names of
             Some (name, c) \<Rightarrow> xml_decode_loop buflen (out @ [c]) (drop (length name) src)
           | None \<Rightarrow>
               if src \<noteq> [] \<and> hd src = 0x23 then
                 (case xml_numeric src of
                    Some (val, rest) \<Rightarrow>
                      (let esc = utf8_encode (buflen - length out) val in
                       if esc = [] then out
                       else xml_decode_loop buflen (out @ esc) rest)
                  | None \<Rightarrow> out)
               else out)
      else out)"
  by pat_completeness auto
termination
  by (relation "measure (\<lambda>(n, out, src). length src)")
    (auto simp: xml_numeric_def Let_def split: if_splits prod.splits)

definition xml_decode :: "nat \<Rightarrow> byte list \<Rightarrow> byte list" where
  "xml_decode buflen source = (if buflen = 0 then [] else xml_decode_loop buflen [] source)"

definition html_decode :: "nat \<Rightarrow> byte list \<Rightarrow> byte list" where
  "html_decode buflen source = xml_decode buflen source"


subsection \<open>Hexadecimal strings\<close>

fun hex_encode_loop :: "byte \<Rightarrow> byte list \<Rightarrow> byte list" where
  "hex_encode_loop delimiter [] = []"
| "hex_encode_loop delimiter (ch # src) =
     hex_pair ch @ (if delimiter \<noteq> 0 \<and> src \<noteq> [] then [delimiter] else []) @ hex_encode_loop delimiter src"

definition hex_encode_with_delimiter :: "nat \<Rightarrow> byte list \<Rightarrow> byte \<Rightarrow> byte list" where
  "hex_encode_with_delimiter buflen source delimiter =
     (if buflen = 0 then []
      else if buflen < (if delimiter \<noteq> 0 then length source * 3 else length source * 2 + 1) then []
      else hex_encode_loop delimiter source)"

definition hex_encode_string :: "byte list \<Rightarrow> byte \<Rightarrow> byte list" where
  "hex_encode_string source delimiter = hex_encode_with_delimiter (length source * 3) source delimiter"

definition hex_encode :: "byte list \<Rightarrow> byte list" where
  "hex_encode source = hex_encode_string source 0"

function hex_decode_loop :: "byte \<Rightarrow> byte list \<Rightarrow> byte list \<Rightarrow> byte list option" where
  "hex_decode_loop delimiter out src =
     (if src = [] then Some out
      else if length src < 2 then None
      else
        (case (hex_decode1 (src ! 0), hex_decode1 (src ! 1)) of
           (Some h1, Some h2) \<Rightarrow>
             (let out = out @ [hex_join h1 h2]; src = drop 2 src in
              if delimiter \<noteq> 0 \<and> length src > 1 then
                if src ! 0 \<noteq> delimiter then None else hex_decode_loop delimiter out (drop 1 src)
              else hex_decode_loop delimiter out src)
         | _ \<Rightarrow> None))"
  by pat_completeness auto
termination
  by (relation "measure (\<lambda>(d, out, src). length src)") auto

declare hex_decode_loop.simps [simp del]

text \<open>The bytes written; a return value of 0 is \<open>[]\<close>.\<close>

definition hex_decode_with_delimiter :: "nat \<Rightarrow> byte list \<Rightarrow> byte \<Rightarrow> byte list" where
  "hex_decode_with_delimiter buflen source delimiter =
     (if buflen = 0 then []
      else if buflen < (if delimiter \<noteq> 0 then (length source + 1) div 3 else length source div 2) then []
      else case hex_decode_loop delimiter [] source of Some out \<Rightarrow> out | None \<Rightarrow> [])"

definition hex_decode :: "nat \<Rightarrow> byte list \<Rightarrow> byte list" where
  "hex_decode buflen source = hex_decode_with_delimiter buflen source 0"


subsection \<open>Fields\<close>

definition substr :: "'a list \<Rightarrow> nat \<Rightarrow> nat \<Rightarrow> 'a list" where
  "substr s pos n = take n (drop pos s)"

definition tokenize_step :: "byte list \<Rightarrow> byte \<Rightarrow> nat \<Rightarrow> nat \<times> byte list list \<Rightarrow> nat \<times> byte list list" where
  "tokenize_step source delimiter i = (\<lambda>(last, fields).
     if source ! i = delimiter
     then (i + 1, if i \<noteq> last then fields @ [substr source last (i - last)] else fields)
     else (last, fields))"

definition tokenize :: "byte list \<Rightarrow> byte \<Rightarrow> byte list list" where
  "tokenize source delimiter =
     (let (last, fields) = fold (tokenize_step source delimiter) [0..<length source] (0, [])
      in if last \<noteq> length source then fields @ [substr source last (length source - last)] else fields)"

definition tokenize_append :: "byte list \<Rightarrow> byte \<Rightarrow> byte list list \<Rightarrow> byte list list" where
  "tokenize_append source delimiter fields = fields @ tokenize source delimiter"

definition split_step :: "byte list \<Rightarrow> byte \<Rightarrow> nat \<Rightarrow> nat \<times> byte list list \<Rightarrow> nat \<times> byte list list" where
  "split_step source delimiter i = (\<lambda>(last, fields).
     if source ! i = delimiter
     then (i + 1, fields @ [substr source last (i - last)])
     else (last, fields))"

definition split :: "byte list \<Rightarrow> byte \<Rightarrow> byte list list" where
  "split source delimiter =
     (let (last, fields) = fold (split_step source delimiter) [0..<length source] (0, [])
      in fields @ [substr source last (length source - last)])"

definition make_char_safe_for_filename :: "byte \<Rightarrow> byte" where
  "make_char_safe_for_filename c =
     (if c <s 32 then 0x5F
      else if c \<in> {0x3C, 0x3E, 0x3A, 0x22, 0x2F, 0x5C, 0x7C, 0x2A, 0x3F} then 0x5F
      else c)"


subsection \<open>Hex digits round trip\<close>

lemma hex_digit_roundtrip: "v < 16 \<Longrightarrow> hex_decode1 (hex_encode1 v) = Some v"
  by (rule byte_exhaust [where n = 16]) (code_simp, simp add: word_less_nat_alt)

lemma nibbles: "drop_bit 4 c AND 0xF < (16 :: byte)" "c AND 0xF < (16 :: byte)"
  "push_bit 4 (drop_bit 4 c AND 0xF) OR (c AND 0xF) = (c :: byte)"
proof -
  have m: "(0xF :: byte) = mask 4" by (simp add: mask_numeral)
  have "unat (x AND mask 4) < 16" for x :: byte
    using take_bit_nat_less_exp [of 4 "unat x"] by (simp add: unsigned_take_bit_eq flip: take_bit_eq_mask)
  then show "drop_bit 4 c AND 0xF < (16 :: byte)" "c AND 0xF < (16 :: byte)"
    by (simp_all add: word_less_nat_alt m)
  show "push_bit 4 (drop_bit 4 c AND 0xF) OR (c AND 0xF) = c"
    unfolding m by (rule bit_word_eqI) (auto simp: bit_simps)
qed

lemma hex_join_nibbles: "hex_join (drop_bit 4 c AND 0xF) (c AND 0xF) = c"
  unfolding hex_join_def by (rule nibbles)

lemma hex_ahead_pair [simp]: "hex_ahead (hex_pair c @ src) = Some c"
  by (simp add: hex_ahead_def hex_pair_def hex_digit_roundtrip nibbles(1,2) hex_join_nibbles)

lemma length_hex_pair [simp]: "length (hex_pair c) = 2"
  by (simp add: hex_pair_def)

lemma drop_hex_pair [simp]: "drop 2 (hex_pair c @ src) = src"
  by (simp add: hex_pair_def)


subsection \<open>Codecs into a bounded buffer\<close>

text \<open>
  The interface the three pairs share: \<open>enc n out src\<close> appends the image of each character while at
  least \<open>w\<close> bytes of room and the terminator are left, and \<open>dec\<close> takes one image back to its character.
\<close>

locale bounded_codec =
  fixes enc dec :: "nat \<Rightarrow> byte list \<Rightarrow> byte list \<Rightarrow> byte list" and img :: "byte \<Rightarrow> byte list" and w :: nat
  assumes enc_Nil: "enc n out [] = out"
    and enc_Cons: "length out + w < n \<Longrightarrow> enc n out (c # src) = enc n (out @ img c) src"
    and dec_Nil: "dec n out [] = out"
    and dec_img: "length out + 1 < n \<Longrightarrow> dec n out (img c @ src) = dec n (out @ [c]) src"
    and img_width: "length (img c) \<le> w"
begin

lemma enc_all: "length out + w * length src < n \<Longrightarrow> enc n out src = out @ concat (map img src)"
proof (induction src arbitrary: out)
  case (Cons c src)
  then have "length (out @ img c) + w * length src < n" using img_width [of c] by simp
  then show ?case using Cons by (simp add: enc_Cons)
qed (simp add: enc_Nil)

lemma dec_all: "length out + length src < n \<Longrightarrow> dec n out (concat (map img src)) = out @ src"
  by (induction src arbitrary: out) (simp_all add: dec_Nil dec_img)

lemma roundtrip:
  assumes "w * length src < n" and "length src < n'"
  shows "dec n' [] (enc n [] src) = src"
  using assms by (simp add: enc_all dec_all)

lemma enc_length: "w * length src < n \<Longrightarrow> length (enc n [] src) \<le> w * length src"
proof (simp add: enc_all)
  show "length (concat (map img src)) \<le> w * length src"
    by (induction src) (use img_width in \<open>auto intro: add_mono\<close>)
qed

end

interpretation esc: bounded_codec "\<lambda>n. escape_loop n illegal e" "\<lambda>n. unescape_loop n e"
  "\<lambda>c. if c = e \<or> strchr illegal c then [e, c] else [c]" 2 for illegal e
proof
  fix n and out src :: "byte list" and c
  assume "length out + 1 < (n :: nat)"
  then show "unescape_loop n e out ((if c = e \<or> strchr illegal c then [e, c] else [c]) @ src) =
      unescape_loop n e (out @ [c]) src"
    by (cases src) auto
qed auto

interpretation enc: bounded_codec "\<lambda>n. encode_loop n illegal e" "\<lambda>n. decode_loop n e"
  "\<lambda>c. if c \<noteq> e \<and> \<not> strchr illegal c then [c] else e # hex_pair c" 3 for illegal e
  by unfold_locales auto

lemma url_plus_percent_unsafe: "url_unsafe ch_plus" "url_unsafe ch_percent"
  by code_simp+

interpretation url: bounded_codec url_encode_loop url_decode_loop
  "\<lambda>c. if url_unsafe c then ch_percent # hex_pair c else [c]" 3
proof
  fix n and out src :: "byte list" and c
  assume "length out + 1 < (n :: nat)"
  then show "url_decode_loop n out ((if url_unsafe c then ch_percent # hex_pair c else [c]) @ src) =
      url_decode_loop n (out @ [c]) src"
    using url_plus_percent_unsafe by (auto simp: ch_plus_def ch_percent_def)
qed auto

text \<open>
  The size that \<open>url_encode\<close> asks \<open>s_transform\<close> for is always enough, so URL encoding loses nothing:
  \<open>s_url_decode\<close> gives back every byte string.
\<close>

theorem url_roundtrip: "s_url_decode (s_url_encode s) = s"
proof (cases "s = []")
  case False
  have e: "s_url_encode s = concat (map (\<lambda>c. if url_unsafe c then ch_percent # hex_pair c else [c]) s)"
    using url.enc_all [of "[]" s] by (simp add: s_url_encode_def url_encode_def)
  have "length s \<le> length (s_url_encode s)"
    unfolding e by (induction s) auto
  then show ?thesis
    using url.dec_all [of "[]" s] by (simp add: s_url_decode_def url_decode_def e)
qed (simp add: s_url_decode_def s_url_encode_def url_decode_def url_encode_def)

text \<open>
  \<open>escape\<close> followed by \<open>unescape\<close>, and \<open>encode\<close> followed by \<open>decode\<close>, give back the source for every
  choice of the illegal characters and of the escape character, once the buffers hold two
  (respectively three) bytes for each character and the terminator.
\<close>

theorem escape_encode_roundtrip:
  assumes "3 * length s < n" and "length s < n'"
  shows "unescape n' (escape n s illegal e) e = s \<and> decode n' (encode n s illegal e) e = s"
  using assms esc.roundtrip [of s n n' e illegal] enc.roundtrip [of s n n' e illegal]
  by (simp add: escape_def unescape_def encode_def decode_def)

theorem escape_encode_roundtrip_witness:
  "unescape 4 (escape 10 [0x22, 0x61, 0x5C] [0x22] 0x5C) 0x5C = [0x22, 0x61, 0x5C] \<and>
   decode 4 (encode 10 [0x22, 0x61, 0x5C] [0x22] 0x5C) 0x5C = [0x22, 0x61, 0x5C]"
  using escape_encode_roundtrip [of "[0x22, 0x61, 0x5C]" 10 4 "[0x22]" "0x5C"] by simp


lemma xml_unsafe_iff: "xml_unsafe c \<longleftrightarrow> c \<in> {0x22, 0x26, 0x27, 0x3C, 0x3E}"
proof -
  have "unat c < 256" using unat_bound [of c] by simp
  then show ?thesis
    by (rule byte_exhaust [rotated, where n = 256]) code_simp
qed

interpretation xml: bounded_codec xml_encode_loop xml_decode_loop
  "\<lambda>c. if xml_unsafe c then xml_escseq c else [c]" 6
proof
  fix n and out src :: "byte list" and c
  assume "length out + 1 < (n :: nat)"
  then show "xml_decode_loop n out ((if xml_unsafe c then xml_escseq c else [c]) @ src) =
      xml_decode_loop n (out @ [c]) src"
    by (auto simp: xml_unsafe_iff xml_escseq_def xml_names_def starts_with_def)
qed (auto simp: xml_escseq_def)

text \<open>
  XML attribute text survives the trip: \<open>xml_decode\<close> after \<open>xml_encode\<close> is the identity on every
  byte string when the buffers are large enough.
\<close>

theorem xml_roundtrip:
  assumes "6 * length s < n" and "length s < n'"
  shows "xml_decode n' (xml_encode n s) = s"
  using assms xml.roundtrip [of s n n'] by (simp add: xml_decode_def xml_encode_def)

theorem xml_roundtrip_witness: "xml_decode 4 (xml_encode 20 [0x3C, 0x26, 0xE9]) = [0x3C, 0x26, 0xE9]"
  using xml_roundtrip [of "[0x3C, 0x26, 0xE9]" 20 4] by simp

text \<open>
  \<open>xml_decode\<close> can fill its buffer completely with the UTF-8 bytes of a numeric reference: the
  reference to U+00E9 into a buffer of two bytes leaves \<open>bufpos = buflen\<close>, and the terminating zero
  is written one byte past the end.  The named references never do that.
\<close>

theorem xml_decode_fills_buffer: "length (xml_decode 2 [0x26, 0x23, 0x32, 0x33, 0x33, 0x3B]) = 2"
proof -
  have "strtoul 10 [0x32, 0x33, 0x33, 0x3B] = (233, 3)"
    by (simp add: strtoul_def digit_val_def)
  then have "xml_numeric [0x23, 0x32, 0x33, 0x33, 0x3B] = Some (233, [])"
    by (simp add: xml_numeric_def)
  then show ?thesis
    by (simp add: xml_decode_def xml_names_def starts_with_def utf8_encode_def)
qed

subsection \<open>Hexadecimal strings\<close>

lemma hex_pair_nth: "hex_pair c = [a, b] \<Longrightarrow> hex_decode1 a = Some (drop_bit 4 c AND 0xF) \<and> hex_decode1 b = Some (c AND 0xF)"
  by (auto simp: hex_pair_def hex_digit_roundtrip nibbles)

lemma hex_decode_pair:
  "hex_decode_loop d out (hex_pair c @ src) =
     (if d \<noteq> 0 \<and> length src > 1 then
        if src ! 0 \<noteq> d then None else hex_decode_loop d (out @ [c]) (drop 1 src)
      else hex_decode_loop d (out @ [c]) src)"
  by (subst hex_decode_loop.simps)
    (simp add: hex_pair_def hex_digit_roundtrip nibbles(1,2) hex_join_nibbles)

lemma length_hex_encode_loop:
  "length (hex_encode_loop d s) = 2 * length s + (if d \<noteq> 0 then length s - 1 else 0)"
  by (induction s) (auto simp: Suc_le_eq)

lemma hex_loop_roundtrip: "hex_decode_loop d out (hex_encode_loop d s) = Some (out @ s)"
proof (induction s arbitrary: out)
  case Nil
  show ?case by (simp add: hex_decode_loop.simps)
next
  case (Cons c s)
  have "s \<noteq> [] \<Longrightarrow> 1 < length (hex_encode_loop d s)"
    by (cases s) (simp_all add: length_hex_encode_loop)
  then show ?case
    using Cons hex_decode_pair [of d out c "[]"] by (cases "s = []") (auto simp: hex_decode_pair)
qed

text \<open>
  The hex form of any bytes, with or without a delimiter, is never cut short by the buffer of
  \<open>hex_encode_with_delimiter\<close> and decodes to the same bytes in a buffer that holds them.
\<close>

theorem hex_roundtrip:
  assumes "length s \<le> n" and "0 < n"
  shows "hex_decode_with_delimiter n (hex_encode_string s d) d = s"
proof (cases "s = []")
  case False
  then have e: "hex_encode_string s d = hex_encode_loop d s"
    by (cases s) (auto simp: hex_encode_string_def hex_encode_with_delimiter_def)
  have "(if d \<noteq> 0 then (length (hex_encode_loop d s) + 1) div 3 else length (hex_encode_loop d s) div 2) = length s"
    using False by (cases s) (auto simp: length_hex_encode_loop)
  then show ?thesis
    using assms by (simp add: hex_decode_with_delimiter_def e hex_loop_roundtrip)
qed (simp add: hex_encode_string_def hex_encode_with_delimiter_def hex_decode_with_delimiter_def hex_decode_loop.simps)

theorem hex_roundtrip_witness:
  "hex_decode_with_delimiter 3 (hex_encode_string [0xDE, 0xAD, 0x00] 0x3A) 0x3A = [0xDE, 0xAD, 0x00]"
  using hex_roundtrip [of "[0xDE, 0xAD, 0x00]" 3 "0x3A"] by simp

text \<open>
  \<open>hex_decode\<close> takes every letter for a digit: \<open>g\<close> to \<open>z\<close> decode to the values 16 to 35, so a string
  that is not hexadecimal is accepted, and two letters can give the byte of a different pair.
\<close>

theorem hex_decode_accepts_letters:
  "hex_decode 1 [0x7A, 0x7A] = [0x33] \<and> hex_decode 1 [0x33, 0x33] = [0x33]"
  by code_simp

subsection \<open>Fields\<close>

fun join_fields :: "byte \<Rightarrow> byte list list \<Rightarrow> byte list" where
  "join_fields d [] = []"
| "join_fields d [f] = f"
| "join_fields d (f # g # fs) = f @ d # join_fields d (g # fs)"

lemma join_fields_snoc: "join_fields d (fs @ [f]) = concat (map (\<lambda>f. f @ [d]) fs) @ f"
proof (induction fs)
  case (Cons g fs)
  then show ?case by (cases fs) auto
qed simp

lemma substr_grow:
  assumes "beg \<le> i" and "i < length s"
  shows "substr s beg (Suc i - beg) = substr s beg (i - beg) @ [s ! i]"
  using assms take_Suc_conv_app_nth [of "i - beg" "drop beg s"] by (simp add: substr_def Suc_diff_le)

lemma step_simps:
  "split_step s d i (beg, fs) = (if s ! i = d then (i + 1, fs @ [substr s beg (i - beg)]) else (beg, fs))"
  "tokenize_step s d i (beg, fs) =
     (if s ! i = d then (i + 1, if i \<noteq> beg then fs @ [substr s beg (i - beg)] else fs) else (beg, fs))"
  by (simp_all add: split_step_def tokenize_step_def)

definition fields_inv :: "byte list \<Rightarrow> byte \<Rightarrow> nat \<Rightarrow> nat \<times> byte list list \<Rightarrow> bool" where
  "fields_inv s d i = (\<lambda>(beg, fields).
     beg \<le> i \<and> concat (map (\<lambda>f. f @ [d]) fields) @ substr s beg (i - beg) = take i s \<and>
     d \<notin> set (substr s beg (i - beg)) \<and> (\<forall>f \<in> set fields. d \<notin> set f))"

lemma split_loop_inv:
  "n \<le> length s \<Longrightarrow> fields_inv s d n (fold (split_step s d) [0..<n] (0, []))"
proof (induction n)
  case (Suc n)
  obtain beg fields where f: "fold (split_step s d) [0..<n] (0, []) = (beg, fields)" by fastforce
  have inv: "beg \<le> n" "concat (map (\<lambda>f. f @ [d]) fields) @ substr s beg (n - beg) = take n s"
    "d \<notin> set (substr s beg (n - beg))" "\<forall>f \<in> set fields. d \<notin> set f"
    using Suc by (simp_all add: f fields_inv_def)
  show ?case
    using Suc.prems inv substr_grow [of beg n s] take_Suc_conv_app_nth [of n s]
    by (auto simp: f step_simps fields_inv_def substr_def simp flip: append_assoc)
qed (simp add: fields_inv_def substr_def)

lemma tokenize_loop_split:
  "n \<le> length s \<Longrightarrow>
     fold (tokenize_step s d) [0..<n] (0, []) =
       (case fold (split_step s d) [0..<n] (0, []) of (beg, fields) \<Rightarrow> (beg, filter (\<lambda>f. f \<noteq> []) fields))"
proof (induction n)
  case (Suc n)
  obtain beg fields where f: "fold (split_step s d) [0..<n] (0, []) = (beg, fields)" by fastforce
  then have "beg \<le> n" using split_loop_inv [of n s d] Suc.prems by (simp add: fields_inv_def)
  then have "substr s beg (n - beg) = [] \<longleftrightarrow> n = beg" using Suc.prems by (auto simp: substr_def)
  then show ?case using Suc f by (auto simp: step_simps)
qed simp

text \<open>
  \<open>split\<close> returns fields free of the delimiter that joined by it give the source back, and
  \<open>tokenize\<close> returns exactly the non-empty ones of them, in order.
\<close>

theorem split_tokenize_fields:
  "join_fields d (split s d) = s \<and> list_all (\<lambda>f. d \<notin> set f) (split s d) \<and>
   tokenize s d = filter (\<lambda>f. f \<noteq> []) (split s d)"
proof -
  obtain beg fields where f: "fold (split_step s d) [0..<length s] (0, []) = (beg, fields)" by fastforce
  have inv: "beg \<le> length s" "concat (map (\<lambda>f. f @ [d]) fields) @ substr s beg (length s - beg) = s"
    "d \<notin> set (substr s beg (length s - beg))" "\<forall>f \<in> set fields. d \<notin> set f"
    using split_loop_inv [of "length s" s d] by (simp_all add: f fields_inv_def)
  have "substr s beg (length s - beg) = [] \<longleftrightarrow> beg = length s" using inv(1) by (auto simp: substr_def)
  then show ?thesis
    using inv tokenize_loop_split [of "length s" s d]
    by (auto simp: split_def tokenize_def f join_fields_snoc list_all_iff)
qed


subsection \<open>UTF-8 round trip\<close>

definition fits :: "nat \<Rightarrow> u64 \<Rightarrow> bool" where
  "fits k v \<longleftrightarrow> (\<forall>n. bit v n \<longrightarrow> n < k)"

lemma fitsI: "unat v < 2 ^ k \<Longrightarrow> fits k v"
  unfolding fits_def by (metis bit_take_bit_iff take_bit_nat_eq_self unsigned_take_bit_eq word_unat_eq_iff)

lemma fitsD: "fits k v \<Longrightarrow> bit v n \<Longrightarrow> n < k"
  by (simp add: fits_def)

lemma mask_constants:
  "(0x3F :: u64) = mask 6" "(0x3F :: byte) = mask 6" "(0x1F :: byte) = mask 5" "(0x0F :: byte) = mask 4"
  "(0x07 :: byte) = mask 3"
  by (simp_all add: mask_numeral)

lemma trail_byte:
  "(0x80 OR ucast (v AND 0x3F :: u64)) AND 0xC0 = (0x80 :: byte)"
  "ucast ((0x80 OR ucast (v AND 0x3F :: u64) :: byte) AND 0x3F) = v AND 0x3F"
proof -
  show "(0x80 OR ucast (v AND 0x3F :: u64)) AND 0xC0 = (0x80 :: byte)"
    by (rule byte_bits_eqI) (auto simp: bit_simps)
  have "((0x80 OR x :: byte) AND 0x3F) = x AND 0x3F" for x
    by (rule byte_bits_eqI) (auto simp: bit_simps)
  moreover have "ucast (ucast (v AND 0x3F :: u64) AND 0x3F :: byte) = v AND 0x3F"
    unfolding mask_constants by (rule bit_word_eqI) (auto simp: bit_simps)
  ultimately show "ucast ((0x80 OR ucast (v AND 0x3F :: u64) :: byte) AND 0x3F) = v AND 0x3F"
    by simp
qed

lemma lead_bits:
  "(0xC0 OR x) AND 0x1F = x AND (0x1F :: byte)" "(0xE0 OR x) AND 0x0F = x AND (0x0F :: byte)"
  "(0xF0 OR x) AND 0x07 = x AND (0x07 :: byte)"
  by (rule byte_bits_eqI, auto simp: bit_simps)+

lemma lead_nonzero:
  "(0xC0 OR x) AND 0x80 \<noteq> (0 :: byte)" "(0xE0 OR x) AND 0x80 \<noteq> (0 :: byte)" "(0xF0 OR x) AND 0x80 \<noteq> (0 :: byte)"
proof -
  have "(0xC0 OR x) AND 0x80 = (0x80 :: byte)" "(0xE0 OR x) AND 0x80 = (0x80 :: byte)" "(0xF0 OR x) AND 0x80 = (0x80 :: byte)"
    by (rule byte_bits_eqI, auto simp: bit_simps)+
  then show "(0xC0 OR x) AND 0x80 \<noteq> (0 :: byte)" "(0xE0 OR x) AND 0x80 \<noteq> (0 :: byte)" "(0xF0 OR x) AND 0x80 \<noteq> (0 :: byte)"
    by simp_all
qed

lemma lead_class:
  "fits 11 v \<Longrightarrow> (0xC0 OR ucast (drop_bit 6 v)) AND 0xE0 = (0xC0 :: byte)"
  "fits 16 v \<Longrightarrow> (0xE0 OR ucast (drop_bit 12 v)) AND 0xF0 = (0xE0 :: byte)"
  "fits 21 v \<Longrightarrow> (0xF0 OR ucast (drop_bit 18 v)) AND 0xF8 = (0xF0 :: byte)"
  by (rule byte_bits_eqI, auto simp: bit_simps dest: fitsD; fail)+

lemma lead_not_shorter:
  "(0xE0 OR x) AND 0xE0 \<noteq> (0xC0 :: byte)" "(0xF0 OR x) AND 0xE0 \<noteq> (0xC0 :: byte)" "(0xF0 OR x) AND 0xF0 \<noteq> (0xE0 :: byte)"
proof -
  have "(0xE0 OR x) AND 0xE0 = (0xE0 :: byte)" "(0xF0 OR x) AND 0xE0 = (0xE0 :: byte)" "(0xF0 OR x) AND 0xF0 = (0xF0 :: byte)"
    by (rule byte_bits_eqI, auto simp: bit_simps)+
  then show "(0xE0 OR x) AND 0xE0 \<noteq> (0xC0 :: byte)" "(0xF0 OR x) AND 0xE0 \<noteq> (0xC0 :: byte)" "(0xF0 OR x) AND 0xF0 \<noteq> (0xE0 :: byte)"
    by simp_all
qed

text \<open>The groups of bits put back together.\<close>

lemma utf8_join:
  "fits 11 v \<Longrightarrow> push_bit 6 (ucast (ucast (drop_bit 6 v) AND 0x1F :: byte)) OR (v AND 0x3F) = (v :: u64)"
  "fits 16 v \<Longrightarrow> push_bit 12 (ucast (ucast (drop_bit 12 v) AND 0x0F :: byte)) OR
     (push_bit 6 (drop_bit 6 v AND 0x3F) OR (v AND 0x3F)) = (v :: u64)"
  "fits 21 v \<Longrightarrow> push_bit 18 (ucast (ucast (drop_bit 18 v) AND 0x07 :: byte)) OR
     (push_bit 6 (push_bit 6 (drop_bit 12 v AND 0x3F) OR (drop_bit 6 v AND 0x3F)) OR (v AND 0x3F)) = (v :: u64)"
proof -
  show "fits 11 v \<Longrightarrow> push_bit 6 (ucast (ucast (drop_bit 6 v) AND 0x1F :: byte)) OR (v AND 0x3F) = v"
    unfolding mask_constants by (rule bit_word_eqI) (auto simp: bit_simps dest: fitsD)
  show "fits 16 v \<Longrightarrow> push_bit 12 (ucast (ucast (drop_bit 12 v) AND 0x0F :: byte)) OR
     (push_bit 6 (drop_bit 6 v AND 0x3F) OR (v AND 0x3F)) = v"
    unfolding mask_constants by (rule bit_word_eqI) (auto simp: bit_simps dest: fitsD)
  show "fits 21 v \<Longrightarrow> push_bit 18 (ucast (ucast (drop_bit 18 v) AND 0x07 :: byte)) OR
     (push_bit 6 (push_bit 6 (drop_bit 12 v AND 0x3F) OR (drop_bit 6 v AND 0x3F)) OR (v AND 0x3F)) = v"
    unfolding mask_constants by (rule bit_word_eqI) (auto simp: bit_simps dest: fitsD)
qed

text \<open>
  Every value up to \<open>0x1FFFFF\<close> that \<open>utf8_encode\<close> writes, \<open>utf8_decode\<close> reads back, with the number
  of bytes it took and whatever follows it in the source.
\<close>

theorem utf8_roundtrip:
  assumes "val \<le> 0x1FFFFF"
  shows "utf8_decode (utf8_encode 4 val @ rest) = Some (val, length (utf8_encode 4 val))"
proof -
  have lt: "fits 21 val" using assms by (intro fitsI) (simp add: word_le_nat_alt)
  consider (one) "val \<le> 0x7F" | (two) "\<not> val \<le> 0x7F" "val \<le> 0x7FF"
    | (three) "\<not> val \<le> 0x7FF" "val \<le> 0xFFFF" "\<not> val \<le> 0x7F" | (four) "\<not> val \<le> 0xFFFF" "\<not> val \<le> 0x7FF" "\<not> val \<le> 0x7F"
    by fastforce
  then show ?thesis
  proof cases
    case one
    then have v: "fits 7 val" by (intro fitsI) (simp add: word_le_nat_alt)
    have "ucast val AND (0x80 :: byte) = 0"
      by (rule byte_bits_eqI) (auto simp: bit_simps dest: fitsD [OF v])
    moreover have "ucast (ucast val :: byte) = val"
      by (rule bit_word_eqI) (auto simp: bit_simps dest: fitsD [OF v])
    ultimately show ?thesis using one by (simp add: utf8_encode_def utf8_decode_def)
  next
    case two
    then have v: "fits 11 val" by (intro fitsI) (simp add: word_le_nat_alt)
    show ?thesis
      using two by (simp add: utf8_encode_def utf8_decode_def lead_nonzero trail_byte lead_class(1) [OF v] lead_bits utf8_join(1) [OF v])
  next
    case three
    then have v: "fits 16 val" by (intro fitsI) (simp add: word_le_nat_alt)
    show ?thesis
      using three utf8_join(2) [OF v] by (simp add: utf8_encode_def utf8_decode_def lead_nonzero trail_byte lead_not_shorter
          lead_class(2) [OF v] lead_bits)
  next
    case four
    show ?thesis
      using four assms utf8_join(3) [OF lt] by (simp add: utf8_encode_def utf8_decode_def lead_nonzero trail_byte lead_not_shorter
          lead_class(3) [OF lt] lead_bits)
  qed
qed

theorem utf8_roundtrip_witness:
  "utf8_decode (utf8_encode 4 0x20AC @ [0x41]) = Some (0x20AC, length (utf8_encode 4 0x20AC))"
  using utf8_roundtrip [of "0x20AC" "[0x41]"] by simp

end
