(* ===== verification/MessageDigest.thy ===== *)
theory MessageDigest
  imports Sha1 Md5 StringEncode
begin

unbundle bit_operations_syntax

text \<open>
  \<open>talk/base/messagedigest.cc\<close> with the built-in digests of \<open>md5digest.h\<close> and \<open>sha1digest.h\<close> (the
  build without OpenSSL).  A \<open>MessageDigest*\<close> is a value of the datatype \<open>digest\<close>, its virtual
  calls are dispatched on the constructor.  The functions written against the abstract class take
  its three virtual functions as arguments; the locale \<open>message_digest\<close> states what they rely on.
\<close>

datatype digest = Md5Digest md5_ctx | Sha1Digest sha1_ctx

fun digest_Size :: "digest \<Rightarrow> nat" where
  "digest_Size (Md5Digest c) = 16"
| "digest_Size (Sha1Digest c) = SHA1_DIGEST_SIZE"

fun digest_Update :: "endian \<Rightarrow> digest \<Rightarrow> byte list \<Rightarrow> digest" where
  "digest_Update he (Md5Digest c) buf = Md5Digest (MD5Update he c buf)"
| "digest_Update he (Sha1Digest c) buf = Sha1Digest (SHA1Update he c buf)"

text \<open>The bytes written (none when the function returns 0) and the digest, reset for its next use.\<close>

fun digest_Finish :: "endian \<Rightarrow> digest \<Rightarrow> nat \<Rightarrow> byte list \<times> digest" where
  "digest_Finish he (Md5Digest c) len =
     (if len < 16 then ([], Md5Digest c)
      else let (out, c) = MD5Final he c in (out, Md5Digest (MD5Init c)))"
| "digest_Finish he (Sha1Digest c) len =
     (if len < SHA1_DIGEST_SIZE then ([], Sha1Digest c)
      else let (out, c) = SHA1Final he c in (out, Sha1Digest (SHA1Init c)))"

definition DIGEST_MD5 :: string where "DIGEST_MD5 = ''md5''"
definition DIGEST_SHA_1 :: string where "DIGEST_SHA_1 = ''sha-1''"

definition kBlockSize :: nat where "kBlockSize = 64"

text \<open>A new digest object: the constructors run \<open>MD5Init\<close> and \<open>SHA1Init\<close> over fresh contexts.\<close>

definition MessageDigestFactory_Create :: "string \<Rightarrow> digest option" where
  "MessageDigestFactory_Create alg =
     (if alg = DIGEST_MD5 then Some (Md5Digest (MD5Init md5_zero_ctx))
      else if alg = DIGEST_SHA_1 then Some (Sha1Digest (SHA1Init sha1_zero_ctx))
      else None)"

definition ComputeDigest ::
  "('d \<Rightarrow> byte list \<Rightarrow> 'd) \<Rightarrow> ('d \<Rightarrow> nat \<Rightarrow> byte list \<times> 'd) \<Rightarrow> 'd \<Rightarrow> byte list \<Rightarrow> nat \<Rightarrow> byte list \<times> 'd" where
  "ComputeDigest Update Finish digest input out_len = Finish (Update digest input) out_len"

definition ComputeDigest_alg :: "endian \<Rightarrow> string \<Rightarrow> byte list \<Rightarrow> nat \<Rightarrow> byte list" where
  "ComputeDigest_alg he alg input out_len =
     (case MessageDigestFactory_Create alg of
        Some digest \<Rightarrow> fst (ComputeDigest (digest_Update he) (digest_Finish he) digest input out_len)
      | None \<Rightarrow> [])"

text \<open>The string variants return the digest in hexadecimal.\<close>

definition ComputeDigest_hex :: "endian \<Rightarrow> digest \<Rightarrow> byte list \<Rightarrow> byte list" where
  "ComputeDigest_hex he digest input =
     hex_encode (fst (ComputeDigest (digest_Update he) (digest_Finish he) digest input (digest_Size digest)))"

definition ComputeDigest_string :: "endian \<Rightarrow> string \<Rightarrow> byte list \<Rightarrow> byte list option" where
  "ComputeDigest_string he alg input =
     map_option (\<lambda>digest. ComputeDigest_hex he digest input) (MessageDigestFactory_Create alg)"

definition ComputeHmac ::
  "('d \<Rightarrow> nat) \<Rightarrow> ('d \<Rightarrow> byte list \<Rightarrow> 'd) \<Rightarrow> ('d \<Rightarrow> nat \<Rightarrow> byte list \<times> 'd) \<Rightarrow>
   'd \<Rightarrow> byte list \<Rightarrow> byte list \<Rightarrow> nat \<Rightarrow> byte list \<times> 'd" where
  "ComputeHmac Size Update Finish digest key input out_len =
     (let block_len = kBlockSize in
      if Size digest > 32 then ([], digest)
      else
        let (new_key, digest) =
              (if length key > block_len then
                 let (k, digest) = ComputeDigest Update Finish digest key block_len
                 in (take (Size digest) k @ replicate (block_len - Size digest) 0, digest)
               else (key @ replicate (block_len - length key) 0, digest));
            o_pad = map (\<lambda>k. 0x5c XOR k) new_key;
            i_pad = map (\<lambda>k. 0x36 XOR k) new_key;
            digest = Update digest i_pad;
            digest = Update digest input;
            (inner, digest) = Finish digest (Size digest);
            digest = Update digest o_pad;
            digest = Update digest inner
        in Finish digest out_len)"

definition ComputeHmac_alg :: "endian \<Rightarrow> string \<Rightarrow> byte list \<Rightarrow> byte list \<Rightarrow> nat \<Rightarrow> byte list" where
  "ComputeHmac_alg he alg key input out_len =
     (case MessageDigestFactory_Create alg of
        Some digest \<Rightarrow> fst (ComputeHmac digest_Size (digest_Update he) (digest_Finish he) digest key input out_len)
      | None \<Rightarrow> [])"

definition ComputeHmac_string :: "endian \<Rightarrow> string \<Rightarrow> byte list \<Rightarrow> byte list \<Rightarrow> byte list option" where
  "ComputeHmac_string he alg key input =
     map_option (\<lambda>digest. hex_encode
       (fst (ComputeHmac digest_Size (digest_Update he) (digest_Finish he) digest key input (digest_Size digest))))
     (MessageDigestFactory_Create alg)"


subsection \<open>The contract of a digest\<close>

text \<open>RFC 2104 over a hash \<open>H\<close> with 64-byte blocks.\<close>

definition hmac_key :: "(byte list \<Rightarrow> byte list) \<Rightarrow> byte list \<Rightarrow> byte list" where
  "hmac_key H key = (let k = (if length key > 64 then H key else key) in k @ replicate (64 - length k) 0)"

definition hmac_spec :: "(byte list \<Rightarrow> byte list) \<Rightarrow> byte list \<Rightarrow> byte list \<Rightarrow> byte list" where
  "hmac_spec H key text =
     H (map (\<lambda>b. b XOR 0x5c) (hmac_key H key) @ H (map (\<lambda>b. b XOR 0x36) (hmac_key H key) @ text))"

text \<open>\<open>absorbed d m\<close>: the digest \<open>d\<close> has been fed exactly the bytes \<open>m\<close> since its last reset.\<close>

locale message_digest =
  fixes Size :: "'d \<Rightarrow> nat"
    and Update :: "'d \<Rightarrow> byte list \<Rightarrow> 'd"
    and Finish :: "'d \<Rightarrow> nat \<Rightarrow> byte list \<times> 'd"
    and absorbed :: "'d \<Rightarrow> byte list \<Rightarrow> bool"
    and H :: "byte list \<Rightarrow> byte list"
    and sz :: nat
  assumes size: "absorbed d m \<Longrightarrow> Size d = sz"
    and size_H: "length (H m) = sz"
    and size_pos: "0 < sz" and size_max: "sz \<le> 32"
    and update: "absorbed d m \<Longrightarrow> absorbed (Update d x) (m @ x)"
    and finish: "absorbed d m \<Longrightarrow> sz \<le> len \<Longrightarrow> fst (Finish d len) = H m \<and> absorbed (snd (Finish d len)) []"
    and finish_short: "absorbed d m \<Longrightarrow> len < sz \<Longrightarrow> Finish d len = ([], d)"
begin

lemma finish_eq:
  assumes "absorbed d m" and "sz \<le> len"
  obtains d' where "Finish d len = (H m, d')" and "absorbed d' []"
  using finish [OF assms] by (metis prod.collapse)

lemma compute_digest:
  assumes "absorbed d []" and "sz \<le> len"
  obtains d' where "ComputeDigest Update Finish d input len = (H input, d')" and "absorbed d' []"
proof -
  have "absorbed (Update d input) input" using update [OF assms(1), of input] by simp
  then show ?thesis using that finish_eq [OF _ assms(2)] unfolding ComputeDigest_def by blast
qed

text \<open>The last step of the computation is a \<open>Finish\<close> of the outer hash into the caller's buffer.\<close>

lemma compute_hmac_finish:
  assumes "absorbed d []"
  obtains o_pad inner d' where "ComputeHmac Size Update Finish d key text out_len = Finish d' out_len"
    and "absorbed d' (o_pad @ inner)" and "hmac_spec H key text = H (o_pad @ inner)"
proof -
  define k where "k = hmac_key H key"
  obtain d1 where d1: "absorbed d1 []" and key: "(if length key > kBlockSize then
      let (k, digest) = ComputeDigest Update Finish d key kBlockSize
      in (take (Size digest) k @ replicate (kBlockSize - Size digest) 0, digest)
    else (key @ replicate (kBlockSize - length key) 0, d)) = (k, d1)"
  proof (cases "length key > kBlockSize")
    case True
    have "sz \<le> kBlockSize" using size_max by (simp add: kBlockSize_def)
    then obtain d' where "ComputeDigest Update Finish d key kBlockSize = (H key, d')" "absorbed d' []"
      by (rule compute_digest [OF assms, of kBlockSize key])
    then show ?thesis
      using True that size size_H by (simp add: k_def hmac_key_def kBlockSize_def)
  next
    case False
    then show ?thesis
      using that assms by (simp add: k_def hmac_key_def kBlockSize_def)
  qed
  define i_pad where "i_pad = map (\<lambda>k. 0x36 XOR k) k"
  define o_pad where "o_pad = map (\<lambda>k. 0x5c XOR k) k"
  have "absorbed (Update (Update d1 i_pad) text) (i_pad @ text)"
    using update [OF update [OF d1]] by simp
  then obtain d2 where d2: "Finish (Update (Update d1 i_pad) text) sz = (H (i_pad @ text), d2)" "absorbed d2 []"
    and s2: "Size (Update (Update d1 i_pad) text) = sz"
    using finish_eq size by blast
  have "absorbed (Update (Update d2 o_pad) (H (i_pad @ text))) (o_pad @ H (i_pad @ text))"
    using update [OF update [OF d2(2)]] by simp
  moreover have "hmac_spec H key text = H (o_pad @ H (i_pad @ text))"
    by (simp add: hmac_spec_def i_pad_def o_pad_def k_def xor.commute)
  moreover have "\<not> Size d > 32" using size [OF assms] size_max by simp
  then have "ComputeHmac Size Update Finish d key text out_len = Finish (Update (Update d2 o_pad) (H (i_pad @ text))) out_len"
    using d2 s2 unfolding ComputeHmac_def Let_def key [unfolded Let_def] i_pad_def o_pad_def by simp
  ultimately show ?thesis using that by blast
qed

lemma compute_hmac:
  assumes "absorbed d []"
  shows "fst (ComputeHmac Size Update Finish d key text out_len) = (if out_len < sz then [] else hmac_spec H key text)"
proof -
  obtain o_pad inner d' where d': "ComputeHmac Size Update Finish d key text out_len = Finish d' out_len" "absorbed d' (o_pad @ inner)"
    "hmac_spec H key text = H (o_pad @ inner)"
    by (rule compute_hmac_finish [OF assms])
  then show ?thesis using finish [OF d'(2), of out_len] finish_short [OF d'(2), of out_len] by simp
qed

end

definition sha1_absorbed :: "digest \<Rightarrow> byte list \<Rightarrow> bool" where
  "sha1_absorbed d m = (case d of Sha1Digest c \<Rightarrow> sha1_inv c m | Md5Digest c \<Rightarrow> False)"

definition md5_absorbed :: "digest \<Rightarrow> byte list \<Rightarrow> bool" where
  "md5_absorbed d m = (case d of Md5Digest c \<Rightarrow> md5_inv c m | Sha1Digest c \<Rightarrow> False)"


lemma length_sha1_spec: "length (sha1_spec m) = 20"
proof -
  have "length (absorb sha1_compress sha1_H0 (m @ sha1_pad (length m))) = 5"
    by (rule length_absorb_sha1) (simp add: sha1_H0_def)
  then show ?thesis by (simp add: sha1_spec_def length_concat comp_def sum_list_triv)
qed

lemma length_md5_spec: "length (md5_spec m) = 16"
proof -
  have "length (absorb md5_compress md5_H0 (m @ md5_pad (length m))) = 4"
    by (rule length_absorb_md5) (simp add: md5_H0_def)
  then show ?thesis by (simp add: md5_spec_def length_concat comp_def sum_list_triv)
qed

lemma sha1_wiped: "length (sha_buffer (snd (SHA1Final he c))) = 64"
  by (simp add: SHA1Final_def Let_def)

lemma md5_wiped: "length (md_in (snd (MD5Final he c))) = 64"
  by (simp add: MD5Final_def Let_def)

interpretation sha1: message_digest digest_Size "digest_Update he" "digest_Finish he" sha1_absorbed sha1_spec 20 for he
proof
  fix d m x len
  show "length (sha1_spec m) = 20" by (rule length_sha1_spec)
  show "sha1_absorbed d m \<Longrightarrow> digest_Size d = 20"
    by (auto simp: sha1_absorbed_def SHA1_DIGEST_SIZE_def split: digest.splits)
  show "sha1_absorbed d m \<Longrightarrow> sha1_absorbed (digest_Update he d x) (m @ x)"
    by (auto simp: sha1_absorbed_def SHA1Update_inv split: digest.splits)
  show "sha1_absorbed d m \<Longrightarrow> 20 \<le> len \<Longrightarrow>
      fst (digest_Finish he d len) = sha1_spec m \<and> sha1_absorbed (snd (digest_Finish he d len)) []"
    by (auto simp: sha1_absorbed_def SHA1_DIGEST_SIZE_def SHA1Final_digest SHA1Init_inv sha1_wiped
        split_beta split: digest.splits)
  show "sha1_absorbed d m \<Longrightarrow> len < 20 \<Longrightarrow> digest_Finish he d len = ([], d)"
    by (auto simp: sha1_absorbed_def SHA1_DIGEST_SIZE_def split: digest.splits)
qed simp_all

interpretation md5: message_digest digest_Size "digest_Update he" "digest_Finish he" md5_absorbed md5_spec 16 for he
proof
  fix d m x len
  show "length (md5_spec m) = 16" by (rule length_md5_spec)
  show "md5_absorbed d m \<Longrightarrow> digest_Size d = 16"
    by (auto simp: md5_absorbed_def split: digest.splits)
  show "md5_absorbed d m \<Longrightarrow> md5_absorbed (digest_Update he d x) (m @ x)"
    by (auto simp: md5_absorbed_def MD5Update_inv split: digest.splits)
  show "md5_absorbed d m \<Longrightarrow> 16 \<le> len \<Longrightarrow>
      fst (digest_Finish he d len) = md5_spec m \<and> md5_absorbed (snd (digest_Finish he d len)) []"
    by (auto simp: md5_absorbed_def MD5Final_digest MD5Init_inv md5_wiped split_beta split: digest.splits)
  show "md5_absorbed d m \<Longrightarrow> len < 16 \<Longrightarrow> digest_Finish he d len = ([], d)"
    by (auto simp: md5_absorbed_def split: digest.splits)
qed simp_all

lemma Create_absorbed:
  "\<exists>d. MessageDigestFactory_Create DIGEST_SHA_1 = Some d \<and> sha1_absorbed d []"
  "\<exists>d. MessageDigestFactory_Create DIGEST_MD5 = Some d \<and> md5_absorbed d []"
  by (auto simp: MessageDigestFactory_Create_def DIGEST_MD5_def DIGEST_SHA_1_def sha1_absorbed_def md5_absorbed_def
      SHA1Init_inv MD5Init_inv sha1_zero_ctx_def md5_zero_ctx_def)

lemma ComputeHmac_alg_eq:
  "ComputeHmac_alg he DIGEST_SHA_1 key text len = (if len < 20 then [] else hmac_spec sha1_spec key text)"
  "ComputeHmac_alg he DIGEST_MD5 key text len = (if len < 16 then [] else hmac_spec md5_spec key text)"
  using Create_absorbed sha1.compute_hmac [of _ he key "text" len] md5.compute_hmac [of _ he key "text" len]
  by (auto simp: ComputeHmac_alg_def)

lemma ComputeHmac_alg_sha1:
  assumes "20 \<le> len"
  shows "ComputeHmac_alg he DIGEST_SHA_1 key text len = hmac_spec sha1_spec key text"
  using assms by (simp add: ComputeHmac_alg_eq)

lemma length_hmac_sha1 [simp]: "length (hmac_spec sha1_spec key text) = 20"
  by (simp add: hmac_spec_def length_sha1_spec)

text \<open>
  C23: \<open>ComputeHmac\<close> is the HMAC of RFC 2104 for both built-in digests, for keys shorter and longer
  than a block, on hosts of either byte order; it writes nothing and returns 0 exactly when the output buffer is shorter
  than the digest or the name is not that of a digest.
\<close>

theorem hmac_rfc2104:
  assumes "alg \<noteq> DIGEST_MD5" and "alg \<noteq> DIGEST_SHA_1"
  shows "ComputeHmac_alg he DIGEST_SHA_1 key text out_len = (if out_len < 20 then [] else hmac_spec sha1_spec key text) \<and>
    ComputeHmac_alg he DIGEST_MD5 key text out_len = (if out_len < 16 then [] else hmac_spec md5_spec key text) \<and>
    ComputeHmac_alg he alg key text out_len = [] \<and>
    length (hmac_spec sha1_spec key text) = 20 \<and> length (hmac_spec md5_spec key text) = 16"
proof -
  have "ComputeHmac_alg he alg key text out_len = []"
    using assms by (simp add: ComputeHmac_alg_def MessageDigestFactory_Create_def)
  then show ?thesis by (simp add: ComputeHmac_alg_eq) (simp add: hmac_spec_def length_md5_spec)
qed

theorem hmac_rfc2104_witness:
  "ComputeHmac_alg LittleEndianHost DIGEST_SHA_1 [0x6B] [0x74] 20 = hmac_spec sha1_spec [0x6B] [0x74] \<and>
   ComputeHmac_alg LittleEndianHost DIGEST_MD5 [0x6B] [0x74] 15 = [] \<and>
   ComputeHmac_alg LittleEndianHost ''sha-256'' [0x6B] [0x74] 20 = []"
  using hmac_rfc2104 [of "''sha-256''" LittleEndianHost "[0x6B]" "[0x74]" 20]
    hmac_rfc2104 [of "''sha-256''" LittleEndianHost "[0x6B]" "[0x74]" 15]
  by (simp add: DIGEST_MD5_def DIGEST_SHA_1_def)

end
