(* ===== verification/StunMessage.thy ===== *)
theory StunMessage
  imports StunAttr Crc32 MessageDigest
begin

unbundle bit_operations_syntax

text \<open>
  \<open>StunMessage\<close> of \<open>talk/p2p/base/stun.cc\<close> and its subclasses of \<open>stun.h\<close>: the attribute table of
  each class, building and parsing messages, and the MESSAGE-INTEGRITY and FINGERPRINT checks.
  A parse that fails leaves a half-filled message behind, which every caller drops: the model
  returns \<open>None\<close>.
\<close>

datatype msg_class = StunMessageC | RelayMessageC | TurnMessageC | IceMessageC

record stun_message =
  sm_class :: msg_class
  sm_type :: u16
  sm_length :: u16
  sm_tid :: "byte list"
  sm_attrs :: "stun_attribute list"

definition STUN_ATTR_MAPPED_ADDRESS :: u16 where "STUN_ATTR_MAPPED_ADDRESS = 0x0001"
definition STUN_ATTR_MESSAGE_INTEGRITY :: u16 where "STUN_ATTR_MESSAGE_INTEGRITY = 0x0008"
definition STUN_ATTR_ERROR_CODE :: u16 where "STUN_ATTR_ERROR_CODE = 0x0009"
definition STUN_ATTR_UNKNOWN_ATTRIBUTES :: u16 where "STUN_ATTR_UNKNOWN_ATTRIBUTES = 0x000a"
definition STUN_ATTR_XOR_MAPPED_ADDRESS :: u16 where "STUN_ATTR_XOR_MAPPED_ADDRESS = 0x0020"
definition STUN_ATTR_FINGERPRINT :: u16 where "STUN_ATTR_FINGERPRINT = 0x8028"

definition kStunHeaderSize :: nat where "kStunHeaderSize = 20"
definition kStunAttributeHeaderSize :: nat where "kStunAttributeHeaderSize = 4"
definition kStunMessageIntegritySize :: nat where "kStunMessageIntegritySize = 20"
definition kStunMagicCookieLength :: nat where "kStunMagicCookieLength = 4"
definition kStunTransactionIdOffset :: nat where "kStunTransactionIdOffset = 8"
definition STUN_FINGERPRINT_XOR_VALUE :: u32 where "STUN_FINGERPRINT_XOR_VALUE = 0x5354554E"

text \<open>\<open>EMPTY_TRANSACTION_ID\<close>: sixteen characters \<open>'0'\<close>.\<close>

definition StunMessage_new :: "msg_class \<Rightarrow> stun_message" where
  "StunMessage_new cls = \<lparr>sm_class = cls, sm_type = 0, sm_length = 0, sm_tid = replicate 16 0x30, sm_attrs = []\<rparr>"

definition IsValidTransactionId :: "byte list \<Rightarrow> bool" where
  "IsValidTransactionId tid \<longleftrightarrow>
     length tid = kStunTransactionIdLength \<or> length tid = kStunLegacyTransactionIdLength"

definition IsLegacy :: "stun_message \<Rightarrow> bool" where
  "IsLegacy m = (length (sm_tid m) = kStunLegacyTransactionIdLength)"

definition SetTransactionID :: "stun_message \<Rightarrow> byte list \<Rightarrow> stun_message option" where
  "SetTransactionID m str = (if \<not> IsValidTransactionId str then None else Some (m\<lparr>sm_tid := str\<rparr>))"

definition SetType :: "stun_message \<Rightarrow> int \<Rightarrow> stun_message" where
  "SetType m type = m\<lparr>sm_type := of_int type\<rparr>"

subsection \<open>Attribute types\<close>

definition StunMessage_GetAttributeValueType :: "u16 \<Rightarrow> stun_value_type" where
  "StunMessage_GetAttributeValueType type =
     (if type = 0x0001 then STUN_VALUE_ADDRESS
      else if type = 0x0006 then STUN_VALUE_BYTE_STRING
      else if type = 0x0008 then STUN_VALUE_BYTE_STRING
      else if type = 0x0009 then STUN_VALUE_ERROR_CODE
      else if type = 0x000a then STUN_VALUE_UINT16_LIST
      else if type = 0x0014 then STUN_VALUE_BYTE_STRING
      else if type = 0x0015 then STUN_VALUE_BYTE_STRING
      else if type = 0x0020 then STUN_VALUE_XOR_ADDRESS
      else if type = 0x8022 then STUN_VALUE_BYTE_STRING
      else if type = 0x8023 then STUN_VALUE_BYTE_STRING
      else if type = 0x8028 then STUN_VALUE_UINT32
      else if type = 0xFF00 then STUN_VALUE_UINT32
      else STUN_VALUE_UNKNOWN)"

definition RelayMessage_GetAttributeValueType :: "u16 \<Rightarrow> stun_value_type" where
  "RelayMessage_GetAttributeValueType type =
     (if type = 0x000d then STUN_VALUE_UINT32
      else if type = 0x000f then STUN_VALUE_BYTE_STRING
      else if type = 0x0010 then STUN_VALUE_UINT32
      else if type = 0x0011 then STUN_VALUE_ADDRESS
      else if type = 0x0012 then STUN_VALUE_ADDRESS
      else if type = 0x0013 then STUN_VALUE_BYTE_STRING
      else if type = 0x8001 then STUN_VALUE_UINT32
      else StunMessage_GetAttributeValueType type)"

definition TurnMessage_GetAttributeValueType :: "u16 \<Rightarrow> stun_value_type" where
  "TurnMessage_GetAttributeValueType type =
     (if type = 0x000C then STUN_VALUE_UINT32
      else if type = 0x000d then STUN_VALUE_UINT32
      else if type = 0x0012 then STUN_VALUE_XOR_ADDRESS
      else if type = 0x0013 then STUN_VALUE_BYTE_STRING
      else if type = 0x0016 then STUN_VALUE_XOR_ADDRESS
      else if type = 0x0018 then STUN_VALUE_BYTE_STRING
      else if type = 0x0019 then STUN_VALUE_UINT32
      else if type = 0x001A then STUN_VALUE_BYTE_STRING
      else if type = 0x0022 then STUN_VALUE_BYTE_STRING
      else StunMessage_GetAttributeValueType type)"

definition IceMessage_GetAttributeValueType :: "u16 \<Rightarrow> stun_value_type" where
  "IceMessage_GetAttributeValueType type =
     (if type = 0x0024 then STUN_VALUE_UINT32
      else if type = 0x0025 then STUN_VALUE_BYTE_STRING
      else if type = 0x8029 then STUN_VALUE_UINT64
      else if type = 0x802A then STUN_VALUE_UINT64
      else StunMessage_GetAttributeValueType type)"

text \<open>The virtual call.\<close>

fun GetAttributeValueType :: "msg_class \<Rightarrow> u16 \<Rightarrow> stun_value_type" where
  "GetAttributeValueType StunMessageC type = StunMessage_GetAttributeValueType type"
| "GetAttributeValueType RelayMessageC type = RelayMessage_GetAttributeValueType type"
| "GetAttributeValueType TurnMessageC type = TurnMessage_GetAttributeValueType type"
| "GetAttributeValueType IceMessageC type = IceMessage_GetAttributeValueType type"

definition CreateAttribute :: "msg_class \<Rightarrow> u16 \<Rightarrow> u16 \<Rightarrow> stun_attribute option" where
  "CreateAttribute cls type len = StunAttribute_Create (GetAttributeValueType cls type) type len"

subsection \<open>Attributes of a message\<close>

text \<open>\<open>None\<close>: the attribute is refused and the message unchanged.\<close>

definition AddAttribute :: "stun_message \<Rightarrow> stun_attribute \<Rightarrow> stun_message option" where
  "AddAttribute m attr =
     (if value_type (at_body attr) \<noteq> GetAttributeValueType (sm_class m) (at_type attr) then None
      else
        let attr_length = unat (at_length attr);
            attr_length = (if attr_length mod 4 \<noteq> 0 then attr_length + (4 - attr_length mod 4) else attr_length)
        in Some (m\<lparr>sm_attrs := sm_attrs m @ [attr\<lparr>at_body := SetOwner (at_body attr)\<rparr>],
                   sm_length := sm_length m + of_nat (attr_length + 4)\<rparr>))"

definition GetAttribute :: "stun_message \<Rightarrow> u16 \<Rightarrow> stun_attribute option" where
  "GetAttribute m type = find (\<lambda>a. at_type a = type) (sm_attrs m)"

definition GetAddress :: "stun_message \<Rightarrow> u16 \<Rightarrow> stun_attribute option" where
  "GetAddress m type =
     (if type = STUN_ATTR_MAPPED_ADDRESS then
        (case GetAttribute m STUN_ATTR_MAPPED_ADDRESS of
           None \<Rightarrow> GetAttribute m STUN_ATTR_XOR_MAPPED_ADDRESS
         | Some a \<Rightarrow> Some a)
      else GetAttribute m type)"

definition GetErrorCode :: "stun_message \<Rightarrow> stun_attribute option" where
  "GetErrorCode m = GetAttribute m STUN_ATTR_ERROR_CODE"

definition GetUnknownAttributes :: "stun_message \<Rightarrow> stun_attribute option" where
  "GetUnknownAttributes m = GetAttribute m STUN_ATTR_UNKNOWN_ATTRIBUTES"

subsection \<open>Writing\<close>

fun WriteAttrs :: "endian \<Rightarrow> byte list \<Rightarrow> stun_attribute list \<Rightarrow> byte_buffer \<Rightarrow> byte_buffer option" where
  "WriteAttrs he tid [] buf = Some buf"
| "WriteAttrs he tid (a # as) buf = do {
     buf \<leftarrow> attr_Write he tid a (WriteUInt16 he (WriteUInt16 he buf (at_type a)) (at_length a));
     WriteAttrs he tid as buf
   }"

definition msg_Write :: "endian \<Rightarrow> stun_message \<Rightarrow> byte_buffer \<Rightarrow> byte_buffer option" where
  "msg_Write he m buf =
     (let buf = WriteUInt16 he buf (sm_type m);
          buf = WriteUInt16 he buf (sm_length m);
          buf = (if \<not> IsLegacy m then WriteUInt32 he buf kStunMagicCookie else buf);
          buf = WriteString buf (sm_tid m)
      in WriteAttrs he (sm_tid m) (sm_attrs m) buf)"

subsection \<open>Reading\<close>

lemma ReadBytes_Length: "ReadBytes b n = Some (v, b') \<Longrightarrow> Length b' + n = Length b"
  by (auto simp: ReadBytes_def Length_def split: if_splits)

lemma ReadString_Length: "ReadString b s n = Some (v, b') \<Longrightarrow> Length b' + n = Length b"
  by (auto simp: ReadString_def Length_def split: if_splits)

lemma ReadUInt_Length:
  "ReadUInt8 b = Some (v8, b') \<Longrightarrow> Length b' + 1 = Length b"
  "ReadUInt16 he b = Some (v16, b') \<Longrightarrow> Length b' + 2 = Length b"
  "ReadUInt32 he b = Some (v32, b') \<Longrightarrow> Length b' + 4 = Length b"
  "ReadUInt64 he b = Some (v64, b') \<Longrightarrow> Length b' + 8 = Length b"
  by (auto simp: ReadUInt8_def ReadUInt16_def ReadUInt32_def ReadUInt64_def Let_def dest!: ReadBytes_Length
      split: option.splits)

lemma Consume_Length: "Consume b n = Some b' \<Longrightarrow> Length b' + n = Length b"
  by (auto simp: Consume_def Length_def split: if_splits)

lemma ConsumePadding_Length: "Length (ConsumePadding len b) \<le> Length b"
  using Consume_Length [of b] by (fastforce simp: ConsumePadding_def Let_def split: option.split)

lemma ReadAddress_Length: "ReadAddress he len b = Some (sa, b') \<Longrightarrow> Length b' \<le> Length b"
  by (fastforce simp: ReadAddress_def bind_eq_Some_conv dest!: ReadUInt_Length ReadBytes_Length split: if_splits)

lemma ReadTypes_Length: "ReadTypes he n ts b = Some (us, b') \<Longrightarrow> Length b' \<le> Length b"
  by (induction n arbitrary: ts b) (fastforce simp: bind_eq_Some_conv dest!: ReadUInt_Length)+

lemma attr_Read_Length: "attr_Read he tid a b = Some (a', b') \<Longrightarrow> Length b' \<le> Length b"
  using ConsumePadding_Length [of "at_length a"]
  by (fastforce simp: attr_Read_defs bind_eq_Some_conv split: attr_body.splits if_splits
      dest!: ReadUInt_Length ReadBytes_Length ReadString_Length ReadAddress_Length ReadTypes_Length
      intro: order_trans)

text \<open>
  The loop over the attributes.  The padded length of an attribute that is skipped is computed in
  the \<open>uint16\<close> that holds it.
\<close>

function ReadAttrs ::
  "endian \<Rightarrow> msg_class \<Rightarrow> byte list \<Rightarrow> nat \<Rightarrow> stun_attribute list \<Rightarrow> byte_buffer \<Rightarrow> (stun_attribute list \<times> byte_buffer) option"
where
  "ReadAttrs he cls tid rest attrs buf =
     (if Length buf > rest then do {
        (attr_type, buf1) \<leftarrow> ReadUInt16 he buf;
        (attr_length, buf2) \<leftarrow> ReadUInt16 he buf1;
        case CreateAttribute cls attr_type attr_length of
          None \<Rightarrow>
            (let attr_length = (if unat attr_length mod 4 \<noteq> 0
                                then attr_length + of_nat (4 - unat attr_length mod 4) else attr_length)
             in do {
               buf3 \<leftarrow> Consume buf2 (unat attr_length);
               ReadAttrs he cls tid rest attrs buf3
             })
        | Some attr \<Rightarrow> do {
            (attr, buf3) \<leftarrow> attr_Read he tid attr buf2;
            ReadAttrs he cls tid rest (attrs @ [attr]) buf3
          }
      } else Some (attrs, buf))"
  by pat_completeness auto
termination
  by (relation "measure (\<lambda>(he, cls, tid, rest, attrs, buf). Length buf)")
    (auto dest!: ReadUInt_Length Consume_Length attr_Read_Length)

declare ReadAttrs.simps [simp del]

definition msg_Read :: "endian \<Rightarrow> msg_class \<Rightarrow> byte_buffer \<Rightarrow> (stun_message \<times> byte_buffer) option" where
  "msg_Read he cls buf = do {
     (type, buf) \<leftarrow> ReadUInt16 he buf;
     if type AND 0x8000 \<noteq> 0 then None
     else do {
       (len, buf) \<leftarrow> ReadUInt16 he buf;
       (magic_cookie, buf) \<leftarrow> ReadString buf [] kStunMagicCookieLength;
       (transaction_id, buf) \<leftarrow> ReadString buf [] kStunTransactionIdLength;
       let transaction_id =
         (if NetworkToHost32 he (value32 he magic_cookie) \<noteq> kStunMagicCookie
          then magic_cookie @ transaction_id else transaction_id);
       if unat len \<noteq> Length buf then None
       else do {
         let rest = Length buf - unat len;
         (attrs, buf) \<leftarrow> ReadAttrs he cls transaction_id rest [] buf;
         Some (\<lparr>sm_class = cls, sm_type = type, sm_length = len, sm_tid = transaction_id, sm_attrs = attrs\<rparr>, buf)
       }
     }
   }"

subsection \<open>MESSAGE-INTEGRITY\<close>

text \<open>The first attribute of that type: its position, or \<open>None\<close> when the function returns \<open>false\<close>.\<close>

function find_integrity :: "byte list \<Rightarrow> nat \<Rightarrow> nat option" where
  "find_integrity data current_pos =
     (if current_pos < length data then
        let attr_type = GetBE16 (drop current_pos data);
            attr_length = unat (GetBE16 (drop (current_pos + 2) data))
        in if attr_type = STUN_ATTR_MESSAGE_INTEGRITY then
             if attr_length \<noteq> kStunMessageIntegritySize \<or> current_pos + attr_length > length data
             then None else Some current_pos
           else
             let next_pos = current_pos + 2 + 2 + attr_length
             in find_integrity data (if attr_length mod 4 \<noteq> 0 then next_pos + (4 - attr_length mod 4) else next_pos)
      else None)"
  by pat_completeness auto
termination
  by (relation "measure (\<lambda>(data, pos). length data - pos)") auto

declare find_integrity.simps [simp del]

text \<open>
  \<open>ValidateMessageIntegrity(data, size, password)\<close> with \<open>size\<close> the number of bytes at \<open>data\<close>.  \<open>None\<close> is
  a read outside of them: the length field of an empty packet, and the 20 bytes of the HMAC when
  they do not all belong to the packet.
\<close>

definition ValidateMessageIntegrity :: "endian \<Rightarrow> byte list \<Rightarrow> byte list \<Rightarrow> bool option" where
  "ValidateMessageIntegrity he data password =
     (let size = length data in
      if size mod 4 \<noteq> 0 then Some False
      else if size < 4 then None
      else if size \<noteq> unat (GetBE16 (drop 2 data)) + kStunHeaderSize then Some False
      else
        (case find_integrity data kStunHeaderSize of
           None \<Rightarrow> Some False
         | Some mi_pos \<Rightarrow>
             let temp_data = take mi_pos data;
                 mi_end = mi_pos + kStunAttributeHeaderSize + kStunMessageIntegritySize;
                 temp_data = (if size > mi_end
                              then let extra_offset = size - mi_end;
                                       new_adjusted_len = size - extra_offset - kStunHeaderSize
                                   in memcpy_at temp_data 2 (SetBE16 [0, 0] (of_nat new_adjusted_len))
                              else temp_data);
                 hmac = ComputeHmac_alg he DIGEST_SHA_1 password temp_data kStunMessageIntegritySize
             in if length hmac \<noteq> kStunMessageIntegritySize then Some False
                else if size < mi_end then None
                else Some (take kStunMessageIntegritySize (drop (mi_pos + kStunAttributeHeaderSize) data) = hmac)))"

text \<open>The message afterwards, with the result: a failure leaves the attribute with its dummy value.\<close>

definition AddMessageIntegrity :: "endian \<Rightarrow> stun_message \<Rightarrow> byte list \<Rightarrow> stun_message \<times> bool" where
  "AddMessageIntegrity he m key =
     (let mi = StunByteStringAttribute STUN_ATTR_MESSAGE_INTEGRITY (replicate kStunMessageIntegritySize 0x30)
      in case AddAttribute m mi of
           None \<Rightarrow> (m, False)
         | Some m1 \<Rightarrow>
             (case msg_Write he m1 ByteBuffer_new of
                None \<Rightarrow> (m1, False)
              | Some buf \<Rightarrow>
                  let msg_len_for_hmac = Length buf - kStunAttributeHeaderSize - unat (at_length mi);
                      hmac = ComputeHmac_alg he DIGEST_SHA_1 key (take msg_len_for_hmac (Data buf)) kStunMessageIntegritySize
                  in if length hmac \<noteq> kStunMessageIntegritySize then (m1, False)
                     else (m1\<lparr>sm_attrs := (sm_attrs m1)[length (sm_attrs m) := CopyBytes (last (sm_attrs m1)) hmac]\<rparr>, True)))"

subsection \<open>FINGERPRINT\<close>

definition ValidateFingerprint :: "u32 list \<Rightarrow> byte list \<Rightarrow> bool" where
  "ValidateFingerprint table data =
     (let size = length data;
          fingerprint_attr_size = kStunAttributeHeaderSize + 4
      in if size mod 4 \<noteq> 0 \<or> size < kStunHeaderSize + fingerprint_attr_size then False
         else if GetBE32 (drop (kStunTransactionIdOffset - kStunMagicCookieLength) data) \<noteq> kStunMagicCookie then False
         else
           let fingerprint_attr_data = drop (size - fingerprint_attr_size) data in
           if GetBE16 fingerprint_attr_data \<noteq> STUN_ATTR_FINGERPRINT \<or> GetBE16 (drop 2 fingerprint_attr_data) \<noteq> 4
           then False
           else
             let fingerprint = GetBE32 (drop kStunAttributeHeaderSize fingerprint_attr_data)
             in fingerprint XOR STUN_FINGERPRINT_XOR_VALUE = fst (ComputeCrc32 table (take (size - fingerprint_attr_size) data)))"

definition AddFingerprint :: "endian \<Rightarrow> u32 list \<Rightarrow> stun_message \<Rightarrow> stun_message \<times> bool" where
  "AddFingerprint he table m =
     (let fp = StunUInt32Attribute STUN_ATTR_FINGERPRINT 0
      in case AddAttribute m fp of
           None \<Rightarrow> (m, False)
         | Some m1 \<Rightarrow>
             (case msg_Write he m1 ByteBuffer_new of
                None \<Rightarrow> (m1, False)
              | Some buf \<Rightarrow>
                  let msg_len_for_crc32 = Length buf - kStunAttributeHeaderSize - unat (at_length fp);
                      c = fst (ComputeCrc32 table (take msg_len_for_crc32 (Data buf)))
                  in (m1\<lparr>sm_attrs := (sm_attrs m1)[length (sm_attrs m) :=
                        (last (sm_attrs m1))\<lparr>at_body := UInt32Attr (c XOR STUN_FINGERPRINT_XOR_VALUE)\<rparr>]\<rparr>, True)))"

subsection \<open>Message types\<close>

definition kStunTypeMask :: u32 where "kStunTypeMask = 0x0110"

text \<open>\<open>int\<close> arguments as 32-bit words; \<open>msg_type & kStunTypeMask\<close> is unsigned.\<close>

definition IsStunRequestType :: "u32 \<Rightarrow> bool" where
  "IsStunRequestType t \<longleftrightarrow> t AND kStunTypeMask = 0x000"

definition IsStunIndicationType :: "u32 \<Rightarrow> bool" where
  "IsStunIndicationType t \<longleftrightarrow> t AND kStunTypeMask = 0x010"

definition IsStunSuccessResponseType :: "u32 \<Rightarrow> bool" where
  "IsStunSuccessResponseType t \<longleftrightarrow> t AND kStunTypeMask = 0x100"

definition IsStunErrorResponseType :: "u32 \<Rightarrow> bool" where
  "IsStunErrorResponseType t \<longleftrightarrow> t AND kStunTypeMask = 0x110"

definition GetStunSuccessResponseType :: "u32 \<Rightarrow> u32" where
  "GetStunSuccessResponseType req_type = (if IsStunRequestType req_type then req_type OR 0x100 else - 1)"

definition GetStunErrorResponseType :: "u32 \<Rightarrow> u32" where
  "GetStunErrorResponseType req_type = (if IsStunRequestType req_type then req_type OR 0x110 else - 1)"

definition ComputeStunCredentialHash :: "endian \<Rightarrow> byte list \<Rightarrow> byte list \<Rightarrow> byte list \<Rightarrow> byte list option" where
  "ComputeStunCredentialHash he username realm password =
     (let input = username @ [0x3A] @ realm @ [0x3A] @ password;
          digest = ComputeDigest_alg he DIGEST_MD5 input 64
      in if digest = [] then None else Some digest)"

end
