(* ===== verification/StunProofs.thy ===== *)
theory StunProofs
  imports StunMessage
begin

unbundle bit_operations_syntax

text \<open>
  The properties of the STUN codec: the wire format of a message (\<open>msg_bytes\<close>), that a well-formed
  message is written to it and read back from it, and that the MESSAGE-INTEGRITY and FINGERPRINT
  attributes a message is given are the ones the checks accept.
\<close>

definition attrs_bytes :: "byte list \<Rightarrow> stun_attribute list \<Rightarrow> byte list" where
  "attrs_bytes tid as = concat (map (\<lambda>a. be16 (at_type a) @ be16 (at_length a) @ attr_bytes tid a) as)"

definition header_bytes :: "u16 \<Rightarrow> u16 \<Rightarrow> byte list \<Rightarrow> byte list" where
  "header_bytes type len tid = be16 type @ be16 len @ (if length tid = 16 then [] else be32 kStunMagicCookie) @ tid"

definition msg_bytes :: "stun_message \<Rightarrow> byte list" where
  "msg_bytes m = header_bytes (sm_type m) (sm_length m) (sm_tid m) @ attrs_bytes (sm_tid m) (sm_attrs m)"

text \<open>A transaction id of sixteen bytes that began with the magic cookie would be read as one of twelve.\<close>

definition tid_wf :: "byte list \<Rightarrow> bool" where
  "tid_wf tid \<longleftrightarrow> length tid = 12 \<or> length tid = 16 \<and> take 4 tid \<noteq> be32 kStunMagicCookie"

definition attr_ok :: "msg_class \<Rightarrow> byte list \<Rightarrow> stun_attribute \<Rightarrow> bool" where
  "attr_ok cls tid a \<longleftrightarrow> attr_wf tid a \<and> value_type (at_body a) = GetAttributeValueType cls (at_type a)"

definition msg_wf :: "stun_message \<Rightarrow> bool" where
  "msg_wf m \<longleftrightarrow>
     tid_wf (sm_tid m) \<and> sm_type m AND 0x8000 = 0 \<and>
     list_all (attr_ok (sm_class m) (sm_tid m)) (sm_attrs m) \<and>
     unat (sm_length m) = length (attrs_bytes (sm_tid m) (sm_attrs m))"

lemma length_header [simp]: "tid_wf tid \<Longrightarrow> length (header_bytes type len tid) = 20"
  by (auto simp: header_bytes_def tid_wf_def)

lemma attrs_bytes_simps [simp]:
  "attrs_bytes tid [] = []"
  "attrs_bytes tid (a # as) = be16 (at_type a) @ be16 (at_length a) @ attr_bytes tid a @ attrs_bytes tid as"
  "attrs_bytes tid (as @ bs) = attrs_bytes tid as @ attrs_bytes tid bs"
  by (simp_all add: attrs_bytes_def)

definition padded :: "nat \<Rightarrow> nat" where
  "padded n = (if n mod 4 \<noteq> 0 then n + (4 - n mod 4) else n)"

lemma length_pad4_padded: "n + length (pad4 n) = padded n"
  by (simp add: pad4_cases padded_def)

lemma padded_dvd: "4 dvd padded n"
  unfolding padded_def by presburger

lemma length_concat_be16: "length (concat (map be16 ts)) = 2 * length ts"
  by (induction ts) simp_all

lemma length_attr_bytes:
  assumes "attr_wf tid a"
  shows "length (attr_bytes tid a) = padded (unat (at_length a))"
proof (cases "at_body a")
  case (AddressAttr sa)
  then show ?thesis
    using assms by (cases "sa_ip sa")
      (auto simp: attr_wf_def addr_wf_def attr_bytes_def address_bytes_def EnsureAddressLength_ip padded_def)
next
  case (XorAddressAttr sa ow)
  then show ?thesis
    using assms by (cases "sa_ip sa")
      (auto simp: attr_wf_def addr_wf_def attr_bytes_def address_bytes_def EnsureAddressLength_ip padded_def)
next
  case (ErrorCodeAttr c n r)
  then show ?thesis
    using assms length_pad4_padded [of "4 + length r"] by (simp add: attr_wf_def attr_bytes_def pad4_shift)
qed (use assms length_pad4_padded in \<open>simp_all add: attr_wf_def attr_bytes_def padded_def length_concat_be16\<close>)

lemma attrs_bytes_dvd:
  "list_all (attr_ok cls tid) as \<Longrightarrow> 4 dvd length (attrs_bytes tid as)"
proof (induction as)
  case (Cons a as)
  then have "length (attrs_bytes tid (a # as)) = 4 + (padded (unat (at_length a)) + length (attrs_bytes tid as))"
    by (simp add: attr_ok_def length_attr_bytes)
  then show ?case using Cons padded_dvd [of "unat (at_length a)"] by (simp only: dvd_add_triv_left_iff) (simp add: dvd_add)
qed simp

subsection \<open>Writing\<close>

lemma WriteAttrs_bytes:
  assumes "list_all (attr_wf tid) as" and "net b"
  shows "\<exists>b'. WriteAttrs he tid as b = Some b' \<and> net b' \<and> contents b' = contents b @ attrs_bytes tid as"
  using assms
proof (induction as arbitrary: b)
  case (Cons a as)
  let ?b = "WriteUInt16 he (WriteUInt16 he b (at_type a)) (at_length a)"
  have b: "net ?b" "contents ?b = contents b @ be16 (at_type a) @ be16 (at_length a)"
    using Cons.prems by (simp_all add: net_simps)
  obtain b1 where "attr_Write he tid a ?b = Some b1" "net b1" "contents b1 = contents ?b @ attr_bytes tid a"
    using attr_Write_bytes [OF _ b(1), of tid a he] Cons.prems by auto
  moreover obtain b2 where "WriteAttrs he tid as b1 = Some b2" "net b2" "contents b2 = contents b1 @ attrs_bytes tid as"
    using Cons.IH [of b1] Cons.prems calculation by auto
  ultimately show ?case using b(2) by simp
qed simp

lemma attr_ok_wf: "list_all (attr_ok cls tid) as \<Longrightarrow> list_all (attr_wf tid) as"
  by (auto simp: list_all_iff attr_ok_def)

lemma msg_Write_bytes:
  assumes "msg_wf m" and "net b"
  shows "\<exists>b'. msg_Write he m b = Some b' \<and> net b' \<and> contents b' = contents b @ msg_bytes m"
proof -
  let ?b = "WriteString (let b = WriteUInt16 he (WriteUInt16 he b (sm_type m)) (sm_length m)
    in if \<not> IsLegacy m then WriteUInt32 he b kStunMagicCookie else b) (sm_tid m)"
  have b: "net ?b" "contents ?b = contents b @ header_bytes (sm_type m) (sm_length m) (sm_tid m)"
    using assms by (auto simp: net_simps header_bytes_def IsLegacy_def kStunLegacyTransactionIdLength_def Let_def)
  show ?thesis
    using WriteAttrs_bytes [OF _ b(1), of "sm_tid m" "sm_attrs m" he] assms(1) b(2)
    by (auto simp: msg_Write_def msg_wf_def msg_bytes_def Let_def dest!: attr_ok_wf)
qed

subsection \<open>Reading back\<close>

lemma Create_of_ok:
  assumes "attr_ok cls tid a"
  obtains a0 where "CreateAttribute cls (at_type a) (at_length a) = Some a0"
    and "StunAttribute_Create (value_type (at_body a)) (at_type a) (at_length a) = Some a0"
  using assms by (cases "at_body a") (auto simp: attr_ok_def CreateAttribute_def StunAttribute_Create_def)

lemma ReadAttrs_bytes:
  assumes "list_all (attr_ok cls tid) as" and "net b" and "contents b = attrs_bytes tid as"
  shows "\<exists>b'. ReadAttrs he cls tid 0 as0 b = Some (as0 @ as, b') \<and> net b' \<and> contents b' = []"
  using assms
proof (induction as arbitrary: b as0)
  case Nil
  then show ?case by (auto simp: ReadAttrs.simps Length_eq)
next
  case (Cons a as)
  have ok: "attr_ok cls tid a" "list_all (attr_ok cls tid) as" using Cons.prems by simp_all
  obtain a0 where a0: "CreateAttribute cls (at_type a) (at_length a) = Some a0"
    "StunAttribute_Create (value_type (at_body a)) (at_type a) (at_length a) = Some a0"
    using Create_of_ok [OF ok(1)] .
  define b2 where "b2 = advance (advance b 2) 2"
  have r: "ReadUInt16 he b = Some (at_type a, advance b 2)" "ReadUInt16 he (advance b 2) = Some (at_length a, b2)"
    "net b2" "contents b2 = attr_bytes tid a @ attrs_bytes tid as" "Length b > 0"
    using Cons.prems by (simp_all add: net_simps b2_def)
  obtain b3 where b3: "attr_Read he tid a0 b2 = Some (a, b3)" "net b3" "contents b3 = attrs_bytes tid as"
    using attr_Read_bytes [OF _ r(3,4) a0(2)] ok(1) by (auto simp: attr_ok_def)
  show ?case
    using Cons.IH [OF ok(2) b3(2,3), of "as0 @ [a]"] r b3 a0
    by (subst ReadAttrs.simps) simp
qed

lemma msg_Read_bytes:
  assumes "msg_wf m" and "net b" and "contents b = msg_bytes m"
  shows "\<exists>b'. msg_Read he (sm_class m) b = Some (m, b') \<and> net b' \<and> contents b' = []"
proof -
  define cookie where "cookie = (if length (sm_tid m) = 16 then take 4 (sm_tid m) else be32 kStunMagicCookie)"
  define id where "id = (if length (sm_tid m) = 16 then drop 4 (sm_tid m) else sm_tid m)"
  have c: "contents b = be16 (sm_type m) @ be16 (sm_length m) @ cookie @ id @ attrs_bytes (sm_tid m) (sm_attrs m)"
    using assms(3) by (simp add: msg_bytes_def header_bytes_def cookie_def id_def)
  have l: "length cookie = 4" "length id = 12"
    using assms(1) by (auto simp: cookie_def id_def msg_wf_def tid_wf_def)
  have tid: "(if NetworkToHost32 he (value32 he cookie) \<noteq> kStunMagicCookie then cookie @ id else id) = sm_tid m"
  proof -
    have "NetworkToHost32 he (value32 he cookie) = GetBE32 cookie" using l by (simp add: NetworkToHost_value)
    moreover have "GetBE32 cookie = kStunMagicCookie \<longleftrightarrow> cookie = be32 kStunMagicCookie"
      using be32_GetBE32 [of cookie] l by auto
    ultimately show ?thesis
      using assms(1) by (auto simp: cookie_def id_def msg_wf_def tid_wf_def)
  qed
  define b4 where "b4 = advance (advance (advance (advance b 2) 2) 4) 12"
  have b4: "net b4" "contents b4 = attrs_bytes (sm_tid m) (sm_attrs m)"
    using assms(2) l by (simp_all add: b4_def net_simps c)
  have r: "ReadUInt16 he b = Some (sm_type m, advance b 2)"
    "ReadUInt16 he (advance b 2) = Some (sm_length m, advance (advance b 2) 2)"
    "ReadString (advance (advance b 2) 2) [] 4 = Some (cookie, advance (advance (advance b 2) 2) 4)"
    "ReadString (advance (advance (advance b 2) 2) 4) [] 12 = Some (id, b4)"
    using assms(2) l by (simp_all add: b4_def net_simps c)
  have len: "unat (sm_length m) = Length b4" "sm_type m AND 0x8000 = 0"
    using assms(1) b4 by (simp_all add: msg_wf_def Length_eq)
  show ?thesis
    using ReadAttrs_bytes [of "sm_class m" "sm_tid m" "sm_attrs m" b4 he "[]"] assms(1) b4 r len
    by (auto simp: msg_Read_def kStunMagicCookieLength_def kStunTransactionIdLength_def tid msg_wf_def)
qed

text \<open>
  C1: every well-formed message, of each of the four message classes and with attributes of every
  kind, is written without failure, and reading the written bytes, on a host of any byte order,
  gives exactly that message and leaves nothing unread.
\<close>

theorem stun_roundtrip:
  assumes "msg_wf m"
  shows "\<exists>b b'. msg_Write he m ByteBuffer_new = Some b \<and>
    msg_Read he' (sm_class m) (ByteBuffer_of (contents b)) = Some (m, b') \<and> Length b' = 0"
proof -
  obtain b where b: "msg_Write he m ByteBuffer_new = Some b" "contents b = msg_bytes m"
    using msg_Write_bytes [OF assms ordered_new, of he] by auto
  obtain b' where "msg_Read he' (sm_class m) (ByteBuffer_of (contents b)) = Some (m, b')" "net b'" "contents b' = []"
    using msg_Read_bytes [OF assms ordered_of, of "contents b" he'] b(2) by auto
  then show ?thesis using b by (auto simp: Length_eq)
qed

definition example_msg :: stun_message where
  "example_msg = \<lparr>sm_class = IceMessageC, sm_type = 0x0101, sm_length = 24, sm_tid = replicate 12 0x41,
     sm_attrs = [\<lparr>at_type = 0x0020, at_length = 8, at_body = XorAddressAttr (SocketAddress_ip (AF_INET_ip 0x0A000001) 5000) True\<rparr>,
                 \<lparr>at_type = 0x8022, at_length = 5, at_body = ByteStringAttr [1, 2, 3, 4, 5]\<rparr>]\<rparr>"

lemma example_msg_wf: "msg_wf example_msg"
  by (simp add: example_msg_def msg_wf_def tid_wf_def attr_ok_def attr_wf_def addr_wf_def EnsureAddressLength_def attr_family_def
      IceMessage_GetAttributeValueType_def StunMessage_GetAttributeValueType_def attr_bytes_def address_bytes_def pad4_def
      attrs_bytes_def)

theorem stun_roundtrip_witness:
  "\<exists>b b'. msg_Write LittleEndianHost example_msg ByteBuffer_new = Some b \<and>
    msg_Read BigEndianHost (sm_class example_msg) (ByteBuffer_of (contents b)) = Some (example_msg, b') \<and> Length b' = 0"
  by (rule stun_roundtrip [OF example_msg_wf])

subsection \<open>Building messages\<close>

lemma StunMessage_new_wf: "msg_wf (StunMessage_new cls)"
proof -
  have "hd (replicate 4 (0x30 :: byte)) \<noteq> hd (be32 kStunMagicCookie)"
    by (simp add: be32_bytes kStunMagicCookie_def)
  then have "replicate 4 0x30 \<noteq> be32 kStunMagicCookie" by metis
  then show ?thesis by (simp add: StunMessage_new_def msg_wf_def tid_wf_def)
qed

lemma SetOwner_wf:
  "attr_wf tid a \<Longrightarrow> attr_wf tid (a\<lparr>at_body := SetOwner (at_body a)\<rparr>)"
  "attr_wf tid a \<Longrightarrow> attr_bytes tid (a\<lparr>at_body := SetOwner (at_body a)\<rparr>) = attr_bytes tid a"
  by (cases "at_body a"; simp add: attr_wf_def attr_bytes_def)+

lemma value_type_SetOwner [simp]: "value_type (SetOwner b) = value_type b"
  by (cases b) simp_all

lemma unat_add_of_nat16: "unat (w :: u16) + n < 65536 \<Longrightarrow> unat (w + of_nat n) = unat w + n"
  by (simp add: unat_word_ariths unat_of_nat_u16)

lemma AddAttribute_ok:
  assumes "msg_wf m" and "attr_wf (sm_tid m) (a\<lparr>at_body := SetOwner (at_body a)\<rparr>)"
    and "value_type (at_body a) = GetAttributeValueType (sm_class m) (at_type a)"
    and "unat (sm_length m) + padded (unat (at_length a)) + 4 < 65536"
  shows "\<exists>m'. AddAttribute m a = Some m' \<and> msg_wf m' \<and>
    m' = m\<lparr>sm_attrs := sm_attrs m @ [a\<lparr>at_body := SetOwner (at_body a)\<rparr>], sm_length := sm_length m + of_nat (padded (unat (at_length a)) + 4)\<rparr>"
proof -
  define m' where "m' = m\<lparr>sm_attrs := sm_attrs m @ [a\<lparr>at_body := SetOwner (at_body a)\<rparr>],
    sm_length := sm_length m + of_nat (padded (unat (at_length a)) + 4)\<rparr>"
  have "AddAttribute m a = Some m'"
    using assms(3) by (simp add: AddAttribute_def m'_def padded_def Let_def)
  moreover have "unat (sm_length m + of_nat (padded (unat (at_length a)) + 4)) = unat (sm_length m) + (padded (unat (at_length a)) + 4)"
    by (rule unat_add_of_nat16) (use assms(4) in simp)
  then have "msg_wf m'"
    using assms length_attr_bytes [OF assms(2)] by (simp add: msg_wf_def m'_def attr_ok_def del: of_nat_add)
  ultimately show ?thesis by (auto simp: m'_def)
qed

text \<open>
  C30: a message keeps its invariant while it is built: the length field always is the number of
  attribute bytes (each attribute padded to a multiple of four), as long as the total fits the
  field; an attribute whose kind does not belong to its type is refused.
\<close>

theorem AddAttribute_preserves:
  assumes "msg_wf m" and "attr_wf (sm_tid m) (a\<lparr>at_body := SetOwner (at_body a)\<rparr>)"
    and "unat (sm_length m) + padded (unat (at_length a)) + 4 < 65536"
  shows "case AddAttribute m a of
      None \<Rightarrow> value_type (at_body a) \<noteq> GetAttributeValueType (sm_class m) (at_type a)
    | Some m' \<Rightarrow> msg_wf m' \<and> sm_attrs m' = sm_attrs m @ [a\<lparr>at_body := SetOwner (at_body a)\<rparr>] \<and>
        unat (sm_length m') = unat (sm_length m) + padded (unat (at_length a)) + 4"
proof (cases "value_type (at_body a) = GetAttributeValueType (sm_class m) (at_type a)")
  case True
  from AddAttribute_ok [OF assms(1,2) this assms(3)] show ?thesis
    using assms(3) unat_add_of_nat16 [of "sm_length m" "padded (unat (at_length a)) + 4"] by auto
qed (simp add: AddAttribute_def)

definition example_attr :: stun_attribute where
  "example_attr = StunUInt32Attribute 0x0024 7"

theorem AddAttribute_preserves_witness:
  "case AddAttribute example_msg example_attr of
      None \<Rightarrow> value_type (at_body example_attr) \<noteq> GetAttributeValueType (sm_class example_msg) (at_type example_attr)
    | Some m' \<Rightarrow> msg_wf m' \<and> sm_attrs m' = sm_attrs example_msg @ [example_attr\<lparr>at_body := SetOwner (at_body example_attr)\<rparr>] \<and>
        unat (sm_length m') = unat (sm_length example_msg) + padded (unat (at_length example_attr)) + 4"
  by (rule AddAttribute_preserves [OF example_msg_wf])
    (simp_all add: example_attr_def StunUInt32Attribute_def attr_wf_def example_msg_def padded_def)

subsection \<open>MESSAGE-INTEGRITY\<close>

definition mi_attr :: "byte list \<Rightarrow> stun_attribute" where
  "mi_attr h = \<lparr>at_type = STUN_ATTR_MESSAGE_INTEGRITY, at_length = 20, at_body = ByteStringAttr h\<rparr>"

definition with_attr :: "stun_message \<Rightarrow> stun_attribute \<Rightarrow> stun_message" where
  "with_attr m a = m\<lparr>sm_attrs := sm_attrs m @ [a], sm_length := sm_length m + of_nat (padded (unat (at_length a)) + 4)\<rparr>"

lemma with_attr_fields [simp]:
  "sm_attrs (with_attr m a) = sm_attrs m @ [a]" "sm_tid (with_attr m a) = sm_tid m"
  "sm_type (with_attr m a) = sm_type m" "sm_class (with_attr m a) = sm_class m"
  by (simp_all add: with_attr_def)

lemma with_attr_wf:
  assumes "msg_wf m" and "attr_ok (sm_class m) (sm_tid m) a" and "unat (sm_length m) + padded (unat (at_length a)) + 4 < 65536"
  shows "msg_wf (with_attr m a)"
    and "unat (sm_length (with_attr m a)) = unat (sm_length m) + (padded (unat (at_length a)) + 4)"
proof -
  show l: "unat (sm_length (with_attr m a)) = unat (sm_length m) + (padded (unat (at_length a)) + 4)"
    unfolding with_attr_def using unat_add_of_nat16 [of "sm_length m" "padded (unat (at_length a)) + 4"] assms(3) by simp
  show "msg_wf (with_attr m a)"
    using assms l length_attr_bytes [of "sm_tid m" a] by (simp add: msg_wf_def attr_ok_def)
qed

lemma AddAttribute_with_attr:
  assumes "value_type (at_body a) = GetAttributeValueType (sm_class m) (at_type a)" and "SetOwner (at_body a) = at_body a"
  shows "AddAttribute m a = Some (with_attr m a)"
  using assms by (simp add: AddAttribute_def with_attr_def padded_def Let_def)

lemma Data_contents: "net b \<Longrightarrow> n \<le> Length b \<Longrightarrow> take n (Data b) = take n (contents b)"
  by (simp add: Data_def Length_def contents_def min_def)

lemma mi_value_type [simp]: "GetAttributeValueType cls STUN_ATTR_MESSAGE_INTEGRITY = STUN_VALUE_BYTE_STRING"
  by (cases cls) (simp_all add: STUN_ATTR_MESSAGE_INTEGRITY_def StunMessage_GetAttributeValueType_def
      RelayMessage_GetAttributeValueType_def TurnMessage_GetAttributeValueType_def IceMessage_GetAttributeValueType_def)

lemma fp_value_type [simp]: "GetAttributeValueType cls STUN_ATTR_FINGERPRINT = STUN_VALUE_UINT32"
  by (cases cls) (simp_all add: STUN_ATTR_FINGERPRINT_def StunMessage_GetAttributeValueType_def
      RelayMessage_GetAttributeValueType_def TurnMessage_GetAttributeValueType_def IceMessage_GetAttributeValueType_def)

lemma mi_attr_ok: "length h = 20 \<Longrightarrow> attr_ok cls tid (mi_attr h)"
  by (simp add: attr_ok_def attr_wf_def mi_attr_def)

lemma AddMessageIntegrity_eq:
  fixes key
  assumes "msg_wf m" and "unat (sm_length m) + 24 < 65536"
  defines "h \<equiv> hmac_spec sha1_spec key (header_bytes (sm_type m) (sm_length m + 24) (sm_tid m) @ attrs_bytes (sm_tid m) (sm_attrs m))"
  shows "AddMessageIntegrity he m key = (with_attr m (mi_attr h), True)" and "msg_wf (with_attr m (mi_attr h))"
proof -
  define z where "z = mi_attr (replicate 20 0x30)"
  have mi: "StunByteStringAttribute STUN_ATTR_MESSAGE_INTEGRITY (replicate kStunMessageIntegritySize 0x30) = z"
    by (simp add: z_def mi_attr_def StunByteStringAttribute_def CopyBytes_def kStunMessageIntegritySize_def)
  have add: "AddAttribute m z = Some (with_attr m z)"
    by (rule AddAttribute_with_attr) (simp_all add: z_def mi_attr_def)
  have z: "attr_ok (sm_class m) (sm_tid m) z" "unat (at_length z) = 20" "at_length z = 20"
    unfolding z_def by (rule mi_attr_ok) (simp_all add: mi_attr_def)
  have wf1: "msg_wf (with_attr m z)"
    by (rule with_attr_wf [OF assms(1) z(1)]) (use z assms(2) in \<open>simp add: padded_def\<close>)
  obtain b where b: "msg_Write he (with_attr m z) ByteBuffer_new = Some b" "net b" "contents b = msg_bytes (with_attr m z)"
    using msg_Write_bytes [OF wf1 ordered_new, of he] by auto
  define P where "P = header_bytes (sm_type m) (sm_length m + 24) (sm_tid m) @ attrs_bytes (sm_tid m) (sm_attrs m)"
  have cb: "contents b = P @ be16 STUN_ATTR_MESSAGE_INTEGRITY @ be16 20 @ replicate 20 0x30"
    using b(3) z by (simp add: msg_bytes_def P_def z_def mi_attr_def attr_bytes_def pad4_def with_attr_def padded_def)
  then have "take (Length b - 4 - 20) (Data b) = P"
    using b(2) Data_contents [OF b(2), of "length P"] by (simp add: Length_eq)
  then show "AddMessageIntegrity he m key = (with_attr m (mi_attr h), True)"
    unfolding AddMessageIntegrity_def mi Let_def add
    using b(1) z h_def
    by (simp add: kStunAttributeHeaderSize_def kStunMessageIntegritySize_def ComputeHmac_alg_sha1 P_def)
      (simp add: with_attr_def z_def mi_attr_def CopyBytes_def)
  show "msg_wf (with_attr m (mi_attr h))"
    by (rule with_attr_wf [OF assms(1) mi_attr_ok]) (use assms(2) in \<open>simp_all add: h_def mi_attr_def padded_def\<close>)
qed

lemma find_integrity_skip:
  assumes "list_all (attr_ok cls tid) as" and "\<forall>a \<in> set as. at_type a \<noteq> STUN_ATTR_MESSAGE_INTEGRITY"
    and "length h = 20"
  shows "find_integrity (P @ attrs_bytes tid as @ be16 STUN_ATTR_MESSAGE_INTEGRITY @ be16 20 @ h @ tail) (length P) =
    Some (length P + length (attrs_bytes tid as))"
  using assms
proof (induction as arbitrary: P)
  case Nil
  then show ?case
    by (simp add: find_integrity.simps kStunMessageIntegritySize_def Let_def)
next
  case (Cons a as)
  let ?rest = "attrs_bytes tid as @ be16 STUN_ATTR_MESSAGE_INTEGRITY @ be16 20 @ h @ tail"
  let ?P = "P @ be16 (at_type a) @ be16 (at_length a) @ attr_bytes tid a"
  have len: "length (attr_bytes tid a) = padded (unat (at_length a))"
    using Cons.prems by (simp add: attr_ok_def length_attr_bytes)
  have "find_integrity (P @ attrs_bytes tid (a # as) @ be16 STUN_ATTR_MESSAGE_INTEGRITY @ be16 20 @ h @ tail) (length P) =
      find_integrity (?P @ ?rest) (length ?P)"
    using Cons.prems by (subst find_integrity.simps) (simp add: len padded_def Let_def add.assoc)
  also have "\<dots> = Some (length ?P + length (attrs_bytes tid as))"
    by (rule Cons.IH) (use Cons.prems in simp_all)
  finally show ?case by simp
qed


text \<open>
  The check on a message whose first MESSAGE-INTEGRITY follows the attributes \<open>as\<close>: it hashes the
  message up to that attribute with the length field the message had when it ended there.
\<close>

lemma Validate_bytes:
  fixes type :: u16
  assumes "tid_wf tid" and "list_all (attr_ok cls tid) as" and "\<forall>a \<in> set as. at_type a \<noteq> STUN_ATTR_MESSAGE_INTEGRITY"
    and "length h = 20" and "unat len = length (attrs_bytes tid as) + 24 + length tail" and "4 dvd length tail"
  defines "data \<equiv> header_bytes type len tid @ attrs_bytes tid as @ be16 STUN_ATTR_MESSAGE_INTEGRITY @ be16 20 @ h @ tail"
  shows "ValidateMessageIntegrity he data key =
    Some (h = hmac_spec sha1_spec key (header_bytes type (of_nat (length (attrs_bytes tid as) + 24)) tid @ attrs_bytes tid as))"
proof -
  let ?L = "length (attrs_bytes tid as)"
  have L: "4 dvd ?L" by (rule attrs_bytes_dvd [OF assms(2)])
  have size: "length data = 44 + ?L + length tail" using assms(1,4) by (simp add: data_def)
  have size_ok: "length data mod 4 = 0" using L assms(6) unfolding size by (simp add: mod_eq_0_iff_dvd dvd_add)
  have lenfield: "GetBE16 (drop 2 data) = len" by (simp add: data_def header_bytes_def)
  have pos: "find_integrity data kStunHeaderSize = Some (20 + ?L)"
    using find_integrity_skip [OF assms(2-4), of "header_bytes type len tid" tail] assms(1)
    by (simp add: data_def kStunHeaderSize_def)
  let ?P = "header_bytes type len tid @ attrs_bytes tid as"
  let ?Q = "header_bytes type (of_nat (?L + 24)) tid @ attrs_bytes tid as"
  have temp: "take (20 + ?L) data = ?P" using assms(1) by (simp add: data_def)
  have adj: "memcpy_at ?P 2 (SetBE16 [0, 0] (of_nat (?L + 24))) = ?Q"
    by (simp add: memcpy_at_def SetBE16_be header_bytes_def)
  have same: "?P = ?Q" if "tail = []"
  proof -
    have "len = of_nat (unat len)" by simp
    then show ?thesis using assms(5) that by simp
  qed
  have mac: "take 20 (drop (24 + ?L) data) = h" using assms(1,4) by (simp add: data_def)
  define hmac where "hmac = hmac_spec sha1_spec key ?Q"
  have "ValidateMessageIntegrity he data key =
      (let temp = (if 44 + ?L < length data then memcpy_at ?P 2 (SetBE16 [0, 0] (of_nat (?L + 24))) else ?P)
       in Some (h = hmac_spec sha1_spec key temp))"
    unfolding ValidateMessageIntegrity_def Let_def pos option.case temp size_ok lenfield
    using size assms(5) mac
    by (simp add: kStunHeaderSize_def kStunAttributeHeaderSize_def kStunMessageIntegritySize_def ComputeHmac_alg_sha1 add.commute)
  also have "\<dots> = Some (h = hmac)"
    using adj same size by (auto simp: hmac_def Let_def)
  finally show ?thesis by (simp add: hmac_def)
qed

text \<open>
  C7: The integrity check is the one of RFC 5389.  Whatever attributes follow the first MESSAGE-INTEGRITY, its value is
  accepted exactly if it is the HMAC-SHA1 under the key of the packet up to that attribute, with the length field
  adjusted to end there; and that is the value \<open>AddMessageIntegrity\<close> appends to the message that ends there, so that
  later attributes such as FINGERPRINT do not invalidate it.  The hosts may have different byte orders.
\<close>

theorem message_integrity_sound:
  assumes "msg_wf m" and "sm_attrs m = as @ mi_attr h # rest" and "length h = 20"
    and "\<forall>a \<in> set as. at_type a \<noteq> STUN_ATTR_MESSAGE_INTEGRITY"
  shows "let L = length (attrs_bytes (sm_tid m) as);
      mac = hmac_spec sha1_spec key (header_bytes (sm_type m) (of_nat (L + 24)) (sm_tid m) @ attrs_bytes (sm_tid m) as);
      m0 = m\<lparr>sm_attrs := as, sm_length := of_nat L\<rparr>
    in ValidateMessageIntegrity he (msg_bytes m) key = Some (h = mac) \<and> AddMessageIntegrity he' m0 key = (with_attr m0 (mi_attr mac), True)"
proof -
  let ?tid = "sm_tid m"
  let ?L = "length (attrs_bytes ?tid as)" and ?tail = "attrs_bytes ?tid rest"
  have wf: "tid_wf ?tid" "list_all (attr_ok (sm_class m) ?tid) as" "list_all (attr_ok (sm_class m) ?tid) rest"
    "sm_type m AND 0x8000 = 0" "unat (sm_length m) = ?L + 24 + length ?tail"
    using assms(1,3) by (simp_all add: msg_wf_def assms(2) mi_attr_def attr_bytes_def pad4_def)
  have "msg_bytes m = header_bytes (sm_type m) (sm_length m) ?tid @ attrs_bytes ?tid as @
      be16 STUN_ATTR_MESSAGE_INTEGRITY @ be16 20 @ h @ ?tail"
    using assms(3) by (simp add: msg_bytes_def assms(2)) (simp add: mi_attr_def attr_bytes_def pad4_def)
  then have check: "ValidateMessageIntegrity he (msg_bytes m) key =
      Some (h = hmac_spec sha1_spec key (header_bytes (sm_type m) (of_nat (?L + 24)) ?tid @ attrs_bytes ?tid as))"
    using Validate_bytes [OF wf(1,2) assms(4,3) wf(5) attrs_bytes_dvd [OF wf(3)]] by simp
  define m0 where "m0 = m\<lparr>sm_attrs := as, sm_length := of_nat ?L\<rparr>"
  have L: "?L + 24 < 65536" using wf(5) unsigned_less [of "sm_length m", where 'a = nat] by simp
  then have "unat (of_nat ?L :: u16) = ?L" by (simp add: unat_of_nat_u16)
  then have m0: "msg_wf m0" "unat (sm_length m0) + 24 < 65536" using wf L by (simp_all add: m0_def msg_wf_def)
  have "sm_length m0 + 24 = of_nat (?L + 24)" by (simp add: m0_def)
  then have "AddMessageIntegrity he' m0 key =
      (with_attr m0 (mi_attr (hmac_spec sha1_spec key (header_bytes (sm_type m) (of_nat (?L + 24)) ?tid @ attrs_bytes ?tid as))), True)"
    using AddMessageIntegrity_eq(1) [OF m0, of he' key] by (simp add: m0_def)
  then show ?thesis using check unfolding m0_def Let_def by blast
qed

text \<open>A message with a SOFTWARE attribute before and a FINGERPRINT after a wrong MESSAGE-INTEGRITY.\<close>

definition tampered_msg :: stun_message where
  "tampered_msg =
     \<lparr>sm_class = StunMessageC, sm_type = 1, sm_length = 40, sm_tid = replicate 12 0x41,
      sm_attrs = [StunByteStringAttribute 0x8022 [1, 2, 3, 4], mi_attr (replicate 20 0), StunUInt32Attribute STUN_ATTR_FINGERPRINT 0]\<rparr>"

theorem message_integrity_sound_witness:
  "ValidateMessageIntegrity LittleEndianHost (msg_bytes tampered_msg) [0x70] =
    Some (replicate 20 0 = hmac_spec sha1_spec [0x70]
      (header_bytes 1 32 (replicate 12 0x41) @ attrs_bytes (replicate 12 0x41) [StunByteStringAttribute 0x8022 [1, 2, 3, 4]]))"
proof -
  let ?a = "StunByteStringAttribute 0x8022 [1, 2, 3, 4]" and ?tid = "replicate 12 0x41 :: byte list"
  have b: "length (attrs_bytes ?tid [?a]) = 8"
    by (simp add: StunByteStringAttribute_def CopyBytes_def attr_bytes_def pad4_def)
  have "msg_wf tampered_msg"
    by (simp add: msg_wf_def tampered_msg_def tid_wf_def attr_ok_def attr_wf_def StunByteStringAttribute_def CopyBytes_def mi_attr_def
        StunUInt32Attribute_def StunMessage_GetAttributeValueType_def STUN_ATTR_FINGERPRINT_def STUN_ATTR_MESSAGE_INTEGRITY_def
        attr_bytes_def pad4_def)
  moreover have "sm_attrs tampered_msg = [?a] @ mi_attr (replicate 20 0) # [StunUInt32Attribute STUN_ATTR_FINGERPRINT 0]"
    by (simp add: tampered_msg_def)
  moreover have "\<forall>a \<in> set [?a]. at_type a \<noteq> STUN_ATTR_MESSAGE_INTEGRITY"
    by (simp add: StunByteStringAttribute_def CopyBytes_def STUN_ATTR_MESSAGE_INTEGRITY_def)
  ultimately show ?thesis
    using message_integrity_sound [of tampered_msg "[?a]" "replicate 20 0" "[StunUInt32Attribute STUN_ATTR_FINGERPRINT 0]" "[0x70]"
        LittleEndianHost LittleEndianHost] b
    by (simp add: Let_def tampered_msg_def del: attrs_bytes_simps)
qed

subsection \<open>FINGERPRINT\<close>

definition fp_attr :: "u32 \<Rightarrow> stun_attribute" where
  "fp_attr v = \<lparr>at_type = STUN_ATTR_FINGERPRINT, at_length = 4, at_body = UInt32Attr v\<rparr>"

lemma fp_attr_ok: "attr_ok cls tid (fp_attr v)"
  by (simp add: attr_ok_def attr_wf_def fp_attr_def)

lemma AddFingerprint_eq:
  assumes "msg_wf m" and "unat (sm_length m) + 8 < 65536" and "table_ok t"
  defines "P \<equiv> header_bytes (sm_type m) (sm_length m + 8) (sm_tid m) @ attrs_bytes (sm_tid m) (sm_attrs m)"
  shows "AddFingerprint he t m = (with_attr m (fp_attr (crc32_spec 0 P XOR STUN_FINGERPRINT_XOR_VALUE)), True)"
    and "msg_wf (with_attr m (fp_attr v))"
    and "msg_bytes (with_attr m (fp_attr v)) = P @ be16 STUN_ATTR_FINGERPRINT @ be16 4 @ be32 v"
proof -
  have wf: "msg_wf (with_attr m (fp_attr v))" for v
    by (rule with_attr_wf [OF assms(1) fp_attr_ok]) (use assms(2) in \<open>simp add: fp_attr_def padded_def\<close>)
  then show "msg_wf (with_attr m (fp_attr v))" .
  have bytes: "msg_bytes (with_attr m (fp_attr v)) = P @ be16 STUN_ATTR_FINGERPRINT @ be16 4 @ be32 v" for v
    by (simp add: msg_bytes_def P_def) (simp add: with_attr_def fp_attr_def attr_bytes_def padded_def)
  then show "msg_bytes (with_attr m (fp_attr v)) = P @ be16 STUN_ATTR_FINGERPRINT @ be16 4 @ be32 v" .
  have fp: "StunUInt32Attribute STUN_ATTR_FINGERPRINT 0 = fp_attr 0"
    by (simp add: StunUInt32Attribute_def fp_attr_def)
  have add: "AddAttribute m (fp_attr 0) = Some (with_attr m (fp_attr 0))"
    by (rule AddAttribute_with_attr) (simp_all add: fp_attr_def)
  obtain b where b: "msg_Write he (with_attr m (fp_attr 0)) ByteBuffer_new = Some b" "net b"
    "contents b = msg_bytes (with_attr m (fp_attr 0))"
    using msg_Write_bytes [OF wf ordered_new, of he 0] by auto
  then have "take (Length b - 4 - 4) (Data b) = P"
    using Data_contents [OF b(2), of "length P"] by (simp add: Length_eq bytes)
  then show "AddFingerprint he t m = (with_attr m (fp_attr (crc32_spec 0 P XOR STUN_FINGERPRINT_XOR_VALUE)), True)"
    unfolding AddFingerprint_def fp Let_def add
    using b(1) crc32_update_spec [OF assms(3), of 0 P]
    by (simp add: kStunAttributeHeaderSize_def ComputeCrc32_def fp_attr_def) (simp add: with_attr_def)
qed

lemma ValidateFingerprint_bytes:
  assumes "table_ok t" and "length tid = 12" and "4 dvd length A"
  shows "ValidateFingerprint t ((header_bytes type len tid @ A) @ be16 STUN_ATTR_FINGERPRINT @ be16 4 @ be32 v) =
    (v XOR STUN_FINGERPRINT_XOR_VALUE = crc32_spec 0 (header_bytes type len tid @ A))"
proof -
  let ?P = "header_bytes type len tid @ A"
  have "(length ?P + 8) mod 4 = 0" using assms(2,3) by (simp add: header_bytes_def mod_eq_0_iff_dvd)
  moreover have "GetBE32 (drop 4 (?P @ r)) = kStunMagicCookie" for r using assms(2) by (simp add: header_bytes_def)
  moreover have "length ?P \<ge> 20" using assms(2) by (simp add: header_bytes_def)
  moreover have "fst (ComputeCrc32 t ?P) = crc32_spec 0 ?P"
    using crc32_update_spec [OF assms(1)] by (simp add: ComputeCrc32_def)
  ultimately show ?thesis
    unfolding ValidateFingerprint_def Let_def
    by (simp add: kStunHeaderSize_def kStunAttributeHeaderSize_def kStunTransactionIdOffset_def kStunMagicCookieLength_def
        del: append_assoc)
qed

lemma protected_packet:
  fixes he key
  assumes "msg_wf m" and "unat (sm_length m) + 32 < 65536" and "\<not> IsLegacy m"
    and "\<forall>a \<in> set (sm_attrs m). at_type a \<noteq> STUN_ATTR_MESSAGE_INTEGRITY" and "table_ok t" and "table_ok t'"
  defines "m2 \<equiv> fst (AddFingerprint he t (fst (AddMessageIntegrity he m key)))"
  shows "\<exists>h v. length h = 20 \<and> m2 = with_attr (with_attr m (mi_attr h)) (fp_attr v) \<and> msg_wf m2 \<and>
    ValidateMessageIntegrity he' (msg_bytes m2) key = Some True \<and> ValidateFingerprint t' (msg_bytes m2)"
proof -
  let ?as = "attrs_bytes (sm_tid m) (sm_attrs m)" and ?tid = "sm_tid m"
  have wf: "tid_wf ?tid" "list_all (attr_ok (sm_class m) ?tid) (sm_attrs m)" "unat (sm_length m) = length ?as"
    using assms(1) by (simp_all add: msg_wf_def)
  have tid: "length ?tid = 12" using wf(1) assms(3) by (auto simp: tid_wf_def IsLegacy_def kStunLegacyTransactionIdLength_def)
  define h where "h = hmac_spec sha1_spec key (header_bytes (sm_type m) (sm_length m + 24) ?tid @ ?as)"
  define m1 where "m1 = with_attr m (mi_attr h)"
  have h: "length h = 20" by (simp add: h_def)
  have mi: "AddMessageIntegrity he m key = (m1, True)" "msg_wf m1"
    using AddMessageIntegrity_eq [OF assms(1), where key = key] assms(2) by (simp_all add: m1_def h_def)
  have l1: "unat (sm_length m1) = length ?as + 24" "sm_length m1 + 8 = sm_length m + 32"
    using unat_add_of_nat16 [of "sm_length m" 24] assms(2) wf(3) by (simp_all add: m1_def with_attr_def mi_attr_def padded_def)
  define P where "P = header_bytes (sm_type m1) (sm_length m1 + 8) (sm_tid m1) @ attrs_bytes (sm_tid m1) (sm_attrs m1)"
  define v where "v = crc32_spec 0 P XOR STUN_FINGERPRINT_XOR_VALUE"
  have "AddFingerprint he t m1 = (with_attr m1 (fp_attr v), True)" "msg_wf (with_attr m1 (fp_attr v))"
    and by2: "msg_bytes (with_attr m1 (fp_attr v)) = P @ be16 STUN_ATTR_FINGERPRINT @ be16 4 @ be32 v"
    using AddFingerprint_eq [OF mi(2) _ assms(5)] l1(1) assms(2) wf(3) by (simp_all add: P_def v_def)
  then have m2: "m2 = with_attr m1 (fp_attr v)" "msg_wf m2" by (simp_all add: m2_def mi)
  have A: "attrs_bytes ?tid (sm_attrs m1) = ?as @ be16 STUN_ATTR_MESSAGE_INTEGRITY @ be16 20 @ h"
    using h by (simp add: m1_def mi_attr_def attr_bytes_def pad4_def)
  have P: "P = header_bytes (sm_type m) (sm_length m + 32) ?tid @ attrs_bytes ?tid (sm_attrs m1)"
    by (simp add: P_def l1(2)) (simp add: m1_def)
  have "4 dvd length (attrs_bytes ?tid (sm_attrs m1))"
    using mi(2) attrs_bytes_dvd [of "sm_class m1" ?tid "sm_attrs m1"] by (simp add: msg_wf_def m1_def)
  from ValidateFingerprint_bytes [OF assms(6) tid this, of "sm_type m" "sm_length m + 32" v]
  have fp: "ValidateFingerprint t' (msg_bytes m2)"
    unfolding m2(1) by2 P [symmetric] by (simp add: v_def xor.assoc)
  let ?tail = "be16 STUN_ATTR_FINGERPRINT @ be16 4 @ be32 v"
  have "unat (sm_length m + 32) = length ?as + 24 + length ?tail"
    using unat_add_of_nat16 [of "sm_length m" 32] assms(2) wf(3) by simp
  from Validate_bytes [OF wf(1,2) assms(4) h this, where type = "sm_type m" and he = he' and key = key]
  have "ValidateMessageIntegrity he' (msg_bytes m2) key =
      Some (h = hmac_spec sha1_spec key (header_bytes (sm_type m) (of_nat (length ?as + 24)) ?tid @ ?as))"
    unfolding m2(1) by2 P A by simp
  moreover have "sm_length m + 24 = of_nat (length ?as + 24)" unfolding wf(3) [symmetric] by simp
  ultimately have vmi: "ValidateMessageIntegrity he' (msg_bytes m2) key = Some True" by (simp add: h_def)
  show ?thesis using h m2 fp vmi unfolding m1_def by blast
qed

text \<open>
  C6: the whole packet of an ICE check: a message that gets a MESSAGE-INTEGRITY and then a
  FINGERPRINT is written, and from those bytes the receiver (whatever its host and the state of its
  checksum table) accepts the integrity with the same key, accepts the fingerprint, and parses the
  same message, although the fingerprint changed the length field the HMAC was computed over.
\<close>

theorem stun_packet_end_to_end:
  fixes he key
  assumes "msg_wf m" and "unat (sm_length m) + 32 < 65536" and "\<not> IsLegacy m"
    and "\<forall>a \<in> set (sm_attrs m). at_type a \<noteq> STUN_ATTR_MESSAGE_INTEGRITY" and "table_ok t" and "table_ok t'"
  defines "m2 \<equiv> fst (AddFingerprint he t (fst (AddMessageIntegrity he m key)))"
  shows "\<exists>b b'. msg_Write he m2 ByteBuffer_new = Some b \<and>
    ValidateMessageIntegrity he' (contents b) key = Some True \<and>
    ValidateFingerprint t' (contents b) \<and>
    msg_Read he' (sm_class m) (ByteBuffer_of (contents b)) = Some (m2, b') \<and>
    sm_attrs m2 = sm_attrs m @ drop (length (sm_attrs m)) (sm_attrs m2)"
proof -
  obtain h v where m2: "m2 = with_attr (with_attr m (mi_attr h)) (fp_attr v)" "msg_wf m2"
    "ValidateMessageIntegrity he' (msg_bytes m2) key = Some True" "ValidateFingerprint t' (msg_bytes m2)"
    unfolding m2_def using protected_packet [OF assms(1-6)] by blast
  obtain b where b: "msg_Write he m2 ByteBuffer_new = Some b" "contents b = msg_bytes m2"
    using msg_Write_bytes [OF m2(2) ordered_new, of he] by auto
  have "sm_class m2 = sm_class m" by (simp add: m2(1))
  then obtain b' where "msg_Read he' (sm_class m) (ByteBuffer_of (msg_bytes m2)) = Some (m2, b')"
    using msg_Read_bytes [OF m2(2) ordered_of, of "msg_bytes m2" he'] by auto
  then show ?thesis using b m2 by auto
qed

theorem stun_packet_end_to_end_witness:
  "\<exists>b b'. msg_Write LittleEndianHost (fst (AddFingerprint LittleEndianHost kCrc32Table_init
      (fst (AddMessageIntegrity LittleEndianHost example_msg [0x70])))) ByteBuffer_new = Some b \<and>
    ValidateMessageIntegrity BigEndianHost (contents b) [0x70] = Some True \<and>
    ValidateFingerprint crc_table (contents b) \<and>
    msg_Read BigEndianHost (sm_class example_msg) (ByteBuffer_of (contents b)) =
      Some (fst (AddFingerprint LittleEndianHost kCrc32Table_init (fst (AddMessageIntegrity LittleEndianHost example_msg [0x70]))), b') \<and>
    sm_attrs (fst (AddFingerprint LittleEndianHost kCrc32Table_init (fst (AddMessageIntegrity LittleEndianHost example_msg [0x70])))) =
      sm_attrs example_msg @ drop (length (sm_attrs example_msg))
        (sm_attrs (fst (AddFingerprint LittleEndianHost kCrc32Table_init (fst (AddMessageIntegrity LittleEndianHost example_msg [0x70])))))"
  by (rule stun_packet_end_to_end [OF example_msg_wf])
    (simp_all add: example_msg_def IsLegacy_def kStunLegacyTransactionIdLength_def STUN_ATTR_MESSAGE_INTEGRITY_def table_ok_def)

subsection \<open>What a parse guarantees\<close>

lemma Create_type:
  "StunAttribute_Create vt type len = Some a \<Longrightarrow> at_type a = type \<and> value_type (at_body a) = vt"
  by (cases vt) (auto simp: StunAttribute_Create_def)

lemma attr_Read_type:
  "attr_Read he tid a b = Some (a', b') \<Longrightarrow> at_type a' = at_type a \<and> value_type (at_body a') = value_type (at_body a)"
  by (cases "at_body a") (auto simp: attr_Read_defs SetAddress_def bind_eq_Some_conv split: if_splits)

lemma ReadAttrs_result:
  assumes "ReadAttrs he cls tid rest attrs b = Some (attrs', b')"
    and "\<forall>a \<in> set attrs. value_type (at_body a) = GetAttributeValueType cls (at_type a)"
  shows "Length b' \<le> rest \<and> (\<forall>a \<in> set attrs'. value_type (at_body a) = GetAttributeValueType cls (at_type a))"
  using assms
proof (induction he cls tid rest attrs b rule: ReadAttrs.induct)
  case (1 he cls tid rest attrs b)
  show ?case
  proof (cases "Length b > rest")
    case True
    obtain ty b1 ln b2 where r: "ReadUInt16 he b = Some (ty, b1)" "ReadUInt16 he b1 = Some (ln, b2)"
      using "1.prems"(1) True by (subst (asm) ReadAttrs.simps) (auto simp: bind_eq_Some_conv)
    show ?thesis
    proof (cases "CreateAttribute cls ty ln")
      case None
      then obtain ln' b3 where "Consume b2 (unat ln') = Some b3" "ReadAttrs he cls tid rest attrs b3 = Some (attrs', b')"
        "ln' = (if unat ln mod 4 \<noteq> 0 then ln + of_nat (4 - unat ln mod 4) else ln)"
        using "1.prems"(1) True r by (subst (asm) ReadAttrs.simps) (auto simp: bind_eq_Some_conv Let_def)
      then show ?thesis using "1.IH"(1) [OF True r(1) refl r(2) refl None] "1.prems"(2) by blast
    next
      case (Some a)
      then obtain a1 b3 where a1: "attr_Read he tid a b2 = Some (a1, b3)" "ReadAttrs he cls tid rest (attrs @ [a1]) b3 = Some (attrs', b')"
        using "1.prems"(1) True r by (subst (asm) ReadAttrs.simps) (auto simp: bind_eq_Some_conv)
      have "value_type (at_body a1) = GetAttributeValueType cls (at_type a1)"
        using attr_Read_type [OF a1(1)] Create_type Some by (auto simp: CreateAttribute_def)
      then have "\<forall>a \<in> set (attrs @ [a1]). value_type (at_body a) = GetAttributeValueType cls (at_type a)"
        using "1.prems"(2) by simp
      then show ?thesis
        by (rule "1.IH"(2) [OF True r(1) refl r(2) refl Some a1(1) refl a1(2)])
    qed
  next
    case False
    then show ?thesis using "1.prems" by (simp add: ReadAttrs.simps [of he cls tid rest attrs b])
  qed
qed

text \<open>
  C8: whatever bytes arrive, a successful parse has consumed the whole packet and gives a message
  whose type has the top bit clear, whose length field is the number of bytes after the header,
  whose transaction id has twelve or sixteen bytes, and whose attributes all have the kind of value
  their type has in that message class.
\<close>

theorem stun_parse_sound:
  assumes "msg_Read he cls (ByteBuffer_of bs) = Some (m, b)"
  shows "Length b = 0 \<and> sm_class m = cls \<and> sm_type m AND 0x8000 = 0 \<and> unat (sm_length m) + 20 = length bs \<and>
    IsValidTransactionId (sm_tid m) \<and>
    list_all (\<lambda>a. value_type (at_body a) = GetAttributeValueType cls (at_type a)) (sm_attrs m)"
proof -
  let ?b = "ByteBuffer_of bs"
  define b4 where "b4 = advance (advance (advance (advance ?b 2) 2) 4) 12"
  have c: "contents ?b = bs" by simp
  have len: "20 \<le> length bs"
    using assms by (auto simp: msg_Read_def net_simps bind_eq_Some_conv kStunMagicCookieLength_def
        kStunTransactionIdLength_def split: if_splits)
  then have n: "net b4" "Length b4 = length bs - 20"
    by (simp_all add: b4_def net_simps)
  define ck where "ck = take 4 (drop 4 bs)"
  define id where "id = take 12 (drop 8 bs)"
  define tid where "tid = (if NetworkToHost32 he (value32 he ck) \<noteq> kStunMagicCookie then ck @ id else id)"
  define ty where "ty = GetBE16 (take 2 bs)"
  define ln where "ln = GetBE16 (take 2 (drop 2 bs))"
  have r: "ReadUInt16 he ?b = Some (ty, advance ?b 2)"
    "ReadUInt16 he (advance ?b 2) = Some (ln, advance (advance ?b 2) 2)"
    "ReadString (advance (advance ?b 2) 2) [] 4 = Some (ck, advance (advance (advance ?b 2) 2) 4)"
    "ReadString (advance (advance (advance ?b 2) 2) 4) [] 12 = Some (id, b4)"
    using len by (simp_all add: net_simps ty_def ln_def ck_def id_def b4_def)
  obtain attrs where p: "ty AND 0x8000 = 0" "unat ln = Length b4" "ReadAttrs he cls tid 0 [] b4 = Some (attrs, b)"
    "m = \<lparr>sm_class = cls, sm_type = ty, sm_length = ln, sm_tid = tid, sm_attrs = attrs\<rparr>"
    using assms r
    by (auto simp: msg_Read_def kStunMagicCookieLength_def kStunTransactionIdLength_def bind_eq_Some_conv
        simp flip: tid_def split: if_splits)
  have "length tid = 12 \<or> length tid = 16" using len by (simp add: tid_def ck_def id_def)
  then show ?thesis
    using ReadAttrs_result [OF p(3)] p n len
    by (simp add: IsValidTransactionId_def kStunTransactionIdLength_def kStunLegacyTransactionIdLength_def list_all_iff)
qed

theorem stun_parse_sound_witness:
  "\<exists>b. msg_Read LittleEndianHost (sm_class example_msg) (ByteBuffer_of (msg_bytes example_msg)) = Some (example_msg, b) \<and> Length b = 0 \<and>
    unat (sm_length example_msg) + 20 = length (msg_bytes example_msg)"
proof -
  obtain b where b: "msg_Read LittleEndianHost (sm_class example_msg) (ByteBuffer_of (msg_bytes example_msg)) = Some (example_msg, b)"
    using msg_Read_bytes [OF example_msg_wf ordered_of, of "msg_bytes example_msg" LittleEndianHost] by auto
  with stun_parse_sound [OF b] show ?thesis by auto
qed

text \<open>
  A packet whose first byte has its top bit set, which every RTP and RTCP packet has, is never
  taken for STUN, and a shorter packet than a STUN header is refused.
\<close>

theorem stun_rejects_media:
  assumes "bs = [] \<or> 0x80 \<le> hd bs \<or> length bs < 20"
  shows "msg_Read he cls (ByteBuffer_of bs) = None"
proof (rule ccontr)
  assume "msg_Read he cls (ByteBuffer_of bs) \<noteq> None"
  then obtain m b where r: "msg_Read he cls (ByteBuffer_of bs) = Some (m, b)" by auto
  then have l: "20 \<le> length bs"
    by (auto simp: msg_Read_def net_simps bind_eq_Some_conv kStunMagicCookieLength_def
        kStunTransactionIdLength_def split: if_splits)
  then obtain x y ys where bs: "bs = x # y # ys" by (cases bs; cases "tl bs") auto
  have x: "bit x 7"
  proof -
    have "128 \<le> unat x" using assms l bs by (auto simp: word_le_nat_alt)
    then have "unat x div 128 = 1" using unat_bound [of x] by (intro div_nat_eqI) simp_all
    then have "bit (unat x) 7" by (simp add: bit_iff_odd)
    then show ?thesis by (simp add: bit_unsigned_iff)
  qed
  have "bit (GetBE16 (take 2 bs) AND 0x8000) 15"
    using x by (simp add: bs GetBE16_def Get8_def bit_simps)
  then have "GetBE16 (take 2 bs) AND 0x8000 \<noteq> 0" by (metis bit_0_eq bot_apply bot_bool_def)
  then show False using r l by (simp add: msg_Read_def net_simps)
qed

theorem stun_rejects_media_witness:
  "msg_Read LittleEndianHost IceMessageC (ByteBuffer_of (0x80 # replicate 30 0)) = None"
  by (rule stun_rejects_media) simp

text \<open>
  The bound that \<open>ValidateMessageIntegrity\<close> puts on the MESSAGE-INTEGRITY attribute leaves out the
  attribute's own header: for a packet that ends sixteen bytes into the HMAC the comparison reads
  past the end of the packet, whatever the password.
\<close>

theorem integrity_check_overreads:
  "ValidateMessageIntegrity he
     (header_bytes 1 20 (replicate 12 0) @ be16 STUN_ATTR_MESSAGE_INTEGRITY @ be16 20 @ replicate 16 0) key = None"
proof -
  let ?data = "header_bytes 1 20 (replicate 12 0) @ be16 STUN_ATTR_MESSAGE_INTEGRITY @ be16 20 @ replicate 16 0"
  have h: "length (header_bytes 1 20 (replicate 12 0)) = 20" by (simp add: tid_wf_def)
  then have f: "find_integrity ?data 20 = Some 20"
    by (subst find_integrity.simps) (simp add: kStunMessageIntegritySize_def)
  have len: "GetBE16 (drop 2 ?data) = 20" by (simp add: header_bytes_def)
  show ?thesis
    unfolding ValidateMessageIntegrity_def Let_def len
    using f h by (simp add: kStunHeaderSize_def kStunAttributeHeaderSize_def kStunMessageIntegritySize_def ComputeHmac_alg_sha1)
qed

text \<open>
  The length of a 32-bit attribute on the wire is never looked at: the attribute is created with
  length 4, so a FINGERPRINT that announces eight bytes is taken with the first four of them and
  the next attribute is read from the middle of its value.
\<close>

theorem uint32_length_ignored:
  "CreateAttribute cls STUN_ATTR_FINGERPRINT len = CreateAttribute cls STUN_ATTR_FINGERPRINT 4"
  by (simp add: CreateAttribute_def StunAttribute_Create_def)

text \<open>
  The request and response types: a request's success and error responses are classified as such
  and as nothing else, and no response type is derived from a message that is not a request.
\<close>

theorem response_types:
  "if IsStunRequestType t
   then IsStunSuccessResponseType (GetStunSuccessResponseType t) \<and> IsStunErrorResponseType (GetStunErrorResponseType t) \<and>
     \<not> IsStunRequestType (GetStunSuccessResponseType t) \<and> \<not> IsStunErrorResponseType (GetStunSuccessResponseType t) \<and>
     GetStunSuccessResponseType t AND NOT kStunTypeMask = t
   else GetStunSuccessResponseType t = - 1 \<and> GetStunErrorResponseType t = - 1"
proof (cases "IsStunRequestType t")
  case True
  then have t: "t AND 0x110 = 0" by (simp add: IsStunRequestType_def kStunTypeMask_def)
  have "(t OR k) AND 0x110 = k" if "k AND 0x110 = k" for k :: u32
    using that t by (simp add: bit.conj_disj_distrib2)
  then have "(t OR 0x100) AND 0x110 = 0x100" "(t OR 0x110) AND 0x110 = 0x110" by simp_all
  moreover have "(t OR 0x100) AND NOT 0x110 = t"
  proof -
    have "t = t AND (0x110 OR NOT 0x110)" by (simp only: bit.disj_cancel_right and.right_neutral)
    also have "\<dots> = t AND NOT 0x110" unfolding bit.conj_disj_distrib t by simp
    finally show ?thesis by (simp add: bit.conj_disj_distrib2)
  qed
  ultimately show ?thesis using True
    by (simp add: IsStunSuccessResponseType_def IsStunErrorResponseType_def GetStunSuccessResponseType_def
        GetStunErrorResponseType_def kStunTypeMask_def) (simp add: IsStunRequestType_def kStunTypeMask_def)
qed (simp add: GetStunSuccessResponseType_def GetStunErrorResponseType_def)

end
