(* ===== verification/FifoBuffer.thy ===== *)
theory FifoBuffer
  imports Jingle_Prelude
begin

text \<open>
  \<open>FifoBuffer\<close> of \<open>talk/base/stream.cc\<close>: the circular buffer between a producer and a consumer
  (PseudoTcp keeps its send and receive windows in two of them).  Every operation runs under the
  object's lock, so operations are atomic steps on the record.  Events posted to the owner thread
  are appended to \<open>ff_events\<close>.
\<close>

datatype stream_result = SR_ERROR | SR_SUCCESS | SR_BLOCK | SR_EOS
datatype stream_state = SS_CLOSED | SS_OPENING | SS_OPEN
datatype stream_event = SE_OPEN | SE_READ | SE_WRITE | SE_CLOSE

record fifo_buffer =
  ff_state :: stream_state
  ff_buffer :: "byte list"
  ff_buffer_length :: nat
  ff_data_length :: nat
  ff_read_position :: nat
  ff_events :: "stream_event list"

text \<open>The bytes of a new allocation are unspecified: \<open>mem\<close> is what it happens to hold.\<close>

definition FifoBuffer_new :: "nat \<Rightarrow> byte list \<Rightarrow> fifo_buffer" where
  "FifoBuffer_new sz mem =
     \<lparr>ff_state = SS_OPEN, ff_buffer = mem, ff_buffer_length = sz, ff_data_length = 0, ff_read_position = 0,
      ff_events = []\<rparr>"

definition PostEvent :: "fifo_buffer \<Rightarrow> stream_event \<Rightarrow> fifo_buffer" where
  "PostEvent f e = f\<lparr>ff_events := ff_events f @ [e]\<rparr>"

definition GetBuffered :: "fifo_buffer \<Rightarrow> nat" where
  "GetBuffered f = ff_data_length f"

text \<open>Reading across the end of the allocation: the two \<open>memcpy\<close> calls of a read.\<close>

definition wrapped_read :: "fifo_buffer \<Rightarrow> nat \<Rightarrow> nat \<Rightarrow> byte list" where
  "wrapped_read f pos copy =
     (let tail_copy = min copy (ff_buffer_length f - pos)
      in take tail_copy (drop pos (ff_buffer f)) @ take (copy - tail_copy) (ff_buffer f))"

definition SetCapacity :: "fifo_buffer \<Rightarrow> nat \<Rightarrow> byte list \<Rightarrow> bool \<times> fifo_buffer" where
  "SetCapacity f sz mem =
     (if ff_data_length f > sz then (False, f)
      else if sz \<noteq> ff_buffer_length f then
        (True, f\<lparr>ff_buffer := memcpy_at mem 0 (wrapped_read f (ff_read_position f) (ff_data_length f)),
                 ff_read_position := 0, ff_buffer_length := sz\<rparr>)
      else (True, f))"

definition ReadOffsetLocked :: "fifo_buffer \<Rightarrow> nat \<Rightarrow> nat \<Rightarrow> stream_result \<times> byte list" where
  "ReadOffsetLocked f bytes offset =
     (if offset \<ge> ff_data_length f
      then (if ff_state f \<noteq> SS_CLOSED then SR_BLOCK else SR_EOS, [])
      else
        let available = ff_data_length f - offset;
            read_position = (ff_read_position f + offset) mod ff_buffer_length f;
            copy = min bytes available
        in (SR_SUCCESS, wrapped_read f read_position copy))"

text \<open>The result, the number of bytes written and the buffer.\<close>

definition WriteOffsetLocked :: "fifo_buffer \<Rightarrow> byte list \<Rightarrow> nat \<Rightarrow> stream_result \<times> nat \<times> fifo_buffer" where
  "WriteOffsetLocked f data offset =
     (if ff_state f = SS_CLOSED then (SR_EOS, 0, f)
      else if ff_data_length f + offset \<ge> ff_buffer_length f then (SR_BLOCK, 0, f)
      else
        let available = ff_buffer_length f - ff_data_length f - offset;
            write_position = (ff_read_position f + ff_data_length f + offset) mod ff_buffer_length f;
            copy = min (length data) available;
            tail_copy = min copy (ff_buffer_length f - write_position);
            buffer = memcpy_at (ff_buffer f) write_position (take tail_copy data);
            buffer = memcpy_at buffer 0 (take (copy - tail_copy) (drop tail_copy data))
        in (SR_SUCCESS, copy, f\<lparr>ff_buffer := buffer\<rparr>))"

definition ReadOffset :: "fifo_buffer \<Rightarrow> nat \<Rightarrow> nat \<Rightarrow> stream_result \<times> byte list" where
  "ReadOffset f bytes offset = ReadOffsetLocked f bytes offset"

definition WriteOffset :: "fifo_buffer \<Rightarrow> byte list \<Rightarrow> nat \<Rightarrow> stream_result \<times> nat \<times> fifo_buffer" where
  "WriteOffset f data offset = WriteOffsetLocked f data offset"

definition fifo_Read :: "fifo_buffer \<Rightarrow> nat \<Rightarrow> stream_result \<times> byte list \<times> fifo_buffer" where
  "fifo_Read f bytes =
     (let was_writable = ff_data_length f < ff_buffer_length f;
          (result, data) = ReadOffsetLocked f bytes 0;
          copy = length data
      in if result = SR_SUCCESS then
           let f = f\<lparr>ff_read_position := (ff_read_position f + copy) mod ff_buffer_length f,
                     ff_data_length := ff_data_length f - copy\<rparr>
           in (result, data, if \<not> was_writable \<and> copy > 0 then PostEvent f SE_WRITE else f)
         else (result, [], f))"

definition fifo_Write :: "fifo_buffer \<Rightarrow> byte list \<Rightarrow> stream_result \<times> nat \<times> fifo_buffer" where
  "fifo_Write f data =
     (let was_readable = ff_data_length f > 0;
          (result, copy, f) = WriteOffsetLocked f data 0
      in if result = SR_SUCCESS then
           let f = f\<lparr>ff_data_length := ff_data_length f + copy\<rparr>
           in (result, copy, if \<not> was_readable \<and> copy > 0 then PostEvent f SE_READ else f)
         else (result, 0, f))"

definition fifo_Close :: "fifo_buffer \<Rightarrow> fifo_buffer" where
  "fifo_Close f = f\<lparr>ff_state := SS_CLOSED\<rparr>"

text \<open>The contiguous readable bytes from the read position.\<close>

definition GetReadData :: "fifo_buffer \<Rightarrow> byte list" where
  "GetReadData f =
     (let sz = (if ff_read_position f + ff_data_length f \<le> ff_buffer_length f
                then ff_data_length f else ff_buffer_length f - ff_read_position f)
      in take sz (drop (ff_read_position f) (ff_buffer f)))"

text \<open>
  The next two compute a remainder by \<open>buffer_length_\<close> with no guard before it: \<open>None\<close> is the
  division by zero when the capacity is 0.
\<close>

definition ConsumeReadData :: "fifo_buffer \<Rightarrow> nat \<Rightarrow> fifo_buffer option" where
  "ConsumeReadData f sz =
     (if ff_buffer_length f = 0 then None
      else
        let was_writable = ff_data_length f < ff_buffer_length f;
            f = f\<lparr>ff_read_position := (ff_read_position f + sz) mod ff_buffer_length f,
                  ff_data_length := ff_data_length f - sz\<rparr>
        in Some (if \<not> was_writable \<and> sz > 0 then PostEvent f SE_WRITE else f))"

text \<open>
  \<open>GetWriteBuffer\<close> returns the offset and size of the contiguous free region, or a null pointer
  when closed.
\<close>

definition GetWriteBuffer :: "fifo_buffer \<Rightarrow> ((nat \<times> nat) option \<times> fifo_buffer) option" where
  "GetWriteBuffer f =
     (if ff_state f = SS_CLOSED then Some (None, f)
      else
        let f = (if ff_data_length f = 0 then f\<lparr>ff_read_position := 0\<rparr> else f) in
        if ff_buffer_length f = 0 then None
        else
          let write_position = (ff_read_position f + ff_data_length f) mod ff_buffer_length f;
              sz = (if write_position > ff_read_position f \<or> ff_data_length f = 0
                    then ff_buffer_length f - write_position
                    else ff_read_position f - write_position)
          in Some (Some (write_position, sz), f))"

definition ConsumeWriteBuffer :: "fifo_buffer \<Rightarrow> nat \<Rightarrow> fifo_buffer" where
  "ConsumeWriteBuffer f sz =
     (let was_readable = ff_data_length f > 0;
          f = f\<lparr>ff_data_length := ff_data_length f + sz\<rparr>
      in if \<not> was_readable \<and> sz > 0 then PostEvent f SE_READ else f)"

definition GetWriteRemaining :: "fifo_buffer \<Rightarrow> nat" where
  "GetWriteRemaining f = ff_buffer_length f - ff_data_length f"


subsection \<open>Invariant and abstraction\<close>

definition fifo_ok :: "fifo_buffer \<Rightarrow> bool" where
  "fifo_ok f \<longleftrightarrow>
     length (ff_buffer f) = ff_buffer_length f \<and> ff_data_length f \<le> ff_buffer_length f \<and>
     (ff_buffer_length f > 0 \<longrightarrow> ff_read_position f < ff_buffer_length f)"

text \<open>\<open>cyc buf n p k\<close>: the \<open>k\<close> bytes from position \<open>p\<close>, positions taken modulo \<open>n\<close>.\<close>

definition cyc :: "byte list \<Rightarrow> nat \<Rightarrow> nat \<Rightarrow> nat \<Rightarrow> byte list" where
  "cyc buf n p k = map (\<lambda>i. buf ! ((p + i) mod n)) [0..<k]"

definition fifo_contents :: "fifo_buffer \<Rightarrow> byte list" where
  "fifo_contents f = cyc (ff_buffer f) (ff_buffer_length f) (ff_read_position f) (ff_data_length f)"

lemma length_fifo_contents [simp]: "length (fifo_contents f) = ff_data_length f"
  by (simp add: fifo_contents_def cyc_def)

lemma wrapped_read_cyc:
  assumes "length (ff_buffer f) = ff_buffer_length f" and "pos < ff_buffer_length f" and "copy \<le> ff_buffer_length f"
  shows "wrapped_read f pos copy = cyc (ff_buffer f) (ff_buffer_length f) pos copy"
proof (rule nth_equalityI)
  show "length (wrapped_read f pos copy) = length (cyc (ff_buffer f) (ff_buffer_length f) pos copy)"
    using assms by (auto simp: wrapped_read_def cyc_def min_def Let_def)
  fix i assume "i < length (wrapped_read f pos copy)"
  then have i: "i < copy" using assms by (auto simp: wrapped_read_def min_def Let_def split: if_splits)
  show "wrapped_read f pos copy ! i = cyc (ff_buffer f) (ff_buffer_length f) pos copy ! i"
  proof (cases "pos + i < ff_buffer_length f")
    case True
    then show ?thesis using i assms by (auto simp: wrapped_read_def cyc_def nth_append min_def Let_def)
  next
    case False
    then have "(pos + i) mod ff_buffer_length f = pos + i - ff_buffer_length f"
      using assms i by (simp add: le_mod_geq)
    then show ?thesis using False i assms by (auto simp: wrapped_read_def cyc_def nth_append min_def Let_def add.commute)
  qed
qed

lemma cyc_append: "cyc buf n p (j + k) = cyc buf n p j @ cyc buf n ((p + j) mod n) k"
  by (rule nth_equalityI) (auto simp: cyc_def nth_append mod_add_left_eq add.assoc)

lemma cyc_take: "j \<le> k \<Longrightarrow> take j (cyc buf n p k) = cyc buf n p j"
  using cyc_append [of buf n p j "k - j"] by (simp add: cyc_def)

lemma cyc_drop: "j \<le> k \<Longrightarrow> drop j (cyc buf n p k) = cyc buf n ((p + j) mod n) (k - j)"
  using cyc_append [of buf n p j "k - j"] by (simp add: cyc_def)


lemma mod_inj_near: "(a :: nat) mod n = b mod n \<Longrightarrow> a \<le> b \<Longrightarrow> b < a + n \<Longrightarrow> a = b"
proof -
  assume "a mod n = b mod n" "a \<le> b" "b < a + n"
  then have "n dvd b - a" "b - a < n" using mod_eq_dvd_iff_nat [of a b n] by auto
  then show "a = b" using \<open>a \<le> b\<close> nat_dvd_not_less [of "b - a" n] by (cases "b - a = 0") auto
qed

text \<open>The two \<open>memcpy\<close> calls of a write, from position \<open>wp\<close>.\<close>

definition wrapped_write :: "byte list \<Rightarrow> nat \<Rightarrow> nat \<Rightarrow> byte list \<Rightarrow> byte list" where
  "wrapped_write buf n wp d =
     (let t = min (length d) (n - wp) in memcpy_at (memcpy_at buf wp (take t d)) 0 (drop t d))"

lemma wrapped_write_nth:
  assumes "length buf = n" and "wp < n" and "length d \<le> n"
  shows "length (wrapped_write buf n wp d) = n"
    and "j < length d \<Longrightarrow> wrapped_write buf n wp d ! ((wp + j) mod n) = d ! j"
    and "p < n \<Longrightarrow> (\<And>j. j < length d \<Longrightarrow> (wp + j) mod n \<noteq> p) \<Longrightarrow> wrapped_write buf n wp d ! p = buf ! p"
proof -
  define t where "t = min (length d) (n - wp)"
  have t: "wp + length (take t d) \<le> length buf" "length (drop t d) \<le> wp" "length (drop t d) \<le> n"
    using assms by (auto simp: t_def min_def)
  have e: "wrapped_write buf n wp d = memcpy_at (memcpy_at buf wp (take t d)) 0 (drop t d)"
    by (simp add: wrapped_write_def t_def Let_def)
  show len: "length (wrapped_write buf n wp d) = n" using assms t by (simp add: e)
  have nth: "wrapped_write buf n wp d ! p =
      (if p < length (drop t d) then drop t d ! p else if wp \<le> p \<and> p < wp + length (take t d) then take t d ! (p - wp) else buf ! p)"
    if "p < n" for p
    using assms t that by (simp add: e nth_memcpy_at)
  show "wrapped_write buf n wp d ! ((wp + j) mod n) = d ! j" if "j < length d"
  proof (cases "wp + j < n")
    case True
    then show ?thesis using assms that t by (auto simp: nth t_def)
  next
    case False
    then have m: "(wp + j) mod n = wp + j - n" using assms that by (simp add: le_mod_geq)
    have "t = n - wp" using False that by (auto simp: t_def min_def)
    then show ?thesis using False m assms that by (auto simp: nth add.commute)
  qed
  show "wrapped_write buf n wp d ! p = buf ! p" if "p < n" "\<And>j. j < length d \<Longrightarrow> (wp + j) mod n \<noteq> p"
  proof -
    have "\<not> p < length (drop t d)"
    proof
      assume p: "p < length (drop t d)"
      then have "t = n - wp" "p + (n - wp) < length d" by (auto simp: t_def min_def split: if_splits)
      moreover have "(wp + (p + (n - wp))) mod n = p" using assms that by (simp add: add.left_commute)
      ultimately show False using that(2) [of "p + (n - wp)"] by simp
    qed
    moreover have "\<not> (wp \<le> p \<and> p < wp + length (take t d))"
    proof
      assume p: "wp \<le> p \<and> p < wp + length (take t d)"
      then have "p - wp < length d" "(wp + (p - wp)) mod n = p" using that(1) by auto
      then show False using that(2) by blast
    qed
    ultimately show ?thesis using nth [OF that(1)] by (simp only: if_False)
  qed
qed

lemma cyc_wrapped_write:
  assumes "length buf = n" and "rp < n" and "k + length d \<le> n"
  shows "cyc (wrapped_write buf n ((rp + k) mod n) d) n rp (k + length d) = cyc buf n rp k @ d"
proof (rule nth_equalityI)
  show "length (cyc (wrapped_write buf n ((rp + k) mod n) d) n rp (k + length d)) = length (cyc buf n rp k @ d)"
    by (simp add: cyc_def)
  let ?wp = "(rp + k) mod n"
  have wp: "?wp < n" "length d \<le> n" using assms by simp_all
  fix i assume "i < length (cyc (wrapped_write buf n ?wp d) n rp (k + length d))"
  then have i: "i < k + length d" by (simp add: cyc_def)
  show "cyc (wrapped_write buf n ?wp d) n rp (k + length d) ! i = (cyc buf n rp k @ d) ! i"
  proof (cases "i < k")
    case True
    have "(?wp + j) mod n \<noteq> (rp + i) mod n" if "j < length d" for j
    proof
      assume "(?wp + j) mod n = (rp + i) mod n"
      then have "(rp + i) mod n = (rp + k + j) mod n" by (simp add: mod_add_left_eq)
      then have "rp + i = rp + k + j" by (rule mod_inj_near) (use True that assms in linarith)+
      then show False using True by simp
    qed
    then show ?thesis
      using True assms wrapped_write_nth(3) [OF assms(1) wp, of "(rp + i) mod n"] by (simp add: cyc_def nth_append)
  next
    case False
    have "(?wp + (i - k)) mod n = (rp + k + (i - k)) mod n" by (rule mod_add_left_eq)
    then have "(?wp + (i - k)) mod n = (rp + i) mod n" using False by simp
    then show ?thesis
      using False i wrapped_write_nth(2) [OF assms(1) wp, of "i - k"] by (simp add: cyc_def nth_append)
  qed
qed

subsection \<open>The operations on the contents\<close>

lemma ReadOffsetLocked_contents:
  assumes "fifo_ok f"
  shows "ReadOffsetLocked f bytes offset =
    (if offset \<ge> ff_data_length f then (if ff_state f \<noteq> SS_CLOSED then SR_BLOCK else SR_EOS, [])
     else (SR_SUCCESS, take bytes (drop offset (fifo_contents f))))"
proof (cases "offset \<ge> ff_data_length f")
  case True
  then show ?thesis by (simp add: ReadOffsetLocked_def)
next
  case False
  let ?n = "ff_buffer_length f" and ?copy = "min bytes (ff_data_length f - offset)"
  have ok: "length (ff_buffer f) = ?n" "0 < ?n" "?copy \<le> ?n" "ff_data_length f \<le> ?n"
    using assms False by (auto simp: fifo_ok_def)
  have "wrapped_read f ((ff_read_position f + offset) mod ?n) ?copy = cyc (ff_buffer f) ?n ((ff_read_position f + offset) mod ?n) ?copy"
    by (rule wrapped_read_cyc) (use ok in simp_all)
  also have "\<dots> = take ?copy (drop offset (fifo_contents f))"
    using False by (simp add: fifo_contents_def cyc_drop cyc_take)
  also have "\<dots> = take bytes (drop offset (fifo_contents f))"
    by (simp add: min_def)
  finally show ?thesis using False by (simp add: ReadOffsetLocked_def Let_def)
qed

lemma wrapped_write_split:
  fixes d :: "byte list" and L n wp :: nat
  defines "c \<equiv> min (length d) L"
  defines "t \<equiv> min c (n - wp)"
  shows "memcpy_at (memcpy_at buf wp (take t d)) 0 (take (c - t) (drop t d)) = wrapped_write buf n wp (take L d)"
proof -
  have "min (length (take L d)) (n - wp) = t" by (simp add: t_def c_def)
  moreover have "take t (take L d) = take t d" by (simp add: t_def c_def min_def)
  moreover have "take (c - t) (drop t d) = drop t (take L d)"
  proof (cases "L \<le> length d")
    case True
    then show ?thesis by (simp add: c_def drop_take)
  next
    case False
    then show ?thesis by (simp add: c_def)
  qed
  ultimately show ?thesis by (simp add: wrapped_write_def Let_def)
qed

lemma WriteOffsetLocked_contents:
  assumes "fifo_ok f"
  shows "fst (WriteOffsetLocked f data offset) =
      (if ff_state f = SS_CLOSED then SR_EOS else if ff_data_length f + offset \<ge> ff_buffer_length f then SR_BLOCK else SR_SUCCESS)"
    and "fst (WriteOffsetLocked f data offset) = SR_SUCCESS \<Longrightarrow>
      fst (snd (WriteOffsetLocked f data offset)) = min (length data) (ff_buffer_length f - ff_data_length f - offset) \<and>
      snd (snd (WriteOffsetLocked f data offset)) =
        f\<lparr>ff_buffer := wrapped_write (ff_buffer f) (ff_buffer_length f)
            ((ff_read_position f + ff_data_length f + offset) mod ff_buffer_length f)
            (take (ff_buffer_length f - ff_data_length f - offset) data)\<rparr>"
    and "fst (WriteOffsetLocked f data offset) \<noteq> SR_SUCCESS \<Longrightarrow> snd (WriteOffsetLocked f data offset) = (0, f)"
proof -
  show "fst (WriteOffsetLocked f data offset) =
      (if ff_state f = SS_CLOSED then SR_EOS else if ff_data_length f + offset \<ge> ff_buffer_length f then SR_BLOCK else SR_SUCCESS)"
    by (simp add: WriteOffsetLocked_def Let_def)
  show "fst (WriteOffsetLocked f data offset) \<noteq> SR_SUCCESS \<Longrightarrow> snd (WriteOffsetLocked f data offset) = (0, f)"
    by (simp add: WriteOffsetLocked_def Let_def split: if_splits)
  assume "fst (WriteOffsetLocked f data offset) = SR_SUCCESS"
  then have "ff_state f \<noteq> SS_CLOSED" "\<not> ff_data_length f + offset \<ge> ff_buffer_length f"
    by (auto simp: WriteOffsetLocked_def Let_def split: if_splits)
  then show "fst (snd (WriteOffsetLocked f data offset)) = min (length data) (ff_buffer_length f - ff_data_length f - offset) \<and>
      snd (snd (WriteOffsetLocked f data offset)) =
        f\<lparr>ff_buffer := wrapped_write (ff_buffer f) (ff_buffer_length f)
            ((ff_read_position f + ff_data_length f + offset) mod ff_buffer_length f)
            (take (ff_buffer_length f - ff_data_length f - offset) data)\<rparr>"
    unfolding WriteOffsetLocked_def Let_def wrapped_write_split [symmetric] by simp
qed

subsection \<open>A bounded queue\<close>

text \<open>
  The contract a client of the buffer relies on: \<open>cont\<close> is what is buffered, \<open>cap\<close> the capacity,
  \<open>closed\<close> whether the producer has closed.  A write accepts a prefix of its argument, at least one
  byte when there is room and data; a read delivers from the front.
\<close>

locale byte_queue =
  fixes ok :: "'q \<Rightarrow> bool" and cont :: "'q \<Rightarrow> byte list" and cap :: "'q \<Rightarrow> nat" and closed :: "'q \<Rightarrow> bool"
    and wr :: "'q \<Rightarrow> byte list \<Rightarrow> stream_result \<times> nat \<times> 'q"
    and rd :: "'q \<Rightarrow> nat \<Rightarrow> stream_result \<times> byte list \<times> 'q"
  assumes bounded: "ok q \<Longrightarrow> length (cont q) \<le> cap q"
    and wr_law: "ok q \<Longrightarrow> wr q d = (r, n, q') \<Longrightarrow>
      ok q' \<and> cap q' = cap q \<and> closed q' = closed q \<and> cont q' = cont q @ take n d \<and> n \<le> length d \<and>
      (if closed q then r = SR_EOS \<and> n = 0
       else if cap q \<le> length (cont q) then r = SR_BLOCK \<and> n = 0
       else r = SR_SUCCESS \<and> n = min (length d) (cap q - length (cont q)))"
    and rd_law: "ok q \<Longrightarrow> rd q k = (r, x, q') \<Longrightarrow>
      ok q' \<and> cap q' = cap q \<and> closed q' = closed q \<and> cont q = x @ cont q' \<and>
      (if cont q = [] then r = (if closed q then SR_EOS else SR_BLOCK) else r = SR_SUCCESS \<and> length x = min k (length (cont q)))"

datatype queue_op = QWrite "byte list" | QRead nat

text \<open>A run returns the bytes accepted, the bytes delivered and the final state.\<close>

fun run_queue ::
  "('q \<Rightarrow> byte list \<Rightarrow> stream_result \<times> nat \<times> 'q) \<Rightarrow> ('q \<Rightarrow> nat \<Rightarrow> stream_result \<times> byte list \<times> 'q) \<Rightarrow>
   'q \<Rightarrow> queue_op list \<Rightarrow> byte list \<times> byte list \<times> 'q" where
  "run_queue wr rd q [] = ([], [], q)"
| "run_queue wr rd q (QWrite d # ops) =
     (case wr q d of (r, n, q1) \<Rightarrow> (case run_queue wr rd q1 ops of (acc, del, q2) \<Rightarrow> (take n d @ acc, del, q2)))"
| "run_queue wr rd q (QRead k # ops) =
     (case rd q k of (r, x, q1) \<Rightarrow> (case run_queue wr rd q1 ops of (acc, del, q2) \<Rightarrow> (acc, x @ del, q2)))"

context byte_queue
begin

lemma run_fifo:
  "ok q \<Longrightarrow> run_queue wr rd q ops = (acc, del, q') \<Longrightarrow>
     ok q' \<and> cap q' = cap q \<and> cont q @ acc = del @ cont q'"
proof (induction ops arbitrary: q acc del)
  case (Cons op ops)
  show ?case
  proof (cases op)
    case (QWrite d)
    obtain r n q1 where w: "wr q d = (r, n, q1)" by (metis prod_cases3)
    obtain a1 where r: "run_queue wr rd q1 ops = (a1, del, q')" "acc = take n d @ a1"
      using Cons.prems(2) by (auto simp: QWrite w split: prod.splits)
    from wr_law [OF Cons.prems(1) w] Cons.IH [OF _ r(1)] show ?thesis by (auto simp: r(2))
  next
    case (QRead k)
    obtain r x q1 where w: "rd q k = (r, x, q1)" by (metis prod_cases3)
    obtain d1 where r: "run_queue wr rd q1 ops = (acc, d1, q')" "del = x @ d1"
      using Cons.prems(2) by (auto simp: QRead w split: prod.splits)
    from rd_law [OF Cons.prems(1) w] Cons.IH [OF _ r(1)] show ?thesis by (auto simp: r(2))
  qed
qed simp

lemma run_bounded:
  assumes "ok q" and "run_queue wr rd q ops = (acc, del, q')"
  shows "length (cont q') \<le> cap q"
  using run_fifo [OF assms] bounded [of q'] by auto

end

lemma fifo_Write_contents:
  assumes "fifo_ok f" and "fifo_Write f d = (r, n, f')"
  shows "fifo_ok f' \<and> ff_buffer_length f' = ff_buffer_length f \<and> ff_state f' = ff_state f \<and>
    fifo_contents f' = fifo_contents f @ take n d \<and> n \<le> length d \<and>
    (if ff_state f = SS_CLOSED then r = SR_EOS \<and> n = 0
     else if ff_buffer_length f \<le> ff_data_length f then r = SR_BLOCK \<and> n = 0
     else r = SR_SUCCESS \<and> n = min (length d) (ff_buffer_length f - ff_data_length f))"
proof (cases "fst (WriteOffsetLocked f d 0) = SR_SUCCESS")
  case False
  then have "WriteOffsetLocked f d 0 = (fst (WriteOffsetLocked f d 0), 0, f)"
    using WriteOffsetLocked_contents(3) [OF assms(1) False] by (metis prod.collapse)
  then show ?thesis
    using False assms WriteOffsetLocked_contents(1) [OF assms(1), of d 0]
    by (auto simp: fifo_Write_def split: prod.splits if_splits)
next
  case True
  let ?n = "ff_buffer_length f" and ?dl = "ff_data_length f" and ?rp = "ff_read_position f"
  define x where "x = take (?n - ?dl) d"
  define B where "B = wrapped_write (ff_buffer f) ?n ((?rp + ?dl) mod ?n) x"
  have w: "WriteOffsetLocked f d 0 = (SR_SUCCESS, min (length d) (?n - ?dl), f\<lparr>ff_buffer := B\<rparr>)"
    using WriteOffsetLocked_contents(2) [OF assms(1) True] True by (metis B_def x_def add.right_neutral diff_zero prod.collapse)
  have st: "ff_state f \<noteq> SS_CLOSED" "?dl < ?n"
    using True WriteOffsetLocked_contents(1) [OF assms(1), of d 0] by (auto split: if_splits)
  have ok: "length (ff_buffer f) = ?n" "?rp < ?n" using assms(1) st by (auto simp: fifo_ok_def)
  have lx: "length x = min (length d) (?n - ?dl)" "?dl + length x \<le> ?n" using st by (auto simp: x_def)
  have cont: "cyc B ?n ?rp (?dl + length x) = fifo_contents f @ x"
    unfolding B_def fifo_contents_def by (rule cyc_wrapped_write [OF ok lx(2)])
  have lB: "length B = ?n" unfolding B_def by (rule wrapped_write_nth(1)) (use ok lx in auto)
  have n: "n = length x" "r = SR_SUCCESS"
    and f': "f' = (if \<not> ?dl > 0 \<and> length x > 0 then PostEvent (f\<lparr>ff_buffer := B, ff_data_length := ?dl + length x\<rparr>) SE_READ
         else f\<lparr>ff_buffer := B, ff_data_length := ?dl + length x\<rparr>)"
    using assms(2) unfolding fifo_Write_def w lx(1) [symmetric] Let_def by (auto split: if_splits)
  have "take n d = x" using n lx by (simp add: x_def min_def)
  moreover have fs: "ff_buffer f' = B" "ff_data_length f' = ?dl + length x" "ff_buffer_length f' = ?n"
    "ff_read_position f' = ?rp" "ff_state f' = ff_state f"
    by (simp_all add: f' PostEvent_def)
  moreover have "fifo_contents f' = fifo_contents f @ x" using cont by (simp add: fifo_contents_def [of f'] fs)
  moreover have "fifo_ok f'" using ok lB lx(2) by (simp add: fifo_ok_def fs)
  ultimately show ?thesis using st n lx(1) by simp
qed

lemma fifo_Read_contents:
  assumes "fifo_ok f" and "fifo_Read f k = (r, x, f')"
  shows "fifo_ok f' \<and> ff_buffer_length f' = ff_buffer_length f \<and> (ff_state f' = SS_CLOSED) = (ff_state f = SS_CLOSED) \<and>
    fifo_contents f = x @ fifo_contents f' \<and>
    (if fifo_contents f = [] then r = (if ff_state f = SS_CLOSED then SR_EOS else SR_BLOCK)
     else r = SR_SUCCESS \<and> length x = min k (ff_data_length f))"
proof (cases "ff_data_length f = 0")
  case True
  then show ?thesis
    using assms by (auto simp: fifo_Read_def ReadOffsetLocked_def fifo_contents_def cyc_def split: if_splits)
next
  case False
  let ?n = "ff_buffer_length f" and ?rp = "ff_read_position f"
  have ok: "?n > 0" "?rp < ?n" "ff_data_length f \<le> ?n" using assms(1) False by (auto simp: fifo_ok_def)
  have rd: "ReadOffsetLocked f k 0 = (SR_SUCCESS, take k (fifo_contents f))"
    using False by (simp add: ReadOffsetLocked_contents [OF assms(1)])
  define c where "c = min k (ff_data_length f)"
  have lc: "length (take k (fifo_contents f)) = c" by (simp add: c_def min.commute)
  have x: "r = SR_SUCCESS" "x = take k (fifo_contents f)"
    and f': "f' = (let g = f\<lparr>ff_read_position := (?rp + c) mod ?n, ff_data_length := ff_data_length f - c\<rparr>
      in if \<not> ff_data_length f < ?n \<and> c > 0 then PostEvent g SE_WRITE else g)"
    using assms(2) unfolding fifo_Read_def rd Let_def prod.case lc by (simp_all add: lc del: length_take)
  have lx: "length x = c" unfolding x(2) by (rule lc)
  have "take k (fifo_contents f) = take c (fifo_contents f)" by (simp add: c_def min_def)
  moreover have "fifo_contents f' = drop c (fifo_contents f)"
    by (simp add: f' Let_def fifo_contents_def PostEvent_def cyc_drop c_def)
  ultimately have "fifo_contents f = x @ fifo_contents f'" using x(2) by simp
  moreover have "fifo_ok f'" using assms(1) ok by (auto simp: f' Let_def fifo_ok_def PostEvent_def)
  moreover have "fifo_contents f \<noteq> []" using False by (metis length_0_conv length_fifo_contents)
  moreover have "ff_buffer_length f' = ?n \<and> ff_state f' = ff_state f" by (simp add: f' Let_def PostEvent_def)
  ultimately show ?thesis using x(1) lx unfolding c_def by metis
qed

interpretation fifo: byte_queue fifo_ok fifo_contents ff_buffer_length "\<lambda>f. ff_state f = SS_CLOSED" fifo_Write fifo_Read
proof
  fix f d r n f' k x
  show "fifo_ok f \<Longrightarrow> length (fifo_contents f) \<le> ff_buffer_length f" by (simp add: fifo_ok_def)
  show "fifo_ok f \<Longrightarrow> fifo_Write f d = (r, n, f') \<Longrightarrow>
      fifo_ok f' \<and> ff_buffer_length f' = ff_buffer_length f \<and> (ff_state f' = SS_CLOSED) = (ff_state f = SS_CLOSED) \<and>
      fifo_contents f' = fifo_contents f @ take n d \<and> n \<le> length d \<and>
      (if ff_state f = SS_CLOSED then r = SR_EOS \<and> n = 0
       else if ff_buffer_length f \<le> length (fifo_contents f) then r = SR_BLOCK \<and> n = 0
       else r = SR_SUCCESS \<and> n = min (length d) (ff_buffer_length f - length (fifo_contents f)))"
    using fifo_Write_contents [of f d r n f'] by simp
  show "fifo_ok f \<Longrightarrow> fifo_Read f k = (r, x, f') \<Longrightarrow>
      fifo_ok f' \<and> ff_buffer_length f' = ff_buffer_length f \<and> (ff_state f' = SS_CLOSED) = (ff_state f = SS_CLOSED) \<and>
      fifo_contents f = x @ fifo_contents f' \<and>
      (if fifo_contents f = [] then r = (if ff_state f = SS_CLOSED then SR_EOS else SR_BLOCK)
       else r = SR_SUCCESS \<and> length x = min k (length (fifo_contents f)))"
    unfolding length_fifo_contents by (rule fifo_Read_contents)
qed

text \<open>
  C9: the circular buffer is a bounded queue: over any sequence of reads and writes of any sizes,
  the bytes buffered at the start followed by the bytes accepted are exactly the bytes delivered
  followed by the bytes still buffered, and never more than the capacity is buffered.
\<close>

theorem fifo_is_queue:
  assumes "fifo_ok f" and "run_queue fifo_Write fifo_Read f ops = (acc, del, f')"
  shows "fifo_ok f' \<and> fifo_contents f @ acc = del @ fifo_contents f' \<and> length (fifo_contents f') \<le> ff_buffer_length f"
  using fifo.run_fifo [OF assms] fifo.run_bounded [OF assms] by simp

theorem fifo_is_queue_witness:
  "run_queue fifo_Write fifo_Read (FifoBuffer_new 4 [9, 9, 9, 9]) [QWrite [1, 2, 3], QRead 2, QWrite [4, 5, 6, 7], QRead 2] =
       ([1, 2, 3, 4, 5, 6], [1, 2, 3, 4], \<lparr>ff_state = SS_OPEN, ff_buffer = [5, 6, 3, 4], ff_buffer_length = 4,
          ff_data_length = 2, ff_read_position = 0, ff_events = [SE_READ, SE_WRITE]\<rparr>) \<and>
   fifo_contents (FifoBuffer_new 4 [9, 9, 9, 9]) @ [1, 2, 3, 4, 5, 6] = [1, 2, 3, 4] @
     fifo_contents \<lparr>ff_state = SS_OPEN, ff_buffer = [5, 6, 3, 4], ff_buffer_length = 4,
          ff_data_length = 2, ff_read_position = 0, ff_events = [SE_READ, SE_WRITE]\<rparr>"
proof -
  have ok: "fifo_ok (FifoBuffer_new 4 [9, 9, 9, 9])" by (simp add: fifo_ok_def FifoBuffer_new_def)
  have r: "run_queue fifo_Write fifo_Read (FifoBuffer_new 4 [9, 9, 9, 9]) [QWrite [1, 2, 3], QRead 2, QWrite [4, 5, 6, 7], QRead 2] =
       ([1, 2, 3, 4, 5, 6], [1, 2, 3, 4], \<lparr>ff_state = SS_OPEN, ff_buffer = [5, 6, 3, 4], ff_buffer_length = 4,
          ff_data_length = 2, ff_read_position = 0, ff_events = [SE_READ, SE_WRITE]\<rparr>)"
    by code_simp
  show ?thesis using fifo_is_queue [OF ok r] r by blast
qed


subsection \<open>Events\<close>

lemma fifo_Write_event:
  assumes "fifo_ok f" and "fifo_Write f d = (r, n, f')"
  shows "ff_events f' = ff_events f @ (if fifo_contents f = [] \<and> fifo_contents f' \<noteq> [] then [SE_READ] else [])"
proof -
  have c: "fifo_contents f' = fifo_contents f @ take n d" "n \<le> length d" using fifo_Write_contents [OF assms] by auto
  have e: "fifo_contents f = [] \<longleftrightarrow> ff_data_length f = 0" by (metis length_0_conv length_fifo_contents)
  obtain r0 n0 f0 where w: "WriteOffsetLocked f d 0 = (r0, n0, f0)" by (metis prod_cases3)
  have f0: "ff_events f0 = ff_events f" "ff_data_length f0 = ff_data_length f"
    using w by (auto simp: WriteOffsetLocked_def Let_def split: if_splits)
  have "ff_events f' = ff_events f @ (if ff_data_length f = 0 \<and> n > 0 then [SE_READ] else [])"
    using assms(2) f0 by (auto simp: fifo_Write_def w PostEvent_def Let_def split: if_splits)
  then show ?thesis using c e by (cases "n = 0"; cases d) auto
qed

lemma fifo_Read_event:
  assumes "fifo_ok f" and "fifo_Read f k = (r, x, f')"
  shows "ff_events f' = ff_events f @
    (if ff_data_length f = ff_buffer_length f \<and> ff_data_length f' < ff_buffer_length f' then [SE_WRITE] else [])"
proof -
  have c: "ff_data_length f = length x + ff_data_length f'" "ff_buffer_length f' = ff_buffer_length f"
    "ff_data_length f \<le> ff_buffer_length f"
    using fifo_Read_contents [OF assms] assms(1) by (auto simp: fifo_ok_def simp flip: length_fifo_contents)
  obtain r0 x0 where w: "ReadOffsetLocked f k 0 = (r0, x0)" by (metis surj_pair)
  have "ff_events f' = ff_events f @ (if \<not> ff_data_length f < ff_buffer_length f \<and> length x > 0 then [SE_WRITE] else [])"
    using assms(2) by (auto simp: fifo_Read_def w PostEvent_def Let_def split: if_splits)
  then show ?thesis using c by (cases x) auto
qed

text \<open>
  C31: readiness is edge-triggered and no edge is missed: a write posts \<open>SE_READ\<close> exactly when it
  takes the buffer from empty to non-empty, and a read posts \<open>SE_WRITE\<close> exactly when it takes the
  buffer from full to not full; neither posts anything else.
\<close>

theorem fifo_events_edge_triggered:
  assumes "fifo_ok f" and "fifo_Write f d = (r, n, g)" and "fifo_Read f k = (r', x, h)"
  shows "ff_events g = ff_events f @ (if fifo_contents f = [] \<and> fifo_contents g \<noteq> [] then [SE_READ] else []) \<and>
    ff_events h = ff_events f @
      (if GetWriteRemaining f = 0 \<and> GetWriteRemaining h > 0 then [SE_WRITE] else [])"
  using fifo_Write_event [OF assms(1,2)] fifo_Read_event [OF assms(1,3)] fifo_Read_contents [OF assms(1,3)] assms(1)
  by (auto simp: GetWriteRemaining_def fifo_ok_def)

theorem fifo_events_edge_triggered_witness:
  "ff_events (snd (snd (fifo_Write (FifoBuffer_new 4 [9, 9, 9, 9]) [1, 2]))) = [SE_READ] \<and>
   ff_events (snd (snd (fifo_Read (FifoBuffer_new 4 [9, 9, 9, 9]) 1))) = []"
proof -
  let ?f = "FifoBuffer_new 4 [9, 9, 9, 9]"
  have ok: "fifo_ok ?f" by (simp add: fifo_ok_def FifoBuffer_new_def)
  obtain r n g r' x h where w: "fifo_Write ?f [1, 2] = (r, n, g)" and rd: "fifo_Read ?f 1 = (r', x, h)"
    by (metis prod_cases3)
  have "ff_data_length (snd (snd (fifo_Write ?f [1, 2]))) = 2" "fifo_contents ?f = []" "ff_events ?f = []" "GetWriteRemaining ?f = 4"
    by code_simp+
  moreover from this(1) have "fifo_contents g \<noteq> []" using w by (auto simp flip: length_fifo_contents)
  ultimately show ?thesis using fifo_events_edge_triggered [OF ok w rd] w rd by simp
qed


subsection \<open>Access in place, and capacity\<close>

lemma GetReadData_prefix:
  assumes "fifo_ok f"
  shows "GetReadData f = take (min (ff_data_length f) (ff_buffer_length f - ff_read_position f)) (fifo_contents f)"
proof (rule nth_equalityI)
  let ?n = "ff_buffer_length f" and ?rp = "ff_read_position f"
  have ok: "length (ff_buffer f) = ?n" "ff_data_length f \<le> ?n" using assms by (auto simp: fifo_ok_def)
  have e: "GetReadData f = take (min (ff_data_length f) (?n - ?rp)) (drop ?rp (ff_buffer f))"
    using assms by (auto simp: GetReadData_def fifo_ok_def min_def)
  show "length (GetReadData f) = length (take (min (ff_data_length f) (?n - ?rp)) (fifo_contents f))"
    using ok by (simp add: e)
  fix i assume "i < length (GetReadData f)"
  then have "i < ff_data_length f" "?rp + i < ?n" using ok by (auto simp: e)
  then show "GetReadData f ! i = take (min (ff_data_length f) (?n - ?rp)) (fifo_contents f) ! i"
    using ok by (simp add: e fifo_contents_def cyc_def)
qed

text \<open>
  Reading in place agrees with the queue: \<open>GetReadData\<close> returns a prefix of what is buffered,
  non-empty whenever anything is buffered, and \<open>ConsumeReadData\<close> of at most that many bytes removes
  exactly them.
\<close>

theorem fifo_read_in_place:
  assumes "fifo_ok f" and "sz \<le> length (GetReadData f)" and "ff_buffer_length f > 0"
  shows "\<exists>f'. ConsumeReadData f sz = Some f' \<and> fifo_ok f' \<and>
     fifo_contents f = take sz (GetReadData f) @ fifo_contents f' \<and>
     (GetReadData f = [] \<longleftrightarrow> fifo_contents f = [])"
proof -
  let ?n = "ff_buffer_length f" and ?rp = "ff_read_position f"
  have sz: "sz \<le> ff_data_length f" "sz \<le> ?n - ?rp" using assms by (auto simp: GetReadData_prefix [OF assms(1)])
  have ok: "?rp < ?n" using assms(1,3) by (simp add: fifo_ok_def)
  obtain f' where f': "ConsumeReadData f sz = Some f'" using assms(3) by (auto simp: ConsumeReadData_def Let_def)
  have g: "ff_buffer f' = ff_buffer f" "ff_buffer_length f' = ?n" "ff_read_position f' = (?rp + sz) mod ?n"
    "ff_data_length f' = ff_data_length f - sz"
    using f' by (auto simp: ConsumeReadData_def PostEvent_def Let_def split: if_splits)
  have "fifo_contents f' = drop sz (fifo_contents f)"
    using sz by (simp add: fifo_contents_def g cyc_drop)
  moreover have "take sz (GetReadData f) = take sz (fifo_contents f)"
    using sz by (simp add: GetReadData_prefix [OF assms(1)])
  moreover have "fifo_ok f'" using assms(1,3) by (auto simp: fifo_ok_def g)
  moreover have "GetReadData f = [] \<longleftrightarrow> fifo_contents f = []"
    using ok by (cases "fifo_contents f") (auto simp: GetReadData_prefix [OF assms(1)] simp flip: length_fifo_contents)
  ultimately show ?thesis using f' by simp
qed

theorem fifo_read_in_place_witness:
  "GetReadData \<lparr>ff_state = SS_OPEN, ff_buffer = [5, 6, 3, 4], ff_buffer_length = 4,
          ff_data_length = 3, ff_read_position = 3, ff_events = []\<rparr> = [4] \<and>
   (\<exists>f'. ConsumeReadData \<lparr>ff_state = SS_OPEN, ff_buffer = [5, 6, 3, 4], ff_buffer_length = 4,
          ff_data_length = 3, ff_read_position = 3, ff_events = []\<rparr> 1 = Some f' \<and> [4, 5, 6] = [4] @ fifo_contents f')"
proof -
  let ?f = "\<lparr>ff_state = SS_OPEN, ff_buffer = [5, 6, 3, 4], ff_buffer_length = 4,
          ff_data_length = 3, ff_read_position = 3, ff_events = []\<rparr> :: fifo_buffer"
  have f: "fifo_ok ?f" "GetReadData ?f = [4]" "fifo_contents ?f = [4, 5, 6]" by code_simp+
  obtain f' where "ConsumeReadData ?f 1 = Some f'" "fifo_contents ?f = take 1 (GetReadData ?f) @ fifo_contents f'"
    using fifo_read_in_place [of ?f 1] f(1,2) by auto
  with f show ?thesis by simp
qed

text \<open>Writing in place: the client copies \<open>data\<close> to the region \<open>GetWriteBuffer\<close> returned.\<close>

definition write_in_place :: "fifo_buffer \<Rightarrow> nat \<Rightarrow> byte list \<Rightarrow> fifo_buffer" where
  "write_in_place f pos data = f\<lparr>ff_buffer := memcpy_at (ff_buffer f) pos data\<rparr>"

lemma ConsumeWriteBuffer_fields [simp]:
  "ff_buffer (ConsumeWriteBuffer f sz) = ff_buffer f" "ff_buffer_length (ConsumeWriteBuffer f sz) = ff_buffer_length f"
  "ff_read_position (ConsumeWriteBuffer f sz) = ff_read_position f" "ff_data_length (ConsumeWriteBuffer f sz) = ff_data_length f + sz"
  by (simp_all add: ConsumeWriteBuffer_def PostEvent_def Let_def)

lemma GetWriteBuffer_region:
  assumes "fifo_ok f" and "GetWriteBuffer f = Some (Some (pos, sz), g)"
  shows "fifo_ok g \<and> fifo_contents g = fifo_contents f \<and> ff_data_length g = ff_data_length f \<and>
    ff_buffer_length g = ff_buffer_length f \<and> 0 < ff_buffer_length g \<and>
    pos = (ff_read_position g + ff_data_length g) mod ff_buffer_length g \<and>
    pos + sz \<le> ff_buffer_length g \<and> ff_data_length g + sz \<le> ff_buffer_length g"
proof (cases "ff_data_length f = 0")
  case True
  then show ?thesis
    using assms by (auto simp: GetWriteBuffer_def Let_def fifo_ok_def fifo_contents_def cyc_def split: if_splits)
next
  case False
  let ?n = "ff_buffer_length f" and ?rp = "ff_read_position f" and ?dl = "ff_data_length f"
  have ok: "?rp < ?n" "?dl \<le> ?n" "0 < ?n" using assms(1) False by (auto simp: fifo_ok_def)
  have g: "g = f" "pos = (?rp + ?dl) mod ?n" "sz = (if pos > ?rp then ?n - pos else ?rp - pos)"
    using assms(2) False ok by (auto simp: GetWriteBuffer_def Let_def split: if_splits)
  have m: "pos = (if ?rp + ?dl < ?n then ?rp + ?dl else ?rp + ?dl - ?n)"
    using ok by (simp add: g(2) le_mod_geq)
  then have "pos + sz \<le> ?n" "?dl + sz \<le> ?n" using ok False by (auto simp: g(3))
  then show ?thesis using assms(1) ok g(1,2) by simp
qed

text \<open>
  Writing in place agrees with the queue: the region \<open>GetWriteBuffer\<close> hands out lies inside the
  allocation, overlaps nothing that is buffered, and after the client has filled \<open>data\<close> into its front,
  \<open>ConsumeWriteBuffer\<close> appends exactly \<open>data\<close> to the contents.
\<close>

theorem fifo_write_in_place:
  assumes "fifo_ok f" and "GetWriteBuffer f = Some (Some (pos, sz), g)" and "length data \<le> sz"
  shows "pos + sz \<le> length (ff_buffer g) \<and> fifo_contents (write_in_place g pos data) = fifo_contents f \<and>
     fifo_ok (ConsumeWriteBuffer (write_in_place g pos data) (length data)) \<and>
     fifo_contents (ConsumeWriteBuffer (write_in_place g pos data) (length data)) = fifo_contents f @ data"
proof -
  let ?n = "ff_buffer_length g" and ?rp = "ff_read_position g" and ?dl = "ff_data_length g"
  note reg = GetWriteBuffer_region [OF assms(1,2)]
  have ok: "length (ff_buffer g) = ?n" "?rp < ?n" "?dl + length data \<le> ?n"
    using reg assms(3) by (auto simp: fifo_ok_def)
  have "pos + sz \<le> ?n" using reg by blast
  then have "min (length data) (?n - pos) = length data" using assms(3) by simp
  then have w: "memcpy_at (ff_buffer g) pos data = wrapped_write (ff_buffer g) ?n ((?rp + ?dl) mod ?n) data"
    using reg by (simp add: wrapped_write_def memcpy_at_def)
  note app = cyc_wrapped_write [OF ok]
  have "take ?dl (cyc (memcpy_at (ff_buffer g) pos data) ?n ?rp (?dl + length data)) = cyc (ff_buffer g) ?n ?rp ?dl"
    unfolding w app by (simp add: cyc_def)
  then have "fifo_contents (write_in_place g pos data) = fifo_contents g"
    by (simp add: write_in_place_def fifo_contents_def cyc_take)
  then have keep: "fifo_contents (write_in_place g pos data) = fifo_contents f" using reg by simp
  have "fifo_contents (ConsumeWriteBuffer (write_in_place g pos data) (length data)) = fifo_contents g @ data"
    using app by (simp add: write_in_place_def fifo_contents_def w)
  moreover have "fifo_ok (ConsumeWriteBuffer (write_in_place g pos data) (length data))"
    using \<open>pos + sz \<le> ?n\<close> ok assms(3) by (simp add: write_in_place_def fifo_ok_def)
  moreover have "fifo_contents g = fifo_contents f" using reg by blast
  ultimately show ?thesis using \<open>pos + sz \<le> ?n\<close> ok(1) keep by simp
qed

theorem fifo_write_in_place_witness:
  "GetWriteBuffer \<lparr>ff_state = SS_OPEN, ff_buffer = [5, 6, 3, 4], ff_buffer_length = 4,
          ff_data_length = 2, ff_read_position = 3, ff_events = []\<rparr> =
     Some (Some (1, 2), \<lparr>ff_state = SS_OPEN, ff_buffer = [5, 6, 3, 4], ff_buffer_length = 4,
          ff_data_length = 2, ff_read_position = 3, ff_events = []\<rparr>) \<and>
   fifo_contents (ConsumeWriteBuffer (write_in_place \<lparr>ff_state = SS_OPEN, ff_buffer = [5, 6, 3, 4], ff_buffer_length = 4,
          ff_data_length = 2, ff_read_position = 3, ff_events = []\<rparr> 1 [7, 8]) (length [7, 8 :: byte])) = [4, 5] @ [7, 8]"
proof -
  let ?f = "\<lparr>ff_state = SS_OPEN, ff_buffer = [5, 6, 3, 4], ff_buffer_length = 4,
          ff_data_length = 2, ff_read_position = 3, ff_events = []\<rparr> :: fifo_buffer"
  have "fifo_ok ?f" "GetWriteBuffer ?f = Some (Some (1, 2), ?f)" "fifo_contents ?f = [4, 5]" by code_simp+
  with fifo_write_in_place [of ?f 1 2 ?f "[7, 8]"] show ?thesis by simp
qed

lemma SetCapacity_contents:
  assumes "fifo_ok f" and "length mem = sz"
  shows "fst (SetCapacity f sz mem) = (length (fifo_contents f) \<le> sz)"
    and "fifo_ok (snd (SetCapacity f sz mem))"
    and "fifo_contents (snd (SetCapacity f sz mem)) = fifo_contents f"
proof -
  let ?n = "ff_buffer_length f" and ?dl = "ff_data_length f" and ?rp = "ff_read_position f"
  have ok: "length (ff_buffer f) = ?n" "?dl \<le> ?n" using assms(1) by (auto simp: fifo_ok_def)
  have wr: "wrapped_read f ?rp ?dl = fifo_contents f"
  proof (cases "?dl = 0")
    case True
    then show ?thesis by (simp add: wrapped_read_def fifo_contents_def cyc_def)
  next
    case False
    then have "?rp < ?n" using assms(1) by (auto simp: fifo_ok_def)
    then show ?thesis using ok by (simp add: wrapped_read_cyc fifo_contents_def)
  qed
  show "fst (SetCapacity f sz mem) = (length (fifo_contents f) \<le> sz)" by (auto simp: SetCapacity_def)
  show "fifo_ok (snd (SetCapacity f sz mem))" using assms by (auto simp: SetCapacity_def fifo_ok_def wr)
  have "cyc (memcpy_at mem 0 (fifo_contents f)) sz 0 ?dl = fifo_contents f" if "?dl \<le> sz"
    by (rule nth_equalityI) (use assms(2) that in \<open>auto simp: cyc_def nth_memcpy_at\<close>)
  moreover have "snd (SetCapacity f sz mem) = f \<or> ?dl \<le> sz \<and> snd (SetCapacity f sz mem) =
      f\<lparr>ff_buffer := memcpy_at mem 0 (fifo_contents f), ff_read_position := 0, ff_buffer_length := sz\<rparr>"
    by (simp add: SetCapacity_def wr)
  ultimately show "fifo_contents (snd (SetCapacity f sz mem)) = fifo_contents f"
    by (elim disjE conjE) (simp_all add: fifo_contents_def [of "_\<lparr>ff_buffer_length := _\<rparr>"])
qed

text \<open>
  \<open>SetCapacity\<close> succeeds exactly when the buffered bytes fit the new size, and never changes them,
  whatever the fresh allocation holds; but after \<open>SetCapacity(0)\<close> the next \<open>GetWriteBuffer\<close> on an open
  buffer divides by zero.
\<close>

theorem SetCapacity_preserves:
  assumes "fifo_ok f" and "length mem = sz"
  shows "(case SetCapacity f sz mem of (b, g) \<Rightarrow>
     (b \<longleftrightarrow> length (fifo_contents f) \<le> sz) \<and> fifo_ok g \<and> fifo_contents g = fifo_contents f \<and>
     (if b then ff_buffer_length g = sz else g = f) \<and>
     (if b \<and> sz = 0 \<and> ff_state f \<noteq> SS_CLOSED then GetWriteBuffer g = None else True))"
proof -
  obtain b g where s: "SetCapacity f sz mem = (b, g)" by (metis surj_pair)
  have "(if b then ff_buffer_length g = sz else g = f)" "ff_state g = ff_state f"
    using s by (auto simp: SetCapacity_def split: if_splits)
  then show ?thesis using SetCapacity_contents [OF assms] s by (auto simp: GetWriteBuffer_def Let_def)
qed

theorem SetCapacity_preserves_witness:
  "fifo_contents (snd (SetCapacity \<lparr>ff_state = SS_OPEN, ff_buffer = [5, 6, 3, 4], ff_buffer_length = 4,
          ff_data_length = 2, ff_read_position = 3, ff_events = []\<rparr> 2 [0, 0])) = [4, 5]"
proof -
  let ?f = "\<lparr>ff_state = SS_OPEN, ff_buffer = [5, 6, 3, 4], ff_buffer_length = 4,
          ff_data_length = 2, ff_read_position = 3, ff_events = []\<rparr> :: fifo_buffer"
  have "fifo_ok ?f" "fifo_contents ?f = [4, 5]" by code_simp+
  with SetCapacity_preserves [of ?f "[0, 0]" 2] show ?thesis by (simp split: prod.splits)
qed

end
