(* ===== verification/RtpUtils.thy ===== *)
theory RtpUtils
  imports ByteOrder
begin

unbundle bit_operations_syntax

text \<open>
  \<open>talk/media/base/rtputils.cc\<close>: reading and writing the fields of RTP and RTCP headers.  A
  \<open>void*\<close> to a packet is a \<open>byte list option\<close>, \<open>None\<close> being the null pointer; the pointers to
  results are never null.  The \<open>int\<close> results are \<open>int\<close>.  A setter returns the packet it wrote to,
  \<open>None\<close> being its \<open>false\<close> return; it looks at no length, so its callers hand it a packet of at
  least \<open>kMinRtpPacketLen\<close> bytes.
\<close>

type_synonym packet_ptr = "byte list option"

definition kRtpVersion :: int where "kRtpVersion = 2"
definition kRtpFlagsOffset :: nat where "kRtpFlagsOffset = 0"
definition kRtpPayloadTypeOffset :: nat where "kRtpPayloadTypeOffset = 1"
definition kRtpSeqNumOffset :: nat where "kRtpSeqNumOffset = 2"
definition kRtpTimestampOffset :: nat where "kRtpTimestampOffset = 4"
definition kRtpSsrcOffset :: nat where "kRtpSsrcOffset = 8"
definition kRtcpPayloadTypeOffset :: nat where "kRtcpPayloadTypeOffset = 1"
definition kMinRtpPacketLen :: nat where "kMinRtpPacketLen = 12"
definition kMinRtcpPacketLen :: nat where "kMinRtcpPacketLen = 4"

definition kRtcpTypeSR :: int where "kRtcpTypeSR = 200"
definition kRtcpTypeRR :: int where "kRtcpTypeRR = 201"
definition kRtcpTypeSDES :: int where "kRtcpTypeSDES = 202"
definition kRtcpTypeBye :: int where "kRtcpTypeBye = 203"
definition kRtcpTypeApp :: int where "kRtcpTypeApp = 204"
definition kRtcpTypeRTPFB :: int where "kRtcpTypeRTPFB = 205"
definition kRtcpTypePSFB :: int where "kRtcpTypePSFB = 206"

lemmas rtp_consts =
  kRtpVersion_def kRtpFlagsOffset_def kRtpPayloadTypeOffset_def kRtpSeqNumOffset_def kRtpTimestampOffset_def
  kRtpSsrcOffset_def kRtcpPayloadTypeOffset_def kMinRtpPacketLen_def kMinRtcpPacketLen_def

record rtp_header =
  rh_payload_type :: int
  rh_seq_num :: int
  rh_timestamp :: u32
  rh_ssrc :: u32

definition GetUint8 :: "packet_ptr \<Rightarrow> nat \<Rightarrow> int option" where
  "GetUint8 data offset = (case data of None \<Rightarrow> None | Some d \<Rightarrow> Some (uint (d ! offset)))"

definition GetUint16 :: "packet_ptr \<Rightarrow> nat \<Rightarrow> int option" where
  "GetUint16 data offset = (case data of None \<Rightarrow> None | Some d \<Rightarrow> Some (uint (GetBE16 (drop offset d))))"

definition GetUint32 :: "packet_ptr \<Rightarrow> nat \<Rightarrow> u32 option" where
  "GetUint32 data offset = (case data of None \<Rightarrow> None | Some d \<Rightarrow> Some (GetBE32 (drop offset d)))"

definition SetUint8 :: "packet_ptr \<Rightarrow> nat \<Rightarrow> int \<Rightarrow> packet_ptr" where
  "SetUint8 data offset v = (case data of None \<Rightarrow> None | Some d \<Rightarrow> Some (Set8 d offset (word_of_int v)))"

definition SetUint16 :: "packet_ptr \<Rightarrow> nat \<Rightarrow> int \<Rightarrow> packet_ptr" where
  "SetUint16 data offset v =
     (case data of None \<Rightarrow> None | Some d \<Rightarrow> Some (take offset d @ SetBE16 (drop offset d) (word_of_int v)))"

definition SetUint32 :: "packet_ptr \<Rightarrow> nat \<Rightarrow> u32 \<Rightarrow> packet_ptr" where
  "SetUint32 data offset v =
     (case data of None \<Rightarrow> None | Some d \<Rightarrow> Some (take offset d @ SetBE32 (drop offset d) v))"

definition GetRtpFlags :: "packet_ptr \<Rightarrow> nat \<Rightarrow> int option" where
  "GetRtpFlags data len = (if len < kMinRtpPacketLen then None else GetUint8 data kRtpFlagsOffset)"

definition GetRtpPayloadType :: "packet_ptr \<Rightarrow> nat \<Rightarrow> int option" where
  "GetRtpPayloadType data len =
     (if len < kMinRtpPacketLen then None
      else (case GetUint8 data kRtpPayloadTypeOffset of None \<Rightarrow> None | Some v \<Rightarrow> Some (v AND 0x7F)))"

definition GetRtpSeqNum :: "packet_ptr \<Rightarrow> nat \<Rightarrow> int option" where
  "GetRtpSeqNum data len = (if len < kMinRtpPacketLen then None else GetUint16 data kRtpSeqNumOffset)"

definition GetRtpTimestamp :: "packet_ptr \<Rightarrow> nat \<Rightarrow> u32 option" where
  "GetRtpTimestamp data len = (if len < kMinRtpPacketLen then None else GetUint32 data kRtpTimestampOffset)"

definition GetRtpSsrc :: "packet_ptr \<Rightarrow> nat \<Rightarrow> u32 option" where
  "GetRtpSsrc data len = (if len < kMinRtpPacketLen then None else GetUint32 data kRtpSsrcOffset)"

definition GetRtpHeaderLen :: "packet_ptr \<Rightarrow> nat \<Rightarrow> nat option" where
  "GetRtpHeaderLen data len =
     (case data of
        None \<Rightarrow> None
      | Some header \<Rightarrow>
          if len < kMinRtpPacketLen then None
          else
            let header_size = kMinRtpPacketLen + unat (header ! 0 AND 0xF) * 4 in
            if len < header_size then None
            else if header ! 0 AND 0x10 \<noteq> 0 then
              if len < header_size + 4 then None
              else
                let header_size = header_size + (unat (GetBE16 (drop (header_size + 2) header)) + 1) * 4
                in if len < header_size then None else Some header_size
            else Some header_size)"

text \<open>\<open>GetRtpVersion\<close> does not look for a null pointer.\<close>

definition GetRtpVersion :: "byte list \<Rightarrow> nat \<Rightarrow> int option" where
  "GetRtpVersion data len = (if len = 0 then None else Some (uint (drop_bit 6 (data ! 0) AND 0x3)))"

definition GetRtpHeader :: "packet_ptr \<Rightarrow> nat \<Rightarrow> rtp_header option" where
  "GetRtpHeader data len =
     (case GetRtpPayloadType data len of
        None \<Rightarrow> None
      | Some pt \<Rightarrow>
          (case GetRtpSeqNum data len of
             None \<Rightarrow> None
           | Some sn \<Rightarrow>
               (case GetRtpTimestamp data len of
                  None \<Rightarrow> None
                | Some ts \<Rightarrow>
                    (case GetRtpSsrc data len of
                       None \<Rightarrow> None
                     | Some ssrc \<Rightarrow>
                         Some \<lparr>rh_payload_type = pt, rh_seq_num = sn, rh_timestamp = ts, rh_ssrc = ssrc\<rparr>))))"

definition GetRtcpType :: "packet_ptr \<Rightarrow> nat \<Rightarrow> int option" where
  "GetRtcpType data len = (if len < kMinRtcpPacketLen then None else GetUint8 data kRtcpPayloadTypeOffset)"

definition GetRtcpSsrc :: "packet_ptr \<Rightarrow> nat \<Rightarrow> u32 option" where
  "GetRtcpSsrc data len =
     (case data of
        None \<Rightarrow> None
      | Some d \<Rightarrow>
          if len < kMinRtcpPacketLen + 4 then None
          else
            (case GetRtcpType data len of
               None \<Rightarrow> None
             | Some pl_type \<Rightarrow> if pl_type = kRtcpTypeSDES then None else Some (GetBE32 (drop 4 d))))"

definition SetRtpHeaderFlags :: "packet_ptr \<Rightarrow> nat \<Rightarrow> bool \<Rightarrow> bool \<Rightarrow> int \<Rightarrow> packet_ptr" where
  "SetRtpHeaderFlags data len padding extension csrc_count =
     (if csrc_count > 0x0F then None
      else
        let flags = 0;
            flags = flags OR push_bit 6 kRtpVersion;
            flags = flags OR push_bit 5 (if padding then 1 else 0);
            flags = flags OR push_bit 4 (if extension then 1 else 0);
            flags = flags OR csrc_count
        in SetUint8 data kRtpFlagsOffset flags)"

definition SetRtpPayloadType :: "packet_ptr \<Rightarrow> nat \<Rightarrow> int \<Rightarrow> packet_ptr" where
  "SetRtpPayloadType data len v = (if v \<ge> 0x7F then None else SetUint8 data kRtpPayloadTypeOffset (v AND 0x7F))"

definition SetRtpSeqNum :: "packet_ptr \<Rightarrow> nat \<Rightarrow> int \<Rightarrow> packet_ptr" where
  "SetRtpSeqNum data len v = SetUint16 data kRtpSeqNumOffset v"

definition SetRtpTimestamp :: "packet_ptr \<Rightarrow> nat \<Rightarrow> u32 \<Rightarrow> packet_ptr" where
  "SetRtpTimestamp data len v = SetUint32 data kRtpTimestampOffset v"

definition SetRtpSsrc :: "packet_ptr \<Rightarrow> nat \<Rightarrow> u32 \<Rightarrow> packet_ptr" where
  "SetRtpSsrc data len v = SetUint32 data kRtpSsrcOffset v"

text \<open>The first setter that fails leaves the packet as it is then.\<close>

definition SetRtpHeader :: "packet_ptr \<Rightarrow> nat \<Rightarrow> rtp_header \<Rightarrow> bool \<times> packet_ptr" where
  "SetRtpHeader data len header =
     (case SetRtpHeaderFlags data len False False 0 of
        None \<Rightarrow> (False, data)
      | Some d1 \<Rightarrow>
          (case SetRtpPayloadType (Some d1) len (rh_payload_type header) of
             None \<Rightarrow> (False, Some d1)
           | Some d2 \<Rightarrow>
               (case SetRtpSeqNum (Some d2) len (rh_seq_num header) of
                  None \<Rightarrow> (False, Some d2)
                | Some d3 \<Rightarrow>
                    (case SetRtpTimestamp (Some d3) len (rh_timestamp header) of
                       None \<Rightarrow> (False, Some d3)
                     | Some d4 \<Rightarrow>
                         (case SetRtpSsrc (Some d4) len (rh_ssrc header) of
                            None \<Rightarrow> (False, Some d4)
                          | Some d5 \<Rightarrow> (True, Some d5))))))"


subsection \<open>Round trip\<close>

lemma SetUint_layout:
  "offset + 2 \<le> length d \<Longrightarrow> SetUint16 (Some d) offset v = Some (take offset d @ be16 (word_of_int v) @ drop (offset + 2) d)"
  "offset + 4 \<le> length d \<Longrightarrow> SetUint32 (Some d) offset w = Some (take offset d @ be32 w @ drop (offset + 4) d)"
  by (simp_all add: SetUint16_def SetUint32_def SetBE16_be SetBE32_be add.commute)

lemma length_ge12E:
  assumes "12 \<le> length d"
  obtains a0 a1 a2 a3 a4 a5 a6 a7 a8 a9 a10 a11 r where "d = a0 # a1 # a2 # a3 # a4 # a5 # a6 # a7 # a8 # a9 # a10 # a11 # r"
  using assms by (auto simp: Suc_le_length_iff eval_nat_numeral)

lemma SetRtpHeader_layout:
  assumes "12 \<le> length d" and "rh_payload_type h < 127"
  shows "SetRtpHeader (Some d) len h =
    (True, Some (0x80 # word_of_int (rh_payload_type h AND 0x7F) # be16 (word_of_int (rh_seq_num h)) @
       be32 (rh_timestamp h) @ be32 (rh_ssrc h) @ drop 12 d))"
proof -
  obtain a0 a1 a2 a3 a4 a5 a6 a7 a8 a9 a10 a11 r where d: "d = a0 # a1 # a2 # a3 # a4 # a5 # a6 # a7 # a8 # a9 # a10 # a11 # r"
    using assms(1) by (rule length_ge12E)
  have b16: "\<exists>x y. be16 v = [x, y]" for v by (simp add: be16_def)
  have b32: "\<exists>x y z w. be32 v = [x, y, z, w]" for v by (simp add: be32_bytes)
  obtain s0 s1 where s: "be16 (word_of_int (rh_seq_num h)) = [s0, s1]" using b16 by blast
  obtain t0 t1 t2 t3 where t: "be32 (rh_timestamp h) = [t0, t1, t2, t3]" using b32 by blast
  show ?thesis
    using assms(2)
    by (simp add: d SetRtpHeader_def SetRtpHeaderFlags_def SetRtpPayloadType_def SetRtpSeqNum_def SetRtpTimestamp_def
        SetRtpSsrc_def SetUint_layout SetUint8_def Set8_def rtp_consts s t numeral_eq_Suc)
qed


lemma and_0x7F: "0 \<le> (v :: int) \<Longrightarrow> v < 128 \<Longrightarrow> v AND 0x7F = v"
  using take_bit_int_eq_self [of v 7] by (simp add: take_bit_eq_mask mask_numeral)

text \<open>
  C39: an RTP header written into a packet of at least twelve bytes is read back field by field, the
  header then has version 2 and its length is twelve, and nothing behind it has changed.
\<close>

theorem rtp_header_roundtrip:
  assumes "12 \<le> length d" and "0 \<le> rh_payload_type h" and "rh_payload_type h < 127"
    and "0 \<le> rh_seq_num h" and "rh_seq_num h < 65536"
  shows "\<exists>d'. SetRtpHeader (Some d) (length d) h = (True, Some d') \<and> length d' = length d \<and> drop 12 d' = drop 12 d \<and>
     GetRtpHeader (Some d') (length d') = Some h \<and> GetRtpHeaderLen (Some d') (length d') = Some 12 \<and>
     GetRtpVersion d' (length d') = Some 2"
proof -
  let ?d = "0x80 # word_of_int (rh_payload_type h AND 0x7F) # be16 (word_of_int (rh_seq_num h)) @
       be32 (rh_timestamp h) @ be32 (rh_ssrc h) @ drop 12 d"
  have pt: "uint (word_of_int (rh_payload_type h AND 0x7F) :: byte) = rh_payload_type h"
    "uint (word_of_int (rh_payload_type h) :: byte) = rh_payload_type h"
    using assms(2,3) by (simp_all add: and_0x7F uint_word_of_int)
  have sn: "uint (word_of_int (rh_seq_num h) :: u16) = rh_seq_num h"
    using assms(4,5) by (simp add: uint_word_of_int)
  have l: "length ?d = length d" "\<not> length d < 12" using assms(1) by simp_all
  have f: "drop 2 ?d = be16 (word_of_int (rh_seq_num h)) @ be32 (rh_timestamp h) @ be32 (rh_ssrc h) @ drop 12 d"
    "drop 4 ?d = be32 (rh_timestamp h) @ be32 (rh_ssrc h) @ drop 12 d"
    "drop 8 ?d = be32 (rh_ssrc h) @ drop 12 d" "drop 12 ?d = drop 12 d" "?d ! 1 = word_of_int (rh_payload_type h AND 0x7F)" "?d ! 0 = 0x80"
    by (simp_all add: drop_Cons')
  have "GetRtpHeader (Some ?d) (length ?d) = Some h"
    using assms(2,3)
    by (simp only: GetRtpHeader_def GetRtpPayloadType_def GetRtpSeqNum_def GetRtpTimestamp_def GetRtpSsrc_def rtp_consts
        GetUint8_def GetUint16_def GetUint32_def f l(1)) (simp add: l(2) pt sn and_0x7F)
  moreover have "GetRtpHeaderLen (Some ?d) (length ?d) = Some 12"
    by (simp only: GetRtpHeaderLen_def f l(1) option.case rtp_consts) (simp add: l(2) Let_def)
  moreover have "GetRtpVersion ?d (length ?d) = Some 2"
    by (simp add: GetRtpVersion_def)
  ultimately show ?thesis
    using SetRtpHeader_layout [OF assms(1,3), of "length d"] f(4) l(1) by blast
qed

theorem rtp_header_roundtrip_witness:
  "\<exists>d'. SetRtpHeader (Some (replicate 14 0xFF)) 14 \<lparr>rh_payload_type = 96, rh_seq_num = 65535, rh_timestamp = 7, rh_ssrc = 0xDEADBEEF\<rparr> = (True, Some d') \<and>
     GetRtpHeader (Some d') (length d') = Some \<lparr>rh_payload_type = 96, rh_seq_num = 65535, rh_timestamp = 7, rh_ssrc = 0xDEADBEEF\<rparr> \<and>
     drop 12 d' = [0xFF, 0xFF]"
  using rtp_header_roundtrip [of "replicate 14 0xFF" "\<lparr>rh_payload_type = 96, rh_seq_num = 65535, rh_timestamp = 7, rh_ssrc = 0xDEADBEEF\<rparr>"]
  by (auto simp: numeral_2_eq_2)

text \<open>
  The length \<open>GetRtpHeaderLen\<close> reports for a packet lies inside the packet, so the payload that
  starts there is within it, and it is twelve bytes, four for every contributing source and the
  extension with its own four-byte header when the extension bit is set.
\<close>

theorem rtp_header_len_bounds:
  assumes "GetRtpHeaderLen (Some d) (length d) = Some n"
  shows "n \<le> length d \<and>
     n = 12 + 4 * unat (d ! 0 AND 0xF) +
       (if d ! 0 AND 0x10 = 0 then 0 else 4 + 4 * unat (GetBE16 (drop (14 + 4 * unat (d ! 0 AND 0xF)) d)))"
  using assms by (auto simp: GetRtpHeaderLen_def Let_def rtp_consts split: if_splits) (simp_all add: algebra_simps)

theorem rtp_header_len_bounds_witness:
  "GetRtpHeaderLen (Some [0x91, 96, 0, 1, 0, 0, 0, 0, 0, 0, 0, 5, 0, 0, 0, 6, 0xBE, 0xDE, 0, 1, 9, 9, 9, 9]) 24 = Some 24 \<and>
   24 \<le> length [0x91, 96, 0, 1, 0, 0, 0, 0, 0, 0, 0, 5, 0, 0, 0, 6, 0xBE, 0xDE, 0, 1, 9, 9, 9, 9 :: byte]"
proof -
  let ?d = "[0x91, 96, 0, 1, 0, 0, 0, 0, 0, 0, 0, 5, 0, 0, 0, 6, 0xBE, 0xDE, 0, 1, 9, 9, 9, 9] :: byte list"
  have g: "GetRtpHeaderLen (Some ?d) (length ?d) = Some 24" by code_simp
  have l: "length ?d = 24" by simp
  show ?thesis using rtp_header_len_bounds [OF g] g unfolding l by blast
qed

end
