(* ===== verification/SsrcMuxFilter.thy ===== *)
theory SsrcMuxFilter
  imports RtpUtils
begin

text \<open>
  \<open>talk/media/base/streamparams.h\<close> and \<open>.cc\<close>: the description of a media stream by its SSRCs, and
  lookup and removal in a vector of streams; and \<open>SsrcMuxFilter\<close> of \<open>talk/session/media\<close>, which lets
  a packet through when its SSRC belongs to a known stream.
\<close>

record ssrc_group =
  sg_semantics :: string
  sg_ssrcs :: "u32 list"

record stream_params =
  sp_groupid :: string
  sp_id :: string
  sp_ssrcs :: "u32 list"
  sp_ssrc_groups :: "ssrc_group list"
  sp_type :: string
  sp_display :: string
  sp_cname :: string
  sp_sync_label :: string

definition kFidSsrcGroupSemantics :: string where "kFidSsrcGroupSemantics = ''FID''"

definition CreateLegacy :: "u32 \<Rightarrow> stream_params" where
  "CreateLegacy ssrc =
     \<lparr>sp_groupid = [], sp_id = [], sp_ssrcs = [ssrc], sp_ssrc_groups = [], sp_type = [], sp_display = [],
      sp_cname = [], sp_sync_label = []\<rparr>"

definition has_semantics :: "ssrc_group \<Rightarrow> string \<Rightarrow> bool" where
  "has_semantics g semantics_in \<longleftrightarrow> sg_semantics g = semantics_in \<and> length (sg_ssrcs g) > 0"

definition first_ssrc :: "stream_params \<Rightarrow> u32" where
  "first_ssrc s = (case sp_ssrcs s of [] \<Rightarrow> 0 | x # _ \<Rightarrow> x)"

definition has_ssrcs :: "stream_params \<Rightarrow> bool" where
  "has_ssrcs s \<longleftrightarrow> sp_ssrcs s \<noteq> []"

definition has_ssrc :: "stream_params \<Rightarrow> u32 \<Rightarrow> bool" where
  "has_ssrc s ssrc \<longleftrightarrow> ssrc \<in> set (sp_ssrcs s)"

definition add_ssrc :: "stream_params \<Rightarrow> u32 \<Rightarrow> stream_params" where
  "add_ssrc s ssrc = s\<lparr>sp_ssrcs := sp_ssrcs s @ [ssrc]\<rparr>"

definition get_ssrc_group :: "stream_params \<Rightarrow> string \<Rightarrow> ssrc_group option" where
  "get_ssrc_group s semantics = find (\<lambda>g. has_semantics g semantics) (sp_ssrc_groups s)"

definition has_ssrc_group :: "stream_params \<Rightarrow> string \<Rightarrow> bool" where
  "has_ssrc_group s semantics \<longleftrightarrow> get_ssrc_group s semantics \<noteq> None"

definition AddSecondarySsrc :: "stream_params \<Rightarrow> string \<Rightarrow> u32 \<Rightarrow> u32 \<Rightarrow> bool \<times> stream_params" where
  "AddSecondarySsrc s semantics primary_ssrc secondary_ssrc =
     (if \<not> has_ssrc s primary_ssrc then (False, s)
      else
        (True, s\<lparr>sp_ssrcs := sp_ssrcs s @ [secondary_ssrc],
                 sp_ssrc_groups := sp_ssrc_groups s @
                   [\<lparr>sg_semantics = semantics, sg_ssrcs = [primary_ssrc, secondary_ssrc]\<rparr>]\<rparr>))"

definition secondary_of :: "string \<Rightarrow> u32 \<Rightarrow> ssrc_group \<Rightarrow> bool" where
  "secondary_of semantics primary_ssrc g \<longleftrightarrow>
     has_semantics g semantics \<and> length (sg_ssrcs g) \<ge> 2 \<and> sg_ssrcs g ! 0 = primary_ssrc"

definition GetSecondarySsrc :: "stream_params \<Rightarrow> string \<Rightarrow> u32 \<Rightarrow> u32 option" where
  "GetSecondarySsrc s semantics primary_ssrc =
     (case find (secondary_of semantics primary_ssrc) (sp_ssrc_groups s) of
        None \<Rightarrow> None
      | Some g \<Rightarrow> Some (sg_ssrcs g ! 1))"

definition AddFidSsrc :: "stream_params \<Rightarrow> u32 \<Rightarrow> u32 \<Rightarrow> bool \<times> stream_params" where
  "AddFidSsrc s primary_ssrc fid_ssrc = AddSecondarySsrc s kFidSsrcGroupSemantics primary_ssrc fid_ssrc"

definition GetFidSsrc :: "stream_params \<Rightarrow> u32 \<Rightarrow> u32 option" where
  "GetFidSsrc s primary_ssrc = GetSecondarySsrc s kFidSsrcGroupSemantics primary_ssrc"

record stream_selector =
  ss_ssrc :: u32
  ss_groupid :: string
  ss_streamid :: string

definition StreamSelector_ssrc :: "u32 \<Rightarrow> stream_selector" where
  "StreamSelector_ssrc ssrc = \<lparr>ss_ssrc = ssrc, ss_groupid = [], ss_streamid = []\<rparr>"

definition StreamSelector_ids :: "string \<Rightarrow> string \<Rightarrow> stream_selector" where
  "StreamSelector_ids groupid streamid = \<lparr>ss_ssrc = 0, ss_groupid = groupid, ss_streamid = streamid\<rparr>"

definition selector_Matches :: "stream_selector \<Rightarrow> stream_params \<Rightarrow> bool" where
  "selector_Matches sel stream =
     (if ss_ssrc sel = 0 then sp_groupid stream = ss_groupid sel \<and> sp_id stream = ss_streamid sel
      else has_ssrc stream (ss_ssrc sel))"

definition GetStream :: "stream_params list \<Rightarrow> stream_selector \<Rightarrow> stream_params option" where
  "GetStream streams selector = find (selector_Matches selector) streams"

definition GetStreamBySsrc :: "stream_params list \<Rightarrow> u32 \<Rightarrow> stream_params option" where
  "GetStreamBySsrc streams ssrc = GetStream streams (StreamSelector_ssrc ssrc)"

definition GetStreamByIds :: "stream_params list \<Rightarrow> string \<Rightarrow> string \<Rightarrow> stream_params option" where
  "GetStreamByIds streams groupid sid = GetStream streams (StreamSelector_ids groupid sid)"

text \<open>The loop with \<open>erase\<close>: the flag and the vector that is left.\<close>

fun RemoveStream :: "stream_params list \<Rightarrow> stream_selector \<Rightarrow> bool \<times> stream_params list" where
  "RemoveStream [] selector = (False, [])"
| "RemoveStream (stream # streams) selector =
     (case RemoveStream streams selector of (ret, rest) \<Rightarrow>
        if selector_Matches selector stream then (True, rest) else (ret, stream # rest))"

definition RemoveStreamBySsrc :: "stream_params list \<Rightarrow> u32 \<Rightarrow> bool \<times> stream_params list" where
  "RemoveStreamBySsrc streams ssrc = RemoveStream streams (StreamSelector_ssrc ssrc)"

definition RemoveStreamByIds :: "stream_params list \<Rightarrow> string \<Rightarrow> string \<Rightarrow> bool \<times> stream_params list" where
  "RemoveStreamByIds streams groupid sid = RemoveStream streams (StreamSelector_ids groupid sid)"


subsection \<open>The filter\<close>

type_synonym ssrc_filter = "stream_params list"

definition kSsrc01 :: u32 where "kSsrc01 = 0x01"

definition ssrc_IsActive :: "ssrc_filter \<Rightarrow> bool" where
  "ssrc_IsActive streams \<longleftrightarrow> streams \<noteq> []"

definition ssrc_FindStream :: "ssrc_filter \<Rightarrow> u32 \<Rightarrow> bool" where
  "ssrc_FindStream streams ssrc = (if ssrc = 0 then False else GetStreamBySsrc streams ssrc \<noteq> None)"

definition ssrc_AddStream :: "ssrc_filter \<Rightarrow> stream_params \<Rightarrow> bool \<times> ssrc_filter" where
  "ssrc_AddStream streams stream =
     (if GetStreamBySsrc streams (first_ssrc stream) \<noteq> None then (False, streams) else (True, streams @ [stream]))"

definition ssrc_RemoveStream :: "ssrc_filter \<Rightarrow> u32 \<Rightarrow> bool \<times> ssrc_filter" where
  "ssrc_RemoveStream streams ssrc = RemoveStreamBySsrc streams ssrc"

definition DemuxPacket :: "ssrc_filter \<Rightarrow> packet_ptr \<Rightarrow> nat \<Rightarrow> bool \<Rightarrow> bool" where
  "DemuxPacket streams data len rtcp =
     (if \<not> rtcp then
        ssrc_FindStream streams (case GetRtpSsrc data len of None \<Rightarrow> 0 | Some ssrc \<Rightarrow> ssrc)
      else
        (case GetRtcpType data len of
           None \<Rightarrow> False
         | Some pl_type \<Rightarrow>
             if pl_type = kRtcpTypeSDES then True
             else
               (case GetRtcpSsrc data len of
                  None \<Rightarrow> False
                | Some ssrc \<Rightarrow> if ssrc = kSsrc01 then True else ssrc_FindStream streams ssrc)))"


subsection \<open>Laws\<close>

lemma RemoveStream_filter:
  "RemoveStream streams sel = (list_ex (selector_Matches sel) streams, filter (\<lambda>s. \<not> selector_Matches sel s) streams)"
  by (induction streams) auto

lemma FindStream_iff: "ssrc_FindStream streams x \<longleftrightarrow> x \<noteq> 0 \<and> (\<exists>s \<in> set streams. x \<in> set (sp_ssrcs s))"
proof -
  have "GetStreamBySsrc streams x \<noteq> None \<longleftrightarrow> (\<exists>s \<in> set streams. x \<in> set (sp_ssrcs s))" if "x \<noteq> 0"
    using that find_None_iff [of "selector_Matches (StreamSelector_ssrc x)" streams]
    by (auto simp: GetStreamBySsrc_def GetStream_def selector_Matches_def StreamSelector_ssrc_def has_ssrc_def)
  then show ?thesis by (auto simp: ssrc_FindStream_def)
qed

text \<open>
  C40: the filter is a set of SSRCs kept by streams: a lookup after an accepted \<open>AddStream\<close> finds the
  old SSRCs and those of the new stream, a refused one means the first SSRC was there, and after
  \<open>RemoveStream\<close> of a non-zero SSRC that SSRC is found no more while the streams without it stay.
\<close>

theorem ssrc_filter_laws:
  assumes "r \<noteq> 0" and "first_ssrc s \<noteq> 0"
  shows "(case ssrc_AddStream streams s of (ok, streams') \<Rightarrow>
       ok = (\<not> ssrc_FindStream streams (first_ssrc s)) \<and>
       ssrc_FindStream streams' x = (ssrc_FindStream streams x \<or> ok \<and> x \<noteq> 0 \<and> has_ssrc s x)) \<and>
     (case ssrc_RemoveStream streams r of (ok, streams') \<Rightarrow>
       ok = ssrc_FindStream streams r \<and> \<not> ssrc_FindStream streams' r \<and>
       streams' = filter (\<lambda>t. \<not> has_ssrc t r) streams)"
proof -
  have m: "selector_Matches (StreamSelector_ssrc r) = (\<lambda>t. has_ssrc t r)"
    using assms(1) by (auto simp: selector_Matches_def StreamSelector_ssrc_def)
  have g: "GetStreamBySsrc streams (first_ssrc s) \<noteq> None \<longleftrightarrow> ssrc_FindStream streams (first_ssrc s)"
    using assms(2) by (simp add: ssrc_FindStream_def)
  have "case ssrc_AddStream streams s of (ok, streams') \<Rightarrow>
       ok = (\<not> ssrc_FindStream streams (first_ssrc s)) \<and>
       ssrc_FindStream streams' x = (ssrc_FindStream streams x \<or> ok \<and> x \<noteq> 0 \<and> has_ssrc s x)"
    unfolding ssrc_AddStream_def g by (auto simp: FindStream_iff has_ssrc_def)
  moreover have "case ssrc_RemoveStream streams r of (ok, streams') \<Rightarrow>
       ok = ssrc_FindStream streams r \<and> \<not> ssrc_FindStream streams' r \<and>
       streams' = filter (\<lambda>t. \<not> has_ssrc t r) streams"
    using assms(1)
    by (auto simp: ssrc_RemoveStream_def RemoveStreamBySsrc_def RemoveStream_filter m FindStream_iff has_ssrc_def list_ex_iff)
  ultimately show ?thesis by blast
qed

theorem ssrc_filter_laws_witness:
  "ssrc_AddStream [CreateLegacy 7] (CreateLegacy 9) = (True, [CreateLegacy 7, CreateLegacy 9]) \<and>
   ssrc_FindStream [CreateLegacy 7, CreateLegacy 9] 9 \<and>
   ssrc_RemoveStream [CreateLegacy 7] 7 = (True, [])"
proof -
  have a: "ssrc_AddStream [CreateLegacy 7] (CreateLegacy 9) = (True, [CreateLegacy 7, CreateLegacy 9])"
    "ssrc_RemoveStream [CreateLegacy 7] 7 = (True, [])" by code_simp+
  have "first_ssrc (CreateLegacy 9) \<noteq> 0" "has_ssrc (CreateLegacy 9) 9" by (simp_all add: first_ssrc_def CreateLegacy_def has_ssrc_def)
  with ssrc_filter_laws [of 7 "CreateLegacy 9" "[CreateLegacy 7]" 9] show ?thesis by (simp add: a)
qed

text \<open>A secondary SSRC that was added is found again, unless the primary already had one.\<close>

lemma AddFidSsrc_GetFidSsrc:
  assumes "AddFidSsrc s p q = (True, s')"
  shows "GetFidSsrc s' p = (case GetFidSsrc s p of None \<Rightarrow> Some q | Some q0 \<Rightarrow> Some q0) \<and> has_ssrc s' q"
proof -
  have f: "find P (xs @ ys) = (case find P xs of None \<Rightarrow> find P ys | Some x \<Rightarrow> Some x)" for P and xs ys :: "ssrc_group list"
    by (induction xs) auto
  show ?thesis
    using assms
    by (auto simp: AddFidSsrc_def AddSecondarySsrc_def GetFidSsrc_def GetSecondarySsrc_def f secondary_of_def
        has_semantics_def has_ssrc_def split: if_splits option.splits)
qed

end
