(* ===== verification/OfferAnswer.thy ===== *)
theory OfferAnswer
  imports Jingle_Prelude
begin

text \<open>
  What the negotiating filters of \<open>talk/session/media\<close> share: the side a description comes from
  (\<open>ContentSource\<close> of \<open>sessiondescription.h\<close>), runs of the operations of a filter, and the contract
  under which the two ends of a call, each seeing the other's descriptions with the source flipped,
  stay peers of one another.
\<close>

datatype content_source = CS_LOCAL | CS_REMOTE

fun flip_source :: "content_source \<Rightarrow> content_source" where
  "flip_source CS_LOCAL = CS_REMOTE"
| "flip_source CS_REMOTE = CS_LOCAL"

text \<open>A run returns the result of every operation and the final filter.\<close>

fun run_filter :: "('op \<Rightarrow> 's \<Rightarrow> bool \<times> 's) \<Rightarrow> 'op list \<Rightarrow> 's \<Rightarrow> bool list \<times> 's" where
  "run_filter step [] s = ([], s)"
| "run_filter step (x # xs) s =
     (case step x s of (ok, s1) \<Rightarrow> (case run_filter step xs s1 of (oks, s2) \<Rightarrow> (ok # oks, s2)))"

lemma run_filter_Cons:
  "run_filter step (x # xs) s = (oks, s') \<longleftrightarrow>
     (\<exists>ok s1 oks1. step x s = (ok, s1) \<and> run_filter step xs s1 = (oks1, s') \<and> oks = ok # oks1)"
  by (auto split: prod.splits)

lemma run_filter_append:
  "run_filter step (xs @ ys) s =
     (case run_filter step xs s of (oks1, s1) \<Rightarrow> (case run_filter step ys s1 of (oks2, s2) \<Rightarrow> (oks1 @ oks2, s2)))"
  by (induction xs arbitrary: s) (auto split: prod.splits)

text \<open>An invariant of the operations holds after every run.\<close>

locale filter_inv =
  fixes step :: "'op \<Rightarrow> 's \<Rightarrow> bool \<times> 's" and inv :: "'s \<Rightarrow> bool"
  assumes step_inv: "inv s \<Longrightarrow> step x s = (ok, s') \<Longrightarrow> inv s'"
begin

lemma run_inv: "inv s \<Longrightarrow> run_filter step xs s = (oks, s') \<Longrightarrow> inv s'"
proof (induction xs arbitrary: s oks)
  case (Cons x xs)
  then obtain ok s1 oks1 where "step x s = (ok, s1)" "run_filter step xs s1 = (oks1, s')"
    unfolding run_filter_Cons by blast
  with Cons.IH step_inv [OF Cons.prems(1)] show ?case by blast
qed simp

end

text \<open>
  Peers: an operation that both ends accept keeps them peers.
\<close>

locale negotiating_peers =
  fixes step :: "'op \<Rightarrow> 's \<Rightarrow> bool \<times> 's" and flip :: "'op \<Rightarrow> 'op" and peer :: "'s \<Rightarrow> 's \<Rightarrow> bool"
  assumes step_peer: "peer a b \<Longrightarrow> step x a = (True, a') \<Longrightarrow> step (flip x) b = (True, b') \<Longrightarrow> peer a' b'"
begin

lemma run_peer:
  "peer a b \<Longrightarrow> run_filter step xs a = (oks, a') \<Longrightarrow> run_filter step (map flip xs) b = (oks', b') \<Longrightarrow>
   False \<notin> set oks \<Longrightarrow> False \<notin> set oks' \<Longrightarrow> peer a' b'"
proof (induction xs arbitrary: a b oks oks')
  case (Cons x xs)
  obtain a1 oks1 where a: "step x a = (True, a1)" "run_filter step xs a1 = (oks1, a')" "False \<notin> set oks1"
    using Cons.prems(2,4) unfolding run_filter_Cons by auto
  obtain b1 oks2 where b: "step (flip x) b = (True, b1)" "run_filter step (map flip xs) b1 = (oks2, b')" "False \<notin> set oks2"
    using Cons.prems(3,5) unfolding list.map run_filter_Cons by auto
  show ?case using Cons.IH [OF step_peer [OF Cons.prems(1) a(1) b(1)] a(2) b(2) a(3) b(3)] .
qed simp

end

text \<open>Mirrored filters: both ends also agree on which operations they accept.\<close>

locale mirrored_peers =
  fixes step :: "'op \<Rightarrow> 's \<Rightarrow> bool \<times> 's" and flip :: "'op \<Rightarrow> 'op" and mirror :: "'s \<Rightarrow> 's"
  assumes step_mirror: "step (flip x) (mirror s) = (fst (step x s), mirror (snd (step x s)))"
begin

lemma run_mirror: "run_filter step (map flip xs) (mirror s) = (fst (run_filter step xs s), mirror (snd (run_filter step xs s)))"
  by (induction xs arbitrary: s) (auto simp: step_mirror split: prod.splits)

end

sublocale mirrored_peers \<subseteq> negotiating_peers step flip "\<lambda>a b. b = mirror a"
  by unfold_locales (auto simp: step_mirror)

end
