(* ===== verification/RtcpMuxFilter.thy ===== *)
theory RtcpMuxFilter
  imports OfferAnswer
begin

unbundle bit_operations_syntax

text \<open>
  \<open>RtcpMuxFilter\<close> of \<open>talk/session/media/rtcpmuxfilter.cc\<close>: whether RTP and RTCP share a port, as
  negotiated by offer and answer (RFC 5761), and the classification of packets on a shared port.
  The states are compared by \<open><\<close> in the order of the enumeration.
\<close>

datatype rmux_state =
  RM_INIT | RM_RECEIVEDOFFER | RM_SENTOFFER | RM_SENTPRANSWER | RM_RECEIVEDPRANSWER | RM_ACTIVE

fun rmux_rank :: "rmux_state \<Rightarrow> nat" where
  "rmux_rank RM_INIT = 0"
| "rmux_rank RM_RECEIVEDOFFER = 1"
| "rmux_rank RM_SENTOFFER = 2"
| "rmux_rank RM_SENTPRANSWER = 3"
| "rmux_rank RM_RECEIVEDPRANSWER = 4"
| "rmux_rank RM_ACTIVE = 5"

instantiation rmux_state :: linorder
begin

definition less_eq_rmux_state :: "rmux_state \<Rightarrow> rmux_state \<Rightarrow> bool" where
  "less_eq_rmux_state a b \<longleftrightarrow> rmux_rank a \<le> rmux_rank b"

definition less_rmux_state :: "rmux_state \<Rightarrow> rmux_state \<Rightarrow> bool" where
  "less_rmux_state a b \<longleftrightarrow> rmux_rank a < rmux_rank b"

instance
proof
  fix a b c :: rmux_state
  show "a \<le> b \<Longrightarrow> b \<le> a \<Longrightarrow> a = b" by (cases a; cases b) (simp_all add: less_eq_rmux_state_def)
qed (auto simp: less_eq_rmux_state_def less_rmux_state_def)

end

record rmux_filter =
  rm_state :: rmux_state
  rm_offer_enable :: bool

definition RtcpMuxFilter_new :: rmux_filter where
  "RtcpMuxFilter_new = \<lparr>rm_state = RM_INIT, rm_offer_enable = False\<rparr>"

definition rmux_IsActive :: "rmux_filter \<Rightarrow> bool" where
  "rmux_IsActive f \<longleftrightarrow>
     rm_state f = RM_SENTPRANSWER \<or> rm_state f = RM_RECEIVEDPRANSWER \<or> rm_state f = RM_ACTIVE"

definition rmux_ExpectOffer :: "rmux_filter \<Rightarrow> bool \<Rightarrow> content_source \<Rightarrow> bool" where
  "rmux_ExpectOffer f offer_enable source \<longleftrightarrow>
     rm_state f = RM_INIT \<or>
     rm_state f = RM_ACTIVE \<and> offer_enable = rm_offer_enable f \<or>
     rm_state f = RM_SENTOFFER \<and> source = CS_LOCAL \<or>
     rm_state f = RM_RECEIVEDOFFER \<and> source = CS_REMOTE"

definition rmux_ExpectAnswer :: "rmux_filter \<Rightarrow> content_source \<Rightarrow> bool" where
  "rmux_ExpectAnswer f source \<longleftrightarrow>
     rm_state f = RM_SENTOFFER \<and> source = CS_REMOTE \<or>
     rm_state f = RM_RECEIVEDOFFER \<and> source = CS_LOCAL \<or>
     rm_state f = RM_SENTPRANSWER \<and> source = CS_LOCAL \<or>
     rm_state f = RM_RECEIVEDPRANSWER \<and> source = CS_REMOTE"

definition rmux_SetOffer :: "bool \<Rightarrow> content_source \<Rightarrow> rmux_filter \<Rightarrow> bool \<times> rmux_filter" where
  "rmux_SetOffer offer_enable src f =
     (if \<not> rmux_ExpectOffer f offer_enable src then (False, f)
      else
        (True, f\<lparr>rm_offer_enable := offer_enable,
                 rm_state := (if src = CS_LOCAL then RM_SENTOFFER else RM_RECEIVEDOFFER)\<rparr>))"

definition rmux_SetProvisionalAnswer :: "bool \<Rightarrow> content_source \<Rightarrow> rmux_filter \<Rightarrow> bool \<times> rmux_filter" where
  "rmux_SetProvisionalAnswer answer_enable src f =
     (if \<not> rmux_ExpectAnswer f src then (False, f)
      else if rm_offer_enable f then
        if answer_enable then
          (True, f\<lparr>rm_state := (if src = CS_REMOTE then RM_RECEIVEDPRANSWER else RM_SENTPRANSWER)\<rparr>)
        else
          (True, f\<lparr>rm_state := (if src = CS_REMOTE then RM_SENTOFFER else RM_RECEIVEDOFFER)\<rparr>)
      else if answer_enable then (False, f)
      else (True, f))"

definition rmux_SetAnswer :: "bool \<Rightarrow> content_source \<Rightarrow> rmux_filter \<Rightarrow> bool \<times> rmux_filter" where
  "rmux_SetAnswer answer_enable src f =
     (if \<not> rmux_ExpectAnswer f src then (False, f)
      else if rm_offer_enable f \<and> answer_enable then (True, f\<lparr>rm_state := RM_ACTIVE\<rparr>)
      else if answer_enable then (False, f)
      else (True, f\<lparr>rm_state := RM_INIT\<rparr>))"

definition DemuxRtcp :: "rmux_filter \<Rightarrow> byte list \<Rightarrow> nat \<Rightarrow> bool" where
  "DemuxRtcp f data len =
     (if \<not> rm_offer_enable f \<or> rm_state f < RM_SENTOFFER then False
      else
        let type = (if len \<ge> 2 then uint (data ! 1 AND 0x7F) else 0)
        in type \<ge> 64 \<and> type < 96)"


subsection \<open>Runs\<close>

datatype rmux_op = MuxOffer bool content_source | MuxPrAnswer bool content_source | MuxAnswer bool content_source

fun rmux_step :: "rmux_op \<Rightarrow> rmux_filter \<Rightarrow> bool \<times> rmux_filter" where
  "rmux_step (MuxOffer e src) f = rmux_SetOffer e src f"
| "rmux_step (MuxPrAnswer e src) f = rmux_SetProvisionalAnswer e src f"
| "rmux_step (MuxAnswer e src) f = rmux_SetAnswer e src f"

fun rmux_flip :: "rmux_op \<Rightarrow> rmux_op" where
  "rmux_flip (MuxOffer e src) = MuxOffer e (flip_source src)"
| "rmux_flip (MuxPrAnswer e src) = MuxPrAnswer e (flip_source src)"
| "rmux_flip (MuxAnswer e src) = MuxAnswer e (flip_source src)"

fun mirror_state :: "rmux_state \<Rightarrow> rmux_state" where
  "mirror_state RM_RECEIVEDOFFER = RM_SENTOFFER"
| "mirror_state RM_SENTOFFER = RM_RECEIVEDOFFER"
| "mirror_state RM_SENTPRANSWER = RM_RECEIVEDPRANSWER"
| "mirror_state RM_RECEIVEDPRANSWER = RM_SENTPRANSWER"
| "mirror_state s = s"

definition rmux_mirror :: "rmux_filter \<Rightarrow> rmux_filter" where
  "rmux_mirror f = f\<lparr>rm_state := mirror_state (rm_state f)\<rparr>"

lemmas rmux_defs =
  rmux_SetOffer_def rmux_SetProvisionalAnswer_def rmux_SetAnswer_def rmux_ExpectOffer_def rmux_ExpectAnswer_def

definition rmux_inv :: "rmux_filter \<Rightarrow> bool" where
  "rmux_inv f \<longleftrightarrow> (rmux_IsActive f \<longrightarrow> rm_offer_enable f)"

interpretation rmux: mirrored_peers rmux_step rmux_flip rmux_mirror
proof
  fix x f
  show "rmux_step (rmux_flip x) (rmux_mirror f) = (fst (rmux_step x f), rmux_mirror (snd (rmux_step x f)))"
  proof (cases f)
    case (fields st e)
    show ?thesis
      by (cases x; rename_tac b src; case_tac src; cases st; cases e)
        (simp_all add: fields rmux_mirror_def rmux_defs)
  qed
qed

interpretation rmux_i: filter_inv rmux_step rmux_inv
proof
  fix f x ok f'
  assume "rmux_inv f" "rmux_step x f = (ok, f')"
  then show "rmux_inv f'" by (cases x) (auto simp: rmux_inv_def rmux_IsActive_def rmux_defs split: if_splits)
qed

fun positive_answer :: "rmux_op \<Rightarrow> bool" where
  "positive_answer (MuxOffer e src) = False"
| "positive_answer (MuxPrAnswer e src) = e"
| "positive_answer (MuxAnswer e src) = e"

lemma rmux_step_active:
  assumes "rmux_inv f" and "rmux_step x f = (ok, f')"
  shows "rmux_IsActive f' = (if ok then positive_answer x else rmux_IsActive f)"
  using assms by (cases x) (auto simp: rmux_inv_def rmux_IsActive_def rmux_defs split: if_splits)

text \<open>The last operation the filter accepted.\<close>

definition last_accepted :: "'op list \<Rightarrow> bool list \<Rightarrow> 'op option" where
  "last_accepted ops oks = (case filter snd (zip ops oks) of [] \<Rightarrow> None | xs \<Rightarrow> Some (fst (List.last xs)))"

lemma last_accepted_Cons:
  "last_accepted (x # ops) (ok # oks) =
     (case last_accepted ops oks of None \<Rightarrow> if ok then Some x else None | Some y \<Rightarrow> Some y)"
  by (auto simp: last_accepted_def split: list.splits)

lemma rmux_run_active:
  "rmux_inv f \<Longrightarrow> run_filter rmux_step ops f = (oks, f') \<Longrightarrow>
   rmux_IsActive f' = (case last_accepted ops oks of None \<Rightarrow> rmux_IsActive f | Some x \<Rightarrow> positive_answer x)"
proof (induction ops arbitrary: f oks)
  case Nil
  then show ?case by (simp add: last_accepted_def)
next
  case (Cons x ops)
  obtain ok f1 oks1 where r: "rmux_step x f = (ok, f1)" "run_filter rmux_step ops f1 = (oks1, f')" "oks = ok # oks1"
    using Cons.prems(2) unfolding run_filter_Cons by blast
  show ?case
    using Cons.IH [OF rmux_i.step_inv [OF Cons.prems(1) r(1)] r(2)] rmux_step_active [OF Cons.prems(1) r(1)]
    by (auto simp: r(3) last_accepted_Cons split: option.splits)
qed

text \<open>
  C36: over any sequence of offers, provisional and final answers from either side, two ends that see
  the same descriptions accept the same ones and always agree on whether multiplexing is active; it is
  active exactly when the last accepted description is an answer that wants it, and only if the offer
  wanted it too.
\<close>

theorem rtcp_mux_negotiation:
  "case run_filter rmux_step ops RtcpMuxFilter_new of (oks, f) \<Rightarrow>
     (case run_filter rmux_step (map rmux_flip ops) RtcpMuxFilter_new of (oks', g) \<Rightarrow>
        oks' = oks \<and> rmux_IsActive g = rmux_IsActive f \<and> rm_offer_enable g = rm_offer_enable f \<and>
        rmux_IsActive f = (case last_accepted ops oks of None \<Rightarrow> False | Some x \<Rightarrow> positive_answer x) \<and>
        (if rmux_IsActive f then rm_offer_enable f else True))"
proof -
  have new: "rmux_mirror RtcpMuxFilter_new = RtcpMuxFilter_new" "rmux_inv RtcpMuxFilter_new" "\<not> rmux_IsActive RtcpMuxFilter_new"
    by (simp_all add: rmux_mirror_def RtcpMuxFilter_new_def rmux_inv_def rmux_IsActive_def)
  obtain oks f where r: "run_filter rmux_step ops RtcpMuxFilter_new = (oks, f)" by (metis surj_pair)
  have m: "run_filter rmux_step (map rmux_flip ops) RtcpMuxFilter_new = (oks, rmux_mirror f)"
    using rmux.run_mirror [of ops RtcpMuxFilter_new] by (simp add: new r)
  have a: "rmux_IsActive (rmux_mirror f) = rmux_IsActive f"
    by (cases "rm_state f") (simp_all add: rmux_IsActive_def rmux_mirror_def)
  show ?thesis
    using rmux_run_active [OF new(2) r] rmux_i.run_inv [OF new(2) r] new(3)
    by (simp add: r m a rmux_inv_def split: option.splits) (simp_all add: rmux_mirror_def)
qed

text \<open>
  On a shared port every packet is sorted by its second byte alone: the RTCP types 192 to 223 are
  RTCP, every RTP payload type below 64 or from 96 on is RTP with the marker bit set or clear, and a
  packet of fewer than two bytes is RTP; before multiplexing has been offered, or when an offer of the
  other side is still unanswered, nothing is taken for RTCP.
\<close>

theorem rtcp_demux_classifies:
  "DemuxRtcp f data len \<longleftrightarrow>
     rm_offer_enable f \<and> rm_state f \<notin> {RM_INIT, RM_RECEIVEDOFFER} \<and> 2 \<le> len \<and>
     (unat (data ! 1) \<in> {64..<96} \<or> unat (data ! 1) \<in> {192..<224})"
proof -
  have "64 \<le> uint (b AND 0x7F) \<and> uint (b AND 0x7F) < 96 \<longleftrightarrow>
      64 \<le> unat b \<and> unat b < 96 \<or> 192 \<le> unat b \<and> unat b < 224" for b :: byte
  proof -
    have "unat b < 256" using unat_bound [of b] by simp
    then show ?thesis by (rule byte_exhaust [rotated, where n = 256]) code_simp
  qed
  moreover have "rm_state f < RM_SENTOFFER \<longleftrightarrow> rm_state f \<in> {RM_INIT, RM_RECEIVEDOFFER}"
    by (cases "rm_state f") (simp_all add: less_rmux_state_def)
  ultimately show ?thesis by (auto simp: DemuxRtcp_def Let_def)
qed

text \<open>
  The enumeration documents \<open>ST_ACTIVE\<close> as a state that cannot be left for an inactive one; a second
  offer with a negative answer does.
\<close>

lemma rtcp_mux_can_deactivate:
  "run_filter rmux_step [MuxOffer True CS_LOCAL, MuxAnswer True CS_REMOTE, MuxOffer True CS_LOCAL, MuxAnswer False CS_REMOTE]
     RtcpMuxFilter_new = ([True, True, True, True], \<lparr>rm_state = RM_INIT, rm_offer_enable = True\<rparr>)"
  by code_simp

end
