(* ===== verification/Base64.thy ===== *)
theory Base64
  imports Jingle_Prelude
begin

unbundle bit_operations_syntax

text \<open>
  \<open>Base64\<close> of \<open>talk/base/base64.cc\<close>: the encoder, and the decoder with its parse, padding and
  termination flags.  Characters are bytes.  The loop over \<open>data[*dpos..len)\<close> of \<open>GetNextQuantum\<close>
  recurses on that suffix and counts \<open>dpos\<close>; the loop of the decoder recurses on \<open>dpos\<close>.
\<close>

definition kPad :: byte where "kPad = 61"
definition pd :: byte where "pd = 0xFD"
definition sp :: byte where "sp = 0xFE"
definition il :: byte where "il = 0xFF"

definition Base64Table :: "byte list" where
  "Base64Table =
    [65,66,67,68,69,70,71,72,73,74,75,76,77,78,79,80,81,82,83,84,85,86,87,88,89,90,
     97,98,99,100,101,102,103,104,105,106,107,108,109,110,111,112,113,114,115,116,117,118,119,120,121,122,
     48,49,50,51,52,53,54,55,56,57,43,47]"

definition DecodeTable :: "byte list" where
  "DecodeTable =
    [il,il,il,il,il,il,il,il,il,sp,
     sp,sp,sp,sp,il,il,il,il,il,il,
     il,il,il,il,il,il,il,il,il,il,
     il,il,sp,il,il,il,il,il,il,il,
     il,il,il,62,il,il,il,63,52,53,
     54,55,56,57,58,59,60,61,il,il,
     il,pd,il,il,il, 0, 1, 2, 3, 4,
      5, 6, 7, 8, 9,10,11,12,13,14,
     15,16,17,18,19,20,21,22,23,24,
     25,il,il,il,il,il,il,26,27,28,
     29,30,31,32,33,34,35,36,37,38,
     39,40,41,42,43,44,45,46,47,48,
     49,50,51,il,il,il,il,il,il,il] @ replicate 126 il"

definition IsBase64Char :: "byte \<Rightarrow> bool" where
  "IsBase64Char ch \<longleftrightarrow>
     65 \<le> ch \<and> ch \<le> 90 \<or> 97 \<le> ch \<and> ch \<le> 122 \<or> 48 \<le> ch \<and> ch \<le> 57 \<or> ch = 43 \<or> ch = 47"

text \<open>The position \<open>strchr\<close> finds a character at.\<close>

fun strchr_from :: "nat \<Rightarrow> byte list \<Rightarrow> byte \<Rightarrow> nat option" where
  "strchr_from i [] ch = (if ch = 0 then Some i else None)"
| "strchr_from i (c # cs) ch = (if c = ch then Some i else strchr_from (i + 1) cs ch)"

text \<open>
  For the terminating zero itself \<open>++p\<close> leaves the table: \<open>None\<close> in the outer option.
\<close>

definition GetNextBase64Char :: "byte \<Rightarrow> byte option option" where
  "GetNextBase64Char ch =
     (case strchr_from 0 Base64Table ch of
        None \<Rightarrow> Some None
      | Some p \<Rightarrow>
          if p + 1 < 64 then Some (Some (Base64Table ! (p + 1)))
          else if p + 1 = 64 then Some (Some (Base64Table ! 0))
          else None)"

definition IsBase64Encoded :: "byte list \<Rightarrow> bool" where
  "IsBase64Encoded str \<longleftrightarrow> list_all IsBase64Char str"

subsection \<open>Encoding\<close>

function EncodeFromArray :: "byte list \<Rightarrow> byte list" where
  "EncodeFromArray data =
     (case data of
        [] \<Rightarrow> []
      | a # r1 \<Rightarrow>
          let o1 = Base64Table ! unat (drop_bit 2 a AND 0x3F);
              c = push_bit 4 a AND 0x3F;
              c = (case r1 of [] \<Rightarrow> c | b # _ \<Rightarrow> c OR (drop_bit 4 b AND 0x0F));
              o2 = Base64Table ! unat c;
              (o3, r2) = (case r1 of
                  [] \<Rightarrow> (kPad, [])
                | b # r2 \<Rightarrow>
                    let c = push_bit 2 b AND 0x3F;
                        c = (case r2 of [] \<Rightarrow> c | d # _ \<Rightarrow> c OR (drop_bit 6 d AND 0x03))
                    in (Base64Table ! unat c, r2));
              (o4, r3) = (case r2 of
                  [] \<Rightarrow> (kPad, [])
                | d # r3 \<Rightarrow> (Base64Table ! unat (d AND 0x3F), r3))
          in o1 # o2 # o3 # o4 # EncodeFromArray r3)"
  by pat_completeness auto
termination
  by (relation "measure length") (auto simp: Let_def split: list.splits)

declare EncodeFromArray.simps [simp del]

subsection \<open>Decoding\<close>

definition DO_PARSE_STRICT :: nat where "DO_PARSE_STRICT = 1"
definition DO_PARSE_WHITE :: nat where "DO_PARSE_WHITE = 2"
definition DO_PARSE_ANY :: nat where "DO_PARSE_ANY = 3"
definition DO_PARSE_MASK :: nat where "DO_PARSE_MASK = 3"
definition DO_PAD_YES :: nat where "DO_PAD_YES = 4"
definition DO_PAD_ANY :: nat where "DO_PAD_ANY = 8"
definition DO_PAD_NO :: nat where "DO_PAD_NO = 12"
definition DO_PAD_MASK :: nat where "DO_PAD_MASK = 12"
definition DO_TERM_BUFFER :: nat where "DO_TERM_BUFFER = 16"
definition DO_TERM_CHAR :: nat where "DO_TERM_CHAR = 32"
definition DO_TERM_ANY :: nat where "DO_TERM_ANY = 48"
definition DO_TERM_MASK :: nat where "DO_TERM_MASK = 48"
definition DO_STRICT :: nat where "DO_STRICT = DO_PARSE_STRICT OR DO_PAD_YES OR DO_TERM_BUFFER"
definition DO_LAX :: nat where "DO_LAX = DO_PARSE_ANY OR DO_PAD_ANY OR DO_TERM_CHAR"

lemmas flag_defs =
  DO_PARSE_STRICT_def DO_PARSE_WHITE_def DO_PARSE_ANY_def DO_PARSE_MASK_def
  DO_PAD_YES_def DO_PAD_ANY_def DO_PAD_NO_def DO_PAD_MASK_def
  DO_TERM_BUFFER_def DO_TERM_CHAR_def DO_TERM_ANY_def DO_TERM_MASK_def DO_STRICT_def DO_LAX_def

record quantum =
  q_dpos :: nat
  q_byte_len :: nat
  q_pad_len :: nat
  q_pad_start :: nat
  q_buf :: "byte list"

text \<open>One pass of the loop body: \<open>False\<close> is \<open>break\<close>.\<close>

definition quantum_step :: "nat \<Rightarrow> bool \<Rightarrow> quantum \<Rightarrow> byte \<Rightarrow> bool \<times> quantum" where
  "quantum_step parse_flags illegal_pads q ch =
     (let v = DecodeTable ! unat ch;
          q = q\<lparr>q_buf := (q_buf q)[q_byte_len q := v]\<rparr>
      in if v = il \<or> illegal_pads \<and> v = pd then (parse_flags = DO_PARSE_ANY, q)
         else if v = sp then (parse_flags \<noteq> DO_PARSE_STRICT, q)
         else if v = pd then
           if q_byte_len q < 2 then (parse_flags = DO_PARSE_ANY, q)
           else if q_byte_len q + q_pad_len q \<ge> 4 then (parse_flags = DO_PARSE_ANY, q)
           else
             (True, if q_pad_len q + 1 = 1
                    then q\<lparr>q_pad_len := q_pad_len q + 1, q_pad_start := q_dpos q\<rparr>
                    else q\<lparr>q_pad_len := q_pad_len q + 1\<rparr>)
         else if q_pad_len q > 0 then
           if parse_flags \<noteq> DO_PARSE_ANY then (False, q)
           else (True, q\<lparr>q_pad_len := 0, q_byte_len := q_byte_len q + 1\<rparr>)
         else (True, q\<lparr>q_byte_len := q_byte_len q + 1\<rparr>))"

fun quantum_loop :: "nat \<Rightarrow> bool \<Rightarrow> quantum \<Rightarrow> byte list \<Rightarrow> quantum" where
  "quantum_loop parse_flags illegal_pads q [] = q"
| "quantum_loop parse_flags illegal_pads q (ch # src) =
     (if q_byte_len q < 4 then
        (case quantum_step parse_flags illegal_pads q ch of
           (True, q) \<Rightarrow> quantum_loop parse_flags illegal_pads (q\<lparr>q_dpos := q_dpos q + 1\<rparr>) src
         | (False, q) \<Rightarrow> q)
      else q)"

text \<open>The result is \<open>byte_len\<close>, the new \<open>*dpos\<close>, \<open>qbuf\<close> and \<open>*padded\<close>.\<close>

definition GetNextQuantum ::
  "nat \<Rightarrow> bool \<Rightarrow> byte list \<Rightarrow> nat \<Rightarrow> byte list \<Rightarrow> nat \<times> nat \<times> byte list \<times> bool" where
  "GetNextQuantum parse_flags illegal_pads data dpos qbuf =
     (let q = quantum_loop parse_flags illegal_pads
                \<lparr>q_dpos = dpos, q_byte_len = 0, q_pad_len = 0, q_pad_start = 0, q_buf = qbuf\<rparr> (drop dpos data);
          qbuf = take (q_byte_len q) (q_buf q) @ replicate (4 - q_byte_len q) 0
      in if 4 = q_byte_len q + q_pad_len q then (q_byte_len q, q_dpos q, qbuf, True)
         else (q_byte_len q, if q_pad_len q > 0 then q_pad_start q else q_dpos q, qbuf, False))"

lemma quantum_step_progress:
  assumes "q_byte_len q + q_pad_len q \<le> 4" and "q_byte_len q < 4" and "quantum_step pf ip q ch = (go, q')"
  shows "q_byte_len q' + q_pad_len q' \<le> 4 \<and> q_dpos q' = q_dpos q \<and>
    q_byte_len q \<le> q_byte_len q' \<and> q_byte_len q' \<le> q_byte_len q + (if go then 1 else 0) \<and> length (q_buf q') = length (q_buf q)"
  using assms by (auto simp: quantum_step_def Let_def split: if_splits)

lemma quantum_loop_progress:
  "q_byte_len q + q_pad_len q \<le> 4 \<Longrightarrow>
   (case quantum_loop pf ip q src of q' \<Rightarrow>
      q_byte_len q' + q_pad_len q' \<le> 4 \<and> q_byte_len q \<le> q_byte_len q' \<and>
      q_dpos q + q_byte_len q' \<le> q_dpos q' + q_byte_len q \<and>
      q_dpos q' \<le> q_dpos q + length src)"
proof (induction src arbitrary: q)
  case (Cons ch src)
  show ?case
  proof (cases "q_byte_len q < 4")
    case True
    obtain go q1 where s: "quantum_step pf ip q ch = (go, q1)" by (metis surj_pair)
    note p = quantum_step_progress [OF Cons.prems True s]
    show ?thesis
      using p Cons.IH [of "q1\<lparr>q_dpos := q_dpos q1 + 1\<rparr>"] True by (cases go) (auto simp: s)
  qed (use Cons.prems in simp)
qed simp

lemma GetNextQuantum_progress:
  assumes "GetNextQuantum pf ip data dpos qbuf = (qlen, dpos', qbuf', padded)" and "\<not> qlen < 4" and "dpos < length data"
  shows "dpos + 4 \<le> dpos' \<and> dpos' \<le> length data"
  using assms quantum_loop_progress [of "\<lparr>q_dpos = dpos, q_byte_len = 0, q_pad_len = 0, q_pad_start = 0, q_buf = qbuf\<rparr>" pf ip "drop dpos data"]
  by (auto simp: GetNextQuantum_def Let_def split: if_splits)

text \<open>The bytes a quantum pushes, and the bits \<open>c\<close> that are left over.\<close>

definition quantum_bytes :: "nat \<Rightarrow> byte list \<Rightarrow> byte list \<times> byte" where
  "quantum_bytes qlen qbuf =
     (let c1 = push_bit 2 (qbuf ! 0) OR (drop_bit 4 (qbuf ! 1) AND 0x3);
          c2 = (push_bit 4 (qbuf ! 1) AND 0xF0) OR (drop_bit 2 (qbuf ! 2) AND 0xF);
          c3 = (push_bit 6 (qbuf ! 2) AND 0xC0) OR qbuf ! 3
      in if qlen \<ge> 2 then
           if qlen \<ge> 3 then
             if qlen \<ge> 4 then ([c1, c2, c3], 0) else ([c1, c2], c3)
           else ([c1], c2)
         else ([], c1))"

text \<open>The loop returns the output, the position it stopped at and \<open>success\<close>.\<close>

function decode64_loop ::
  "nat \<Rightarrow> nat \<Rightarrow> nat \<Rightarrow> byte list \<Rightarrow> nat \<Rightarrow> byte list \<Rightarrow> byte list \<Rightarrow> byte list \<times> nat \<times> bool" where
  "decode64_loop parse_flags pad_flags term_flags data dpos qbuf result =
     (if dpos < length data then
        (case GetNextQuantum parse_flags (DO_PAD_NO = pad_flags) data dpos qbuf of (qlen, dpos', qbuf', padded) \<Rightarrow>
           case quantum_bytes qlen qbuf' of (bytes, c) \<Rightarrow>
             if qlen < 4 then
               (result @ bytes, dpos',
                \<not> (DO_TERM_ANY \<noteq> term_flags \<and> c \<noteq> 0) \<and> \<not> (DO_PAD_YES = pad_flags \<and> \<not> padded))
             else decode64_loop parse_flags pad_flags term_flags data dpos' qbuf' (result @ bytes))
      else (result, dpos, True))"
  by pat_completeness auto
termination
  by (relation "measure (\<lambda>(pf, pdf, tf, data, dpos, qbuf, result). length data - dpos)")
    (auto dest!: GetNextQuantum_progress [OF sym])

declare decode64_loop.simps [simp del]

text \<open>\<open>success\<close>, \<open>*result\<close> and \<open>*data_used\<close>.\<close>

definition DecodeFromArray :: "byte list \<Rightarrow> nat \<Rightarrow> bool \<times> byte list \<times> nat" where
  "DecodeFromArray data flags =
     (let parse_flags = flags AND DO_PARSE_MASK;
          pad_flags = flags AND DO_PAD_MASK;
          term_flags = flags AND DO_TERM_MASK;
          (result, dpos, success) = decode64_loop parse_flags pad_flags term_flags data 0 (replicate 4 0) []
      in (success \<and> \<not> (DO_TERM_BUFFER = term_flags \<and> dpos \<noteq> length data), result, dpos))"

definition base64_Encode :: "byte list \<Rightarrow> byte list" where
  "base64_Encode data = EncodeFromArray data"

definition base64_Decode :: "byte list \<Rightarrow> nat \<Rightarrow> bool \<times> byte list \<times> nat" where
  "base64_Decode data flags = DecodeFromArray data flags"


subsection \<open>The tables\<close>

lemma table_roundtrip: "v < 64 \<Longrightarrow> DecodeTable ! unat (Base64Table ! unat v) = v"
  by (rule byte_exhaust [where n = 64]) (code_simp, simp add: word_less_nat_alt)

definition data_char :: "byte \<Rightarrow> bool" where
  "data_char c \<longleftrightarrow> DecodeTable ! unat c < 64"

lemma table_classes:
  "if data_char c then Base64Table ! unat (DecodeTable ! unat c) = c
   else DecodeTable ! unat c = il \<or> DecodeTable ! unat c = sp \<or> DecodeTable ! unat c = pd \<and> c = kPad"
proof -
  have "unat c < 256" using unat_bound [of c] by simp
  then show ?thesis by (rule byte_exhaust [rotated, where n = 256]) code_simp
qed

lemma data_char_iff: "data_char c = IsBase64Char c"
proof -
  have "unat c < 256" using unat_bound [of c] by simp
  then show ?thesis by (rule byte_exhaust [rotated, where n = 256]) code_simp
qed

lemma special_values [simp]:
  "\<not> pd < 64" "\<not> sp < 64" "\<not> il < 64" "pd \<noteq> sp" "pd \<noteq> il" "sp \<noteq> il" "sp \<noteq> pd" "il \<noteq> pd" "il \<noteq> sp"
  by (simp_all add: pd_def sp_def il_def)

lemma DecodeTable_kPad [simp]: "DecodeTable ! unat kPad = pd" by code_simp

lemma data_char_table: "(v :: byte) < 64 \<Longrightarrow> data_char (Base64Table ! unat v)"
  using table_roundtrip [of v] by (simp add: data_char_def)


subsection \<open>Six-bit groups\<close>

definition sext1 :: "byte \<Rightarrow> byte" where "sext1 a = drop_bit 2 a AND 0x3F"
definition sext2 :: "byte \<Rightarrow> byte \<Rightarrow> byte" where "sext2 a b = (push_bit 4 a AND 0x3F) OR (drop_bit 4 b AND 0x0F)"
definition sext3 :: "byte \<Rightarrow> byte \<Rightarrow> byte" where "sext3 b d = (push_bit 2 b AND 0x3F) OR (drop_bit 6 d AND 0x03)"
definition sext4 :: "byte \<Rightarrow> byte" where "sext4 d = d AND 0x3F"

lemmas sext_defs = sext1_def sext2_def sext3_def sext4_def

definition oct1 :: "byte \<Rightarrow> byte \<Rightarrow> byte" where "oct1 x y = push_bit 2 x OR (drop_bit 4 y AND 0x3)"
definition oct2 :: "byte \<Rightarrow> byte \<Rightarrow> byte" where "oct2 y z = (push_bit 4 y AND 0xF0) OR (drop_bit 2 z AND 0xF)"
definition oct3 :: "byte \<Rightarrow> byte \<Rightarrow> byte" where "oct3 z w = (push_bit 6 z AND 0xC0) OR w"

lemmas oct_defs = oct1_def oct2_def oct3_def

lemma below_64: "v < (64 :: byte) \<longleftrightarrow> \<not> bit v 6 \<and> \<not> bit v 7"
proof -
  have "unat v < 256" using unat_bound [of v] by simp
  then show ?thesis by (rule byte_exhaust [rotated, where n = 256]) code_simp
qed

lemma sext_below [simp]: "sext1 a < 64" "sext2 a b < 64" "sext3 b d < 64" "sext4 d < 64"
  by (simp_all add: below_64 sext_defs bit_simps)

lemma byte_masks:
  "(0x3F :: byte) = mask 6" "(0xF :: byte) = mask 4" "(0x3 :: byte) = mask 2"
  "(0xF0 :: byte) = push_bit 4 (mask 4)" "(0xC0 :: byte) = push_bit 6 (mask 2)"
  by (simp_all add: mask_numeral)

lemmas group_defs = oct_defs [unfolded byte_masks] sext_defs [unfolded byte_masks]

lemma add_minus:
  "Suc (Suc (n - 2)) = (if n < 2 then 2 else n)" "4 + (n - 4) = (if n < 4 then 4 else n :: nat)"
  "6 + (n - 6) = (if n < 6 then 6 else n :: nat)"
  by arith+

lemma oct_sext [simp]:
  "oct1 (sext1 a) (sext2 a b) = a" "oct2 (sext2 a b) (sext3 b d) = b" "oct3 (sext3 b d) (sext4 d) = d"
  by (rule bit_word_eqI, (auto simp: group_defs bit_simps add_minus split: if_splits) [1])+

lemma sext_oct:
  assumes "x < 64" and "y < 64" and "z < 64" and "w < 64"
  shows "sext1 (oct1 x y) = x" and "sext2 (oct1 x y) (oct2 y z) = y"
    and "sext3 (oct2 y z) (oct3 z w) = z" and "sext4 (oct3 z w) = w"
proof -
  have h: "n < 6" if "bit v n" and "v < (64 :: byte)" for v n
  proof -
    have "n < 8" using that(1) bit_imp_le_length by fastforce
    moreover have "n \<noteq> 6" "n \<noteq> 7" using that below_64 by auto
    ultimately show ?thesis by simp
  qed
  note hs = h [OF _ assms(1)] h [OF _ assms(2)] h [OF _ assms(3)] h [OF _ assms(4)]
  show "sext1 (oct1 x y) = x" "sext2 (oct1 x y) (oct2 y z) = y"
    "sext3 (oct2 y z) (oct3 z w) = z" "sext4 (oct3 z w) = w"
    by (rule bit_word_eqI, (auto simp: group_defs bit_simps add_minus split: if_splits dest: hs) [1])+
qed


subsection \<open>The encoder, group by group\<close>

abbreviation b64 :: "byte \<Rightarrow> byte" where
  "b64 v \<equiv> Base64Table ! unat v"

lemma sext_zero: "push_bit 4 a AND 0x3F = sext2 a 0" "push_bit 2 b AND 0x3F = sext3 b 0"
  by (simp_all add: sext_defs)

lemma Encode_simps [simp]:
  "EncodeFromArray [] = []"
  "EncodeFromArray [a] = [b64 (sext1 a), b64 (sext2 a 0), kPad, kPad]"
  "EncodeFromArray [a, b] = [b64 (sext1 a), b64 (sext2 a b), b64 (sext3 b 0), kPad]"
  "EncodeFromArray (a # b # d # r) = b64 (sext1 a) # b64 (sext2 a b) # b64 (sext3 b d) # b64 (sext4 d) # EncodeFromArray r"
  by (simp_all add: EncodeFromArray.simps [of "_ # _"] EncodeFromArray.simps [of "[]"] sext_defs)

lemma triples_induct [case_names Nil one two three]:
  assumes "P []" and "\<And>a. P [a]" and "\<And>a b. P [a, b]" and "\<And>a b d r. P r \<Longrightarrow> P (a # b # d # r)"
  shows "P xs"
  using assms by induction_schema (pat_completeness, lexicographic_order)

lemma length_EncodeFromArray: "length (EncodeFromArray data) = (length data + 2) div 3 * 4"
  by (induction data rule: triples_induct) (simp_all, presburger)

subsection \<open>Strict quanta\<close>

lemma quantum_step_data:
  assumes "data_char ch" and "q_pad_len q = 0"
  shows "quantum_step pf ip q ch = (True, q\<lparr>q_buf := (q_buf q)[q_byte_len q := DecodeTable ! unat ch], q_byte_len := q_byte_len q + 1\<rparr>)"
proof -
  have "DecodeTable ! unat ch < 64" using assms(1) by (simp add: data_char_def)
  then have "DecodeTable ! unat ch \<noteq> il" "DecodeTable ! unat ch \<noteq> sp" "DecodeTable ! unat ch \<noteq> pd"
    using special_values(1-3) by metis+
  then show ?thesis using assms(2) by (simp add: quantum_step_def Let_def)
qed

lemma quantum_step_strict:
  assumes "quantum_step DO_PARSE_STRICT False q ch = (go, q')"
  shows "(go \<and> data_char ch \<and> q_pad_len q = 0 \<and>
      q' = q\<lparr>q_buf := (q_buf q)[q_byte_len q := DecodeTable ! unat ch], q_byte_len := q_byte_len q + 1\<rparr>) \<or>
    (go \<and> ch = kPad \<and> 2 \<le> q_byte_len q \<and> q_byte_len q + q_pad_len q < 4 \<and>
      q_pad_len q' = q_pad_len q + 1 \<and> q_byte_len q' = q_byte_len q \<and> q_dpos q' = q_dpos q \<and>
      take (q_byte_len q) (q_buf q') = take (q_byte_len q) (q_buf q) \<and> length (q_buf q') = length (q_buf q)) \<or>
    (\<not> go \<and> q_pad_len q' = q_pad_len q \<and> q_byte_len q' = q_byte_len q \<and> q_dpos q' = q_dpos q \<and>
      take (q_byte_len q) (q_buf q') = take (q_byte_len q) (q_buf q) \<and> length (q_buf q') = length (q_buf q))"
proof (cases "data_char ch \<and> q_pad_len q = 0")
  case True
  then show ?thesis using assms quantum_step_data [of ch q DO_PARSE_STRICT False] by simp
next
  case False
  have "DecodeTable ! unat ch \<noteq> pd \<or> ch = kPad" using table_classes [of ch] by (auto simp: data_char_def split: if_splits)
  then show ?thesis
    using False assms table_classes [of ch]
    by (auto simp: quantum_step_def Let_def flag_defs split: if_splits)
qed

text \<open>What a quantum of the strict parser is: some data characters, then some padding, then the rest.\<close>

lemma quantum_loop_strict:
  assumes "quantum_loop DO_PARSE_STRICT False q src = q'" and "q_byte_len q \<le> 4" and "length (q_buf q) = 4"
  shows "\<exists>cs rest. src = cs @ replicate (q_pad_len q' - q_pad_len q) kPad @ rest \<and> list_all data_char cs \<and>
    q_byte_len q' = q_byte_len q + length cs \<and> q_byte_len q' \<le> 4 \<and> length (q_buf q') = 4 \<and>
    take (q_byte_len q') (q_buf q') = take (q_byte_len q) (q_buf q) @ map (\<lambda>c. DecodeTable ! unat c) cs \<and>
    q_pad_len q \<le> q_pad_len q' \<and> (q_pad_len q > 0 \<longrightarrow> cs = []) \<and>
    (q_pad_len q < q_pad_len q' \<longrightarrow> 2 \<le> q_byte_len q') \<and>
    q_dpos q' = q_dpos q + length cs + (q_pad_len q' - q_pad_len q)"
  using assms
proof (induction src arbitrary: q)
  case Nil
  then show ?case by auto
next
  case (Cons ch src)
  show ?case
  proof (cases "q_byte_len q < 4")
    case True
    obtain go q1 where s: "quantum_step DO_PARSE_STRICT False q ch = (go, q1)" by (metis surj_pair)
    have loop: "q' = (if go then quantum_loop DO_PARSE_STRICT False (q1\<lparr>q_dpos := q_dpos q1 + 1\<rparr>) src else q1)"
      using Cons.prems(1) True by (cases go) (simp_all add: s)
    from quantum_step_strict [OF s] show ?thesis
    proof (elim disjE conjE)
      assume go: "go" and d: "data_char ch" "q_pad_len q = 0"
        and q1: "q1 = q\<lparr>q_buf := (q_buf q)[q_byte_len q := DecodeTable ! unat ch], q_byte_len := q_byte_len q + 1\<rparr>"
      let ?q2 = "q1\<lparr>q_dpos := q_dpos q1 + 1\<rparr>"
      have l: "quantum_loop DO_PARSE_STRICT False ?q2 src = q'" using loop go by simp
      have f: "q_byte_len ?q2 = q_byte_len q + 1" "q_pad_len ?q2 = q_pad_len q" "q_dpos ?q2 = q_dpos q + 1"
        "length (q_buf ?q2) = 4" "q_byte_len ?q2 \<le> 4"
        using Cons.prems(3) True by (simp_all add: q1)
      have "take (q_byte_len q + 1) (q_buf ?q2) = take (q_byte_len q) (q_buf q) @ [DecodeTable ! unat ch]"
        using Cons.prems(3) True by (simp add: q1 take_Suc_conv_app_nth)
      moreover obtain cs rest where "src = cs @ replicate (q_pad_len q' - q_pad_len q) kPad @ rest" "list_all data_char cs"
        "q_byte_len q' = q_byte_len q + 1 + length cs" "q_byte_len q' \<le> 4" "length (q_buf q') = 4"
        "take (q_byte_len q') (q_buf q') = take (q_byte_len q + 1) (q_buf ?q2) @ map (\<lambda>c. DecodeTable ! unat c) cs"
        "q_pad_len q \<le> q_pad_len q'" "q_pad_len q < q_pad_len q' \<longrightarrow> 2 \<le> q_byte_len q'"
        "q_dpos q' = q_dpos q + 1 + length cs + (q_pad_len q' - q_pad_len q)"
        using Cons.IH [OF l f(5,4)] unfolding f by blast
      ultimately show ?thesis
        using d by (intro exI [of _ "ch # cs"] exI [of _ rest]) simp
    next
      assume go: "go" and p: "ch = kPad" "2 \<le> q_byte_len q" "q_byte_len q + q_pad_len q < 4"
        and q1: "q_pad_len q1 = q_pad_len q + 1" "q_byte_len q1 = q_byte_len q" "q_dpos q1 = q_dpos q"
          "take (q_byte_len q) (q_buf q1) = take (q_byte_len q) (q_buf q)" "length (q_buf q1) = length (q_buf q)"
      let ?q2 = "q1\<lparr>q_dpos := q_dpos q1 + 1\<rparr>"
      have l: "quantum_loop DO_PARSE_STRICT False ?q2 src = q'" using loop go by simp
      have f: "q_byte_len ?q2 = q_byte_len q" "q_pad_len ?q2 = q_pad_len q + 1" "q_dpos ?q2 = q_dpos q + 1"
        "length (q_buf ?q2) = 4" "q_byte_len ?q2 \<le> 4" "take (q_byte_len q) (q_buf ?q2) = take (q_byte_len q) (q_buf q)"
        using Cons.prems(3) True q1 by simp_all
      obtain rest where r: "src = replicate (q_pad_len q' - (q_pad_len q + 1)) kPad @ rest"
        "q_byte_len q' = q_byte_len q" "length (q_buf q') = 4"
        "take (q_byte_len q') (q_buf q') = take (q_byte_len q) (q_buf q)"
        "q_pad_len q + 1 \<le> q_pad_len q'"
        "q_dpos q' = q_dpos q + 1 + (q_pad_len q' - (q_pad_len q + 1))"
        using Cons.IH [OF l f(5,4)] unfolding f by auto
      have "q_pad_len q' - q_pad_len q = Suc (q_pad_len q' - (q_pad_len q + 1))" using r(5) by simp
      then show ?thesis using r p True by (intro exI [of _ "[]"] exI [of _ rest]) simp
    next
      assume "\<not> go" and q1: "q_pad_len q1 = q_pad_len q" "q_byte_len q1 = q_byte_len q" "q_dpos q1 = q_dpos q"
          "take (q_byte_len q) (q_buf q1) = take (q_byte_len q) (q_buf q)" "length (q_buf q1) = length (q_buf q)"
      then show ?thesis
        using loop Cons.prems(2,3) by (intro exI [of _ "[]"] exI [of _ "ch # src"]) simp
    qed
  next
    case False
    then have "q' = q" using Cons.prems(1) by simp
    then show ?thesis using Cons.prems(2,3) by (intro exI [of _ "[]"] exI [of _ "ch # src"]) simp
  qed
qed


lemma GetNextQuantum_strict:
  assumes "GetNextQuantum DO_PARSE_STRICT False data dpos qbuf = (qlen, dpos', qbuf', padded)" and "length qbuf = 4"
  obtains cs pl rest where "drop dpos data = cs @ replicate pl kPad @ rest" and "list_all data_char cs"
    and "qlen = length cs" and "length cs \<le> 4" and "pl > 0 \<longrightarrow> 2 \<le> qlen"
    and "qbuf' = map (\<lambda>c. DecodeTable ! unat c) cs @ replicate (4 - qlen) 0"
    and "padded = (4 = qlen + pl)" and "padded \<longrightarrow> dpos' = dpos + 4" and "qlen = 4 \<longrightarrow> pl = 0"
proof -
  define q where "q = \<lparr>q_dpos = dpos, q_byte_len = 0, q_pad_len = 0, q_pad_start = 0, q_buf = qbuf\<rparr>"
  define q' where "q' = quantum_loop DO_PARSE_STRICT False q (drop dpos data)"
  have p: "q_byte_len q' + q_pad_len q' \<le> 4"
    using quantum_loop_progress [of q DO_PARSE_STRICT False "drop dpos data"] by (simp add: q_def q'_def)
  obtain cs rest where c: "drop dpos data = cs @ replicate (q_pad_len q') kPad @ rest" "list_all data_char cs"
    "q_byte_len q' = length cs" "q_byte_len q' \<le> 4" "take (q_byte_len q') (q_buf q') = map (\<lambda>c. DecodeTable ! unat c) cs"
    "q_pad_len q' > 0 \<longrightarrow> 2 \<le> q_byte_len q'" "q_dpos q' = dpos + length cs + q_pad_len q'"
    using quantum_loop_strict [of q "drop dpos data" q'] assms(2) by (auto simp: q_def q'_def)
  have g: "qlen = q_byte_len q'" "qbuf' = map (\<lambda>c. DecodeTable ! unat c) cs @ replicate (4 - qlen) 0"
    "padded = (4 = qlen + q_pad_len q')" "padded \<Longrightarrow> dpos' = q_dpos q'"
    using assms(1) c(5) by (auto simp: GetNextQuantum_def q_def [symmetric] q'_def [symmetric] Let_def split: if_splits)
  show thesis
    by (rule that [of cs "q_pad_len q'" rest]) (use c g p in auto)
qed


lemma quantum_bytes_oct:
  "quantum_bytes 4 [x, y, z, w] = ([oct1 x y, oct2 y z, oct3 z w], 0)"
  "quantum_bytes 3 [x, y, z, w] = ([oct1 x y, oct2 y z], oct3 z w)"
  "quantum_bytes 2 [x, y, z, w] = ([oct1 x y], oct2 y z)"
  by (simp_all add: quantum_bytes_def Let_def oct_defs)

lemma quantum_step_pad:
  assumes "2 \<le> q_byte_len q" and "q_byte_len q + q_pad_len q < 4"
  shows "quantum_step pf False q kPad =
    (True, if q_pad_len q = 0
       then q\<lparr>q_buf := (q_buf q)[q_byte_len q := pd], q_pad_len := q_pad_len q + 1, q_pad_start := q_dpos q\<rparr>
       else q\<lparr>q_buf := (q_buf q)[q_byte_len q := pd], q_pad_len := q_pad_len q + 1\<rparr>)"
  using assms by (simp add: quantum_step_def Let_def)

lemma length_4_cases: "length qbuf = 4 \<Longrightarrow> \<exists>a b c d. qbuf = [a, b, c, d]"
  by (auto simp: length_Suc_conv eval_nat_numeral)

lemma GetNextQuantum_eqs:
  assumes "length qbuf = 4" and "x < 64" and "y < 64" and "z < 64" and "w < 64"
  shows "drop dpos data = b64 x # b64 y # b64 z # b64 w # r \<Longrightarrow>
      GetNextQuantum pf False data dpos qbuf = (4, dpos + 4, [x, y, z, w], True)"
    and "drop dpos data = [b64 x, b64 y, b64 z, kPad] \<Longrightarrow>
      GetNextQuantum pf False data dpos qbuf = (3, dpos + 4, [x, y, z, 0], True)"
    and "drop dpos data = [b64 x, b64 y, kPad, kPad] \<Longrightarrow>
      GetNextQuantum pf False data dpos qbuf = (2, dpos + 4, [x, y, 0, 0], True)"
proof -
  note d = data_char_table [OF assms(2)] data_char_table [OF assms(3)] data_char_table [OF assms(4)] data_char_table [OF assms(5)]
    table_roundtrip [OF assms(2)] table_roundtrip [OF assms(3)] table_roundtrip [OF assms(4)] table_roundtrip [OF assms(5)]
  obtain a b c e where q: "qbuf = [a, b, c, e]" using length_4_cases [OF assms(1)] by blast
  have stop: "quantum_loop pf False q src = q" if "q_byte_len q = 4" for q src using that by (cases src) simp_all
  show "drop dpos data = b64 x # b64 y # b64 z # b64 w # r \<Longrightarrow>
      GetNextQuantum pf False data dpos qbuf = (4, dpos + 4, [x, y, z, w], True)"
    by (simp add: GetNextQuantum_def q quantum_step_data d stop)
  show "drop dpos data = [b64 x, b64 y, b64 z, kPad] \<Longrightarrow>
      GetNextQuantum pf False data dpos qbuf = (3, dpos + 4, [x, y, z, 0], True)"
    by (simp add: GetNextQuantum_def q quantum_step_data quantum_step_pad d)
  show "drop dpos data = [b64 x, b64 y, kPad, kPad] \<Longrightarrow>
      GetNextQuantum pf False data dpos qbuf = (2, dpos + 4, [x, y, 0, 0], True)"
    by (simp add: GetNextQuantum_def q quantum_step_data quantum_step_pad d numeral_2_eq_2)
qed

lemma oct2_0 [simp]: "oct2 (sext2 a 0) 0 = 0" "oct3 (sext3 b 0) 0 = 0"
  using oct_sext(2) [of a 0 0] oct_sext(3) [of b 0] by (simp_all add: oct_defs sext_defs)

lemma oct2_0' [simp]: "oct2 (sext2 a b) (sext3 b 0) = b" by simp

lemma decode64_encoded:
  assumes "drop dpos data = EncodeFromArray d" and "length qbuf = 4" and "pdf \<noteq> DO_PAD_NO" and "dpos \<le> length data"
  shows "decode64_loop pf pdf tf data dpos qbuf res = (res @ d, length data, True)"
  using assms
proof (induction d arbitrary: dpos qbuf res rule: triples_induct)
  case Nil
  then show ?case by (simp add: decode64_loop.simps)
next
  case (one a)
  then have l: "dpos < length data" "length data = dpos + 4" by (auto dest: arg_cong [where f = length])
  note g = GetNextQuantum_eqs(3) [OF one.prems(2) sext_below(1,2,3,4), of dpos data, OF one.prems(1) [unfolded Encode_simps]]
  show ?case
    using one.prems(3) l by (subst decode64_loop.simps) (simp add: g quantum_bytes_oct)
next
  case (two a b)
  then have l: "dpos < length data" "length data = dpos + 4" by (auto dest: arg_cong [where f = length])
  note g = GetNextQuantum_eqs(2) [OF two.prems(2) sext_below(1,2,3,4), of dpos data, OF two.prems(1) [unfolded Encode_simps]]
  show ?case
    using two.prems(3) l by (subst decode64_loop.simps) (simp add: g quantum_bytes_oct)
next
  case (three a b d r)
  then have l: "dpos < length data" "dpos + 4 \<le> length data" by (auto dest: arg_cong [where f = length])
  note g = GetNextQuantum_eqs(1) [OF three.prems(2) sext_below(1,2,3,4), of dpos data, OF three.prems(1) [unfolded Encode_simps]]
  have "drop (dpos + 4) data = drop 4 (drop dpos data)" by (simp add: add.commute)
  then have "drop (dpos + 4) data = EncodeFromArray r" by (simp add: three.prems(1))
  then show ?case
    using three.prems(3) l three.IH [of "dpos + 4"] by (subst decode64_loop.simps) (simp add: g quantum_bytes_oct)
qed

text \<open>
  C37: decoding what \<open>Encode\<close> wrote gives the data back and uses every character, under the strict
  flags and under every other combination that does not forbid padding.
\<close>

theorem base64_roundtrip:
  assumes "flags AND DO_PAD_MASK \<noteq> DO_PAD_NO"
  shows "base64_Decode (base64_Encode data) flags = (True, data, (length data + 2) div 3 * 4)"
  using decode64_encoded [of 0 "EncodeFromArray data" data "replicate 4 0"] assms
  by (simp add: base64_Decode_def base64_Encode_def DecodeFromArray_def length_EncodeFromArray)

theorem base64_roundtrip_witness:
  "base64_Encode [0x4D, 0x61] = [0x54, 0x57, 0x45, 0x3D] \<and>
   base64_Decode [0x54, 0x57, 0x45, 0x3D] DO_STRICT = (True, [0x4D, 0x61], 4)"
proof -
  have e: "base64_Encode [0x4D, 0x61] = [0x54, 0x57, 0x45, 0x3D]" by code_simp
  have "DO_STRICT AND DO_PAD_MASK \<noteq> DO_PAD_NO" by (simp add: flag_defs)
  from base64_roundtrip [OF this, of "[0x4D, 0x61]"] show ?thesis by (simp add: e)
qed


subsection \<open>Strict decoding is canonical\<close>

lemma data_char_b64: "data_char c \<Longrightarrow> b64 (DecodeTable ! unat c) = c"
  using table_classes [of c] by simp

lemma quantum_canonical:
  fixes cs :: "byte list"
  defines "V \<equiv> map (\<lambda>c. DecodeTable ! unat c) cs"
  assumes "list_all data_char cs"
  shows "length cs = 4 \<Longrightarrow> EncodeFromArray (fst (quantum_bytes 4 V) @ r) = cs @ EncodeFromArray r"
    and "length cs = 3 \<Longrightarrow> snd (quantum_bytes 3 (V @ [0])) = 0 \<Longrightarrow> EncodeFromArray (fst (quantum_bytes 3 (V @ [0]))) = cs @ [kPad]"
    and "length cs = 2 \<Longrightarrow> snd (quantum_bytes 2 (V @ [0, 0])) = 0 \<Longrightarrow> EncodeFromArray (fst (quantum_bytes 2 (V @ [0, 0]))) = cs @ [kPad, kPad]"
proof -
  have D: "DecodeTable ! unat c < 64" "b64 (DecodeTable ! unat c) = c" if "c \<in> set cs" for c
    using assms(2) that data_char_b64 by (auto simp: list_all_iff data_char_def)
  have z: "(0 :: byte) < 64" by simp
  show "EncodeFromArray (fst (quantum_bytes 4 V) @ r) = cs @ EncodeFromArray r" if l4: "length cs = 4"
  proof -
    obtain x y z w where cs: "cs = [x, y, z, w]" using length_4_cases [OF l4] by blast
    let ?D = "\<lambda>c. DecodeTable ! unat c"
    show ?thesis using D sext_oct [of "?D x" "?D y" "?D z" "?D w"] by (simp add: V_def cs quantum_bytes_oct)
  qed
  show "EncodeFromArray (fst (quantum_bytes 3 (V @ [0]))) = cs @ [kPad]"
    if l: "length cs = 3" and c: "snd (quantum_bytes 3 (V @ [0])) = 0"
  proof -
    obtain x y z where cs: "cs = [x, y, z]" using l by (auto simp: length_Suc_conv eval_nat_numeral)
    let ?D = "\<lambda>c. DecodeTable ! unat c"
    have "oct3 (?D z) 0 = 0" using c by (simp add: V_def cs quantum_bytes_oct)
    then show ?thesis
      using D sext_oct(1-3) [of "?D x" "?D y" "?D z" 0] by (simp add: V_def cs quantum_bytes_oct)
  qed
  show "EncodeFromArray (fst (quantum_bytes 2 (V @ [0, 0]))) = cs @ [kPad, kPad]"
    if l: "length cs = 2" and c: "snd (quantum_bytes 2 (V @ [0, 0])) = 0"
  proof -
    obtain x y where cs: "cs = [x, y]" using l by (auto simp: length_Suc_conv eval_nat_numeral)
    let ?D = "\<lambda>c. DecodeTable ! unat c"
    have "oct2 (?D y) 0 = 0" using c by (simp add: V_def cs quantum_bytes_oct)
    then show ?thesis
      using D sext_oct(1,2) [of "?D x" "?D y" 0 0] by (simp add: V_def cs quantum_bytes_oct)
  qed
qed

lemma decode64_canonical:
  assumes "decode64_loop DO_PARSE_STRICT DO_PAD_YES DO_TERM_BUFFER data dpos qbuf res = (res', length data, True)"
    and "length qbuf = 4" and "dpos \<le> length data"
  shows "\<exists>d. res' = res @ d \<and> drop dpos data = EncodeFromArray d"
  using assms
proof (induction "length data - dpos" arbitrary: dpos qbuf res rule: less_induct)
  case less
  show ?case
  proof (cases "dpos < length data")
    case False
    then show ?thesis using less.prems by (intro exI [of _ "[]"]) (simp add: decode64_loop.simps)
  next
    case True
    obtain qlen dpos' qbuf' padded where g: "GetNextQuantum DO_PARSE_STRICT False data dpos qbuf = (qlen, dpos', qbuf', padded)"
      by (metis prod_cases4)
    obtain bytes c where b: "quantum_bytes qlen qbuf' = (bytes, c)" by (metis surj_pair)
    obtain cs pl rest where q: "drop dpos data = cs @ replicate pl kPad @ rest" "list_all data_char cs"
      "qlen = length cs" "length cs \<le> 4" "pl > 0 \<longrightarrow> 2 \<le> qlen"
      "qbuf' = map (\<lambda>c. DecodeTable ! unat c) cs @ replicate (4 - qlen) 0" "padded = (4 = qlen + pl)"
      "padded \<longrightarrow> dpos' = dpos + 4" "qlen = 4 \<longrightarrow> pl = 0"
      by (rule GetNextQuantum_strict [OF g less.prems(2)])
    have lq: "length qbuf' = 4" using q(3,4,6) by simp
    have fl: "DO_PAD_NO \<noteq> DO_PAD_YES" "DO_TERM_ANY \<noteq> DO_TERM_BUFFER" by (simp_all add: flag_defs)
    have step: "(res', length data, True) = (if qlen < 4 then (res @ bytes, dpos', c = 0 \<and> padded)
        else decode64_loop DO_PARSE_STRICT DO_PAD_YES DO_TERM_BUFFER data dpos' qbuf' (res @ bytes))"
      using less.prems(1) True g b fl
      by (subst (asm) decode64_loop.simps) (simp split: if_splits)
    show ?thesis
    proof (cases "qlen < 4")
      case lt: True
      then have s: "res' = res @ bytes" "dpos' = length data" "c = 0" "padded" using step by auto
      then have "qlen + pl = 4" "length data = dpos + 4" using q(7,8) by auto
      then have "length rest \<le> 0" and pl: "pl = 4 - qlen" "2 \<le> qlen"
        using arg_cong [OF q(1), of length] q(3,5) lt by (simp_all del: length_0_conv le_zero_eq)
      then have src: "drop dpos data = cs @ replicate (4 - qlen) kPad" using q(1) by simp
      have "qlen = 2 \<or> qlen = 3" using lt pl by auto
      then have "EncodeFromArray bytes = cs @ replicate (4 - qlen) kPad"
        using quantum_canonical(2,3) [OF q(2)] b s(3) q(3,6) by (auto simp: numeral_2_eq_2)
      then show ?thesis using s(1) src by (intro exI [of _ bytes]) simp
    next
      case False
      then have l: "qlen = 4" "pl = 0" "padded" "dpos' = dpos + 4" using q(3,4,7-9) by auto
      have le: "dpos' \<le> length data" using GetNextQuantum_progress [OF g False True] by simp
      have dec: "length data - dpos' < length data - dpos" using l(4) True by simp
      have step': "decode64_loop DO_PARSE_STRICT DO_PAD_YES DO_TERM_BUFFER data dpos' qbuf' (res @ bytes) = (res', length data, True)"
        using step False by simp
      obtain d where d: "res' = (res @ bytes) @ d" "drop dpos' data = EncodeFromArray d"
        using less.hyps [OF dec step' lq le] by blast
      have "drop dpos' data = drop 4 (drop dpos data)" using l(4) by (simp add: add.commute)
      also have "\<dots> = rest" using q(1,3) l(1,2) by simp
      finally have "EncodeFromArray (bytes @ d) = drop dpos data"
        using quantum_canonical(1) [OF q(2), of d] b d(2) q(1,3,6) l(1,2) by simp
      then show ?thesis using d(1) by (intro exI [of _ "bytes @ d"]) simp
    qed
  qed
qed

lemma strict_decode_length: "base64_Decode s DO_STRICT = (True, d, n) \<Longrightarrow> n = length s"
proof -
  have "DO_STRICT AND DO_TERM_MASK = DO_TERM_BUFFER" by (simp add: flag_defs)
  then show "base64_Decode s DO_STRICT = (True, d, n) \<Longrightarrow> n = length s"
    by (auto simp: base64_Decode_def DecodeFromArray_def Let_def split: prod.splits)
qed

lemma strict_decode_iff: "base64_Decode s DO_STRICT = (True, d, length s) \<longleftrightarrow> s = base64_Encode d"
proof
  have f: "DO_STRICT AND DO_PARSE_MASK = DO_PARSE_STRICT" "DO_STRICT AND DO_PAD_MASK = DO_PAD_YES"
    "DO_STRICT AND DO_TERM_MASK = DO_TERM_BUFFER" by (simp_all add: flag_defs)
  assume "base64_Decode s DO_STRICT = (True, d, length s)"
  then have "decode64_loop DO_PARSE_STRICT DO_PAD_YES DO_TERM_BUFFER s 0 (replicate 4 0) [] = (d, length s, True)"
    by (auto simp: base64_Decode_def DecodeFromArray_def f split: prod.splits)
  from decode64_canonical [OF this] show "s = base64_Encode d" by (simp add: base64_Encode_def)
next
  assume s: "s = base64_Encode d"
  have "length (EncodeFromArray d) = (length d + 2) div 3 * 4" by (rule length_EncodeFromArray)
  moreover have "DO_STRICT AND DO_PAD_MASK \<noteq> DO_PAD_NO" by (simp add: flag_defs)
  ultimately show "base64_Decode s DO_STRICT = (True, d, length s)"
    using decode64_encoded [of 0 "EncodeFromArray d" d "replicate 4 0"]
    by (simp add: s base64_Encode_def base64_Decode_def DecodeFromArray_def)
qed

text \<open>
  C38: strict decoding accepts exactly the canonical encodings: it succeeds on a text if and only if
  the text is what \<open>Encode\<close> writes for the decoded bytes, and then uses all of it; so no two texts are
  accepted for one key, and no two keys have one text.
\<close>

theorem base64_strict_canonical:
  "(base64_Decode s DO_STRICT = (True, d, n) \<longleftrightarrow> s = base64_Encode d \<and> n = length s) \<and> inj base64_Encode"
proof -
  have "base64_Decode s DO_STRICT = (True, d, n) \<longleftrightarrow> s = base64_Encode d \<and> n = length s"
    using strict_decode_iff [of s d] strict_decode_length [of s d n] by auto
  moreover have "inj base64_Encode"
    by (rule injI) (metis strict_decode_iff prod.inject)
  ultimately show ?thesis by blast
qed

end
