(* ===== verification/TimeUtils.thy ===== *)
theory TimeUtils
  imports Jingle_Prelude
begin

text \<open>
  The comparisons of \<open>talk/base/timeutils.cc\<close> on 32-bit millisecond timestamps that wrap around.  The
  file has each of them twice: the efficient version that is compiled in, and a portable one that says
  what it means.
\<close>

definition LAST :: u32 where "LAST = 0xFFFFFFFF"
definition HALF :: u32 where "HALF = 0x80000000"

definition TimeIsBetween :: "u32 \<Rightarrow> u32 \<Rightarrow> u32 \<Rightarrow> bool" where
  "TimeIsBetween earlier middle later =
     (if earlier \<le> later then earlier \<le> middle \<and> middle \<le> later
      else \<not> (later < middle \<and> middle < earlier))"

definition TimeIsLaterOrEqual :: "u32 \<Rightarrow> u32 \<Rightarrow> bool" where
  "TimeIsLaterOrEqual earlier later \<longleftrightarrow> (let diff = later - earlier in sint diff \<ge> 0 \<and> diff < HALF)"

definition TimeIsLater :: "u32 \<Rightarrow> u32 \<Rightarrow> bool" where
  "TimeIsLater earlier later \<longleftrightarrow> (let diff = later - earlier in sint diff > 0 \<and> diff < HALF)"

definition TimeDiff :: "u32 \<Rightarrow> u32 \<Rightarrow> int" where
  "TimeDiff later earlier = sint (later - earlier)"

definition TimeMax :: "u32 \<Rightarrow> u32 \<Rightarrow> u32" where
  "TimeMax ts1 ts2 = (if TimeIsLaterOrEqual ts1 ts2 then ts2 else ts1)"

definition TimeMin :: "u32 \<Rightarrow> u32 \<Rightarrow> u32" where
  "TimeMin ts1 ts2 = (if TimeIsLaterOrEqual ts1 ts2 then ts1 else ts2)"

text \<open>The portable versions; the result of \<open>TimeDiff\<close> is a \<open>long\<close> that is returned as \<open>int32\<close>.\<close>

definition TimeIsLaterOrEqual_portable :: "u32 \<Rightarrow> u32 \<Rightarrow> bool" where
  "TimeIsLaterOrEqual_portable earlier later = TimeIsBetween earlier later (earlier + HALF)"

definition TimeIsLater_portable :: "u32 \<Rightarrow> u32 \<Rightarrow> bool" where
  "TimeIsLater_portable earlier later = (\<not> TimeIsBetween later earlier (later + HALF))"

definition TimeDiff_portable :: "u32 \<Rightarrow> u32 \<Rightarrow> int" where
  "TimeDiff_portable later earlier =
     (if TimeIsBetween earlier later (earlier + HALF) then
        if earlier \<le> later then sint (word_of_int (uint (later - earlier)) :: u32)
        else sint (word_of_int (uint (later + (LAST - earlier) + 1)) :: u32)
      else
        if later \<le> earlier then sint (word_of_int (- uint (earlier - later)) :: u32)
        else sint (word_of_int (- uint (earlier + (LAST - later) + 1)) :: u32))"



lemma mod_2p32_down: "4294967296 \<le> x \<Longrightarrow> x < 8589934592 \<Longrightarrow> x mod 4294967296 = x - (4294967296 :: int)"
  using mod_pos_pos_trivial [of "x - 4294967296" 4294967296] minus_mod_self2 [of x 4294967296] by simp

lemma mod_2p32_up: "- 4294967296 \<le> x \<Longrightarrow> x < 0 \<Longrightarrow> x mod 4294967296 = x + (4294967296 :: int)"
  using mod_pos_pos_trivial [of "x + 4294967296" 4294967296] mod_add_self2 [of x 4294967296] by simp

lemma u32_cases [case_names u32]: 
  obtains k where "(w :: u32) = word_of_int k" "uint w = k" "0 \<le> k" "k < 4294967296"
  using uint_lt2p [of w] by (intro that [of "uint w"]) simp_all

lemma HALF_less_iff: "w < HALF \<longleftrightarrow> uint w < 2147483648"
  by (simp add: word_less_def HALF_def)

lemma uint_HALF: "uint HALF = 2147483648"
  by (simp add: HALF_def)

lemma sint_u32: "sint (w :: u32) = (if w < HALF then uint w else uint w - 4294967296)"
proof (cases w rule: u32_cases)
  case (u32 k)
  then show ?thesis
    unfolding HALF_less_iff sint_uint signed_take_bit_eq_take_bit_shift u32(2)
    by (auto simp: take_bit_eq_mod mod_2p32_down)
qed

lemma uint_diff_u32: "uint (a - b :: u32) = (if b \<le> a then uint a - uint b else uint a - uint b + 4294967296)"
proof (cases a rule: u32_cases)
  case u32a: (u32 k)
  show ?thesis
  proof (cases b rule: u32_cases)
    case (u32 l)
    then show ?thesis
      unfolding word_le_def uint_word_ariths u32a(2) u32(2)
      using u32a(3-4) by (auto simp: mod_2p32_up)
  qed
qed

lemma uint_plus_HALF: "uint (a + HALF) = (if a < HALF then uint a + 2147483648 else uint a - 2147483648)"
proof (cases a rule: u32_cases)
  case (u32 k)
  then show ?thesis
    unfolding HALF_less_iff uint_word_ariths uint_HALF u32(2) by (auto simp: mod_2p32_down)
qed

lemma sint_less_HALF: "0 \<le> sint (w :: u32) \<longleftrightarrow> w < HALF"
  by (cases w rule: u32_cases) (simp add: sint_u32)

lemma TimeIsLater_diff: "TimeIsLater earlier later \<longleftrightarrow> 0 < TimeDiff later earlier"
  using sint_less_HALF [of "later - earlier"]
  by (auto simp: TimeIsLater_def TimeDiff_def Let_def)

lemma TimeIsLaterOrEqual_diff: "TimeIsLaterOrEqual earlier later \<longleftrightarrow> 0 \<le> TimeDiff later earlier"
  by (auto simp: TimeIsLaterOrEqual_def TimeDiff_def Let_def sint_less_HALF)

lemma u32_pair_cases [case_names pair]:
  obtains k l where "uint (a :: u32) = k" "0 \<le> k" "k < 4294967296" "uint (b :: u32) = l" "0 \<le> l" "l < 4294967296"
  by (cases a rule: u32_cases, cases b rule: u32_cases) (rule that)

lemma TimeIsBetween_HALF:
  "TimeIsBetween a b (a + HALF) \<longleftrightarrow> (let d = uint b - uint a in 0 \<le> d \<and> d \<le> 2147483648 \<or> d \<le> - 2147483648)"
proof (cases a b rule: u32_pair_cases)
  case (pair k l)
  then show ?thesis
    unfolding TimeIsBetween_def word_le_def word_less_def uint_plus_HALF uint_HALF pair(1,4) Let_def by auto
qed

lemma TimeDiff_uint:
  "TimeDiff later earlier = (let d = uint later - uint earlier in
     if d \<ge> 2147483648 then d - 4294967296 else if d < - 2147483648 then d + 4294967296 else d)"
proof (cases later earlier rule: u32_pair_cases)
  case (pair k l)
  then show ?thesis
    unfolding TimeDiff_def sint_u32 HALF_less_iff uint_diff_u32 word_le_def pair(1,4) Let_def by auto
qed

lemma sint_word_of_int_u32: "sint (word_of_int k :: u32) = (k + 2147483648) mod 4294967296 - 2147483648"
  by (simp add: int_word_sint)

lemma sint_u32_id: "- 2147483648 \<le> k \<Longrightarrow> k < 2147483648 \<Longrightarrow> sint (word_of_int k :: u32) = k"
  by (simp add: sint_word_of_int_u32)

lemma wrapped_diff: "later + (LAST - earlier) + 1 = later - earlier"
  by (simp add: LAST_def word_eq_iff_signed)

lemma timestamp_diff: "\<bar>t2 - t1\<bar> < 2 ^ 31 \<Longrightarrow> TimeDiff (word_of_int t2) (word_of_int t1) = t2 - t1"
  using sint_u32_id [of "t2 - t1"] by (simp add: TimeDiff_def)

lemma timestamp_order:
  assumes "\<bar>uint a - now\<bar> < 2 ^ 31"
  shows "TimeIsLater (word_of_int now) a \<longleftrightarrow> now < uint a"
  using timestamp_diff [OF assms] by (simp add: TimeIsLater_diff)

text \<open>
  C27: The comparisons are right across the wrap-around: when two moments of an unbounded clock are less
  than 2^31 milliseconds apart, their 32-bit timestamps compare as the moments do, \<open>TimeDiff\<close> is their
  exact signed distance, and \<open>TimeMax\<close> and \<open>TimeMin\<close> are the stamps of the later and the earlier one.
\<close>
theorem timestamps_compare_exactly:
  fixes t1 t2 :: int
  assumes "\<bar>t2 - t1\<bar> < 2 ^ 31"
  shows "TimeDiff (word_of_int t2) (word_of_int t1) = t2 - t1
    \<and> (TimeIsLater (word_of_int t1) (word_of_int t2) \<longleftrightarrow> t1 < t2)
    \<and> (TimeIsLaterOrEqual (word_of_int t1) (word_of_int t2) \<longleftrightarrow> t1 \<le> t2)
    \<and> TimeMax (word_of_int t1) (word_of_int t2) = word_of_int (max t1 t2)
    \<and> TimeMin (word_of_int t1) (word_of_int t2) = word_of_int (min t1 t2)"
proof -
  have "TimeDiff (word_of_int t2) (word_of_int t1) = sint (word_of_int (t2 - t1) :: u32)"
    by (simp add: TimeDiff_def)
  also have "\<dots> = t2 - t1" using assms by (intro sint_u32_id) auto
  finally show ?thesis
    by (simp add: TimeIsLater_diff TimeIsLaterOrEqual_diff TimeMax_def TimeMin_def max_def min_def)
qed

theorem timestamps_compare_exactly_witness:
  "\<bar>4294967300 - 4294967290 :: int\<bar> < 2 ^ 31 \<and> TimeDiff (word_of_int 4294967300) (word_of_int 4294967290) = 10
    \<and> TimeIsLater (word_of_int 4294967290) (word_of_int 4294967300)"
  using timestamps_compare_exactly [of 4294967300 4294967290] by simp

text \<open>
  The efficient comparisons agree with the portable ones that document them, except that two stamps
  exactly 2^31 apart are in order for the portable \<open>TimeIsLaterOrEqual\<close> only.
\<close>
theorem efficient_time_is_portable:
  "TimeDiff later earlier = TimeDiff_portable later earlier
   \<and> TimeIsLater earlier later = TimeIsLater_portable earlier later
   \<and> TimeIsLaterOrEqual earlier later = (TimeIsLaterOrEqual_portable earlier later \<and> later - earlier \<noteq> HALF)"
proof (intro conjI)
  show "TimeIsLater earlier later = TimeIsLater_portable earlier later"
    unfolding TimeIsLater_diff TimeDiff_uint TimeIsLater_portable_def TimeIsBetween_HALF
    by (cases earlier later rule: u32_pair_cases) (auto simp: Let_def)
  have H: "later - earlier = HALF \<longleftrightarrow> \<bar>uint later - uint earlier\<bar> = 2147483648"
    unfolding word_uint_eq_iff uint_diff_u32 uint_HALF word_le_def
    by (cases earlier later rule: u32_pair_cases) auto
  show "TimeIsLaterOrEqual earlier later = (TimeIsLaterOrEqual_portable earlier later \<and> later - earlier \<noteq> HALF)"
    unfolding TimeIsLaterOrEqual_diff TimeDiff_uint TimeIsLaterOrEqual_portable_def TimeIsBetween_HALF H
    by (cases earlier later rule: u32_pair_cases) (auto simp: Let_def)
  have neg: "word_of_int (- uint (earlier - later)) = later - earlier" by (simp add: wi_hom_neg)
  show "TimeDiff later earlier = TimeDiff_portable later earlier"
    by (simp add: TimeDiff_portable_def wrapped_diff neg TimeDiff_def)
qed

end
