(* ===== verification/SrtpFilter.thy ===== *)
theory SrtpFilter
  imports Base64 RtpUtils OfferAnswer TimeUtils "HOL-Library.AList"
begin

unbundle bit_operations_syntax

text \<open>
  \<open>talk/session/media/srtpfilter.cc\<close> as built with \<open>HAVE_SRTP\<close>: \<open>SrtpFilter\<close>, the negotiation of
  SRTP keys by offer and answer, \<open>SrtpSession\<close>, which wraps one session of libsrtp, and \<open>SrtpStat\<close>,
  which throttles the error signals.  libsrtp is not part of the program: its functions are the fields
  of the parameter \<open>lib\<close>, with one more for a search whose result the language leaves open.  A \<open>scoped_ptr<SrtpSession>\<close> is an \<open>option\<close>; using a null one is the
  result \<open>None\<close> of the operations that do not check.
\<close>

subsection \<open>Crypto parameters\<close>

record crypto_params =
  cp_tag :: int
  cp_cipher_suite :: string
  cp_key_params :: "byte list"
  cp_session_params :: string

definition CryptoParams_new :: crypto_params where
  "CryptoParams_new = \<lparr>cp_tag = 0, cp_cipher_suite = [], cp_key_params = [], cp_session_params = []\<rparr>"

definition cp_Matches :: "crypto_params \<Rightarrow> crypto_params \<Rightarrow> bool" where
  "cp_Matches p params \<longleftrightarrow> cp_tag p = cp_tag params \<and> cp_cipher_suite p = cp_cipher_suite params"

definition CS_AES_CM_128_HMAC_SHA1_80 :: string where
  "CS_AES_CM_128_HMAC_SHA1_80 = ''AES_CM_128_HMAC_SHA1_80''"

definition CS_AES_CM_128_HMAC_SHA1_32 :: string where
  "CS_AES_CM_128_HMAC_SHA1_32 = ''AES_CM_128_HMAC_SHA1_32''"

definition SRTP_MASTER_KEY_LEN :: nat where "SRTP_MASTER_KEY_LEN = 30"


subsection \<open>Error statistics\<close>

datatype srtp_mode = PROTECT | UNPROTECT
datatype srtp_error = ERROR_NONE | ERROR_FAIL | ERROR_AUTH | ERROR_REPLAY

fun mode_rank :: "srtp_mode \<Rightarrow> nat" where
  "mode_rank PROTECT = 0"
| "mode_rank UNPROTECT = 1"

fun error_rank :: "srtp_error \<Rightarrow> nat" where
  "error_rank ERROR_NONE = 0"
| "error_rank ERROR_FAIL = 1"
| "error_rank ERROR_AUTH = 2"
| "error_rank ERROR_REPLAY = 3"

record failure_key =
  fk_ssrc :: u32
  fk_mode :: srtp_mode
  fk_error :: srtp_error

definition FailureKey_less :: "failure_key \<Rightarrow> failure_key \<Rightarrow> bool" where
  "FailureKey_less a key \<longleftrightarrow>
     fk_ssrc a < fk_ssrc key \<or> mode_rank (fk_mode a) < mode_rank (fk_mode key) \<or>
     error_rank (fk_error a) < error_rank (fk_error key)"

text \<open>
  \<open>operator<\<close> is not a strict weak order (\<open>FailureKey_less_not_asym\<close>), so where the search of a \<open>std::map\<close>
  ends is not defined.  It is a parameter, the index of an entry or none.  What the search can count on is that
  it takes an entry only if neither key is less than the other, and then the keys are equal
  (\<open>FailureKey_equiv\<close>); but it may miss an entry that is there.
\<close>

type_synonym map_search = "(failure_key \<times> u32) list \<Rightarrow> failure_key \<Rightarrow> nat option"

definition find_failure :: "map_search \<Rightarrow> (failure_key \<times> u32) list \<Rightarrow> failure_key \<Rightarrow> nat option" where
  "find_failure search fs key =
     (case search fs key of
        None \<Rightarrow> None
      | Some i \<Rightarrow>
          if i < length fs \<and> \<not> FailureKey_less (fst (fs ! i)) key \<and> \<not> FailureKey_less key (fst (fs ! i)) then Some i else None)"

text \<open>
  \<open>failures_\<close> holds the keys with their \<open>last_signal_time\<close>; \<open>operator[]\<close> inserts the time 0 for a key it does not
  find.  \<open>st_signals\<close> collects the signals.
\<close>

record srtp_stat =
  st_failures :: "(failure_key \<times> u32) list"
  st_silent_time :: u32
  st_signals :: "failure_key list"

definition SrtpStat_new :: srtp_stat where
  "SrtpStat_new = \<lparr>st_failures = [], st_silent_time = 1000, st_signals = []\<rparr>"

definition HandleSrtpResult :: "map_search \<Rightarrow> u32 \<Rightarrow> failure_key \<Rightarrow> srtp_stat \<Rightarrow> srtp_stat" where
  "HandleSrtpResult search now key st =
     (if fk_error key \<noteq> ERROR_NONE then
        let (fs, i) = (case find_failure search (st_failures st) key of
                         Some i \<Rightarrow> (st_failures st, i)
                       | None \<Rightarrow> (st_failures st @ [(key, 0)], length (st_failures st)));
            last_time = snd (fs ! i)
        in if last_time = 0 \<or> TimeDiff now last_time > sint (st_silent_time st)
           then st\<lparr>st_signals := st_signals st @ [key], st_failures := fs[i := (fst (fs ! i), now)]\<rparr>
           else st\<lparr>st_failures := fs\<rparr>
      else st)"

text \<open>The error codes of libsrtp the code tells apart.\<close>

datatype err_status = err_ok | err_auth_fail | err_replay_fail | err_replay_old | err_other nat

definition AddProtectRtpResult :: "map_search \<Rightarrow> u32 \<Rightarrow> u32 \<Rightarrow> err_status \<Rightarrow> srtp_stat \<Rightarrow> srtp_stat" where
  "AddProtectRtpResult search now ssrc result st =
     HandleSrtpResult search now
       \<lparr>fk_ssrc = ssrc, fk_mode = PROTECT,
        fk_error = (case result of err_ok \<Rightarrow> ERROR_NONE | err_auth_fail \<Rightarrow> ERROR_AUTH | _ \<Rightarrow> ERROR_FAIL)\<rparr> st"

definition AddUnprotectRtpResult :: "map_search \<Rightarrow> u32 \<Rightarrow> u32 \<Rightarrow> err_status \<Rightarrow> srtp_stat \<Rightarrow> srtp_stat" where
  "AddUnprotectRtpResult search now ssrc result st =
     HandleSrtpResult search now
       \<lparr>fk_ssrc = ssrc, fk_mode = UNPROTECT,
        fk_error = (case result of err_ok \<Rightarrow> ERROR_NONE | err_auth_fail \<Rightarrow> ERROR_AUTH
                    | err_replay_fail \<Rightarrow> ERROR_REPLAY | err_replay_old \<Rightarrow> ERROR_REPLAY | _ \<Rightarrow> ERROR_FAIL)\<rparr> st"

definition AddProtectRtcpResult :: "map_search \<Rightarrow> u32 \<Rightarrow> err_status \<Rightarrow> srtp_stat \<Rightarrow> srtp_stat" where
  "AddProtectRtcpResult search now result st = AddProtectRtpResult search now 0 result st"

definition AddUnprotectRtcpResult :: "map_search \<Rightarrow> u32 \<Rightarrow> err_status \<Rightarrow> srtp_stat \<Rightarrow> srtp_stat" where
  "AddUnprotectRtcpResult search now result st = AddUnprotectRtpResult search now 0 result st"


subsection \<open>Sessions\<close>

datatype ssrc_type = ssrc_any_outbound | ssrc_any_inbound

text \<open>The fields of \<open>srtp_policy_t\<close> the code sets; \<open>'p\<close> is libsrtp's \<open>crypto_policy_t\<close>.\<close>

record 'p srtp_policy =
  po_ssrc_type :: ssrc_type
  po_rtp :: 'p
  po_rtcp :: 'p
  po_key :: "byte list"
  po_window_size :: nat
  po_allow_repeat_tx :: bool

text \<open>
  libsrtp: \<open>'s\<close> is its session.  \<open>srtp_create\<close> returns the error and what \<open>session_\<close> then points to;
  the packet operations return the error, the packet of \<open>*out_len\<close> bytes and the session.  \<open>lib_find\<close> is the
  search of \<open>failures_\<close>.
\<close>

record ('s, 'p) srtp_lib =
  lib_init :: err_status
  lib_install_event_handler :: err_status
  lib_policy_80 :: 'p
  lib_policy_32 :: 'p
  lib_auth_tag_len :: "'p \<Rightarrow> nat"
  lib_create :: "'p srtp_policy \<Rightarrow> err_status \<times> 's option"
  lib_protect :: "'s \<Rightarrow> byte list \<Rightarrow> err_status \<times> byte list \<times> 's"
  lib_protect_rtcp :: "'s \<Rightarrow> byte list \<Rightarrow> err_status \<times> byte list \<times> 's"
  lib_unprotect :: "'s \<Rightarrow> byte list \<Rightarrow> err_status \<times> byte list \<times> 's"
  lib_unprotect_rtcp :: "'s \<Rightarrow> byte list \<Rightarrow> err_status \<times> byte list \<times> 's"
  lib_find :: map_search

text \<open>
  \<open>last_send_seq_num_\<close> is \<open>None\<close> when it was assigned from a variable that nothing had set.
\<close>

record 's srtp_session =
  se_session :: "'s option"
  se_rtp_auth_tag_len :: nat
  se_rtcp_auth_tag_len :: nat
  se_stat :: srtp_stat
  se_last_send_seq_num :: "int option"

definition SrtpSession_new :: "'s srtp_session" where
  "SrtpSession_new =
     \<lparr>se_session = None, se_rtp_auth_tag_len = 0, se_rtcp_auth_tag_len = 0, se_stat = SrtpStat_new,
      se_last_send_seq_num = Some (- 1)\<rparr>"

text \<open>\<open>inited\<close> is the static \<open>inited_\<close>.\<close>

definition srtp_Init :: "('s, 'p) srtp_lib \<Rightarrow> bool \<Rightarrow> bool \<times> bool" where
  "srtp_Init lib inited =
     (if \<not> inited then
        if lib_init lib \<noteq> err_ok then (False, inited)
        else if lib_install_event_handler lib \<noteq> err_ok then (False, inited)
        else (True, True)
      else (True, inited))"

definition SetKey ::
  "('s, 'p) srtp_lib \<Rightarrow> ssrc_type \<Rightarrow> string \<Rightarrow> byte list option \<Rightarrow> nat \<Rightarrow> bool \<Rightarrow> 's srtp_session \<Rightarrow> bool \<times> bool \<times> 's srtp_session" where
  "SetKey lib type cs key len inited se =
     (if se_session se \<noteq> None then (False, inited, se)
      else
        (case srtp_Init lib inited of (ok, inited) \<Rightarrow>
           if \<not> ok then (False, inited, se)
           else
             (case (if cs = CS_AES_CM_128_HMAC_SHA1_80 then Some (lib_policy_80 lib, lib_policy_80 lib)
                    else if cs = CS_AES_CM_128_HMAC_SHA1_32 then Some (lib_policy_32 lib, lib_policy_80 lib)
                    else None) of
                None \<Rightarrow> (False, inited, se)
              | Some (rtp, rtcp) \<Rightarrow>
                  (case key of
                     None \<Rightarrow> (False, inited, se)
                   | Some k \<Rightarrow>
                       if len \<noteq> SRTP_MASTER_KEY_LEN then (False, inited, se)
                       else
                         (case lib_create lib
                            \<lparr>po_ssrc_type = type, po_rtp = rtp, po_rtcp = rtcp, po_key = take len k,
                             po_window_size = 1024, po_allow_repeat_tx = True\<rparr> of
                            (err, session) \<Rightarrow>
                              if err \<noteq> err_ok then (False, inited, se\<lparr>se_session := session\<rparr>)
                              else
                                (True, inited,
                                 se\<lparr>se_session := session, se_rtp_auth_tag_len := lib_auth_tag_len lib rtp,
                                    se_rtcp_auth_tag_len := lib_auth_tag_len lib rtcp\<rparr>))))))"

definition SetSend ::
  "('s, 'p) srtp_lib \<Rightarrow> string \<Rightarrow> byte list option \<Rightarrow> nat \<Rightarrow> bool \<Rightarrow> 's srtp_session \<Rightarrow> bool \<times> bool \<times> 's srtp_session" where
  "SetSend lib cs key len inited se = SetKey lib ssrc_any_outbound cs key len inited se"

definition SetRecv ::
  "('s, 'p) srtp_lib \<Rightarrow> string \<Rightarrow> byte list option \<Rightarrow> nat \<Rightarrow> bool \<Rightarrow> 's srtp_session \<Rightarrow> bool \<times> bool \<times> 's srtp_session" where
  "SetRecv lib cs key len inited se = SetKey lib ssrc_any_inbound cs key len inited se"

text \<open>
  The packet operations.  \<open>p\<close> is the packet of \<open>in_len\<close> bytes, \<open>max_len\<close> the size of its buffer.  The
  result is the return value, the packet with its new length and the session.
\<close>

definition session_ProtectRtp ::
  "('s, 'p) srtp_lib \<Rightarrow> u32 \<Rightarrow> byte list \<Rightarrow> nat \<Rightarrow> 's srtp_session \<Rightarrow> bool \<times> byte list \<times> 's srtp_session" where
  "session_ProtectRtp lib now p max_len se =
     (case se_session se of
        None \<Rightarrow> (False, p, se)
      | Some s \<Rightarrow>
          let in_len = length p; need_len = in_len + se_rtp_auth_tag_len se in
          if max_len < need_len then (False, p, se)
          else
            (case lib_protect lib s p of (err, p', s') \<Rightarrow>
               let se = se\<lparr>se_session := Some s'\<rparr>;
                   se = (case GetRtpSsrc (Some p') in_len of
                           None \<Rightarrow> se
                         | Some ssrc \<Rightarrow> se\<lparr>se_stat := AddProtectRtpResult (lib_find lib) now ssrc err (se_stat se)\<rparr>);
                   seq_num = GetRtpSeqNum (Some p') in_len
               in if err \<noteq> err_ok then (False, p', se)
                  else (True, p', se\<lparr>se_last_send_seq_num := seq_num\<rparr>)))"

definition session_ProtectRtcp ::
  "('s, 'p) srtp_lib \<Rightarrow> u32 \<Rightarrow> byte list \<Rightarrow> nat \<Rightarrow> 's srtp_session \<Rightarrow> bool \<times> byte list \<times> 's srtp_session" where
  "session_ProtectRtcp lib now p max_len se =
     (case se_session se of
        None \<Rightarrow> (False, p, se)
      | Some s \<Rightarrow>
          let in_len = length p; need_len = in_len + 4 + se_rtcp_auth_tag_len se in
          if max_len < need_len then (False, p, se)
          else
            (case lib_protect_rtcp lib s p of (err, p', s') \<Rightarrow>
               let se = se\<lparr>se_session := Some s', se_stat := AddProtectRtcpResult (lib_find lib) now err (se_stat se)\<rparr>
               in if err \<noteq> err_ok then (False, p', se) else (True, p', se)))"

definition session_UnprotectRtp ::
  "('s, 'p) srtp_lib \<Rightarrow> u32 \<Rightarrow> byte list \<Rightarrow> 's srtp_session \<Rightarrow> bool \<times> byte list \<times> 's srtp_session" where
  "session_UnprotectRtp lib now p se =
     (case se_session se of
        None \<Rightarrow> (False, p, se)
      | Some s \<Rightarrow>
          let in_len = length p in
          (case lib_unprotect lib s p of (err, p', s') \<Rightarrow>
             let se = se\<lparr>se_session := Some s'\<rparr>;
                 se = (case GetRtpSsrc (Some p') in_len of
                         None \<Rightarrow> se
                       | Some ssrc \<Rightarrow> se\<lparr>se_stat := AddUnprotectRtpResult (lib_find lib) now ssrc err (se_stat se)\<rparr>)
             in if err \<noteq> err_ok then (False, p', se) else (True, p', se)))"

definition session_UnprotectRtcp ::
  "('s, 'p) srtp_lib \<Rightarrow> u32 \<Rightarrow> byte list \<Rightarrow> 's srtp_session \<Rightarrow> bool \<times> byte list \<times> 's srtp_session" where
  "session_UnprotectRtcp lib now p se =
     (case se_session se of
        None \<Rightarrow> (False, p, se)
      | Some s \<Rightarrow>
          (case lib_unprotect_rtcp lib s p of (err, p', s') \<Rightarrow>
             let se = se\<lparr>se_session := Some s', se_stat := AddUnprotectRtcpResult (lib_find lib) now err (se_stat se)\<rparr>
             in if err \<noteq> err_ok then (False, p', se) else (True, p', se)))"

definition session_set_signal_silent_time :: "u32 \<Rightarrow> 's srtp_session \<Rightarrow> 's srtp_session" where
  "session_set_signal_silent_time t se = se\<lparr>se_stat := (se_stat se)\<lparr>st_silent_time := t\<rparr>\<rparr>"


subsection \<open>The filter\<close>

datatype srtp_state =
  ST_INIT | ST_SENTOFFER | ST_RECEIVEDOFFER | ST_SENTPRANSWER_NO_CRYPTO | ST_RECEIVEDPRANSWER_NO_CRYPTO |
  ST_ACTIVE | ST_SENTUPDATEDOFFER | ST_RECEIVEDUPDATEDOFFER | ST_SENTPRANSWER | ST_RECEIVEDPRANSWER

fun srtp_rank :: "srtp_state \<Rightarrow> nat" where
  "srtp_rank ST_INIT = 0"
| "srtp_rank ST_SENTOFFER = 1"
| "srtp_rank ST_RECEIVEDOFFER = 2"
| "srtp_rank ST_SENTPRANSWER_NO_CRYPTO = 3"
| "srtp_rank ST_RECEIVEDPRANSWER_NO_CRYPTO = 4"
| "srtp_rank ST_ACTIVE = 5"
| "srtp_rank ST_SENTUPDATEDOFFER = 6"
| "srtp_rank ST_RECEIVEDUPDATEDOFFER = 7"
| "srtp_rank ST_SENTPRANSWER = 8"
| "srtp_rank ST_RECEIVEDPRANSWER = 9"

record 's srtp_filter =
  sf_state :: srtp_state
  sf_signal_silent_time :: u32
  sf_offer_params :: "crypto_params list"
  sf_send_session :: "'s srtp_session option"
  sf_recv_session :: "'s srtp_session option"
  sf_send_rtcp_session :: "'s srtp_session option"
  sf_recv_rtcp_session :: "'s srtp_session option"
  sf_applied_send_params :: crypto_params
  sf_applied_recv_params :: crypto_params
  sf_inited :: bool

definition SrtpFilter_new :: "bool \<Rightarrow> 's srtp_filter" where
  "SrtpFilter_new inited =
     \<lparr>sf_state = ST_INIT, sf_signal_silent_time = 0, sf_offer_params = [],
      sf_send_session = None, sf_recv_session = None, sf_send_rtcp_session = None, sf_recv_rtcp_session = None,
      sf_applied_send_params = CryptoParams_new, sf_applied_recv_params = CryptoParams_new, sf_inited = inited\<rparr>"

definition srtp_IsActive :: "'s srtp_filter \<Rightarrow> bool" where
  "srtp_IsActive f \<longleftrightarrow> srtp_rank (sf_state f) \<ge> srtp_rank ST_ACTIVE"

definition srtp_ExpectOffer :: "'s srtp_filter \<Rightarrow> content_source \<Rightarrow> bool" where
  "srtp_ExpectOffer f source \<longleftrightarrow>
     sf_state f = ST_INIT \<or>
     sf_state f = ST_ACTIVE \<or>
     sf_state f = ST_SENTOFFER \<and> source = CS_LOCAL \<or>
     sf_state f = ST_SENTUPDATEDOFFER \<and> source = CS_LOCAL \<or>
     sf_state f = ST_RECEIVEDOFFER \<and> source = CS_REMOTE \<or>
     sf_state f = ST_RECEIVEDUPDATEDOFFER \<and> source = CS_REMOTE"

definition StoreParams :: "crypto_params list \<Rightarrow> content_source \<Rightarrow> 's srtp_filter \<Rightarrow> bool \<times> 's srtp_filter" where
  "StoreParams params source f =
     (let f = f\<lparr>sf_offer_params := params\<rparr> in
      if sf_state f = ST_INIT then
        (True, f\<lparr>sf_state := (if source = CS_LOCAL then ST_SENTOFFER else ST_RECEIVEDOFFER)\<rparr>)
      else
        (True, f\<lparr>sf_state := (if source = CS_LOCAL then ST_SENTUPDATEDOFFER else ST_RECEIVEDUPDATEDOFFER)\<rparr>))"

definition srtp_SetOffer :: "crypto_params list \<Rightarrow> content_source \<Rightarrow> 's srtp_filter \<Rightarrow> bool \<times> 's srtp_filter" where
  "srtp_SetOffer offer_params source f =
     (if \<not> srtp_ExpectOffer f source then (False, f) else StoreParams offer_params source f)"

definition srtp_ExpectAnswer :: "'s srtp_filter \<Rightarrow> content_source \<Rightarrow> bool" where
  "srtp_ExpectAnswer f source \<longleftrightarrow>
     sf_state f = ST_SENTOFFER \<and> source = CS_REMOTE \<or>
     sf_state f = ST_RECEIVEDOFFER \<and> source = CS_LOCAL \<or>
     sf_state f = ST_SENTUPDATEDOFFER \<and> source = CS_REMOTE \<or>
     sf_state f = ST_RECEIVEDUPDATEDOFFER \<and> source = CS_LOCAL \<or>
     sf_state f = ST_SENTPRANSWER_NO_CRYPTO \<and> source = CS_LOCAL \<or>
     sf_state f = ST_SENTPRANSWER \<and> source = CS_LOCAL \<or>
     sf_state f = ST_RECEIVEDPRANSWER_NO_CRYPTO \<and> source = CS_REMOTE \<or>
     sf_state f = ST_RECEIVEDPRANSWER \<and> source = CS_REMOTE"

definition CreateSrtpSessions :: "'s srtp_filter \<Rightarrow> 's srtp_filter" where
  "CreateSrtpSessions f =
     f\<lparr>sf_send_session := Some (session_set_signal_silent_time (sf_signal_silent_time f) SrtpSession_new),
       sf_applied_send_params := CryptoParams_new,
       sf_recv_session := Some (session_set_signal_silent_time (sf_signal_silent_time f) SrtpSession_new),
       sf_applied_recv_params := CryptoParams_new\<rparr>"

definition NegotiateParams :: "crypto_params list \<Rightarrow> 's srtp_filter \<Rightarrow> crypto_params option" where
  "NegotiateParams answer_params f =
     (if length answer_params = 1 \<and> sf_offer_params f \<noteq> []
      then find (cp_Matches (answer_params ! 0)) (sf_offer_params f)
      else None)"

definition key_inline :: "byte list" where
  "key_inline = [105, 110, 108, 105, 110, 101, 58]"

definition ParseKeyParams :: "byte list \<Rightarrow> nat \<Rightarrow> byte list option" where
  "ParseKeyParams key_params len =
     (if take 7 key_params \<noteq> key_inline then None
      else
        (case base64_Decode (drop 7 key_params) DO_STRICT of (ok, key_str, used) \<Rightarrow>
           if \<not> ok \<or> length key_str \<noteq> len then None else Some key_str))"

text \<open>
  Keying both sessions: \<open>SetSend\<close> on the one, and if that succeeds \<open>SetRecv\<close> on the other.
\<close>

definition key_sessions ::
  "('s, 'p) srtp_lib \<Rightarrow> string \<Rightarrow> byte list option \<Rightarrow> nat \<Rightarrow> string \<Rightarrow> byte list option \<Rightarrow> nat \<Rightarrow> 's srtp_filter \<Rightarrow> (bool \<times> 's srtp_filter) option" where
  "key_sessions lib send_cs send_key send_len recv_cs recv_key recv_len f =
     (case sf_send_session f of
        None \<Rightarrow> None
      | Some se \<Rightarrow>
          (case SetSend lib send_cs send_key send_len (sf_inited f) se of (ok, inited, se') \<Rightarrow>
             let f = f\<lparr>sf_send_session := Some se', sf_inited := inited\<rparr> in
             if \<not> ok then Some (False, f)
             else
               (case sf_recv_session f of
                  None \<Rightarrow> None
                | Some re \<Rightarrow>
                    (case SetRecv lib recv_cs recv_key recv_len (sf_inited f) re of (ok, inited, re') \<Rightarrow>
                       Some (ok, f\<lparr>sf_recv_session := Some re', sf_inited := inited\<rparr>)))))"

definition same_keys :: "crypto_params \<Rightarrow> crypto_params \<Rightarrow> bool" where
  "same_keys a b \<longleftrightarrow> cp_cipher_suite a = cp_cipher_suite b \<and> cp_key_params a = cp_key_params b"

definition ApplyParams ::
  "('s, 'p) srtp_lib \<Rightarrow> crypto_params \<Rightarrow> crypto_params \<Rightarrow> 's srtp_filter \<Rightarrow> (bool \<times> 's srtp_filter) option" where
  "ApplyParams lib send_params recv_params f =
     (if same_keys (sf_applied_send_params f) send_params \<and> same_keys (sf_applied_recv_params f) recv_params
      then Some (True, f)
      else
        (case ParseKeyParams (cp_key_params send_params) SRTP_MASTER_KEY_LEN of
           None \<Rightarrow> Some (False, f)
         | Some send_key \<Rightarrow>
             (case ParseKeyParams (cp_key_params recv_params) SRTP_MASTER_KEY_LEN of
                None \<Rightarrow> Some (False, f)
              | Some recv_key \<Rightarrow>
                  (case key_sessions lib (cp_cipher_suite send_params) (Some send_key) SRTP_MASTER_KEY_LEN
                          (cp_cipher_suite recv_params) (Some recv_key) SRTP_MASTER_KEY_LEN (CreateSrtpSessions f) of
                     None \<Rightarrow> None
                   | Some (ok, f) \<Rightarrow>
                       if ok
                       then Some (True, f\<lparr>sf_applied_send_params := send_params, sf_applied_recv_params := recv_params\<rparr>)
                       else Some (False, f)))))"

definition ResetParams :: "'s srtp_filter \<Rightarrow> bool \<times> 's srtp_filter" where
  "ResetParams f = (True, f\<lparr>sf_offer_params := [], sf_state := ST_INIT\<rparr>)"

definition DoSetAnswer ::
  "('s, 'p) srtp_lib \<Rightarrow> crypto_params list \<Rightarrow> content_source \<Rightarrow> bool \<Rightarrow> 's srtp_filter \<Rightarrow> (bool \<times> 's srtp_filter) option" where
  "DoSetAnswer lib answer_params source final f =
     (if \<not> srtp_ExpectAnswer f source then Some (False, f)
      else if answer_params = [] then
        if final then Some (ResetParams f)
        else
          Some (True, f\<lparr>sf_state := (if source = CS_LOCAL then ST_SENTPRANSWER_NO_CRYPTO
                                     else ST_RECEIVEDPRANSWER_NO_CRYPTO)\<rparr>)
      else
        (case NegotiateParams answer_params f of
           None \<Rightarrow> Some (False, f)
         | Some selected_params \<Rightarrow>
             let send_params = (if source = CS_REMOTE then selected_params else answer_params ! 0);
                 recv_params = (if source = CS_REMOTE then answer_params ! 0 else selected_params)
             in (case ApplyParams lib send_params recv_params f of
                   None \<Rightarrow> None
                 | Some (ok, f) \<Rightarrow>
                     if \<not> ok then Some (False, f)
                     else if final then Some (True, f\<lparr>sf_offer_params := [], sf_state := ST_ACTIVE\<rparr>)
                     else
                       Some (True, f\<lparr>sf_state := (if source = CS_LOCAL then ST_SENTPRANSWER else ST_RECEIVEDPRANSWER)\<rparr>))))"

definition srtp_SetAnswer ::
  "('s, 'p) srtp_lib \<Rightarrow> crypto_params list \<Rightarrow> content_source \<Rightarrow> 's srtp_filter \<Rightarrow> (bool \<times> 's srtp_filter) option" where
  "srtp_SetAnswer lib answer_params source f = DoSetAnswer lib answer_params source True f"

definition srtp_SetProvisionalAnswer ::
  "('s, 'p) srtp_lib \<Rightarrow> crypto_params list \<Rightarrow> content_source \<Rightarrow> 's srtp_filter \<Rightarrow> (bool \<times> 's srtp_filter) option" where
  "srtp_SetProvisionalAnswer lib answer_params source f = DoSetAnswer lib answer_params source False f"

definition SetRtpParams ::
  "('s, 'p) srtp_lib \<Rightarrow> string \<Rightarrow> byte list option \<Rightarrow> nat \<Rightarrow> string \<Rightarrow> byte list option \<Rightarrow> nat \<Rightarrow> 's srtp_filter \<Rightarrow> (bool \<times> 's srtp_filter) option" where
  "SetRtpParams lib send_cs send_key send_key_len recv_cs recv_key recv_key_len f =
     (if sf_state f = ST_ACTIVE then Some (False, f)
      else
        (case key_sessions lib send_cs send_key send_key_len recv_cs recv_key recv_key_len (CreateSrtpSessions f) of
           None \<Rightarrow> None
         | Some (ok, f) \<Rightarrow> if ok then Some (True, f\<lparr>sf_state := ST_ACTIVE\<rparr>) else Some (False, f)))"

text \<open>\<open>SetRtcpParams\<close> calls \<open>SetRecv\<close> on both sessions.\<close>

definition SetRtcpParams ::
  "('s, 'p) srtp_lib \<Rightarrow> string \<Rightarrow> byte list option \<Rightarrow> nat \<Rightarrow> string \<Rightarrow> byte list option \<Rightarrow> nat \<Rightarrow> 's srtp_filter \<Rightarrow> bool \<times> 's srtp_filter" where
  "SetRtcpParams lib send_cs send_key send_key_len recv_cs recv_key recv_key_len f =
     (if sf_send_rtcp_session f \<noteq> None \<or> sf_recv_rtcp_session f \<noteq> None then (False, f)
      else
        (case SetRecv lib send_cs send_key send_key_len (sf_inited f)
                (session_set_signal_silent_time (sf_signal_silent_time f) SrtpSession_new) of
           (ok, inited, se) \<Rightarrow>
             let f = f\<lparr>sf_send_rtcp_session := Some se, sf_inited := inited\<rparr> in
             if \<not> ok then (False, f)
             else
               (case SetRecv lib recv_cs recv_key recv_key_len (sf_inited f)
                       (session_set_signal_silent_time (sf_signal_silent_time f) SrtpSession_new) of
                  (ok, inited, re) \<Rightarrow> (ok, f\<lparr>sf_recv_rtcp_session := Some re, sf_inited := inited\<rparr>))))"

text \<open>The packet operations: \<open>None\<close> is the use of a null session.\<close>

definition srtp_ProtectRtp ::
  "('s, 'p) srtp_lib \<Rightarrow> u32 \<Rightarrow> byte list \<Rightarrow> nat \<Rightarrow> 's srtp_filter \<Rightarrow> (bool \<times> byte list \<times> 's srtp_filter) option" where
  "srtp_ProtectRtp lib now p max_len f =
     (if \<not> srtp_IsActive f then Some (False, p, f)
      else
        (case sf_send_session f of
           None \<Rightarrow> None
         | Some se \<Rightarrow>
             (case session_ProtectRtp lib now p max_len se of
                (ok, p', se') \<Rightarrow> Some (ok, p', f\<lparr>sf_send_session := Some se'\<rparr>))))"

definition srtp_ProtectRtcp ::
  "('s, 'p) srtp_lib \<Rightarrow> u32 \<Rightarrow> byte list \<Rightarrow> nat \<Rightarrow> 's srtp_filter \<Rightarrow> (bool \<times> byte list \<times> 's srtp_filter) option" where
  "srtp_ProtectRtcp lib now p max_len f =
     (if \<not> srtp_IsActive f then Some (False, p, f)
      else
        (case sf_send_rtcp_session f of
           Some se \<Rightarrow>
             (case session_ProtectRtcp lib now p max_len se of
                (ok, p', se') \<Rightarrow> Some (ok, p', f\<lparr>sf_send_rtcp_session := Some se'\<rparr>))
         | None \<Rightarrow>
             (case sf_send_session f of
                None \<Rightarrow> None
              | Some se \<Rightarrow>
                  (case session_ProtectRtcp lib now p max_len se of
                     (ok, p', se') \<Rightarrow> Some (ok, p', f\<lparr>sf_send_session := Some se'\<rparr>)))))"

definition srtp_UnprotectRtp ::
  "('s, 'p) srtp_lib \<Rightarrow> u32 \<Rightarrow> byte list \<Rightarrow> 's srtp_filter \<Rightarrow> (bool \<times> byte list \<times> 's srtp_filter) option" where
  "srtp_UnprotectRtp lib now p f =
     (if \<not> srtp_IsActive f then Some (False, p, f)
      else
        (case sf_recv_session f of
           None \<Rightarrow> None
         | Some se \<Rightarrow>
             (case session_UnprotectRtp lib now p se of
                (ok, p', se') \<Rightarrow> Some (ok, p', f\<lparr>sf_recv_session := Some se'\<rparr>))))"

definition srtp_UnprotectRtcp ::
  "('s, 'p) srtp_lib \<Rightarrow> u32 \<Rightarrow> byte list \<Rightarrow> 's srtp_filter \<Rightarrow> (bool \<times> byte list \<times> 's srtp_filter) option" where
  "srtp_UnprotectRtcp lib now p f =
     (if \<not> srtp_IsActive f then Some (False, p, f)
      else
        (case sf_recv_rtcp_session f of
           Some se \<Rightarrow>
             (case session_UnprotectRtcp lib now p se of
                (ok, p', se') \<Rightarrow> Some (ok, p', f\<lparr>sf_recv_rtcp_session := Some se'\<rparr>))
         | None \<Rightarrow>
             (case sf_recv_session f of
                None \<Rightarrow> None
              | Some se \<Rightarrow>
                  (case session_UnprotectRtcp lib now p se of
                     (ok, p', se') \<Rightarrow> Some (ok, p', f\<lparr>sf_recv_session := Some se'\<rparr>)))))"

definition srtp_set_signal_silent_time :: "u32 \<Rightarrow> 's srtp_filter \<Rightarrow> 's srtp_filter option" where
  "srtp_set_signal_silent_time t f =
     (let f = f\<lparr>sf_signal_silent_time := t\<rparr> in
      if sf_state f = ST_ACTIVE then
        (case (sf_send_session f, sf_recv_session f) of
           (Some se, Some re) \<Rightarrow>
             Some (f\<lparr>sf_send_session := Some (session_set_signal_silent_time t se),
                     sf_recv_session := Some (session_set_signal_silent_time t re),
                     sf_send_rtcp_session := map_option (session_set_signal_silent_time t) (sf_send_rtcp_session f),
                     sf_recv_rtcp_session := map_option (session_set_signal_silent_time t) (sf_recv_rtcp_session f)\<rparr>)
         | _ \<Rightarrow> None)
      else Some f)"


subsection \<open>Keying\<close>

definition policy_for :: "('s, 'p) srtp_lib \<Rightarrow> ssrc_type \<Rightarrow> string \<Rightarrow> byte list \<Rightarrow> 'p srtp_policy option" where
  "policy_for lib type cs k =
     (case (if cs = CS_AES_CM_128_HMAC_SHA1_80 then Some (lib_policy_80 lib)
            else if cs = CS_AES_CM_128_HMAC_SHA1_32 then Some (lib_policy_32 lib) else None) of
        None \<Rightarrow> None
      | Some rtp \<Rightarrow>
          Some \<lparr>po_ssrc_type = type, po_rtp = rtp, po_rtcp = lib_policy_80 lib, po_key = k,
                po_window_size = 1024, po_allow_repeat_tx = True\<rparr>)"

text \<open>A session that libsrtp created for a direction, a cipher suite and a key.\<close>

definition keyed :: "('s, 'p) srtp_lib \<Rightarrow> ssrc_type \<Rightarrow> string \<Rightarrow> byte list \<Rightarrow> 's srtp_session \<Rightarrow> bool" where
  "keyed lib type cs k se \<longleftrightarrow>
     (case policy_for lib type cs k of None \<Rightarrow> False | Some pol \<Rightarrow> lib_create lib pol = (err_ok, se_session se))"

lemma SetKey_keyed:
  assumes "SetKey lib type cs (Some k) len inited se = (True, inited', se')" and "length k = SRTP_MASTER_KEY_LEN"
  shows "len = SRTP_MASTER_KEY_LEN \<and> keyed lib type cs k se'"
  using assms
  by (auto simp: SetKey_def keyed_def policy_for_def split: if_splits option.splits prod.splits)

lemma ParseKeyParams_length: "ParseKeyParams kp len = Some k \<Longrightarrow> length k = len"
  by (auto simp: ParseKeyParams_def split: if_splits prod.splits)

lemma key_sessions_total:
  "sf_send_session f \<noteq> None \<Longrightarrow> sf_recv_session f \<noteq> None \<Longrightarrow>
     \<exists>ok f'. key_sessions lib scs sk sl rcs rk rl f = Some (ok, f') \<and> sf_send_session f' \<noteq> None \<and> sf_recv_session f' \<noteq> None \<and>
       sf_state f' = sf_state f \<and> sf_offer_params f' = sf_offer_params f \<and>
       sf_applied_send_params f' = sf_applied_send_params f \<and> sf_applied_recv_params f' = sf_applied_recv_params f"
  by (auto simp: key_sessions_def Let_def split: option.splits prod.splits if_splits)

lemma key_sessions_keyed:
  assumes "key_sessions lib scs (Some sk) sl rcs (Some rk) rl f = Some (True, f')"
    and "length sk = SRTP_MASTER_KEY_LEN" and "length rk = SRTP_MASTER_KEY_LEN"
  shows "\<exists>se re. sf_send_session f' = Some se \<and> sf_recv_session f' = Some re \<and>
    keyed lib ssrc_any_outbound scs sk se \<and> keyed lib ssrc_any_inbound rcs rk re"
  using assms SetKey_keyed
  by (fastforce simp: key_sessions_def SetSend_def SetRecv_def Let_def split: option.splits prod.splits if_splits)

lemma CreateSrtpSessions_fields [simp]:
  "sf_send_session (CreateSrtpSessions f) \<noteq> None" "sf_recv_session (CreateSrtpSessions f) \<noteq> None"
  "sf_state (CreateSrtpSessions f) = sf_state f" "sf_offer_params (CreateSrtpSessions f) = sf_offer_params f"
  "sf_applied_send_params (CreateSrtpSessions f) = CryptoParams_new"
  "sf_applied_recv_params (CreateSrtpSessions f) = CryptoParams_new"
  by (simp_all add: CreateSrtpSessions_def)

text \<open>What \<open>ApplyParams\<close> does, in the three ways it can end.\<close>

lemma ApplyParams_cases:
  obtains (same) "ApplyParams lib spar rpar f = Some (True, f)"
      "same_keys (sf_applied_send_params f) spar" "same_keys (sf_applied_recv_params f) rpar"
  | (applied) f' sk rk se re where "ApplyParams lib spar rpar f = Some (True, f')"
      "\<not> (same_keys (sf_applied_send_params f) spar \<and> same_keys (sf_applied_recv_params f) rpar)"
      "ParseKeyParams (cp_key_params spar) SRTP_MASTER_KEY_LEN = Some sk" "ParseKeyParams (cp_key_params rpar) SRTP_MASTER_KEY_LEN = Some rk"
      "sf_send_session f' = Some se" "sf_recv_session f' = Some re"
      "keyed lib ssrc_any_outbound (cp_cipher_suite spar) sk se" "keyed lib ssrc_any_inbound (cp_cipher_suite rpar) rk re"
      "sf_applied_send_params f' = spar" "sf_applied_recv_params f' = rpar"
      "sf_state f' = sf_state f" "sf_offer_params f' = sf_offer_params f"
  | (failed) f' where "ApplyParams lib spar rpar f = Some (False, f')" "sf_state f' = sf_state f" "sf_offer_params f' = sf_offer_params f"
      "f' = f \<or> sf_send_session f' \<noteq> None \<and> sf_recv_session f' \<noteq> None \<and>
         sf_applied_send_params f' = CryptoParams_new \<and> sf_applied_recv_params f' = CryptoParams_new"
proof (cases "same_keys (sf_applied_send_params f) spar \<and> same_keys (sf_applied_recv_params f) rpar")
  case True
  then show thesis using same by (simp add: ApplyParams_def)
next
  case False
  show thesis
  proof (cases "ParseKeyParams (cp_key_params spar) SRTP_MASTER_KEY_LEN = None \<or> ParseKeyParams (cp_key_params rpar) SRTP_MASTER_KEY_LEN = None")
    case True
    then have "ApplyParams lib spar rpar f = Some (False, f)" using False by (auto simp: ApplyParams_def split: option.splits)
    then show thesis using failed by blast
  next
    case p: False
    then obtain sk rk where k: "ParseKeyParams (cp_key_params spar) SRTP_MASTER_KEY_LEN = Some sk"
      "ParseKeyParams (cp_key_params rpar) SRTP_MASTER_KEY_LEN = Some rk" by auto
    obtain ok f1 where ks: "key_sessions lib (cp_cipher_suite spar) (Some sk) SRTP_MASTER_KEY_LEN (cp_cipher_suite rpar) (Some rk)
        SRTP_MASTER_KEY_LEN (CreateSrtpSessions f) = Some (ok, f1)" "sf_send_session f1 \<noteq> None" "sf_recv_session f1 \<noteq> None"
      "sf_state f1 = sf_state f" "sf_offer_params f1 = sf_offer_params f"
      "sf_applied_send_params f1 = CryptoParams_new" "sf_applied_recv_params f1 = CryptoParams_new"
      using key_sessions_total [of "CreateSrtpSessions f"] by (metis CreateSrtpSessions_fields)
    show thesis
    proof (cases ok)
      case True
      then have ks1: "key_sessions lib (cp_cipher_suite spar) (Some sk) SRTP_MASTER_KEY_LEN (cp_cipher_suite rpar) (Some rk)
          SRTP_MASTER_KEY_LEN (CreateSrtpSessions f) = Some (True, f1)" using ks(1) by simp
      have a: "ApplyParams lib spar rpar f = Some (True, f1\<lparr>sf_applied_send_params := spar, sf_applied_recv_params := rpar\<rparr>)"
        using False by (auto simp: ApplyParams_def k ks(1) True)
      obtain se re where "sf_send_session f1 = Some se" "sf_recv_session f1 = Some re"
        "keyed lib ssrc_any_outbound (cp_cipher_suite spar) sk se" "keyed lib ssrc_any_inbound (cp_cipher_suite rpar) rk re"
        using key_sessions_keyed [OF ks1 ParseKeyParams_length [OF k(1)] ParseKeyParams_length [OF k(2)]] by blast
      then show thesis using applied [OF a False k] ks(4,5) by simp
    next
      case nok: False
      have "ApplyParams lib spar rpar f = Some (False, f1)" using False by (auto simp: ApplyParams_def k ks(1) nok)
      then show thesis using failed ks(2-7) by blast
    qed
  qed
qed


subsection \<open>Negotiation between two ends\<close>

datatype srtp_op =
  SrtpOffer "crypto_params list" content_source | SrtpPrAnswer "crypto_params list" content_source |
  SrtpAnswer "crypto_params list" content_source

fun srtp_flip :: "srtp_op \<Rightarrow> srtp_op" where
  "srtp_flip (SrtpOffer ps src) = SrtpOffer ps (flip_source src)"
| "srtp_flip (SrtpPrAnswer ps src) = SrtpPrAnswer ps (flip_source src)"
| "srtp_flip (SrtpAnswer ps src) = SrtpAnswer ps (flip_source src)"

lemma DoSetAnswer_total: "DoSetAnswer lib ps src final f \<noteq> None"
proof -
  have "ApplyParams lib a b f \<noteq> None" for a b by (rule ApplyParams_cases [of lib a b f]) simp_all
  then have "ApplyParams lib a b f = None \<Longrightarrow> False" for a b by blast
  then show ?thesis
    by (auto simp: DoSetAnswer_def Let_def split: option.splits)
qed

lemma the_DoSetAnswer: "the (DoSetAnswer lib ps src final f) = r \<longleftrightarrow> DoSetAnswer lib ps src final f = Some r"
  using DoSetAnswer_total [of lib ps src final f] by (cases "DoSetAnswer lib ps src final f") simp_all

text \<open>No answer uses a null session (\<open>DoSetAnswer_total\<close>), so the value is always there.\<close>

fun srtp_step :: "('s, 'p) srtp_lib \<Rightarrow> srtp_op \<Rightarrow> 's srtp_filter \<Rightarrow> bool \<times> 's srtp_filter" where
  "srtp_step lib (SrtpOffer ps src) f = srtp_SetOffer ps src f"
| "srtp_step lib (SrtpPrAnswer ps src) f = the (srtp_SetProvisionalAnswer lib ps src f)"
| "srtp_step lib (SrtpAnswer ps src) f = the (srtp_SetAnswer lib ps src f)"

fun srtp_mirror :: "srtp_state \<Rightarrow> srtp_state" where
  "srtp_mirror ST_SENTOFFER = ST_RECEIVEDOFFER"
| "srtp_mirror ST_RECEIVEDOFFER = ST_SENTOFFER"
| "srtp_mirror ST_SENTPRANSWER_NO_CRYPTO = ST_RECEIVEDPRANSWER_NO_CRYPTO"
| "srtp_mirror ST_RECEIVEDPRANSWER_NO_CRYPTO = ST_SENTPRANSWER_NO_CRYPTO"
| "srtp_mirror ST_SENTUPDATEDOFFER = ST_RECEIVEDUPDATEDOFFER"
| "srtp_mirror ST_RECEIVEDUPDATEDOFFER = ST_SENTUPDATEDOFFER"
| "srtp_mirror ST_SENTPRANSWER = ST_RECEIVEDPRANSWER"
| "srtp_mirror ST_RECEIVEDPRANSWER = ST_SENTPRANSWER"
| "srtp_mirror s = s"

text \<open>A sending session and the receiving session at the other end: neither is there, or both have one suite and one key.\<close>

definition session_pair :: "('s, 'p) srtp_lib \<Rightarrow> 's srtp_session option \<Rightarrow> 's srtp_session option \<Rightarrow> bool" where
  "session_pair lib snd_se rcv_se \<longleftrightarrow>
     snd_se = None \<and> rcv_se = None \<or>
     (\<exists>se re cs k. snd_se = Some se \<and> rcv_se = Some re \<and>
        keyed lib ssrc_any_outbound cs k se \<and> keyed lib ssrc_any_inbound cs k re)"

definition srtp_peer :: "('s, 'p) srtp_lib \<Rightarrow> 's srtp_filter \<Rightarrow> 's srtp_filter \<Rightarrow> bool" where
  "srtp_peer lib a b \<longleftrightarrow>
     sf_state b = srtp_mirror (sf_state a) \<and> sf_offer_params b = sf_offer_params a \<and>
     sf_applied_send_params b = sf_applied_recv_params a \<and> sf_applied_recv_params b = sf_applied_send_params a \<and>
     session_pair lib (sf_send_session a) (sf_recv_session b) \<and> session_pair lib (sf_send_session b) (sf_recv_session a)"

lemma srtp_mirror_simps [simp]:
  "(srtp_mirror s = ST_INIT) = (s = ST_INIT)" "(srtp_mirror s = ST_ACTIVE) = (s = ST_ACTIVE)"
  "(srtp_mirror s = ST_SENTOFFER) = (s = ST_RECEIVEDOFFER)" "(srtp_mirror s = ST_RECEIVEDOFFER) = (s = ST_SENTOFFER)"
  by (cases s; simp)+

lemma srtp_mirror_rank: "srtp_rank (srtp_mirror s) \<ge> 5 \<longleftrightarrow> srtp_rank s \<ge> 5"
  by (cases s) simp_all

lemma ApplyParams_peer:
  assumes "srtp_peer lib a b" and "ApplyParams lib p q a = Some (True, a')" and "ApplyParams lib q p b = Some (True, b')"
  shows "srtp_peer lib a' b' \<and> sf_state a' = sf_state a \<and> sf_state b' = sf_state b"
proof -
  have eq: "same_keys (sf_applied_send_params b) q \<and> same_keys (sf_applied_recv_params b) p \<longleftrightarrow>
      same_keys (sf_applied_send_params a) p \<and> same_keys (sf_applied_recv_params a) q"
    using assms(1) by (auto simp: srtp_peer_def)
  show ?thesis
  proof (cases rule: ApplyParams_cases [of lib p q a])
    case same
    then have "ApplyParams lib q p b = Some (True, b)" using eq by (simp add: ApplyParams_def)
    then show ?thesis using same(1) assms by simp
  next
    case (applied f1 sk rk se re)
    show ?thesis
    proof (cases rule: ApplyParams_cases [of lib q p b])
      case same
      then show ?thesis using applied(2) eq by blast
    next
      case b: (applied f2 sk2 rk2 se2 re2)
      have "f1 = a'" "f2 = b'" "sk2 = rk" "rk2 = sk" using applied(1,3,4) b(1,3,4) assms(2,3) by auto
      then show ?thesis
        using applied(5-) b(5-) assms(1) by (auto simp: srtp_peer_def session_pair_def)
    next
      case (failed f2)
      then show ?thesis using assms(3) by simp
    qed
  next
    case (failed f1)
    then show ?thesis using assms(2) by simp
  qed
qed

lemma NegotiateParams_peer: "srtp_peer lib a b \<Longrightarrow> NegotiateParams ps b = NegotiateParams ps a"
  by (simp add: NegotiateParams_def srtp_peer_def)

lemma DoSetAnswer_peer:
  assumes "srtp_peer lib a b" and "DoSetAnswer lib ps src final a = Some (True, a')"
    and "DoSetAnswer lib ps (flip_source src) final b = Some (True, b')"
  shows "srtp_peer lib a' b'"
proof (cases "ps = []")
  case True
  then show ?thesis using assms
    by (cases src) (auto simp: DoSetAnswer_def ResetParams_def srtp_peer_def split: if_splits)
next
  case False
  obtain sel where sel: "NegotiateParams ps a = Some sel" "NegotiateParams ps b = Some sel"
    using assms(2) False NegotiateParams_peer [OF assms(1)] by (auto simp: DoSetAnswer_def split: if_splits option.splits)
  define p where "p = (if src = CS_REMOTE then sel else ps ! 0)"
  define q where "q = (if src = CS_REMOTE then ps ! 0 else sel)"
  have fl: "(if flip_source src = CS_REMOTE then sel else ps ! 0) = q" "(if flip_source src = CS_REMOTE then ps ! 0 else sel) = p"
    by (cases src; simp add: p_def q_def)+
  obtain a1 where a: "ApplyParams lib p q a = Some (True, a1)"
    "a' = (if final then a1\<lparr>sf_offer_params := [], sf_state := ST_ACTIVE\<rparr>
       else a1\<lparr>sf_state := (if src = CS_LOCAL then ST_SENTPRANSWER else ST_RECEIVEDPRANSWER)\<rparr>)"
    using assms(2) False sel(1)
    by (auto simp: DoSetAnswer_def p_def [symmetric] q_def [symmetric] Let_def split: if_splits option.splits)
  obtain b1 where b: "ApplyParams lib q p b = Some (True, b1)"
    "b' = (if final then b1\<lparr>sf_offer_params := [], sf_state := ST_ACTIVE\<rparr>
       else b1\<lparr>sf_state := (if flip_source src = CS_LOCAL then ST_SENTPRANSWER else ST_RECEIVEDPRANSWER)\<rparr>)"
    using assms(3) False sel(2)
    by (auto simp: DoSetAnswer_def fl Let_def split: if_splits option.splits)
  have "srtp_peer lib a1 b1" using ApplyParams_peer [OF assms(1) a(1) b(1)] by blast
  then show ?thesis by (cases src; cases final) (simp_all add: srtp_peer_def a(2) b(2))
qed

interpretation srtp_peers: negotiating_peers "srtp_step lib" srtp_flip "srtp_peer lib"
  for lib :: "('s, 'p) srtp_lib"
proof
  fix a b a' b' :: "'s srtp_filter" and x
  assume p: "srtp_peer lib a b" and s: "srtp_step lib x a = (True, a')" "srtp_step lib (srtp_flip x) b = (True, b')"
  show "srtp_peer lib a' b'"
  proof (cases x)
    case (SrtpOffer ps src)
    then show ?thesis
      using p s by (cases src) (auto simp: srtp_SetOffer_def StoreParams_def srtp_peer_def Let_def split: if_splits)
  next
    case (SrtpPrAnswer ps src)
    then show ?thesis using p s DoSetAnswer_peer [of lib a b ps src False]
      by (simp add: srtp_SetProvisionalAnswer_def the_DoSetAnswer)
  next
    case (SrtpAnswer ps src)
    then show ?thesis using p s DoSetAnswer_peer [of lib a b ps src True]
      by (simp add: srtp_SetAnswer_def the_DoSetAnswer)
  qed
qed

text \<open>
  C10: after any exchange of offers, provisional and final answers that both ends accept, the two ends
  agree on whether SRTP is active, and what one end sends with is what the other receives with: the
  sending session of each and the receiving session of the other were created with one cipher suite
  and one master key.
\<close>

theorem srtp_peers_share_keys:
  assumes "run_filter (srtp_step lib) ops (SrtpFilter_new i) = (oks, a)"
    and "run_filter (srtp_step lib) (map srtp_flip ops) (SrtpFilter_new j) = (oks', b)"
    and "False \<notin> set oks" and "False \<notin> set oks'"
  shows "srtp_IsActive a = srtp_IsActive b \<and> session_pair lib (sf_send_session a) (sf_recv_session b) \<and>
    session_pair lib (sf_send_session b) (sf_recv_session a)"
proof -
  have "srtp_peer lib (SrtpFilter_new i) (SrtpFilter_new j)"
    by (simp add: srtp_peer_def SrtpFilter_new_def session_pair_def)
  from srtp_peers.run_peer [OF this assms] show ?thesis
    by (simp add: srtp_peer_def srtp_IsActive_def srtp_mirror_rank)
qed


subsection \<open>Key parameters\<close>

lemma ParseKeyParams_iff:
  "ParseKeyParams kp n = Some k \<longleftrightarrow> kp = key_inline @ base64_Encode k \<and> length k = n"
proof -
  have l: "length key_inline = 7" by (simp add: key_inline_def)
  have d: "base64_Decode s DO_STRICT = (True, k, u) \<longleftrightarrow> s = base64_Encode k \<and> u = length s" for s u
    using strict_decode_iff [of s k] strict_decode_length [of s k u] by auto
  have split: "kp = key_inline @ drop 7 kp \<longleftrightarrow> take 7 kp = key_inline"
    by (metis append_eq_conv_conj append_take_drop_id l)
  show ?thesis
  proof
    assume "ParseKeyParams kp n = Some k"
    then obtain u where "take 7 kp = key_inline" "base64_Decode (drop 7 kp) DO_STRICT = (True, k, u)" "length k = n"
      by (auto simp: ParseKeyParams_def split: if_splits prod.splits)
    then show "kp = key_inline @ base64_Encode k \<and> length k = n" using d split by auto
  next
    assume "kp = key_inline @ base64_Encode k \<and> length k = n"
    then show "ParseKeyParams kp n = Some k"
      using d [of "base64_Encode k" "length (base64_Encode k)"] l by (simp add: ParseKeyParams_def)
  qed
qed


text \<open>While no packet has been handled, the sessions are those of the parameters last applied.\<close>

definition keyed_inv :: "('s, 'p) srtp_lib \<Rightarrow> 's srtp_filter \<Rightarrow> bool" where
  "keyed_inv lib f \<longleftrightarrow>
     sf_applied_send_params f = CryptoParams_new \<and> sf_applied_recv_params f = CryptoParams_new \<or>
     (\<exists>se re sk rk. sf_send_session f = Some se \<and> sf_recv_session f = Some re \<and>
        ParseKeyParams (cp_key_params (sf_applied_send_params f)) SRTP_MASTER_KEY_LEN = Some sk \<and>
        ParseKeyParams (cp_key_params (sf_applied_recv_params f)) SRTP_MASTER_KEY_LEN = Some rk \<and>
        keyed lib ssrc_any_outbound (cp_cipher_suite (sf_applied_send_params f)) sk se \<and>
        keyed lib ssrc_any_inbound (cp_cipher_suite (sf_applied_recv_params f)) rk re)"

lemma ApplyParams_inv:
  assumes "keyed_inv lib f" and "ApplyParams lib p q f = Some (ok, f')"
  shows "keyed_inv lib f'"
proof (cases rule: ApplyParams_cases [of lib p q f])
  case same
  then show ?thesis using assms by simp
next
  case (applied f1 sk rk se re)
  then show ?thesis using assms(2) by (auto simp: keyed_inv_def)
next
  case (failed f1)
  then show ?thesis using assms by (auto simp: keyed_inv_def)
qed

text \<open>The state of a filter after an answer: unchanged, or what \<open>ApplyParams\<close> left with a new state.\<close>

lemma DoSetAnswer_cases:
  assumes "DoSetAnswer lib ps src final f = Some (ok, f')"
  obtains (state) st offers where "f' = f\<lparr>sf_offer_params := offers, sf_state := st\<rparr>" "ok \<Longrightarrow> ps = []" "st = sf_state f \<or> srtp_rank st < 5"
  | (applied) sel f1 st offers where "NegotiateParams ps f = Some sel"
      "ApplyParams lib (if src = CS_REMOTE then sel else ps ! 0) (if src = CS_REMOTE then ps ! 0 else sel) f = Some (ok, f1)"
      "f' = f1\<lparr>sf_offer_params := offers, sf_state := st\<rparr>" "ok \<Longrightarrow> final \<Longrightarrow> st = ST_ACTIVE" "\<not> ok \<Longrightarrow> st = sf_state f1" "ps \<noteq> []"
proof -
  consider (unexpected) "\<not> srtp_ExpectAnswer f src" | (empty) "srtp_ExpectAnswer f src" "ps = []"
    | (crypto) "srtp_ExpectAnswer f src" "ps \<noteq> []" by blast
  then show thesis
  proof cases
    case unexpected
    then show thesis using assms state [of "sf_state f" "sf_offer_params f"] by (simp add: DoSetAnswer_def)
  next
    case empty
    then show thesis
      using assms state [of ST_INIT "[]"] state [of ST_SENTPRANSWER_NO_CRYPTO "sf_offer_params f"]
        state [of ST_RECEIVEDPRANSWER_NO_CRYPTO "sf_offer_params f"]
      by (auto simp: DoSetAnswer_def ResetParams_def split: if_splits)
  next
    case crypto
    show thesis
    proof (cases "NegotiateParams ps f")
      case None
      then show thesis using crypto assms state [of "sf_state f" "sf_offer_params f"] by (simp add: DoSetAnswer_def)
    next
      case (Some sel)
      define p where "p = (if src = CS_REMOTE then sel else ps ! 0)"
      define q where "q = (if src = CS_REMOTE then ps ! 0 else sel)"
      obtain ok1 f1 where a: "ApplyParams lib p q f = Some (ok1, f1)"
        by (rule ApplyParams_cases [of lib p q f]) blast+
      define r where "r = (if \<not> ok1 then f1 else if final then f1\<lparr>sf_offer_params := [], sf_state := ST_ACTIVE\<rparr>
          else f1\<lparr>sf_state := (if src = CS_LOCAL then ST_SENTPRANSWER else ST_RECEIVEDPRANSWER)\<rparr>)"
      have "DoSetAnswer lib ps src final f = Some (ok1, r)"
        using crypto by (simp add: DoSetAnswer_def Some p_def [symmetric] q_def [symmetric] a Let_def r_def)
      then have "ok1 = ok" "f' = r" using assms by simp_all
      moreover have "r = f1\<lparr>sf_offer_params := sf_offer_params r, sf_state := sf_state r\<rparr>"
        "ok1 \<Longrightarrow> final \<Longrightarrow> sf_state r = ST_ACTIVE" "\<not> ok1 \<Longrightarrow> sf_state r = sf_state f1"
        by (simp_all add: r_def)
      ultimately show thesis using applied [OF Some] a crypto(2) unfolding p_def q_def by simp
    qed
  qed
qed

interpretation srtp_keys: filter_inv "srtp_step lib" "keyed_inv lib"
  for lib :: "('s, 'p) srtp_lib"
proof
  fix f f' :: "'s srtp_filter" and x ok
  assume i: "keyed_inv lib f" and s: "srtp_step lib x f = (ok, f')"
  have ans: "keyed_inv lib f'" if "DoSetAnswer lib ps src final f = Some (ok, f')" for ps src final
    using that
  proof (cases rule: DoSetAnswer_cases)
    case (state st offers)
    then show ?thesis using i by (simp add: keyed_inv_def)
  next
    case (applied sel f1 st offers)
    then show ?thesis using ApplyParams_inv [OF i applied(2)] by (simp add: keyed_inv_def)
  qed
  show "keyed_inv lib f'"
  proof (cases x)
    case (SrtpOffer ps src)
    then show ?thesis using i s by (auto simp: srtp_SetOffer_def StoreParams_def keyed_inv_def Let_def split: if_splits)
  qed (use s ans in \<open>auto simp: srtp_SetProvisionalAnswer_def srtp_SetAnswer_def the_DoSetAnswer\<close>)
qed


text \<open>
  A stand-in for libsrtp for the examples: a session is the policy it was created with, and
  protecting appends the authentication tag.
\<close>

definition example_lib :: "(nat srtp_policy, nat) srtp_lib" where
  "example_lib =
     \<lparr>lib_init = err_ok, lib_install_event_handler = err_ok, lib_policy_80 = 10, lib_policy_32 = 4,
      lib_auth_tag_len = id, lib_create = (\<lambda>pol. (err_ok, Some pol)),
      lib_protect = (\<lambda>s p. (err_ok, p @ replicate (po_rtp s) 0, s)),
      lib_protect_rtcp = (\<lambda>s p. (err_ok, p @ replicate (4 + po_rtcp s) 0, s)),
      lib_unprotect = (\<lambda>s p. if length p < 12 + po_rtp s then (err_auth_fail, p, s) else (err_ok, take (length p - po_rtp s) p, s)),
      lib_unprotect_rtcp = (\<lambda>s p. if length p < 12 + po_rtcp s then (err_auth_fail, p, s) else (err_ok, take (length p - 4 - po_rtcp s) p, s)),
      lib_find = (\<lambda>fs key. None)\<rparr>"

definition example_params :: "byte \<Rightarrow> crypto_params" where
  "example_params b =
     \<lparr>cp_tag = 1, cp_cipher_suite = CS_AES_CM_128_HMAC_SHA1_32,
      cp_key_params = key_inline @ base64_Encode (replicate 30 b), cp_session_params = []\<rparr>"

lemma example_key [simp]: "ParseKeyParams (cp_key_params (example_params b)) SRTP_MASTER_KEY_LEN = Some (replicate 30 b)"
  by (simp add: ParseKeyParams_iff example_params_def SRTP_MASTER_KEY_LEN_def)

lemma example_answer:
  assumes "f = \<lparr>sf_state = st, sf_signal_silent_time = t, sf_offer_params = [example_params a],
      sf_send_session = None, sf_recv_session = None, sf_send_rtcp_session = None, sf_recv_rtcp_session = None,
      sf_applied_send_params = CryptoParams_new, sf_applied_recv_params = CryptoParams_new, sf_inited = True\<rparr>"
    and "srtp_ExpectAnswer f src"
  shows "\<exists>f'. DoSetAnswer example_lib [example_params b] src True f = Some (True, f') \<and> sf_state f' = ST_ACTIVE"
proof -
  have s: "cp_cipher_suite (example_params x) = CS_AES_CM_128_HMAC_SHA1_32" "cp_tag (example_params x) = 1" for x
    by (simp_all add: example_params_def)
  have k: "SetKey example_lib ty CS_AES_CM_128_HMAC_SHA1_32 (Some k) SRTP_MASTER_KEY_LEN True se =
      (True, True, se\<lparr>se_session := Some \<lparr>po_ssrc_type = ty, po_rtp = 4, po_rtcp = 10, po_key = take SRTP_MASTER_KEY_LEN k,
        po_window_size = 1024, po_allow_repeat_tx = True\<rparr>, se_rtp_auth_tag_len := 4, se_rtcp_auth_tag_len := 10\<rparr>)"
    if "se_session se = None" for ty k se
    using that by (simp add: SetKey_def srtp_Init_def example_lib_def CS_AES_CM_128_HMAC_SHA1_32_def CS_AES_CM_128_HMAC_SHA1_80_def)
  have "\<not> same_keys CryptoParams_new (example_params x)" for x
    by (simp add: same_keys_def CryptoParams_new_def s CS_AES_CM_128_HMAC_SHA1_32_def)
  then show ?thesis
    using assms(2)
    by (simp add: assms(1) DoSetAnswer_def NegotiateParams_def cp_Matches_def s ApplyParams_def key_sessions_def
        SetSend_def SetRecv_def k CreateSrtpSessions_def session_set_signal_silent_time_def SrtpSession_new_def Let_def)
qed

theorem srtp_peers_share_keys_witness:
  "\<exists>oks oks' a b.
     run_filter (srtp_step example_lib) [SrtpOffer [example_params 1] CS_LOCAL, SrtpAnswer [example_params 2] CS_REMOTE]
       (SrtpFilter_new True) = (oks, a) \<and>
     run_filter (srtp_step example_lib) (map srtp_flip [SrtpOffer [example_params 1] CS_LOCAL, SrtpAnswer [example_params 2] CS_REMOTE])
       (SrtpFilter_new True) = (oks', b) \<and>
     srtp_IsActive a \<and> srtp_IsActive b \<and> session_pair example_lib (sf_send_session a) (sf_recv_session b)"
proof -
  let ?f = "\<lambda>st. \<lparr>sf_state = st, sf_signal_silent_time = 0, sf_offer_params = [example_params 1],
      sf_send_session = None, sf_recv_session = None, sf_send_rtcp_session = None, sf_recv_rtcp_session = None,
      sf_applied_send_params = CryptoParams_new, sf_applied_recv_params = CryptoParams_new, sf_inited = True\<rparr> :: nat srtp_policy srtp_filter"
  obtain a where a: "DoSetAnswer example_lib [example_params 2] CS_REMOTE True (?f ST_SENTOFFER) = Some (True, a)" "sf_state a = ST_ACTIVE"
    using example_answer [OF refl, of ST_SENTOFFER 0 1 CS_REMOTE 2] by (auto simp: srtp_ExpectAnswer_def)
  obtain b where b: "DoSetAnswer example_lib [example_params 2] CS_LOCAL True (?f ST_RECEIVEDOFFER) = Some (True, b)" "sf_state b = ST_ACTIVE"
    using example_answer [OF refl, of ST_RECEIVEDOFFER 0 1 CS_LOCAL 2] by (auto simp: srtp_ExpectAnswer_def)
  have ra: "run_filter (srtp_step example_lib) [SrtpOffer [example_params 1] CS_LOCAL, SrtpAnswer [example_params 2] CS_REMOTE]
       (SrtpFilter_new True) = ([True, True], a)"
    using a by (simp add: srtp_SetOffer_def StoreParams_def srtp_ExpectOffer_def SrtpFilter_new_def srtp_SetAnswer_def)
  have rb: "run_filter (srtp_step example_lib) (map srtp_flip [SrtpOffer [example_params 1] CS_LOCAL, SrtpAnswer [example_params 2] CS_REMOTE])
       (SrtpFilter_new True) = ([True, True], b)"
    using b by (simp add: srtp_SetOffer_def StoreParams_def srtp_ExpectOffer_def SrtpFilter_new_def srtp_SetAnswer_def)
  show ?thesis using srtp_peers_share_keys [OF ra rb] a b ra rb by (auto simp: srtp_IsActive_def)
qed

text \<open>The accepted answer with one entry.\<close>

lemma answer_installs_keys:
  assumes "run_filter (srtp_step lib) ops (SrtpFilter_new i) = (oks, f)"
    and "srtp_SetAnswer lib [ans] src f = Some (True, f')" and "cp_cipher_suite ans \<noteq> []"
  shows "srtp_IsActive f' \<and>
    (\<exists>off ko ka se re. off \<in> set (sf_offer_params f) \<and> cp_Matches ans off \<and>
       cp_key_params off = key_inline @ base64_Encode ko \<and> length ko = SRTP_MASTER_KEY_LEN \<and>
       cp_key_params ans = key_inline @ base64_Encode ka \<and> length ka = SRTP_MASTER_KEY_LEN \<and>
       sf_send_session f' = Some se \<and> sf_recv_session f' = Some re \<and>
       keyed lib ssrc_any_outbound (cp_cipher_suite ans) (if src = CS_REMOTE then ko else ka) se \<and>
       keyed lib ssrc_any_inbound (cp_cipher_suite ans) (if src = CS_REMOTE then ka else ko) re)"
proof -
  have "keyed_inv lib (SrtpFilter_new i :: 'a srtp_filter)" by (simp add: keyed_inv_def SrtpFilter_new_def)
  from srtp_keys.run_inv [OF this assms(1)] have inv: "keyed_inv lib f" .
  show ?thesis
    using assms(2) [unfolded srtp_SetAnswer_def]
  proof (cases rule: DoSetAnswer_cases)
    case (state st offers)
    then show ?thesis by simp
  next
    case (applied off f1 st offers)
    define p where "p = (if src = CS_REMOTE then off else ans)"
    define q where "q = (if src = CS_REMOTE then ans else off)"
    have off: "off \<in> set (sf_offer_params f)" "cp_Matches ans off"
      using applied(1) by (auto simp: NegotiateParams_def find_Some_iff split: if_splits)
    then have suite: "cp_cipher_suite off = cp_cipher_suite ans" by (simp add: cp_Matches_def)
    have suites: "cp_cipher_suite p = cp_cipher_suite ans" "cp_cipher_suite q = cp_cipher_suite ans"
      by (simp_all add: p_def q_def suite)
    have ap: "ApplyParams lib p q f = Some (True, f1)" using applied(2) by (simp add: p_def q_def split: if_splits)
    have "\<exists>se re sk rk. sf_send_session f1 = Some se \<and> sf_recv_session f1 = Some re \<and>
        ParseKeyParams (cp_key_params p) SRTP_MASTER_KEY_LEN = Some sk \<and> ParseKeyParams (cp_key_params q) SRTP_MASTER_KEY_LEN = Some rk \<and>
        keyed lib ssrc_any_outbound (cp_cipher_suite p) sk se \<and> keyed lib ssrc_any_inbound (cp_cipher_suite q) rk re"
    proof (cases rule: ApplyParams_cases [of lib p q f])
      case same
      have "cp_cipher_suite p \<noteq> []" using assms(3) suites by simp
      then have "sf_applied_send_params f \<noteq> CryptoParams_new" using same(2) by (auto simp: same_keys_def CryptoParams_new_def)
      moreover have "f1 = f" using same(1) ap by simp
      ultimately show ?thesis using inv same(2,3) by (auto simp: keyed_inv_def same_keys_def)
    next
      case (applied g sk rk se re)
      then show ?thesis using ap by auto
    next
      case (failed g)
      then show ?thesis using ap by simp
    qed
    then obtain se re sk rk where k: "sf_send_session f1 = Some se" "sf_recv_session f1 = Some re"
      "ParseKeyParams (cp_key_params p) SRTP_MASTER_KEY_LEN = Some sk" "ParseKeyParams (cp_key_params q) SRTP_MASTER_KEY_LEN = Some rk"
      "keyed lib ssrc_any_outbound (cp_cipher_suite ans) sk se" "keyed lib ssrc_any_inbound (cp_cipher_suite ans) rk re"
      using suites by auto
    have act: "srtp_IsActive f'" using applied(3,4) by (simp add: srtp_IsActive_def)
    have ses: "sf_send_session f' = Some se" "sf_recv_session f' = Some re" using k(1,2) applied(3) by simp_all
    show ?thesis
    proof (cases "src = CS_REMOTE")
      case True
      then show ?thesis using act off ses k(3-6) unfolding ParseKeyParams_iff p_def q_def by auto
    next
      case False
      then show ?thesis using act off ses k(3-6) unfolding ParseKeyParams_iff p_def q_def by auto
    qed
  qed
qed

text \<open>
  C11: a final answer that is accepted, with no empty cipher suite in it, has one of two effects.  An
  answer without crypto parameters takes the filter back to its initial state, without encryption.  Any
  other has exactly one entry and activates the filter with the negotiated keys: it matches one of the
  offered parameters in tag and cipher suite, both carry \<open>inline:\<close> followed by the canonical base64 of a
  30-byte key, and the session of each direction was created with the key of the side that sends in it.
\<close>

theorem srtp_answer_installs_keys:
  assumes "run_filter (srtp_step lib) ops (SrtpFilter_new i) = (oks, f)"
    and "srtp_SetAnswer lib answers src f = Some (True, f')" and "list_all (\<lambda>ans. cp_cipher_suite ans \<noteq> []) answers"
  shows "if answers = [] then f' = f\<lparr>sf_offer_params := [], sf_state := ST_INIT\<rparr> \<and> \<not> srtp_IsActive f'
    else srtp_IsActive f' \<and>
    (\<exists>ans off ko ka se re. answers = [ans] \<and> off \<in> set (sf_offer_params f) \<and> cp_Matches ans off \<and>
       cp_key_params off = key_inline @ base64_Encode ko \<and> length ko = SRTP_MASTER_KEY_LEN \<and>
       cp_key_params ans = key_inline @ base64_Encode ka \<and> length ka = SRTP_MASTER_KEY_LEN \<and>
       sf_send_session f' = Some se \<and> sf_recv_session f' = Some re \<and>
       keyed lib ssrc_any_outbound (cp_cipher_suite ans) (if src = CS_REMOTE then ko else ka) se \<and>
       keyed lib ssrc_any_inbound (cp_cipher_suite ans) (if src = CS_REMOTE then ka else ko) re)"
proof (cases "answers = []")
  case True
  then show ?thesis
    using assms(2) by (auto simp: srtp_SetAnswer_def DoSetAnswer_def ResetParams_def srtp_IsActive_def split: if_splits)
next
  case False
  obtain off where "NegotiateParams answers f = Some off"
    using assms(2) False by (auto simp: srtp_SetAnswer_def DoSetAnswer_def split: if_splits option.splits)
  then have "length answers = 1" by (auto simp: NegotiateParams_def split: if_splits)
  then obtain ans where ans: "answers = [ans]" by (auto simp: length_Suc_conv)
  then have "cp_cipher_suite ans \<noteq> []" using assms(3) by simp
  from answer_installs_keys [OF assms(1) assms(2) [unfolded ans] this] show ?thesis unfolding ans by simp
qed

theorem srtp_answer_installs_keys_witness:
  "\<exists>f f'. run_filter (srtp_step example_lib) [SrtpOffer [example_params 1] CS_LOCAL] (SrtpFilter_new True) = ([True], f) \<and>
     srtp_SetAnswer example_lib [example_params 2] CS_REMOTE f = Some (True, f') \<and> srtp_IsActive f'"
proof -
  let ?f = "\<lparr>sf_state = ST_SENTOFFER, sf_signal_silent_time = 0, sf_offer_params = [example_params 1],
      sf_send_session = None, sf_recv_session = None, sf_send_rtcp_session = None, sf_recv_rtcp_session = None,
      sf_applied_send_params = CryptoParams_new, sf_applied_recv_params = CryptoParams_new, sf_inited = True\<rparr> :: nat srtp_policy srtp_filter"
  obtain f' where a: "srtp_SetAnswer example_lib [example_params 2] CS_REMOTE ?f = Some (True, f')"
    using example_answer [OF refl, of ST_SENTOFFER 0 1 CS_REMOTE 2] by (auto simp: srtp_ExpectAnswer_def srtp_SetAnswer_def)
  have r: "run_filter (srtp_step example_lib) [SrtpOffer [example_params 1] CS_LOCAL] (SrtpFilter_new True) = ([True], ?f)"
    by (simp add: srtp_SetOffer_def StoreParams_def srtp_ExpectOffer_def SrtpFilter_new_def)
  have "list_all (\<lambda>ans. cp_cipher_suite ans \<noteq> []) [example_params 2]" by (simp add: example_params_def CS_AES_CM_128_HMAC_SHA1_32_def)
  from srtp_answer_installs_keys [OF r a this] a r show ?thesis by auto
qed


subsection \<open>Sessions of an active filter\<close>

text \<open>
  The states a filter can get into, all operations in any order.  In the \<open>strict\<close> case no side repeats its first
  offer before the answer and no answer has an empty cipher suite.
\<close>

inductive srtp_reach :: "bool \<Rightarrow> ('s, 'p) srtp_lib \<Rightarrow> 's srtp_filter \<Rightarrow> bool" for strict :: bool and lib :: "('s, 'p) srtp_lib" where
  new: "srtp_reach strict lib (SrtpFilter_new i)"
| offer: "srtp_reach strict lib f \<Longrightarrow> (strict \<Longrightarrow> sf_state f \<noteq> ST_SENTOFFER \<and> sf_state f \<noteq> ST_RECEIVEDOFFER) \<Longrightarrow>
    srtp_SetOffer ps src f = (ok, f') \<Longrightarrow> srtp_reach strict lib f'"
| answer: "srtp_reach strict lib f \<Longrightarrow> (strict \<Longrightarrow> list_all (\<lambda>p. cp_cipher_suite p \<noteq> []) ps) \<Longrightarrow>
    DoSetAnswer lib ps src final f = Some (ok, f') \<Longrightarrow> srtp_reach strict lib f'"
| rtp_params: "srtp_reach strict lib f \<Longrightarrow> SetRtpParams lib scs sk sl rcs rk rl f = Some (ok, f') \<Longrightarrow> srtp_reach strict lib f'"
| rtcp_params: "srtp_reach strict lib f \<Longrightarrow> SetRtcpParams lib scs sk sl rcs rk rl f = (ok, f') \<Longrightarrow> srtp_reach strict lib f'"
| protect_rtp: "srtp_reach strict lib f \<Longrightarrow> srtp_ProtectRtp lib now p max_len f = Some (ok, p', f') \<Longrightarrow> srtp_reach strict lib f'"
| protect_rtcp: "srtp_reach strict lib f \<Longrightarrow> srtp_ProtectRtcp lib now p max_len f = Some (ok, p', f') \<Longrightarrow> srtp_reach strict lib f'"
| unprotect_rtp: "srtp_reach strict lib f \<Longrightarrow> srtp_UnprotectRtp lib now p f = Some (ok, p', f') \<Longrightarrow> srtp_reach strict lib f'"
| unprotect_rtcp: "srtp_reach strict lib f \<Longrightarrow> srtp_UnprotectRtcp lib now p f = Some (ok, p', f') \<Longrightarrow> srtp_reach strict lib f'"
| silent_time: "srtp_reach strict lib f \<Longrightarrow> srtp_set_signal_silent_time t f = Some f' \<Longrightarrow> srtp_reach strict lib f'"

definition has_sessions :: "'s srtp_filter \<Rightarrow> bool" where
  "has_sessions f \<longleftrightarrow> sf_send_session f \<noteq> None \<and> sf_recv_session f \<noteq> None"

definition session_inv :: "'s srtp_filter \<Rightarrow> bool" where
  "session_inv f \<longleftrightarrow>
     (srtp_IsActive f \<longrightarrow> has_sessions f) \<and>
     (sf_applied_send_params f = CryptoParams_new \<and> sf_applied_recv_params f = CryptoParams_new \<or> has_sessions f)"

lemmas session_inv_defs = session_inv_def has_sessions_def srtp_IsActive_def

lemma SetOffer_session_inv:
  assumes "session_inv f" and "sf_state f \<noteq> ST_SENTOFFER" and "sf_state f \<noteq> ST_RECEIVEDOFFER" and "srtp_SetOffer ps src f = (ok, f')"
  shows "session_inv f'"
proof -
  have "sf_state f = ST_INIT \<or> srtp_IsActive f \<or> f' = f"
    using assms(2-4) by (cases "sf_state f") (auto simp: srtp_SetOffer_def srtp_ExpectOffer_def srtp_IsActive_def)
  then show ?thesis
    using assms(1,4) by (auto simp: srtp_SetOffer_def StoreParams_def session_inv_defs Let_def split: if_splits)
qed

lemma DoSetAnswer_session_inv:
  assumes "session_inv f" and "list_all (\<lambda>p. cp_cipher_suite p \<noteq> []) ps" and "DoSetAnswer lib ps src final f = Some (ok, f')"
  shows "session_inv f'"
  using assms(3)
proof (cases rule: DoSetAnswer_cases)
  case (state st offers)
  then show ?thesis using assms(1) by (auto simp: session_inv_defs)
next
  case (applied off f1 st offers)
  define p where "p = (if src = CS_REMOTE then off else ps ! 0)"
  define q where "q = (if src = CS_REMOTE then ps ! 0 else off)"
  have "cp_cipher_suite (ps ! 0) \<noteq> []" "cp_cipher_suite off = cp_cipher_suite (ps ! 0)"
    using applied(1,6) assms(2)
    by (auto simp: NegotiateParams_def find_Some_iff cp_Matches_def list_all_length split: if_splits)
  then have p: "cp_cipher_suite p \<noteq> []" by (simp add: p_def)
  have ap: "ApplyParams lib p q f = Some (ok, f1)" using applied(2) by (simp add: p_def q_def)
  have "(ok \<longrightarrow> has_sessions f1) \<and> session_inv f1"
  proof (cases rule: ApplyParams_cases [of lib p q f])
    case same
    then have "sf_applied_send_params f \<noteq> CryptoParams_new" using p by (auto simp: same_keys_def CryptoParams_new_def)
    then show ?thesis using same(1) ap assms(1) by (auto simp: session_inv_def)
  next
    case (applied g sk rk se re)
    then show ?thesis using ap by (auto simp: session_inv_defs)
  next
    case (failed g)
    then show ?thesis using ap assms(1) by (auto simp: session_inv_defs)
  qed
  then show ?thesis using applied(3,5) by (cases ok) (auto simp: session_inv_defs)
qed

lemma SetRtpParams_session_inv:
  assumes "session_inv f" and "SetRtpParams lib scs sk sl rcs rk rl f = Some (ok, f')"
  shows "session_inv f'"
  using key_sessions_total [of "CreateSrtpSessions f" lib scs sk sl rcs rk rl] assms
  by (auto simp: SetRtpParams_def session_inv_defs split: if_splits)

lemma srtp_reach_session_inv: "srtp_reach True lib f \<Longrightarrow> session_inv f"
proof (induction rule: srtp_reach.induct)
  case (new i)
  then show ?case by (simp add: session_inv_defs SrtpFilter_new_def)
next
  case (offer f ps src ok f')
  then show ?case using SetOffer_session_inv by blast
next
  case (answer f ps src final ok f')
  then show ?case using DoSetAnswer_session_inv by blast
next
  case (rtp_params f scs sk sl rcs rk rl ok f')
  then show ?case using SetRtpParams_session_inv by blast
next
  case (rtcp_params f scs sk sl rcs rk rl ok f')
  then show ?case by (auto simp: SetRtcpParams_def session_inv_defs Let_def split: if_splits prod.splits)
next
  case (protect_rtp f now p max_len ok p' f')
  then show ?case by (auto simp: srtp_ProtectRtp_def session_inv_defs split: if_splits option.splits prod.splits)
next
  case (protect_rtcp f now p max_len ok p' f')
  then show ?case by (auto simp: srtp_ProtectRtcp_def session_inv_defs split: if_splits option.splits prod.splits)
next
  case (unprotect_rtp f now p ok p' f')
  then show ?case by (auto simp: srtp_UnprotectRtp_def session_inv_defs split: if_splits option.splits prod.splits)
next
  case (unprotect_rtcp f now p ok p' f')
  then show ?case by (auto simp: srtp_UnprotectRtcp_def session_inv_defs split: if_splits option.splits prod.splits)
next
  case (silent_time f t f')
  then show ?case by (auto simp: srtp_set_signal_silent_time_def session_inv_defs Let_def split: if_splits option.splits)
qed

text \<open>
  C12: in every state that operations in any order can reach, as long as no side repeats its first offer
  before the answer and no answer has an empty cipher suite, no packet operation and no change of the
  silent time uses a null session.  Both provisos are needed: \<open>srtp_repeated_offer_crashes\<close> and
  \<open>srtp_empty_suite_crashes\<close> reach a null session without them.
\<close>

theorem srtp_no_null_session:
  assumes "srtp_reach True lib f"
  shows "srtp_ProtectRtp lib now p max_len f \<noteq> None \<and> srtp_ProtectRtcp lib now p max_len f \<noteq> None \<and>
    srtp_UnprotectRtp lib now p f \<noteq> None \<and> srtp_UnprotectRtcp lib now p f \<noteq> None \<and>
    srtp_set_signal_silent_time t f \<noteq> None"
proof (cases "srtp_IsActive f")
  case True
  then obtain se re where "sf_send_session f = Some se" "sf_recv_session f = Some re"
    using srtp_reach_session_inv [OF assms] by (auto simp: session_inv_def has_sessions_def)
  then show ?thesis
    by (auto simp: srtp_ProtectRtp_def srtp_ProtectRtcp_def srtp_UnprotectRtp_def srtp_UnprotectRtcp_def
        srtp_set_signal_silent_time_def Let_def split: option.splits prod.splits)
next
  case False
  then have "sf_state f \<noteq> ST_ACTIVE" by (auto simp: srtp_IsActive_def)
  then show ?thesis using False
    by (simp add: srtp_ProtectRtp_def srtp_ProtectRtcp_def srtp_UnprotectRtp_def srtp_UnprotectRtcp_def
        srtp_set_signal_silent_time_def Let_def)
qed

theorem srtp_no_null_session_witness:
  "srtp_ProtectRtp example_lib 0 [1, 2] 10 (SrtpFilter_new True) \<noteq> None"
  using srtp_no_null_session [OF srtp_reach.new [of True example_lib True], of 0 "[1, 2]" 10 0] by blast

text \<open>
  Without that proviso it fails: a second offer from the same side before the answer takes the filter
  to a state that counts as active although it has no session, and the next packet uses a null pointer.
\<close>

lemma srtp_repeated_offer_crashes:
  "\<exists>f. run_filter (srtp_step lib) [SrtpOffer ps CS_LOCAL, SrtpOffer ps CS_LOCAL] (SrtpFilter_new i) = ([True, True], f) \<and>
     srtp_IsActive f \<and> srtp_ProtectRtp lib now p max_len f = None"
  by (simp add: srtp_SetOffer_def StoreParams_def srtp_ExpectOffer_def SrtpFilter_new_def srtp_IsActive_def srtp_ProtectRtp_def)


text \<open>
  And an answer whose cipher suite and key are empty, to an offer of the same, equals the parameters of a filter
  that has none: they count as applied, so the filter becomes active without sessions.
\<close>

lemma srtp_empty_suite_crashes:
  "\<exists>f. run_filter (srtp_step lib) [SrtpOffer [CryptoParams_new] CS_LOCAL, SrtpAnswer [CryptoParams_new] CS_REMOTE] (SrtpFilter_new i) = ([True, True], f) \<and>
     sf_state f = ST_ACTIVE \<and> srtp_ProtectRtp lib now p max_len f = None"
  by (simp add: srtp_SetOffer_def StoreParams_def srtp_ExpectOffer_def SrtpFilter_new_def srtp_IsActive_def srtp_ProtectRtp_def
      srtp_SetAnswer_def DoSetAnswer_def srtp_ExpectAnswer_def NegotiateParams_def cp_Matches_def ApplyParams_def same_keys_def Let_def)


subsection \<open>Packet sizes\<close>

text \<open>The sessions that libsrtp created with a policy, with any packets handled since.\<close>

inductive lib_session :: "('s, 'p) srtp_lib \<Rightarrow> 'p srtp_policy \<Rightarrow> 's \<Rightarrow> bool" for lib :: "('s, 'p) srtp_lib" and pol :: "'p srtp_policy" where
  lib_created: "lib_create lib pol = (err_ok, Some s) \<Longrightarrow> lib_session lib pol s"
| lib_protected: "lib_session lib pol s \<Longrightarrow> lib_protect lib s p = (err, p', s') \<Longrightarrow> lib_session lib pol s'"
| lib_protected_rtcp: "lib_session lib pol s \<Longrightarrow> lib_protect_rtcp lib s p = (err, p', s') \<Longrightarrow> lib_session lib pol s'"
| lib_unprotected: "lib_session lib pol s \<Longrightarrow> lib_unprotect lib s p = (err, p', s') \<Longrightarrow> lib_session lib pol s'"
| lib_unprotected_rtcp: "lib_session lib pol s \<Longrightarrow> lib_unprotect_rtcp lib s p = (err, p', s') \<Longrightarrow> lib_session lib pol s'"

text \<open>A session of the program knows the sizes of the tags that the policy of its session of libsrtp asks for.\<close>

definition sized :: "('s, 'p) srtp_lib \<Rightarrow> 's srtp_session option \<Rightarrow> bool" where
  "sized lib ses \<longleftrightarrow>
     (\<forall>se s. ses = Some se \<longrightarrow> se_session se = Some s \<longrightarrow>
        (\<exists>pol. lib_session lib pol s \<and> se_rtp_auth_tag_len se = lib_auth_tag_len lib (po_rtp pol) \<and>
           se_rtcp_auth_tag_len se = lib_auth_tag_len lib (po_rtcp pol)))"

definition all_sized :: "('s, 'p) srtp_lib \<Rightarrow> 's srtp_filter \<Rightarrow> bool" where
  "all_sized lib f \<longleftrightarrow> sized lib (sf_send_session f) \<and> sized lib (sf_recv_session f) \<and>
     sized lib (sf_send_rtcp_session f) \<and> sized lib (sf_recv_rtcp_session f)"

text \<open>A failing \<open>srtp_create\<close> leaves no session.\<close>

definition clean_failure :: "('s, 'p) srtp_lib \<Rightarrow> bool" where
  "clean_failure lib \<longleftrightarrow> (\<forall>pol err session. lib_create lib pol = (err, session) \<longrightarrow> err \<noteq> err_ok \<longrightarrow> session = None)"

lemma sized_None [simp]: "sized lib None" "se_session se = None \<Longrightarrow> sized lib (Some se)"
  by (simp_all add: sized_def)

lemma sized_silent_time [simp]: "sized lib (Some (session_set_signal_silent_time t se)) = sized lib (Some se)"
  by (simp add: sized_def session_set_signal_silent_time_def)

lemma SetKey_sized:
  assumes "clean_failure lib" and "sized lib (Some se)" and "SetKey lib type cs key len inited se = (ok, inited', se')"
  shows "sized lib (Some se')"
proof (cases "se_session se' = None \<or> se' = se")
  case False
  have clean: "err = err_ok" if "lib_create lib pol = (err, Some s)" for pol err s
    using assms(1) that by (auto simp: clean_failure_def)
  then obtain rtp rtcp k where "lib_create lib \<lparr>po_ssrc_type = type, po_rtp = rtp, po_rtcp = rtcp, po_key = k, po_window_size = 1024,
      po_allow_repeat_tx = True\<rparr> = (err_ok, se_session se')"
    "se_rtp_auth_tag_len se' = lib_auth_tag_len lib rtp" "se_rtcp_auth_tag_len se' = lib_auth_tag_len lib rtcp"
    using False assms(3) by (auto simp: SetKey_def split: if_splits option.splits prod.splits dest: clean)
  then show ?thesis unfolding sized_def by (metis lib_created option.inject srtp_policy.select_convs(2,3))
qed (use assms(2) in auto)

lemma packet_sized:
  assumes "sized lib (Some se)"
  shows "session_ProtectRtp lib now p max_len se = (ok, p', se') \<Longrightarrow> sized lib (Some se')"
    "session_ProtectRtcp lib now p max_len se = (ok, p', se') \<Longrightarrow> sized lib (Some se')"
    "session_UnprotectRtp lib now p se = (ok, p', se') \<Longrightarrow> sized lib (Some se')"
    "session_UnprotectRtcp lib now p se = (ok, p', se') \<Longrightarrow> sized lib (Some se')"
  using assms
  by (auto simp: sized_def session_ProtectRtp_def session_ProtectRtcp_def session_UnprotectRtp_def session_UnprotectRtcp_def Let_def
      split: option.splits prod.splits if_splits) (metis lib_session.intros)+

lemma key_sessions_sized:
  assumes "clean_failure lib" and "all_sized lib f" and "key_sessions lib scs sk sl rcs rk rl f = Some (ok, f')"
  shows "all_sized lib f'"
  using assms SetKey_sized [OF assms(1)]
  by (fastforce simp: key_sessions_def all_sized_def SetSend_def SetRecv_def Let_def split: option.splits prod.splits if_splits)

lemma CreateSrtpSessions_sized: "all_sized lib f \<Longrightarrow> all_sized lib (CreateSrtpSessions f)"
  by (simp add: all_sized_def CreateSrtpSessions_def SrtpSession_new_def)

lemma all_sized_fields [simp]:
  "all_sized lib (f\<lparr>sf_applied_send_params := p, sf_applied_recv_params := q\<rparr>) = all_sized lib f"
  "all_sized lib (f\<lparr>sf_offer_params := ps\<rparr>) = all_sized lib f" "all_sized lib (f\<lparr>sf_state := st\<rparr>) = all_sized lib f"
  by (simp_all add: all_sized_def)

lemma ApplyParams_sized:
  assumes "clean_failure lib" and "all_sized lib f" and "ApplyParams lib p q f = Some (ok, f')"
  shows "all_sized lib f'"
  using assms(2,3) key_sessions_sized [OF assms(1) CreateSrtpSessions_sized [OF assms(2)]]
  by (fastforce simp: ApplyParams_def split: option.splits prod.splits if_splits)

lemma srtp_reach_sized:
  assumes "srtp_reach strict lib f" and "clean_failure lib"
  shows "all_sized lib f"
  using assms(1)
proof (induction rule: srtp_reach.induct)
  case (new i)
  then show ?case by (simp add: all_sized_def SrtpFilter_new_def)
next
  case (offer f ps src ok f')
  then show ?case by (auto simp: srtp_SetOffer_def StoreParams_def all_sized_def Let_def split: if_splits)
next
  case (answer f ps src final ok f')
  from answer.hyps(3) show ?case
  proof (cases rule: DoSetAnswer_cases)
    case (state st offers)
    then show ?thesis using answer.IH by simp
  next
    case (applied sel f1 st offers)
    then show ?thesis using ApplyParams_sized [OF assms(2) answer.IH applied(2)] by simp
  qed
next
  case (rtp_params f scs sk sl rcs rk rl ok f')
  then show ?case
    using key_sessions_sized [OF assms(2) CreateSrtpSessions_sized [OF rtp_params.IH]]
    by (fastforce simp: SetRtpParams_def split: if_splits option.splits prod.splits)
next
  case (rtcp_params f scs sk sl rcs rk rl ok f')
  have "sized lib (Some se)" if "SetRecv lib cs k len inited (session_set_signal_silent_time t SrtpSession_new) = (ok', inited', se)"
    for cs k len inited ok' inited' se t
    using SetKey_sized [OF assms(2) _ that [unfolded SetRecv_def]] by (simp add: SrtpSession_new_def)
  then show ?case
    using rtcp_params by (fastforce simp: SetRtcpParams_def all_sized_def Let_def split: if_splits prod.splits)
next
  case (protect_rtp f now p max_len ok p' f')
  then show ?case
    using packet_sized(1) by (fastforce simp: srtp_ProtectRtp_def all_sized_def split: if_splits option.splits prod.splits)
next
  case (protect_rtcp f now p max_len ok p' f')
  then show ?case
    using packet_sized(2) by (fastforce simp: srtp_ProtectRtcp_def all_sized_def split: if_splits option.splits prod.splits)
next
  case (unprotect_rtp f now p ok p' f')
  then show ?case
    using packet_sized(3) by (fastforce simp: srtp_UnprotectRtp_def all_sized_def split: if_splits option.splits prod.splits)
next
  case (unprotect_rtcp f now p ok p' f')
  then show ?case
    using packet_sized(4) by (fastforce simp: srtp_UnprotectRtcp_def all_sized_def split: if_splits option.splits prod.splits)
next
  case (silent_time f t f')
  then show ?case
    by (auto simp: srtp_set_signal_silent_time_def all_sized_def Let_def split: if_splits option.splits)
      (auto simp: sized_def session_set_signal_silent_time_def)
qed

lemma session_fits:
  assumes "sized lib (Some se)" and "length p \<le> max_len"
    and "\<And>pol s err p' s'. lib_session lib pol s \<Longrightarrow> lib_protect lib s p = (err, p', s') \<Longrightarrow>
      length p' \<le> length p + lib_auth_tag_len lib (po_rtp pol)"
    and "\<And>pol s err p' s'. lib_session lib pol s \<Longrightarrow> lib_protect_rtcp lib s p = (err, p', s') \<Longrightarrow>
      length p' \<le> length p + 4 + lib_auth_tag_len lib (po_rtcp pol)"
  shows "session_ProtectRtp lib now p max_len se = (ok, p', se') \<Longrightarrow> length p' \<le> max_len"
    "session_ProtectRtcp lib now p max_len se = (ok, p', se') \<Longrightarrow> length p' \<le> max_len"
proof -
  show "length p' \<le> max_len" if "session_ProtectRtp lib now p max_len se = (ok, p', se')"
  proof (cases "se_session se")
    case (Some s)
    then obtain pol where pol: "lib_session lib pol s" "se_rtp_auth_tag_len se = lib_auth_tag_len lib (po_rtp pol)"
      using assms(1) by (auto simp: sized_def)
    obtain err q s' where l: "lib_protect lib s p = (err, q, s')" by (metis prod_cases3)
    show ?thesis
      using that assms(2) assms(3) [OF pol(1) l] pol(2) by (auto simp: session_ProtectRtp_def Some l Let_def split: if_splits option.splits)
  qed (use that assms(2) in \<open>simp add: session_ProtectRtp_def\<close>)
  show "length p' \<le> max_len" if "session_ProtectRtcp lib now p max_len se = (ok, p', se')"
  proof (cases "se_session se")
    case (Some s)
    then obtain pol where pol: "lib_session lib pol s" "se_rtcp_auth_tag_len se = lib_auth_tag_len lib (po_rtcp pol)"
      using assms(1) by (auto simp: sized_def)
    obtain err q s' where l: "lib_protect_rtcp lib s p = (err, q, s')" by (metis prod_cases3)
    show ?thesis
      using that assms(2) assms(4) [OF pol(1) l] pol(2) by (auto simp: session_ProtectRtcp_def Some l Let_def split: if_splits)
  qed (use that assms(2) in \<open>simp add: session_ProtectRtcp_def\<close>)
qed

text \<open>
  C34: protecting a packet never overruns its buffer, in any state that a filter can get into: libsrtp adds
  to an RTP packet at most the authentication tag of the RTP policy that its session was created with, and to an
  RTCP packet at most the tag of the RTCP policy and a four-byte index, and a failing \<open>srtp_create\<close> leaves no
  session; then the protected packet fits the \<open>max_len\<close> bytes that the caller has.
\<close>

theorem srtp_protect_fits:
  assumes "srtp_reach False lib f" and "length p \<le> max_len" and "clean_failure lib"
    and "\<And>pol s err p' s'. lib_session lib pol s \<Longrightarrow> lib_protect lib s p = (err, p', s') \<Longrightarrow>
      length p' \<le> length p + lib_auth_tag_len lib (po_rtp pol)"
    and "\<And>pol s err p' s'. lib_session lib pol s \<Longrightarrow> lib_protect_rtcp lib s p = (err, p', s') \<Longrightarrow>
      length p' \<le> length p + 4 + lib_auth_tag_len lib (po_rtcp pol)"
  shows "(srtp_ProtectRtp lib now p max_len f = Some (ok, p', f') \<longrightarrow> length p' \<le> max_len) \<and>
    (srtp_ProtectRtcp lib now p max_len f = Some (ok, p', f') \<longrightarrow> length p' \<le> max_len)"
proof -
  have "sized lib (sf_send_session f)" "sized lib (sf_send_rtcp_session f)"
    using srtp_reach_sized [OF assms(1,3)] by (simp_all add: all_sized_def)
  moreover note session_fits [OF _ assms(2,4,5)]
  ultimately show ?thesis
    using assms(2) by (auto simp: srtp_ProtectRtp_def srtp_ProtectRtcp_def split: if_splits option.splits prod.splits)
qed

text \<open>A filter keyed from outside protects a packet of 12 bytes in a buffer of 16.\<close>

lemma example_session_policy: "lib_session example_lib pol s \<Longrightarrow> s = pol"
  by (induction rule: lib_session.induct) (auto simp: example_lib_def split: if_splits)

theorem srtp_protect_fits_witness:
  "\<exists>f p' f'. SetRtpParams example_lib CS_AES_CM_128_HMAC_SHA1_32 (Some (replicate 30 1)) 30 CS_AES_CM_128_HMAC_SHA1_32 (Some (replicate 30 2)) 30
       (SrtpFilter_new True) = Some (True, f) \<and>
     srtp_ProtectRtp example_lib 0 (replicate 12 0x80) 16 f = Some (True, p', f') \<and> length p' \<le> 16"
proof -
  obtain f where f: "SetRtpParams example_lib CS_AES_CM_128_HMAC_SHA1_32 (Some (replicate 30 1)) 30 CS_AES_CM_128_HMAC_SHA1_32 (Some (replicate 30 2)) 30
       (SrtpFilter_new True) = Some (True, f)"
    and r: "\<exists>p' f'. srtp_ProtectRtp example_lib 0 (replicate 12 0x80) 16 f = Some (True, p', f')"
    by (simp add: SetRtpParams_def SrtpFilter_new_def key_sessions_def CreateSrtpSessions_def SetSend_def SetRecv_def SetKey_def srtp_Init_def
        SRTP_MASTER_KEY_LEN_def example_lib_def SrtpSession_new_def session_set_signal_silent_time_def srtp_ProtectRtp_def srtp_IsActive_def
        session_ProtectRtp_def CS_AES_CM_128_HMAC_SHA1_80_def CS_AES_CM_128_HMAC_SHA1_32_def Let_def)
  obtain p' f' where p': "srtp_ProtectRtp example_lib 0 (replicate 12 0x80) 16 f = Some (True, p', f')" using r by blast
  have clean: "clean_failure example_lib" by (simp add: clean_failure_def example_lib_def)
  have fits: "length p' \<le> length p + lib_auth_tag_len example_lib (po_rtp pol)"
    if "lib_session example_lib pol s" "lib_protect example_lib s p = (err, p', s')" for pol s p err p' s'
    using example_session_policy [OF that(1)] that(2) by (auto simp: example_lib_def)
  have fits_rtcp: "length p' \<le> length p + 4 + lib_auth_tag_len example_lib (po_rtcp pol)"
    if "lib_session example_lib pol s" "lib_protect_rtcp example_lib s p = (err, p', s')" for pol s p err p' s'
    using example_session_policy [OF that(1)] that(2) by (auto simp: example_lib_def)
  have "srtp_reach False example_lib f" by (rule rtp_params [OF new f])
  then have "(srtp_ProtectRtp example_lib 0 (replicate 12 0x80) 16 f = Some (True, p', f') \<longrightarrow> length p' \<le> 16) \<and>
      (srtp_ProtectRtcp example_lib 0 (replicate 12 0x80) 16 f = Some (True, p', f') \<longrightarrow> length p' \<le> 16)"
    by (rule srtp_protect_fits [OF _ _ clean fits fits_rtcp]) simp_all
  then show ?thesis using f p' by blast
qed

text \<open>
  \<open>SetRtcpParams\<close> keys the session that is to protect outgoing RTCP as an inbound one.
\<close>

lemma srtcp_send_session_is_inbound:
  assumes "SetRtcpParams lib scs (Some sk) sl rcs (Some rk) rl f = (True, f')" and "length sk = SRTP_MASTER_KEY_LEN"
  shows "\<exists>se. sf_send_rtcp_session f' = Some se \<and> keyed lib ssrc_any_inbound scs sk se"
  using assms SetKey_keyed
  by (fastforce simp: SetRtcpParams_def SetRecv_def Let_def split: if_splits prod.splits)


subsection \<open>The order of the failure keys\<close>

lemma FailureKey_equiv: "\<not> FailureKey_less a b \<and> \<not> FailureKey_less b a \<longleftrightarrow> a = b"
proof
  assume h: "\<not> FailureKey_less a b \<and> \<not> FailureKey_less b a"
  then have "fk_ssrc a = fk_ssrc b" by (auto simp: FailureKey_less_def)
  moreover have "fk_mode a = fk_mode b" using h by (cases "fk_mode a"; cases "fk_mode b") (auto simp: FailureKey_less_def)
  moreover have "fk_error a = fk_error b" using h by (cases "fk_error a"; cases "fk_error b") (auto simp: FailureKey_less_def)
  ultimately show "a = b" by simp
qed (simp add: FailureKey_less_def)

text \<open>
  The order of the keys is not a strict weak order: of these two keys each is less than the other, so a
  \<open>std::map\<close> with both has no defined behaviour.
\<close>

lemma FailureKey_less_not_asym:
  "FailureKey_less \<lparr>fk_ssrc = 1, fk_mode = UNPROTECT, fk_error = ERROR_AUTH\<rparr> \<lparr>fk_ssrc = 2, fk_mode = PROTECT, fk_error = ERROR_AUTH\<rparr> \<and>
   FailureKey_less \<lparr>fk_ssrc = 2, fk_mode = PROTECT, fk_error = ERROR_AUTH\<rparr> \<lparr>fk_ssrc = 1, fk_mode = UNPROTECT, fk_error = ERROR_AUTH\<rparr>"
  by (simp add: FailureKey_less_def)

text \<open>A search that misses the entry signals the same failure twice in a moment.\<close>

lemma missed_failure_signals_again:
  assumes "\<And>fs. search fs key = None" and "fk_error key \<noteq> ERROR_NONE"
  shows "st_signals (HandleSrtpResult search now key (HandleSrtpResult search now key SrtpStat_new)) = [key, key]"
  using assms by (simp add: HandleSrtpResult_def find_failure_def SrtpStat_new_def Let_def)

end
