(* ===== verification/PseudoTcp.thy ===== *)
theory PseudoTcp
  imports FifoBuffer ByteBuffer TimeUtils "HOL-Library.Monad_Syntax"
begin

text \<open>
  \<open>PseudoTcp\<close> of \<open>talk/p2p/base/pseudotcp.cc\<close>: a TCP over an unreliable packet channel.  The object
  is the record \<open>pseudo_tcp\<close>; each method is a function on it, and the calls it makes through
  \<open>m_notify\<close> are appended to \<open>m_events\<close>.  Handlers of these events do not call back into the object
  before the method returns.

  What the object gets from outside is \<open>tcp_env\<close>: the host's byte order, the readings of \<open>Now()\<close>
  (the \<open>n\<close>-th call returns \<open>e_now e n\<close>), what the network layer answers to a packet (which may depend on
  everything that happened), and the bytes that uninitialised memory holds.

  A method returns \<open>None\<close> where the code has no defined behaviour: it reads past the end of a
  packet, a list, an array or a stack buffer, divides by zero, shifts by the width of the operand or
  more, breaks a condition that \<open>FifoBuffer\<close> asserts, or does not return.  \<open>long\<close> has 64 bits.
\<close>

unbundle bit_operations_syntax

subsection \<open>Data\<close>

datatype tcp_state = TCP_LISTEN | TCP_SYN_SENT | TCP_SYN_RECEIVED | TCP_ESTABLISHED | TCP_CLOSED
datatype write_result = WR_SUCCESS | WR_TOO_LARGE | WR_FAIL
datatype shutdown = SD_NONE | SD_GRACEFUL | SD_FORCEFUL
datatype send_flags = sfNone | sfDelayedAck | sfImmediateAck
datatype tcp_option = OPT_NODELAY | OPT_ACKDELAY | OPT_RCVBUF | OPT_SNDBUF
datatype tcp_errno = NoError | EINVAL | ENOTCONN | EWOULDBLOCK | ECONNABORTED | ECONNRESET

datatype tcp_event =
    OnTcpOpen
  | OnTcpReadable
  | OnTcpWriteable
  | OnTcpClosed tcp_errno
  | TcpWritePacket "byte list" write_result

record Segment =
  sg_conv :: u32
  sg_seq :: u32
  sg_ack :: u32
  sg_flags :: byte
  sg_wnd :: u16
  sg_data :: "byte list"
  sg_len :: u32
  sg_tsval :: u32
  sg_tsecr :: u32

record SSegment =
  ss_seq :: u32
  ss_len :: u32
  ss_xmit :: byte
  ss_bCtrl :: bool

record RSegment =
  rs_seq :: u32
  rs_len :: u32

record pseudo_tcp =
  m_shutdown :: shutdown
  m_error :: tcp_errno
  m_state :: tcp_state
  m_conv :: u32
  m_bReadEnable :: bool
  m_bWriteEnable :: bool
  m_bOutgoing :: bool
  m_lasttraffic :: u32
  m_rlist :: "RSegment list"
  m_rbuf_len :: u32
  m_rcv_nxt :: u32
  m_rcv_wnd :: u32
  m_lastrecv :: u32
  m_rwnd_scale :: byte
  m_rbuf :: fifo_buffer
  m_slist :: "SSegment list"
  m_sbuf_len :: u32
  m_snd_nxt :: u32
  m_snd_wnd :: u32
  m_lastsend :: u32
  m_snd_una :: u32
  m_swnd_scale :: byte
  m_sbuf :: fifo_buffer
  m_mss :: u32
  m_msslevel :: u32
  m_largest :: u32
  m_mtu_advise :: u32
  m_rto_base :: u32
  m_ts_recent :: u32
  m_ts_lastack :: u32
  m_rx_rttvar :: u32
  m_rx_srtt :: u32
  m_rx_rto :: u32
  m_ssthresh :: u32
  m_cwnd :: u32
  m_dup_acks :: byte
  m_recover :: u32
  m_t_ack :: u32
  m_use_nagling :: bool
  m_ack_delay :: u32
  m_support_wnd_scale :: bool
  m_clock_reads :: nat
  m_events :: "tcp_event list"

record tcp_env =
  e_host :: endian
  e_now :: "nat \<Rightarrow> u32"
  e_write :: "tcp_event list \<Rightarrow> byte list \<Rightarrow> write_result"
  e_fill :: "nat \<Rightarrow> byte"

subsection \<open>Constants and helpers\<close>

definition PACKET_MAXIMUMS :: "u16 list" where
  "PACKET_MAXIMUMS = [65535, 32000, 17914, 8166, 4352, 2002, 1492, 1006, 508, 296, 0]"

definition MAX_PACKET :: u32 where "MAX_PACKET = 65535"
definition MIN_PACKET :: u32 where "MIN_PACKET = 296"
definition IP_HEADER_SIZE :: u32 where "IP_HEADER_SIZE = 20"
definition UDP_HEADER_SIZE :: u32 where "UDP_HEADER_SIZE = 8"
definition JINGLE_HEADER_SIZE :: u32 where "JINGLE_HEADER_SIZE = 64"
definition DEFAULT_RCV_BUF_SIZE :: u32 where "DEFAULT_RCV_BUF_SIZE = 60 * 1024"
definition DEFAULT_SND_BUF_SIZE :: u32 where "DEFAULT_SND_BUF_SIZE = 90 * 1024"
definition HEADER_SIZE :: u32 where "HEADER_SIZE = 24"
definition PACKET_OVERHEAD :: u32 where
  "PACKET_OVERHEAD = HEADER_SIZE + UDP_HEADER_SIZE + IP_HEADER_SIZE + JINGLE_HEADER_SIZE"
definition MIN_RTO :: u32 where "MIN_RTO = 250"
definition DEF_RTO :: u32 where "DEF_RTO = 3000"
definition MAX_RTO :: u32 where "MAX_RTO = 60000"
definition DEF_ACK_DELAY :: u32 where "DEF_ACK_DELAY = 100"
definition FLAG_CTL :: byte where "FLAG_CTL = 0x02"
definition FLAG_RST :: byte where "FLAG_RST = 0x04"
definition CTL_CONNECT :: byte where "CTL_CONNECT = 0"
definition TCP_OPT_EOL :: byte where "TCP_OPT_EOL = 0"
definition TCP_OPT_NOOP :: byte where "TCP_OPT_NOOP = 1"
definition TCP_OPT_MSS :: byte where "TCP_OPT_MSS = 2"
definition TCP_OPT_WND_SCALE :: byte where "TCP_OPT_WND_SCALE = 3"
definition DEFAULT_TIMEOUT :: int where "DEFAULT_TIMEOUT = 4000"
definition CLOSED_TIMEOUT :: int where "CLOSED_TIMEOUT = 60 * 1000"

definition long_to_bytes :: "endian \<Rightarrow> u32 \<Rightarrow> byte list" where
  "long_to_bytes he val = image32 he (HostToNetwork32 he val)"

definition short_to_bytes :: "endian \<Rightarrow> u16 \<Rightarrow> byte list" where
  "short_to_bytes he val = image16 he (HostToNetwork16 he val)"

definition bytes_to_long :: "endian \<Rightarrow> byte list \<Rightarrow> u32" where
  "bytes_to_long he buf = NetworkToHost32 he (value32 he (take 4 buf))"

definition bytes_to_short :: "endian \<Rightarrow> byte list \<Rightarrow> u16" where
  "bytes_to_short he buf = NetworkToHost16 he (value16 he (take 2 buf))"

definition bound :: "u32 \<Rightarrow> u32 \<Rightarrow> u32 \<Rightarrow> u32" where
  "bound lower middle upper = min (max lower middle) upper"

text \<open>\<open>seg.wnd << m_swnd_scale\<close>: undefined for a shift count of 32 or more.\<close>

definition shift_window :: "u16 \<Rightarrow> byte \<Rightarrow> u32 option" where
  "shift_window wnd scale = (if unat scale < 32 then Some (push_bit (unat scale) (ucast wnd)) else None)"

text \<open>The two calls whose arguments \<open>FifoBuffer\<close> asserts to be in range.\<close>

definition consume_read :: "fifo_buffer \<Rightarrow> nat \<Rightarrow> fifo_buffer option" where
  "consume_read f sz = (if sz \<le> ff_data_length f then ConsumeReadData f sz else None)"

definition consume_write :: "fifo_buffer \<Rightarrow> nat \<Rightarrow> fifo_buffer option" where
  "consume_write f sz = (if sz \<le> GetWriteRemaining f then Some (ConsumeWriteBuffer f sz) else None)"

definition fresh_memory :: "tcp_env \<Rightarrow> nat \<Rightarrow> byte list" where
  "fresh_memory e n = map (e_fill e) [0..<n]"

definition Now :: "tcp_env \<Rightarrow> pseudo_tcp \<Rightarrow> u32 \<times> pseudo_tcp" where
  "Now e s = (e_now e (m_clock_reads s), s\<lparr>m_clock_reads := Suc (m_clock_reads s)\<rparr>)"

definition notify :: "pseudo_tcp \<Rightarrow> tcp_event \<Rightarrow> pseudo_tcp" where
  "notify s ev = s\<lparr>m_events := m_events s @ [ev]\<rparr>"

definition PseudoTcp_new :: "tcp_env \<Rightarrow> u32 \<Rightarrow> pseudo_tcp" where
  "PseudoTcp_new e conv =
     (let now = e_now e 0; mss = MIN_PACKET - PACKET_OVERHEAD in
      \<lparr>m_shutdown = SD_NONE, m_error = NoError, m_state = TCP_LISTEN, m_conv = conv,
       m_bReadEnable = True, m_bWriteEnable = False, m_bOutgoing = False, m_lasttraffic = now,
       m_rlist = [], m_rbuf_len = DEFAULT_RCV_BUF_SIZE, m_rcv_nxt = 0, m_rcv_wnd = DEFAULT_RCV_BUF_SIZE,
       m_lastrecv = now, m_rwnd_scale = 0,
       m_rbuf = FifoBuffer_new (unat DEFAULT_RCV_BUF_SIZE) (fresh_memory e (unat DEFAULT_RCV_BUF_SIZE)),
       m_slist = [], m_sbuf_len = DEFAULT_SND_BUF_SIZE, m_snd_nxt = 0, m_snd_wnd = 1, m_lastsend = now,
       m_snd_una = 0, m_swnd_scale = 0,
       m_sbuf = FifoBuffer_new (unat DEFAULT_SND_BUF_SIZE) (fresh_memory e (unat DEFAULT_SND_BUF_SIZE)),
       m_mss = mss, m_msslevel = 0, m_largest = 0, m_mtu_advise = MAX_PACKET, m_rto_base = 0,
       m_ts_recent = 0, m_ts_lastack = 0, m_rx_rttvar = 0, m_rx_srtt = 0, m_rx_rto = DEF_RTO,
       m_ssthresh = DEFAULT_RCV_BUF_SIZE, m_cwnd = 2 * mss, m_dup_acks = 0, m_recover = 0, m_t_ack = 0,
       m_use_nagling = True, m_ack_delay = DEF_ACK_DELAY, m_support_wnd_scale = True,
       m_clock_reads = 1, m_events = []\<rparr>)"

subsection \<open>Sending\<close>

definition queue :: "pseudo_tcp \<Rightarrow> byte list \<Rightarrow> bool \<Rightarrow> nat \<times> pseudo_tcp" where
  "queue s data bCtrl =
     (let available_space = GetWriteRemaining (m_sbuf s);
          len = (if of_nat (length data) > (of_nat available_space :: u32) then of_nat available_space
                 else of_nat (length data) :: u32);
          s = (if m_slist s \<noteq> [] \<and> ss_bCtrl (last (m_slist s)) = bCtrl \<and> ss_xmit (last (m_slist s)) = 0
               then s\<lparr>m_slist := butlast (m_slist s) @
                        [(last (m_slist s))\<lparr>ss_len := ss_len (last (m_slist s)) + len\<rparr>]\<rparr>
               else s\<lparr>m_slist := m_slist s @
                        [\<lparr>ss_seq = m_snd_una s + of_nat (GetBuffered (m_sbuf s)), ss_len = len, ss_xmit = 0,
                          ss_bCtrl = bCtrl\<rparr>]\<rparr>);
          (_, written, sbuf) = fifo_Write (m_sbuf s) (take (unat len) data)
      in (written, s\<lparr>m_sbuf := sbuf\<rparr>))"

definition packet ::
    "tcp_env \<Rightarrow> pseudo_tcp \<Rightarrow> u32 \<Rightarrow> byte \<Rightarrow> u32 \<Rightarrow> u32 \<Rightarrow> (write_result \<times> pseudo_tcp) option" where
  "packet e s seq flags offset len =
     (if unat HEADER_SIZE + unat len > unat MAX_PACKET then None
      else
        let (now, s) = Now e s;
            header = long_to_bytes (e_host e) (m_conv s) @ long_to_bytes (e_host e) seq @
                     long_to_bytes (e_host e) (m_rcv_nxt s) @ [0] @ [flags] @
                     short_to_bytes (e_host e) (ucast (drop_bit (unat (m_rwnd_scale s)) (m_rcv_wnd s))) @
                     long_to_bytes (e_host e) now @ long_to_bytes (e_host e) (m_ts_recent s);
            s = s\<lparr>m_ts_lastack := m_rcv_nxt s\<rparr>;
            bytes_read = (if len \<noteq> 0 then snd (ReadOffset (m_sbuf s) (unat len) (unat offset)) else []);
            payload = bytes_read @ map (e_fill e) [unat HEADER_SIZE + length bytes_read ..< unat HEADER_SIZE + unat len];
            buffer = header @ payload;
            wres = e_write e (m_events s) buffer;
            s = notify s (TcpWritePacket buffer wres)
        in if wres \<noteq> WR_SUCCESS \<and> len \<noteq> 0 then Some (wres, s)
           else
             let s = s\<lparr>m_t_ack := 0\<rparr>;
                 s = (if len > 0 then s\<lparr>m_lastsend := now\<rparr> else s);
                 s = s\<lparr>m_lasttraffic := now, m_bOutgoing := True\<rparr>
             in Some (WR_SUCCESS, s))"

text \<open>The inner loop of \<open>transmit\<close>: the next smaller packet size that shortens the segment, if any.\<close>

function lower_mss :: "pseudo_tcp \<Rightarrow> u32 \<Rightarrow> (u32 option \<times> pseudo_tcp) option" where
  "lower_mss s nTransmit =
     (let level = m_msslevel s + 1 in
      if unat level \<ge> length PACKET_MAXIMUMS then None
      else if PACKET_MAXIMUMS ! unat level = 0 then Some (None, s)
      else
        let mss = ucast (PACKET_MAXIMUMS ! unat level) - PACKET_OVERHEAD;
            s' = s\<lparr>m_msslevel := level, m_mss := mss, m_cwnd := 2 * mss\<rparr>
        in if mss < nTransmit then Some (Some mss, s') else lower_mss s' nTransmit)"
  by pat_completeness auto

definition levels_left :: "pseudo_tcp \<Rightarrow> nat" where
  "levels_left s = length PACKET_MAXIMUMS - unat (m_msslevel s + 1)"

lemma levels_left_step:
  assumes "unat (m_msslevel s + 1) < length PACKET_MAXIMUMS" and "m_msslevel s' = m_msslevel s + 1"
  shows "levels_left s' < levels_left s"
proof -
  have "unat (m_msslevel s + 1 + 1) = unat (m_msslevel s + 1) + 1"
    using assms(1) by (subst unat_add_lem [THEN iffD1]) (simp_all add: PACKET_MAXIMUMS_def)
  then show ?thesis using assms by (simp add: levels_left_def)
qed

termination lower_mss
  by (relation "measure (levels_left \<circ> fst)") (auto intro: levels_left_step)

declare lower_mss.simps [simp del]

lemma lower_mss_levels: "lower_mss s n = Some (Some m, s') \<Longrightarrow> levels_left s' < levels_left s"
proof (induction s n arbitrary: rule: lower_mss.induct)
  case (1 s n)
  let ?level = "m_msslevel s + 1"
  let ?mss = "ucast (PACKET_MAXIMUMS ! unat ?level) - PACKET_OVERHEAD :: u32"
  let ?s = "s\<lparr>m_msslevel := ?level, m_mss := ?mss, m_cwnd := 2 * ?mss\<rparr>"
  have lt: "unat ?level < length PACKET_MAXIMUMS" and nz: "PACKET_MAXIMUMS ! unat ?level \<noteq> 0"
    using "1.prems" by (auto simp: lower_mss.simps [of s n] Let_def split: if_splits)
  have step: "levels_left ?s < levels_left s" by (rule levels_left_step [OF lt]) simp
  show ?case
  proof (cases "?mss < n")
    case True
    then have "levels_left s' = levels_left ?s"
      using "1.prems" lt nz by (auto simp: lower_mss.simps [of s n] Let_def levels_left_def)
    then show ?thesis using step by simp
  next
    case False
    have "levels_left s' < levels_left ?s"
    proof (rule "1.IH" [OF refl])
      show "\<not> length PACKET_MAXIMUMS \<le> unat ?level" using lt by simp
      show "PACKET_MAXIMUMS ! unat ?level \<noteq> 0" by (rule nz)
      show "\<not> ?mss < n" by (rule False)
      show "lower_mss ?s n = Some (Some m, s')" using "1.prems" lt nz False by (simp add: lower_mss.simps [of s n] Let_def)
    qed (rule refl)+
    then show ?thesis using step by simp
  qed
qed

lemma packet_levels: "packet e s seq flags offset len = Some (w, s') \<Longrightarrow> levels_left s' = levels_left s"
  by (auto simp: packet_def Now_def notify_def levels_left_def Let_def split: if_splits)

text \<open>The outer loop of \<open>transmit\<close>: how much of the segment went out, or nothing when it cannot be sent.\<close>

function transmit_loop :: "tcp_env \<Rightarrow> pseudo_tcp \<Rightarrow> SSegment \<Rightarrow> u32 \<Rightarrow> (u32 option \<times> pseudo_tcp) option" where
  "transmit_loop e s seg nTransmit =
     (case packet e s (ss_seq seg) (if ss_bCtrl seg then FLAG_CTL else 0) (ss_seq seg - m_snd_una s) nTransmit of
        None \<Rightarrow> None
      | Some (wres, s) \<Rightarrow>
          if wres = WR_SUCCESS then Some (Some nTransmit, s)
          else if wres = WR_FAIL then Some (None, s)
          else
            (case lower_mss s nTransmit of
               None \<Rightarrow> None
             | Some (None, s) \<Rightarrow> Some (None, s)
             | Some (Some mss, s) \<Rightarrow> transmit_loop e s seg mss))"
  by pat_completeness auto
termination transmit_loop
  by (relation "measure (\<lambda>(e, s, seg, n). levels_left s)")
    (use lower_mss_levels packet_levels in \<open>fastforce+\<close>)

declare transmit_loop.simps [simp del]

text \<open>\<open>transmit\<close> gets an iterator into \<open>m_slist\<close>: here the index of the segment.\<close>

definition transmit :: "tcp_env \<Rightarrow> pseudo_tcp \<Rightarrow> nat \<Rightarrow> u32 \<Rightarrow> (bool \<times> pseudo_tcp) option" where
  "transmit e s i now =
     (if i \<ge> length (m_slist s) then None
      else
        let seg = m_slist s ! i in
        if unat (ss_xmit seg) \<ge> (if m_state s = TCP_ESTABLISHED then 15 else 30) then Some (False, s)
        else
          (case transmit_loop e s seg (min (ss_len seg) (m_mss s)) of
             None \<Rightarrow> None
           | Some (None, s) \<Rightarrow> Some (False, s)
           | Some (Some nTransmit, s) \<Rightarrow>
               let subsegs = (if nTransmit < ss_len seg
                              then [\<lparr>ss_seq = ss_seq seg + nTransmit, ss_len = ss_len seg - nTransmit,
                                     ss_xmit = ss_xmit seg, ss_bCtrl = ss_bCtrl seg\<rparr>]
                              else []);
                   seg = (if nTransmit < ss_len seg then seg\<lparr>ss_len := nTransmit\<rparr> else seg);
                   s = (if ss_xmit seg = 0 then s\<lparr>m_snd_nxt := m_snd_nxt s + ss_len seg\<rparr> else s);
                   seg = seg\<lparr>ss_xmit := ss_xmit seg + 1\<rparr>;
                   s = s\<lparr>m_slist := take i (m_slist s) @ [seg] @ subsegs @ drop (Suc i) (m_slist s)\<rparr>;
                   s = (if m_rto_base s = 0 then s\<lparr>m_rto_base := now\<rparr> else s)
               in Some (True, s)))"

text \<open>The search for the first segment that was never sent; \<open>None\<close> runs past the end of the list.\<close>

fun find_unsent :: "SSegment list \<Rightarrow> nat option" where
  "find_unsent [] = None"
| "find_unsent (seg # segs) = (if ss_xmit seg > 0 then map_option Suc (find_unsent segs) else Some 0)"

definition split_segment :: "SSegment list \<Rightarrow> nat \<Rightarrow> u32 \<Rightarrow> SSegment list" where
  "split_segment slist i n =
     (let seg = slist ! i in
      if ss_len seg > n
      then take i slist @
             [seg\<lparr>ss_len := n\<rparr>,
              \<lparr>ss_seq = ss_seq seg + n, ss_len = ss_len seg - n, ss_xmit = 0, ss_bCtrl = ss_bCtrl seg\<rparr>] @
             drop (Suc i) slist
      else slist)"

text \<open>How many bytes the windows and the buffer allow to be sent next.\<close>

definition available_to_send :: "pseudo_tcp \<Rightarrow> u32" where
  "available_to_send s =
     (let cwnd = (if m_dup_acks s = 1 \<or> m_dup_acks s = 2 then m_cwnd s + ucast (m_dup_acks s) * m_mss s else m_cwnd s);
          nWindow = min (m_snd_wnd s) cwnd;
          nInFlight = m_snd_nxt s - m_snd_una s;
          nUseable = (if nInFlight < nWindow then nWindow - nInFlight else 0);
          nAvailable = min (of_nat (GetBuffered (m_sbuf s)) - nInFlight) (m_mss s)
      in if nAvailable > nUseable then (if nUseable * 4 < nWindow then 0 else nUseable) else nAvailable)"

partial_function (option) attemptSend_loop ::
    "tcp_env \<Rightarrow> u32 \<Rightarrow> pseudo_tcp \<Rightarrow> send_flags \<Rightarrow> pseudo_tcp option" where
  [code]: "attemptSend_loop e now s sflags =
     (let nAvailable = available_to_send s in
      if nAvailable = 0 then
        if sflags = sfNone then Some s
        else if sflags = sfImmediateAck \<or> m_t_ack s \<noteq> 0 then map_option snd (packet e s (m_snd_nxt s) 0 0 0)
        else let (t, s) = Now e s in Some (s\<lparr>m_t_ack := t\<rparr>)
      else if m_use_nagling s \<and> m_snd_nxt s > m_snd_una s \<and> nAvailable < m_mss s then Some s
      else
        (case find_unsent (m_slist s) of
           None \<Rightarrow> None
         | Some i \<Rightarrow>
             Option.bind (transmit e (s\<lparr>m_slist := split_segment (m_slist s) i nAvailable\<rparr>) i now)
               (\<lambda>(ok, s). if \<not> ok then Some s else attemptSend_loop e now s sfNone)))"

definition attemptSend :: "tcp_env \<Rightarrow> pseudo_tcp \<Rightarrow> send_flags \<Rightarrow> pseudo_tcp option" where
  "attemptSend e s sflags =
     (let (now, s) = Now e s;
          s = (if TimeDiff now (m_lastsend s) > uint (m_rx_rto s) then s\<lparr>m_cwnd := m_mss s\<rparr> else s)
      in attemptSend_loop e now s sflags)"

definition closedown :: "pseudo_tcp \<Rightarrow> tcp_errno \<Rightarrow> pseudo_tcp" where
  "closedown s err = notify (s\<lparr>m_state := TCP_CLOSED\<rparr>) (OnTcpClosed err)"

subsection \<open>Packet sizes, buffers and options\<close>

fun mtu_level :: "u16 list \<Rightarrow> u32 \<Rightarrow> nat" where
  "mtu_level (a # b # sizes) mtu = (if b > 0 then if ucast a \<le> mtu then 0 else Suc (mtu_level (b # sizes) mtu) else 0)"
| "mtu_level sizes mtu = 0"

definition adjustMTU :: "pseudo_tcp \<Rightarrow> pseudo_tcp" where
  "adjustMTU s =
     (let mss = m_mtu_advise s - PACKET_OVERHEAD in
      s\<lparr>m_msslevel := of_nat (mtu_level PACKET_MAXIMUMS (m_mtu_advise s)), m_mss := mss,
        m_ssthresh := max (m_ssthresh s) (2 * mss), m_cwnd := max (m_cwnd s) mss\<rparr>)"

definition isReceiveBufferFull :: "pseudo_tcp \<Rightarrow> bool" where
  "isReceiveBufferFull s \<longleftrightarrow> GetWriteRemaining (m_rbuf s) = 0"

definition disableWindowScale :: "pseudo_tcp \<Rightarrow> pseudo_tcp" where
  "disableWindowScale s = s\<lparr>m_support_wnd_scale := False\<rparr>"

definition queueConnectMessage :: "pseudo_tcp \<Rightarrow> pseudo_tcp" where
  "queueConnectMessage s =
     (let buf = WriteUInt8 (ByteBuffer_of_order ORDER_NETWORK) CTL_CONNECT;
          buf = (if m_support_wnd_scale s
                 then WriteUInt8 (WriteUInt8 (WriteUInt8 buf TCP_OPT_WND_SCALE) 1) (m_rwnd_scale s) else buf);
          s = s\<lparr>m_snd_wnd := of_nat (Length buf)\<rparr>
      in snd (queue s (take (Length buf) (Data buf)) True))"

definition applyWindowScaleOption :: "pseudo_tcp \<Rightarrow> byte \<Rightarrow> pseudo_tcp" where
  "applyWindowScaleOption s scale_factor = s\<lparr>m_swnd_scale := scale_factor\<rparr>"

definition applyOption :: "pseudo_tcp \<Rightarrow> byte \<Rightarrow> byte list \<Rightarrow> byte \<Rightarrow> pseudo_tcp" where
  "applyOption s kind data len =
     (if kind = TCP_OPT_WND_SCALE \<and> len = 1 then applyWindowScaleOption s (data ! 0) else s)"

definition resizeSendBuffer :: "tcp_env \<Rightarrow> pseudo_tcp \<Rightarrow> u32 \<Rightarrow> pseudo_tcp" where
  "resizeSendBuffer e s new_size =
     s\<lparr>m_sbuf_len := new_size, m_sbuf := snd (SetCapacity (m_sbuf s) (unat new_size) (fresh_memory e (unat new_size)))\<rparr>"

function scale_size :: "u32 \<Rightarrow> byte \<Rightarrow> u32 \<times> byte" where
  "scale_size new_size scale_factor =
     (if new_size > 0xFFFF then scale_size (drop_bit 1 new_size) (scale_factor + 1) else (new_size, scale_factor))"
  by pat_completeness auto
termination scale_size
  by (relation "measure (unat \<circ> fst)") (auto simp: word_less_nat_alt drop_bit_Suc unat_div_distrib)

declare scale_size.simps [simp del]

definition resizeReceiveBuffer :: "tcp_env \<Rightarrow> pseudo_tcp \<Rightarrow> u32 \<Rightarrow> pseudo_tcp" where
  "resizeReceiveBuffer e s new_size =
     (let (new_size, scale_factor) = scale_size new_size 0;
          new_size = push_bit (unat scale_factor) new_size;
          rbuf = snd (SetCapacity (m_rbuf s) (unat new_size) (fresh_memory e (unat new_size)))
      in s\<lparr>m_rbuf := rbuf, m_rbuf_len := new_size, m_rwnd_scale := scale_factor, m_ssthresh := new_size,
           m_rcv_wnd := of_nat (GetWriteRemaining rbuf)\<rparr>)"

text \<open>
  The loop of \<open>parseOptions\<close> over the rest of the buffer: the object and, unless it returned on an
  invalid length, the kinds it saw.  The read of the option length may fail and leaves 0 then.
\<close>

function parse_options_loop :: "pseudo_tcp \<Rightarrow> byte_buffer \<Rightarrow> byte list \<Rightarrow> byte list option \<times> pseudo_tcp" where
  "parse_options_loop s buf kinds =
     (if Length buf = 0 then (Some kinds, s)
      else
        (case ReadUInt8 buf of
           None \<Rightarrow> (Some kinds, s)
         | Some (kind, buf) \<Rightarrow>
             if kind = TCP_OPT_EOL then (Some kinds, s)
             else if kind = TCP_OPT_NOOP then parse_options_loop s buf kinds
             else
               let (opt_len, buf) = (case ReadUInt8 buf of None \<Rightarrow> (0, buf) | Some r \<Rightarrow> r) in
               if unat opt_len \<le> Length buf then
                 (case Consume buf (unat opt_len) of
                    None \<Rightarrow> (None, s)
                  | Some buf' \<Rightarrow> parse_options_loop (applyOption s kind (Data buf) opt_len) buf' (kind # kinds))
               else (None, s)))"
  by pat_completeness auto

lemma ReadUInt8_Length: "ReadUInt8 b = Some (v, b') \<Longrightarrow> Length b' < Length b"
  by (auto simp: ReadUInt8_def ReadBytes_def Length_def split: if_splits)

lemma ReadUInt8_default_Length:
  "(v, b') = (case ReadUInt8 b of None \<Rightarrow> (0, b) | Some r \<Rightarrow> r) \<Longrightarrow> Length b' \<le> Length b"
  using ReadUInt8_Length [of b v b'] by (cases "ReadUInt8 b") auto

lemma Consume_shrinks: "Consume b n = Some b' \<Longrightarrow> Length b' \<le> Length b"
  by (auto simp: Consume_def Length_def split: if_splits)

termination parse_options_loop
  by (relation "measure (\<lambda>(s, buf, kinds). Length buf)")
    (auto dest!: ReadUInt8_Length ReadUInt8_default_Length Consume_shrinks)

declare parse_options_loop.simps [simp del]

definition parseOptions :: "tcp_env \<Rightarrow> pseudo_tcp \<Rightarrow> byte list \<Rightarrow> pseudo_tcp" where
  "parseOptions e s data =
     (case parse_options_loop s (ByteBuffer_of data) [] of
        (None, s) \<Rightarrow> s
      | (Some options_specified, s) \<Rightarrow>
          if TCP_OPT_WND_SCALE \<notin> set options_specified \<and> m_rwnd_scale s > 0
          then (resizeReceiveBuffer e s DEFAULT_RCV_BUF_SIZE)\<lparr>m_swnd_scale := 0\<rparr>
          else s)"

subsection \<open>Receiving\<close>

text \<open>
  \<open>process\<close> in its steps.  A step that may return from \<open>process\<close> says so with its first result:
  \<open>False\<close> is the return of \<open>false\<close>.
\<close>

definition process_control :: "tcp_env \<Rightarrow> pseudo_tcp \<Rightarrow> Segment \<Rightarrow> bool \<times> bool \<times> pseudo_tcp" where
  "process_control e s seg =
     (if sg_flags seg AND FLAG_CTL \<noteq> 0 then
        if sg_len seg = 0 then (False, False, s)
        else if sg_data seg ! 0 = CTL_CONNECT then
          let s = parseOptions e s (take (unat (sg_len seg - 1)) (drop 1 (sg_data seg))) in
          if m_state s = TCP_LISTEN then (True, True, queueConnectMessage (s\<lparr>m_state := TCP_SYN_RECEIVED\<rparr>))
          else if m_state s = TCP_SYN_SENT
          then (True, True, notify (adjustMTU (s\<lparr>m_state := TCP_ESTABLISHED\<rparr>)) OnTcpOpen)
          else (True, True, s)
        else (False, False, s)
      else (True, False, s))"

definition process_timestamp :: "pseudo_tcp \<Rightarrow> Segment \<Rightarrow> pseudo_tcp" where
  "process_timestamp s seg =
     (if sg_seq seg \<le> m_ts_lastack s \<and> m_ts_lastack s < sg_seq seg + sg_len seg
      then s\<lparr>m_ts_recent := sg_tsval seg\<rparr> else s)"

definition update_rtt :: "pseudo_tcp \<Rightarrow> Segment \<Rightarrow> u32 \<Rightarrow> pseudo_tcp" where
  "update_rtt s seg now =
     (if sg_tsecr seg \<noteq> 0 then
        let rtt = TimeDiff now (sg_tsecr seg) in
        if rtt \<ge> 0 then
          let s = (if m_rx_srtt s = 0
                   then s\<lparr>m_rx_srtt := word_of_int rtt, m_rx_rttvar := word_of_int (rtt div 2)\<rparr>
                   else s\<lparr>m_rx_rttvar := word_of_int ((uint (3 * m_rx_rttvar s) + \<bar>rtt - uint (m_rx_srtt s)\<bar>) div 4),
                          m_rx_srtt := word_of_int ((uint (7 * m_rx_srtt s) + rtt) div 8)\<rparr>)
          in s\<lparr>m_rx_rto := bound MIN_RTO (m_rx_srtt s + max 1 (4 * m_rx_rttvar s)) MAX_RTO\<rparr>
        else s
      else s)"

text \<open>The loop that drops acknowledged segments and remembers the largest; \<open>None\<close> is \<open>front()\<close> of an empty list.\<close>

fun free_acked :: "u32 \<Rightarrow> SSegment list \<Rightarrow> u32 \<Rightarrow> (SSegment list \<times> u32) option" where
  "free_acked nFree [] largest = (if nFree > 0 then None else Some ([], largest))"
| "free_acked nFree (seg # segs) largest =
     (if nFree > 0 then
        if nFree < ss_len seg then Some (seg\<lparr>ss_len := ss_len seg - nFree\<rparr> # segs, largest)
        else free_acked (nFree - ss_len seg) segs (if ss_len seg > largest then ss_len seg else largest)
      else Some (seg # segs, largest))"

text \<open>An acknowledgement of new data: drop what it covers, then the congestion window.\<close>

definition ack_congestion :: "tcp_env \<Rightarrow> pseudo_tcp \<Rightarrow> u32 \<Rightarrow> u32 \<Rightarrow> (bool \<times> pseudo_tcp) option" where
  "ack_congestion e s nAcked now =
     (if m_dup_acks s \<ge> 3 then
        if m_snd_una s \<ge> m_recover s
        then Some (True, s\<lparr>m_cwnd := min (m_ssthresh s) (m_snd_nxt s - m_snd_una s + m_mss s), m_dup_acks := 0\<rparr>)
        else do {
          (ok, s) \<leftarrow> transmit e s 0 now;
          if \<not> ok then Some (False, closedown s ECONNABORTED)
          else Some (True, s\<lparr>m_cwnd := m_cwnd s + (m_mss s - min nAcked (m_cwnd s))\<rparr>)
        }
      else
        let s = s\<lparr>m_dup_acks := 0\<rparr> in
        if m_cwnd s < m_ssthresh s then Some (True, s\<lparr>m_cwnd := m_cwnd s + m_mss s\<rparr>)
        else if m_cwnd s = 0 then None
        else Some (True, s\<lparr>m_cwnd := m_cwnd s + max 1 (m_mss s * m_mss s div m_cwnd s)\<rparr>))"

definition process_new_ack :: "tcp_env \<Rightarrow> pseudo_tcp \<Rightarrow> Segment \<Rightarrow> u32 \<Rightarrow> (bool \<times> pseudo_tcp) option" where
  "process_new_ack e s seg now = do {
     let s = update_rtt s seg now;
     snd_wnd \<leftarrow> shift_window (sg_wnd seg) (m_swnd_scale s);
     let nAcked = sg_ack seg - m_snd_una s;
     let s = s\<lparr>m_snd_wnd := snd_wnd, m_snd_una := sg_ack seg\<rparr>;
     let s = s\<lparr>m_rto_base := (if m_snd_una s = m_snd_nxt s then 0 else now)\<rparr>;
     sbuf \<leftarrow> consume_read (m_sbuf s) (unat nAcked);
     (slist, largest) \<leftarrow> free_acked nAcked (m_slist s) (m_largest s);
     ack_congestion e (s\<lparr>m_sbuf := sbuf, m_slist := slist, m_largest := largest\<rparr>) nAcked now
   }"

definition process_dup_ack :: "tcp_env \<Rightarrow> pseudo_tcp \<Rightarrow> Segment \<Rightarrow> u32 \<Rightarrow> (bool \<times> pseudo_tcp) option" where
  "process_dup_ack e s seg now = do {
     snd_wnd \<leftarrow> shift_window (sg_wnd seg) (m_swnd_scale s);
     let s = s\<lparr>m_snd_wnd := snd_wnd\<rparr>;
     if sg_len seg > 0 then Some (True, s)
     else if m_snd_una s \<noteq> m_snd_nxt s then
       let s = s\<lparr>m_dup_acks := m_dup_acks s + 1\<rparr> in
       if m_dup_acks s = 3 then do {
         (ok, s) \<leftarrow> transmit e s 0 now;
         if \<not> ok then Some (False, closedown s ECONNABORTED)
         else
           let s = s\<lparr>m_recover := m_snd_nxt s\<rparr>;
               nInFlight = m_snd_nxt s - m_snd_una s;
               s = s\<lparr>m_ssthresh := max (nInFlight div 2) (2 * m_mss s)\<rparr>
           in Some (True, s\<lparr>m_cwnd := m_ssthresh s + 3 * m_mss s\<rparr>)
       }
       else if m_dup_acks s > 3 then Some (True, s\<lparr>m_cwnd := m_cwnd s + m_mss s\<rparr>)
       else Some (True, s)
     else Some (True, s\<lparr>m_dup_acks := 0\<rparr>)
   }"

definition process_ack :: "tcp_env \<Rightarrow> pseudo_tcp \<Rightarrow> Segment \<Rightarrow> u32 \<Rightarrow> (bool \<times> pseudo_tcp) option" where
  "process_ack e s seg now =
     (if sg_ack seg > m_snd_una s \<and> sg_ack seg \<le> m_snd_nxt s then process_new_ack e s seg now
      else if sg_ack seg = m_snd_una s then process_dup_ack e s seg now
      else Some (True, s))"

definition process_open :: "pseudo_tcp \<Rightarrow> bool \<Rightarrow> pseudo_tcp" where
  "process_open s bConnect =
     (if m_state s = TCP_SYN_RECEIVED \<and> \<not> bConnect
      then notify (adjustMTU (s\<lparr>m_state := TCP_ESTABLISHED\<rparr>)) OnTcpOpen else s)"

definition process_writeable :: "pseudo_tcp \<Rightarrow> pseudo_tcp" where
  "process_writeable s =
     (let kIdealRefillSize = (m_sbuf_len s + m_rbuf_len s) div 2 in
      if m_bWriteEnable s \<and> of_nat (GetBuffered (m_sbuf s)) < kIdealRefillSize
      then notify (s\<lparr>m_bWriteEnable := False\<rparr>) OnTcpWriteable else s)"

definition ack_flags :: "pseudo_tcp \<Rightarrow> Segment \<Rightarrow> send_flags" where
  "ack_flags s seg =
     (if sg_seq seg \<noteq> m_rcv_nxt s then sfImmediateAck
      else if sg_len seg \<noteq> 0 then (if m_ack_delay s = 0 then sfImmediateAck else sfDelayedAck)
      else sfNone)"

text \<open>The segment cut to what is new and fits the receive buffer.\<close>

definition fit_segment :: "pseudo_tcp \<Rightarrow> Segment \<Rightarrow> Segment" where
  "fit_segment s seg =
     (let seg = (if sg_seq seg < m_rcv_nxt s then
                   let nAdjust = m_rcv_nxt s - sg_seq seg in
                   if nAdjust < sg_len seg
                   then seg\<lparr>sg_seq := sg_seq seg + nAdjust, sg_data := drop (unat nAdjust) (sg_data seg),
                            sg_len := sg_len seg - nAdjust\<rparr>
                   else seg\<lparr>sg_len := 0\<rparr>
                 else seg);
          available_space = of_nat (GetWriteRemaining (m_rbuf s))
      in if sg_seq seg + sg_len seg - m_rcv_nxt s > available_space then
           let nAdjust = sg_seq seg + sg_len seg - m_rcv_nxt s - available_space in
           if nAdjust < sg_len seg then seg\<lparr>sg_len := sg_len seg - nAdjust\<rparr> else seg\<lparr>sg_len := 0\<rparr>
         else seg)"

fun recover_segments :: "RSegment list \<Rightarrow> pseudo_tcp \<Rightarrow> send_flags \<Rightarrow> (send_flags \<times> pseudo_tcp) option" where
  "recover_segments [] s sflags = Some (sflags, s\<lparr>m_rlist := []\<rparr>)"
| "recover_segments (it # its) s sflags =
     (if rs_seq it \<le> m_rcv_nxt s then
        if rs_seq it + rs_len it > m_rcv_nxt s then do {
          let nAdjust = rs_seq it + rs_len it - m_rcv_nxt s;
          rbuf \<leftarrow> consume_write (m_rbuf s) (unat nAdjust);
          recover_segments its
            (s\<lparr>m_rbuf := rbuf, m_rcv_nxt := m_rcv_nxt s + nAdjust, m_rcv_wnd := m_rcv_wnd s - nAdjust\<rparr>) sfImmediateAck
        }
        else recover_segments its s sflags
      else Some (sflags, s\<lparr>m_rlist := it # its\<rparr>))"

definition save_segment :: "RSegment \<Rightarrow> RSegment list \<Rightarrow> RSegment list" where
  "save_segment rseg rlist =
     takeWhile (\<lambda>it. rs_seq it < rs_seq rseg) rlist @ [rseg] @ dropWhile (\<lambda>it. rs_seq it < rs_seq rseg) rlist"

text \<open>The data of a fitted segment: the flags for the acknowledgement and whether there is new data to read.\<close>

definition receive_data :: "pseudo_tcp \<Rightarrow> Segment \<Rightarrow> send_flags \<Rightarrow> (send_flags \<times> bool \<times> pseudo_tcp) option" where
  "receive_data s seg sflags =
     (if sg_len seg > 0 then
        if sg_flags seg AND FLAG_CTL \<noteq> 0 \<or> m_shutdown s \<noteq> SD_NONE
        then Some (sflags, False, if sg_seq seg = m_rcv_nxt s then s\<lparr>m_rcv_nxt := m_rcv_nxt s + sg_len seg\<rparr> else s)
        else
          let nOffset = sg_seq seg - m_rcv_nxt s;
              (_, _, rbuf) = WriteOffset (m_rbuf s) (take (unat (sg_len seg)) (sg_data seg)) (unat nOffset);
              s = s\<lparr>m_rbuf := rbuf\<rparr>
          in if sg_seq seg = m_rcv_nxt s then do {
               rbuf \<leftarrow> consume_write (m_rbuf s) (unat (sg_len seg));
               (sflags, s) \<leftarrow> recover_segments (m_rlist s)
                  (s\<lparr>m_rbuf := rbuf, m_rcv_nxt := m_rcv_nxt s + sg_len seg, m_rcv_wnd := m_rcv_wnd s - sg_len seg\<rparr>) sflags;
               Some (sflags, True, s)
             }
             else Some (sflags, False,
                    s\<lparr>m_rlist := save_segment \<lparr>rs_seq = sg_seq seg, rs_len = sg_len seg\<rparr> (m_rlist s)\<rparr>)
      else Some (sflags, False, s))"

definition process :: "tcp_env \<Rightarrow> pseudo_tcp \<Rightarrow> Segment \<Rightarrow> (bool \<times> pseudo_tcp) option" where
  "process e s seg =
     (if sg_conv seg \<noteq> m_conv s then Some (False, s)
      else
        let (now, s) = Now e s;
            s = s\<lparr>m_lasttraffic := now, m_lastrecv := now, m_bOutgoing := False\<rparr>
        in if m_state s = TCP_CLOSED then Some (False, s)
        else if sg_flags seg AND FLAG_RST \<noteq> 0 then Some (False, closedown s ECONNRESET)
        else
          let (ok, bConnect, s) = process_control e s seg in
          if \<not> ok then Some (False, s)
          else do {
            (ok, s) \<leftarrow> process_ack e (process_timestamp s seg) seg now;
            if \<not> ok then Some (False, s)
            else do {
              let s = process_writeable (process_open s bConnect);
              (sflags, bNewData, s) \<leftarrow> receive_data s (fit_segment s seg) (ack_flags s seg);
              s \<leftarrow> attemptSend e s sflags;
              Some (True, if bNewData \<and> m_bReadEnable s then notify (s\<lparr>m_bReadEnable := False\<rparr>) OnTcpReadable else s)
            }
          })"

text \<open>
  \<open>parse\<close> accepts any packet of 12 bytes or more but reads the 24 bytes of the header: a packet of
  12 to 23 bytes is read past its end.
\<close>

definition parse :: "tcp_env \<Rightarrow> pseudo_tcp \<Rightarrow> byte list \<Rightarrow> (bool \<times> pseudo_tcp) option" where
  "parse e s buffer =
     (if length buffer < 12 then Some (False, s)
      else if length buffer < unat HEADER_SIZE then None
      else process e s
        \<lparr>sg_conv = bytes_to_long (e_host e) buffer, sg_seq = bytes_to_long (e_host e) (drop 4 buffer),
         sg_ack = bytes_to_long (e_host e) (drop 8 buffer), sg_flags = buffer ! 13,
         sg_wnd = bytes_to_short (e_host e) (drop 14 buffer), sg_data = drop (unat HEADER_SIZE) buffer,
         sg_len = of_nat (length buffer) - HEADER_SIZE, sg_tsval = bytes_to_long (e_host e) (drop 16 buffer),
         sg_tsecr = bytes_to_long (e_host e) (drop 20 buffer)\<rparr>)"

subsection \<open>Public methods\<close>

definition Connect :: "tcp_env \<Rightarrow> pseudo_tcp \<Rightarrow> (int \<times> pseudo_tcp) option" where
  "Connect e s =
     (if m_state s \<noteq> TCP_LISTEN then Some (- 1, s\<lparr>m_error := EINVAL\<rparr>)
      else map_option (\<lambda>s. (0, s)) (attemptSend e (queueConnectMessage (s\<lparr>m_state := TCP_SYN_SENT\<rparr>)) sfNone))"

definition NotifyMTU :: "pseudo_tcp \<Rightarrow> u16 \<Rightarrow> pseudo_tcp" where
  "NotifyMTU s mtu =
     (let s = s\<lparr>m_mtu_advise := ucast mtu\<rparr> in if m_state s = TCP_ESTABLISHED then adjustMTU s else s)"

text \<open>The three timers of \<open>NotifyClock\<close>; the first two may close the connection and return.\<close>

definition retransmit_timer :: "tcp_env \<Rightarrow> pseudo_tcp \<Rightarrow> u32 \<Rightarrow> (bool \<times> pseudo_tcp) option" where
  "retransmit_timer e s now =
     (if m_rto_base s \<noteq> 0 \<and> TimeDiff (m_rto_base s + m_rx_rto s) now \<le> 0 \<and> m_slist s \<noteq> [] then do {
        (ok, s) \<leftarrow> transmit e s 0 now;
        if \<not> ok then Some (False, closedown s ECONNABORTED)
        else
          let nInFlight = m_snd_nxt s - m_snd_una s;
              s = s\<lparr>m_ssthresh := max (nInFlight div 2) (2 * m_mss s), m_cwnd := m_mss s\<rparr>;
              rto_limit = (if m_state s \<in> {TCP_LISTEN, TCP_SYN_SENT, TCP_SYN_RECEIVED} then DEF_RTO else MAX_RTO)
          in Some (True, s\<lparr>m_rx_rto := min rto_limit (m_rx_rto s * 2), m_rto_base := now\<rparr>)
      }
      else Some (True, s))"

definition probe_timer :: "tcp_env \<Rightarrow> pseudo_tcp \<Rightarrow> u32 \<Rightarrow> (bool \<times> pseudo_tcp) option" where
  "probe_timer e s now =
     (if m_snd_wnd s = 0 \<and> TimeDiff (m_lastsend s + m_rx_rto s) now \<le> 0 then
        if TimeDiff now (m_lastrecv s) \<ge> 15000 then Some (False, closedown s ECONNABORTED)
        else do {
          (_, s) \<leftarrow> packet e s (m_snd_nxt s - 1) 0 0 0;
          let s = s\<lparr>m_lastsend := now\<rparr>;
          Some (True, s\<lparr>m_rx_rto := min MAX_RTO (m_rx_rto s * 2)\<rparr>)
        }
      else Some (True, s))"

definition NotifyClock :: "tcp_env \<Rightarrow> pseudo_tcp \<Rightarrow> u32 \<Rightarrow> pseudo_tcp option" where
  "NotifyClock e s now =
     (if m_state s = TCP_CLOSED then Some s
      else do {
        (ok, s) \<leftarrow> retransmit_timer e s now;
        if \<not> ok then Some s
        else do {
          (ok, s) \<leftarrow> probe_timer e s now;
          if \<not> ok then Some s
          else if m_t_ack s \<noteq> 0 \<and> TimeDiff (m_t_ack s + m_ack_delay s) now \<le> 0
          then map_option snd (packet e s (m_snd_nxt s) 0 0 0)
          else Some s
        }
      })"

definition NotifyPacket :: "tcp_env \<Rightarrow> pseudo_tcp \<Rightarrow> byte list \<Rightarrow> (bool \<times> pseudo_tcp) option" where
  "NotifyPacket e s buffer =
     (if length buffer > unat MAX_PACKET then Some (False, s) else parse e s buffer)"

text \<open>The time until the next call of \<open>NotifyClock\<close>; \<open>None\<close> is the return of \<open>false\<close>.\<close>

definition clock_check :: "pseudo_tcp \<Rightarrow> u32 \<Rightarrow> int option" where
  "clock_check s now =
     (if m_shutdown s = SD_FORCEFUL then None
      else if m_shutdown s = SD_GRACEFUL \<and>
              (m_state s \<noteq> TCP_ESTABLISHED \<or> GetBuffered (m_sbuf s) = 0 \<and> m_t_ack s = 0) then None
      else if m_state s = TCP_CLOSED then Some CLOSED_TIMEOUT
      else
        let nTimeout = DEFAULT_TIMEOUT;
            nTimeout = (if m_t_ack s \<noteq> 0 then min nTimeout (TimeDiff (m_t_ack s + m_ack_delay s) now) else nTimeout);
            nTimeout = (if m_rto_base s \<noteq> 0 then min nTimeout (TimeDiff (m_rto_base s + m_rx_rto s) now) else nTimeout);
            nTimeout = (if m_snd_wnd s = 0 then min nTimeout (TimeDiff (m_lastsend s + m_rx_rto s) now) else nTimeout)
        in Some nTimeout)"

definition GetNextClock :: "pseudo_tcp \<Rightarrow> u32 \<Rightarrow> int option" where
  "GetNextClock s now = clock_check s now"

text \<open>Option values are \<open>int\<close>s, kept as their 32 bits.\<close>

definition GetOption :: "pseudo_tcp \<Rightarrow> tcp_option \<Rightarrow> u32" where
  "GetOption s opt =
     (case opt of
        OPT_NODELAY \<Rightarrow> (if m_use_nagling s then 0 else 1)
      | OPT_ACKDELAY \<Rightarrow> m_ack_delay s
      | OPT_SNDBUF \<Rightarrow> m_sbuf_len s
      | OPT_RCVBUF \<Rightarrow> m_rbuf_len s)"

definition SetOption :: "tcp_env \<Rightarrow> pseudo_tcp \<Rightarrow> tcp_option \<Rightarrow> u32 \<Rightarrow> pseudo_tcp" where
  "SetOption e s opt val =
     (case opt of
        OPT_NODELAY \<Rightarrow> s\<lparr>m_use_nagling := (val = 0)\<rparr>
      | OPT_ACKDELAY \<Rightarrow> s\<lparr>m_ack_delay := val\<rparr>
      | OPT_SNDBUF \<Rightarrow> resizeSendBuffer e s val
      | OPT_RCVBUF \<Rightarrow> resizeReceiveBuffer e s val)"

definition GetCongestionWindow :: "pseudo_tcp \<Rightarrow> u32" where
  "GetCongestionWindow s = m_cwnd s"

definition GetBytesInFlight :: "pseudo_tcp \<Rightarrow> u32" where
  "GetBytesInFlight s = m_snd_nxt s - m_snd_una s"

definition GetBytesBufferedNotSent :: "pseudo_tcp \<Rightarrow> u32" where
  "GetBytesBufferedNotSent s = m_snd_una s + of_nat (GetBuffered (m_sbuf s)) - m_snd_nxt s"

definition GetRoundTripTimeEstimateMs :: "pseudo_tcp \<Rightarrow> u32" where
  "GetRoundTripTimeEstimateMs s = m_rx_srtt s"

text \<open>The result of \<open>Recv\<close> with the bytes it put into the caller's buffer; \<open>SOCKET_ERROR\<close> is -1.\<close>

definition Recv :: "tcp_env \<Rightarrow> pseudo_tcp \<Rightarrow> nat \<Rightarrow> (int \<times> byte list \<times> pseudo_tcp) option" where
  "Recv e s len =
     (if m_state s \<noteq> TCP_ESTABLISHED then Some (- 1, [], s\<lparr>m_error := ENOTCONN\<rparr>)
      else
        let (result, data, rbuf) = fifo_Read (m_rbuf s) len;
            s = s\<lparr>m_rbuf := rbuf\<rparr>
        in if result = SR_BLOCK then Some (- 1, [], s\<lparr>m_bReadEnable := True, m_error := EWOULDBLOCK\<rparr>)
           else
             let available_space = of_nat (GetWriteRemaining (m_rbuf s)) :: u32 in
             if available_space - m_rcv_wnd s \<ge> min (m_rbuf_len s div 2) (m_mss s) then
               let bWasClosed = (m_rcv_wnd s = 0);
                   s = s\<lparr>m_rcv_wnd := available_space\<rparr>
               in if bWasClosed
                  then map_option (\<lambda>s. (int (length data), data, s)) (attemptSend e s sfImmediateAck)
                  else Some (int (length data), data, s)
             else Some (int (length data), data, s))"

definition Send :: "tcp_env \<Rightarrow> pseudo_tcp \<Rightarrow> byte list \<Rightarrow> (int \<times> pseudo_tcp) option" where
  "Send e s buffer =
     (if m_state s \<noteq> TCP_ESTABLISHED then Some (- 1, s\<lparr>m_error := ENOTCONN\<rparr>)
      else if GetWriteRemaining (m_sbuf s) = 0
      then Some (- 1, s\<lparr>m_bWriteEnable := True, m_error := EWOULDBLOCK\<rparr>)
      else
        let (written, s) = queue s buffer False
        in map_option (\<lambda>s. (int written, s)) (attemptSend e s sfNone))"

definition Close :: "pseudo_tcp \<Rightarrow> bool \<Rightarrow> pseudo_tcp" where
  "Close s force = s\<lparr>m_shutdown := (if force then SD_FORCEFUL else SD_GRACEFUL)\<rparr>"

definition GetError :: "pseudo_tcp \<Rightarrow> tcp_errno" where
  "GetError s = m_error s"

end
