(* ===== verification/PseudoTcpFrame.thy ===== *)
theory PseudoTcpFrame
  imports PseudoTcp
begin

text \<open>
  What the sending half of \<open>PseudoTcp\<close> leaves alone, the packets it writes, and the bounds that its
  timers and sizes keep whatever the peer sends.
\<close>

subsection \<open>Fields that sending does not change\<close>

definition receiver :: "pseudo_tcp \<Rightarrow> fifo_buffer \<times> u32 \<times> RSegment list \<times> u32 \<times> u32 \<times> byte \<times> shutdown" where
  "receiver s = (m_rbuf s, m_rcv_nxt s, m_rlist s, m_rcv_wnd s, m_rbuf_len s, m_rwnd_scale s, m_shutdown s)"

definition steady where
  "steady s = (receiver s, (m_state s, m_conv s, m_mtu_advise s, m_support_wnd_scale s),
     (m_sbuf s, m_sbuf_len s, m_snd_una s, m_snd_wnd s, m_swnd_scale s),
     (m_rx_rto s, m_rx_srtt s, m_rx_rttvar s, m_ssthresh s, m_dup_acks s, m_recover s, m_ts_recent s, m_largest s),
     (m_bReadEnable s, m_bWriteEnable s, m_use_nagling s, m_ack_delay s, m_error s, m_lastrecv s))"

lemma steadyD:
  assumes "steady s' = steady s"
  shows "receiver s' = receiver s" "m_state s' = m_state s" "m_conv s' = m_conv s" "m_mtu_advise s' = m_mtu_advise s"
    "m_support_wnd_scale s' = m_support_wnd_scale s"
    "m_sbuf s' = m_sbuf s" "m_sbuf_len s' = m_sbuf_len s" "m_snd_una s' = m_snd_una s" "m_snd_wnd s' = m_snd_wnd s"
    "m_swnd_scale s' = m_swnd_scale s" "m_rx_rto s' = m_rx_rto s" "m_ssthresh s' = m_ssthresh s"
    "m_dup_acks s' = m_dup_acks s" "m_recover s' = m_recover s" "m_bReadEnable s' = m_bReadEnable s"
    "m_use_nagling s' = m_use_nagling s" "m_ack_delay s' = m_ack_delay s"
  using assms by (simp_all add: steady_def)

lemma receiverD:
  assumes "receiver s' = receiver s"
  shows "m_rbuf s' = m_rbuf s" "m_rcv_nxt s' = m_rcv_nxt s" "m_rlist s' = m_rlist s" "m_rcv_wnd s' = m_rcv_wnd s"
    "m_rbuf_len s' = m_rbuf_len s" "m_rwnd_scale s' = m_rwnd_scale s" "m_shutdown s' = m_shutdown s"
  using assms by (simp_all add: receiver_def)

lemma steady_updates [simp]:
  "steady (s\<lparr>m_clock_reads := a\<rparr>) = steady s" "steady (s\<lparr>m_ts_lastack := b\<rparr>) = steady s"
  "steady (s\<lparr>m_events := c\<rparr>) = steady s" "steady (s\<lparr>m_t_ack := b\<rparr>) = steady s"
  "steady (s\<lparr>m_lastsend := b\<rparr>) = steady s" "steady (s\<lparr>m_lasttraffic := b\<rparr>) = steady s"
  "steady (s\<lparr>m_bOutgoing := d\<rparr>) = steady s" "steady (s\<lparr>m_msslevel := b\<rparr>) = steady s"
  "steady (s\<lparr>m_mss := b\<rparr>) = steady s" "steady (s\<lparr>m_cwnd := b\<rparr>) = steady s" "steady (s\<lparr>m_snd_nxt := b\<rparr>) = steady s"
  "steady (s\<lparr>m_slist := f\<rparr>) = steady s" "steady (s\<lparr>m_rto_base := b\<rparr>) = steady s"
  by (simp_all add: steady_def receiver_def)

lemma packet_steady: "packet e s seq flags offset len = Some (w, s') \<Longrightarrow> steady s' = steady s"
  by (auto simp: packet_def Now_def notify_def Let_def split: if_splits)

text \<open>What a call of \<open>packet\<close> leaves alone of the rest, and the bytes it hands to the network.\<close>

definition wire :: "pseudo_tcp \<Rightarrow> u32 \<Rightarrow> byte \<Rightarrow> u32 \<Rightarrow> byte list \<Rightarrow> byte list" where
  "wire s seq flags ts payload =
     be32 (m_conv s) @ be32 seq @ be32 (m_rcv_nxt s) @ [0, flags] @
     be16 (ucast (drop_bit (unat (m_rwnd_scale s)) (m_rcv_wnd s))) @
     be32 ts @ be32 (m_ts_recent s) @ payload"

definition payload_of :: "tcp_env \<Rightarrow> pseudo_tcp \<Rightarrow> u32 \<Rightarrow> u32 \<Rightarrow> byte list" where
  "payload_of e s offset len =
     (let bytes_read = (if len \<noteq> 0 then snd (ReadOffset (m_sbuf s) (unat len) (unat offset)) else [])
      in bytes_read @ map (e_fill e) [unat HEADER_SIZE + length bytes_read ..< unat HEADER_SIZE + unat len])"

lemma bytes_be [simp]: "long_to_bytes he v = be32 v" "short_to_bytes he u = be16 u"
  by (simp_all add: long_to_bytes_def short_to_bytes_def)

lemma packet_wire:
  "packet e s seq flags offset len =
     (if unat HEADER_SIZE + unat len > unat MAX_PACKET then None
      else
        let b = wire s seq flags (e_now e (m_clock_reads s)) (payload_of e s offset len);
            w = e_write e (m_events s) b;
            now = e_now e (m_clock_reads s);
            s = s\<lparr>m_clock_reads := Suc (m_clock_reads s), m_ts_lastack := m_rcv_nxt s,
                  m_events := m_events s @ [TcpWritePacket b w]\<rparr>
        in if w \<noteq> WR_SUCCESS \<and> len \<noteq> 0 then Some (w, s)
           else Some (WR_SUCCESS, s\<lparr>m_t_ack := 0, m_lastsend := (if len > 0 then now else m_lastsend s),
                                    m_lasttraffic := now, m_bOutgoing := True\<rparr>))"
  unfolding packet_def Now_def notify_def wire_def payload_of_def Let_def by (simp cong: if_cong)

lemma packet_effect:
  assumes "packet e s seq flags offset len = Some (w, s')"
  shows "m_slist s' = m_slist s" "m_snd_nxt s' = m_snd_nxt s" "m_mss s' = m_mss s" "m_msslevel s' = m_msslevel s"
    "m_cwnd s' = m_cwnd s" "m_rto_base s' = m_rto_base s"
    "m_events s' = m_events s @ [TcpWritePacket (wire s seq flags (e_now e (m_clock_reads s)) (payload_of e s offset len))
        (e_write e (m_events s) (wire s seq flags (e_now e (m_clock_reads s)) (payload_of e s offset len)))]"
    "w = (if len \<noteq> 0 then e_write e (m_events s) (wire s seq flags (e_now e (m_clock_reads s)) (payload_of e s offset len)) else WR_SUCCESS)"
  using assms by (auto simp: packet_wire Let_def split: if_splits)

lemma packet_defined: "unat len \<le> 65511 \<Longrightarrow> \<exists>w s'. packet e s seq flags offset len = Some (w, s')"
  by (auto simp: packet_def Let_def HEADER_SIZE_def MAX_PACKET_def split: prod.splits)

lemma lower_mss_steady: "lower_mss s n = Some (r, s') \<Longrightarrow> steady s' = steady s"
proof (induction s n rule: lower_mss.induct)
  case (1 s n)
  from "1.prems" show ?case
    by (subst (asm) lower_mss.simps) (use "1.IH" in \<open>force simp: Let_def split: if_splits\<close>)
qed

lemma wire_steady: "steady t = steady s \<Longrightarrow> wire t seq flags ts payload = wire s seq flags ts payload"
  and payload_steady: "steady t = steady s \<Longrightarrow> payload_of e t offset len = payload_of e s offset len"
  by (simp_all add: steady_def receiver_def wire_def payload_of_def)

subsection \<open>Packet sizes\<close>

definition sizes_ok :: "pseudo_tcp \<Rightarrow> bool" where
  "sizes_ok s \<longleftrightarrow> 0 < m_mss s \<and> unat (m_mss s) \<le> 65419 \<and> unat (m_msslevel s) \<le> 9"

lemma next_level:
  assumes "unat (l :: u32) \<le> 9"
  shows "unat (l + 1) < length PACKET_MAXIMUMS" and "unat (l + 1) = unat l + 1"
    and "PACKET_MAXIMUMS ! unat (l + 1) \<noteq> 0 \<Longrightarrow>
      0 < (ucast (PACKET_MAXIMUMS ! unat (l + 1)) - PACKET_OVERHEAD :: u32) \<and>
      unat (ucast (PACKET_MAXIMUMS ! unat (l + 1)) - PACKET_OVERHEAD :: u32) \<le> 65419 \<and> unat (l + 1) \<le> 9"
proof -
  have l: "unat (l + 1) = unat l + 1"
    using assms by (subst unat_add_lem [THEN iffD1]) simp_all
  then show "unat (l + 1) < length PACKET_MAXIMUMS" "unat (l + 1) = unat l + 1"
    using assms by (simp_all add: PACKET_MAXIMUMS_def)
  have "unat l \<in> {0, 1, 2, 3, 4, 5, 6, 7, 8, 9}" using assms by auto
  then show "PACKET_MAXIMUMS ! unat (l + 1) \<noteq> 0 \<Longrightarrow>
      0 < (ucast (PACKET_MAXIMUMS ! unat (l + 1)) - PACKET_OVERHEAD :: u32) \<and>
      unat (ucast (PACKET_MAXIMUMS ! unat (l + 1)) - PACKET_OVERHEAD :: u32) \<le> 65419 \<and> unat (l + 1) \<le> 9"
    unfolding l
    by (auto simp: PACKET_MAXIMUMS_def PACKET_OVERHEAD_def HEADER_SIZE_def UDP_HEADER_SIZE_def IP_HEADER_SIZE_def
        JINGLE_HEADER_SIZE_def)
qed

lemma lower_mss_effect:
  assumes "sizes_ok s"
  shows "\<exists>r s'. lower_mss s n = Some (r, s') \<and> steady s' = steady s \<and> sizes_ok s' \<and> m_slist s' = m_slist s \<and>
     m_snd_nxt s' = m_snd_nxt s \<and> m_rto_base s' = m_rto_base s \<and> m_events s' = m_events s \<and>
     (\<forall>k. r = Some k \<longrightarrow> 0 < k \<and> k < n)"
  using assms
proof (induction s n rule: lower_mss.induct)
  case (1 s n)
  let ?level = "m_msslevel s + 1"
  let ?mss = "ucast (PACKET_MAXIMUMS ! unat ?level) - PACKET_OVERHEAD :: u32"
  let ?s = "s\<lparr>m_msslevel := ?level, m_mss := ?mss, m_cwnd := 2 * ?mss\<rparr>"
  note lv = next_level [of "m_msslevel s"]
  have lt: "\<not> length PACKET_MAXIMUMS \<le> unat ?level" using "1.prems" lv by (simp add: sizes_ok_def)
  show ?case
  proof (cases "PACKET_MAXIMUMS ! unat ?level = 0")
    case True
    then show ?thesis using lt "1.prems" by (subst lower_mss.simps) (simp add: Let_def)
  next
    case False
    then have ok: "sizes_ok ?s" using "1.prems" lv by (simp add: sizes_ok_def)
    show ?thesis
    proof (cases "?mss < n")
      case True
      then have e: "lower_mss s n = Some (Some ?mss, ?s)" using lt False by (subst lower_mss.simps) (simp only: Let_def if_False if_True)
      show ?thesis unfolding e using ok True by (auto simp: sizes_ok_def)
    next
      case n: False
      have e: "lower_mss s n = lower_mss ?s n"
        using lt False n by (subst lower_mss.simps) (simp only: Let_def if_False if_True)
      from "1.IH" [OF refl lt False refl refl n ok] show ?thesis by (simp add: e)
    qed
  qed
qed

text \<open>
  What \<open>transmit_loop\<close> writes: prefixes of the segment, of which only the last can have been accepted
  by the network.
\<close>

definition segment_writes ::
    "tcp_env \<Rightarrow> pseudo_tcp \<Rightarrow> SSegment \<Rightarrow> u32 \<Rightarrow> u32 option \<Rightarrow> tcp_event \<Rightarrow> bool" where
  "segment_writes e s seg n r ev \<longleftrightarrow>
     (\<exists>ts k w. ev = TcpWritePacket (wire s (ss_seq seg) (if ss_bCtrl seg then FLAG_CTL else 0) ts
                    (payload_of e s (ss_seq seg - m_snd_una s) k)) w \<and>
        0 < k \<and> k \<le> n \<and> (w = WR_SUCCESS \<longrightarrow> r = Some k))"

lemma transmit_loop_effect:
  assumes "sizes_ok s" and "0 < n" and "unat n \<le> 65419"
  shows "\<exists>r s' evs. transmit_loop e s seg n = Some (r, s') \<and> steady s' = steady s \<and> sizes_ok s' \<and> m_slist s' = m_slist s \<and>
     m_snd_nxt s' = m_snd_nxt s \<and> m_rto_base s' = m_rto_base s \<and> m_events s' = m_events s @ evs \<and>
     (\<forall>ev\<in>set evs. segment_writes e s seg n r ev) \<and> (\<forall>k. r = Some k \<longrightarrow> 0 < k \<and> k \<le> n)"
  using assms
proof (induction e s seg n rule: transmit_loop.induct)
  case (1 e s seg n)
  let ?fl = "if ss_bCtrl seg then FLAG_CTL else 0"
  obtain w s1 where p: "packet e s (ss_seq seg) ?fl (ss_seq seg - m_snd_una s) n = Some (w, s1)"
    using packet_defined [of n e s "ss_seq seg" ?fl "ss_seq seg - m_snd_una s"] "1.prems" by auto
  note pe = packet_effect [OF p] and ps = packet_steady [OF p]
  have w1: "segment_writes e s seg n r (TcpWritePacket (wire s (ss_seq seg) ?fl (e_now e (m_clock_reads s))
      (payload_of e s (ss_seq seg - m_snd_una s) n)) w)" if "w = WR_SUCCESS \<longrightarrow> r = Some n" for r
    using that "1.prems" by (auto simp: segment_writes_def)
  have ok1: "sizes_ok s1" using "1.prems" pe by (simp add: sizes_ok_def)
  have ev1: "m_events s1 = m_events s @ [TcpWritePacket (wire s (ss_seq seg) ?fl (e_now e (m_clock_reads s))
      (payload_of e s (ss_seq seg - m_snd_una s) n)) w]" using pe "1.prems" by auto
  show ?case
  proof (cases "w = WR_TOO_LARGE")
    case False
    then have "transmit_loop e s seg n = Some (if w = WR_SUCCESS then Some n else None, s1)"
      by (cases w) (simp_all add: transmit_loop.simps p)
    then show ?thesis using pe ps ok1 ev1 w1 "1.prems" by auto
  next
    case True
    obtain m s2 where l: "lower_mss s1 n = Some (m, s2)" "steady s2 = steady s1" "sizes_ok s2" "m_slist s2 = m_slist s1"
       "m_snd_nxt s2 = m_snd_nxt s1" "m_rto_base s2 = m_rto_base s1" "m_events s2 = m_events s1" "\<forall>k. m = Some k \<longrightarrow> 0 < k \<and> k < n"
      using lower_mss_effect [OF ok1, of n] by blast
    show ?thesis
    proof (cases m)
      case None
      then have "transmit_loop e s seg n = Some (None, s2)" using True by (simp add: transmit_loop.simps p l)
      then show ?thesis using pe ps ev1 w1 True l by auto
    next
      case (Some k)
      then have k: "0 < k" "k < n" "unat k \<le> 65419" using l(8) "1.prems" by (auto simp: word_less_nat_alt)
      have e: "transmit_loop e s seg n = transmit_loop e s2 seg k"
        using True Some by (subst transmit_loop.simps) (simp add: p l(1))
      have st: "steady s2 = steady s" using l ps by simp
      then have w2: "segment_writes e s2 seg k r ev \<Longrightarrow> segment_writes e s seg n r ev" for r ev
        using k(2) unfolding segment_writes_def wire_steady [OF st] payload_steady [OF st] steadyD(8) [OF st]
        by (elim exE conjE, intro exI conjI) (assumption | simp)+
      obtain r s' evs where "transmit_loop e s2 seg k = Some (r, s')" "steady s' = steady s2" "sizes_ok s'" "m_slist s' = m_slist s2"
         "m_snd_nxt s' = m_snd_nxt s2" "m_rto_base s' = m_rto_base s2" "m_events s' = m_events s2 @ evs"
         "\<forall>ev\<in>set evs. segment_writes e s2 seg k r ev" "\<forall>k'. r = Some k' \<longrightarrow> 0 < k' \<and> k' \<le> k"
        using "1.IH" [OF p refl _ _ l(1) refl Some l(3) k(1) k(3)] True by auto
      then show ?thesis using pe l st ev1 w1 w2 k True unfolding e by (force intro: order_trans)
    qed
  qed
qed

end
