(* ===== verification/PseudoTcpSend.thy ===== *)
theory PseudoTcpSend
  imports PseudoTcpFrame
begin

text \<open>
  The sending half of \<open>PseudoTcp\<close>.  \<open>T\<close> is everything queued since the object was made, control bytes
  first, and \<open>b\<close> how many of them are control bytes; byte \<open>i\<close> of \<open>T\<close> has sequence number \<open>i\<close>.
\<close>

subsection \<open>Transmitting one segment\<close>

definition sent_part :: "SSegment \<Rightarrow> u32 \<Rightarrow> SSegment" where
  "sent_part x k = x\<lparr>ss_len := k, ss_xmit := ss_xmit x + 1\<rparr>"

definition rest_part :: "SSegment \<Rightarrow> u32 \<Rightarrow> SSegment list" where
  "rest_part x k =
     (if k < ss_len x
      then [\<lparr>ss_seq = ss_seq x + k, ss_len = ss_len x - k, ss_xmit = ss_xmit x, ss_bCtrl = ss_bCtrl x\<rparr>] else [])"

lemma transmit_effect:
  assumes "m_slist s = us @ x # vs" and "sizes_ok s" and "0 < ss_len x"
  obtains ok s' evs k where "transmit e s (length us) now = Some (ok, s')" "steady s' = steady s" "sizes_ok s'"
    "m_events s' = m_events s @ evs"
    "\<forall>ev\<in>set evs. segment_writes e s x (min (ss_len x) (m_mss s)) (if ok then Some k else None) ev"
    "if ok then 0 < k \<and> k \<le> ss_len x \<and> k \<le> m_mss s \<and> unat (ss_xmit x) < 30 \<and>
       m_slist s' = us @ sent_part x k # rest_part x k @ vs \<and>
       m_snd_nxt s' = (if ss_xmit x = 0 then m_snd_nxt s + k else m_snd_nxt s)
     else m_slist s' = m_slist s \<and> m_snd_nxt s' = m_snd_nxt s \<and> m_rto_base s' = m_rto_base s"
proof -
  have nth: "m_slist s ! length us = x" "length us < length (m_slist s)" using assms(1) by simp_all
  let ?n = "min (ss_len x) (m_mss s)"
  show thesis
  proof (cases "unat (ss_xmit x) \<ge> (if m_state s = TCP_ESTABLISHED then 15 else 30)")
    case True
    then have "transmit e s (length us) now = Some (False, s)" using nth by (simp add: transmit_def)
    then show thesis using that [of False s "[]"] assms by simp
  next
    case False
    have n: "0 < ?n" "unat ?n \<le> 65419"
      using assms by (auto simp: sizes_ok_def min_def word_le_nat_alt not_le)
    obtain r s1 evs where l: "transmit_loop e s x ?n = Some (r, s1)" "steady s1 = steady s" "sizes_ok s1"
       "m_slist s1 = m_slist s" "m_snd_nxt s1 = m_snd_nxt s" "m_rto_base s1 = m_rto_base s" "m_events s1 = m_events s @ evs"
       "\<forall>ev\<in>set evs. segment_writes e s x ?n r ev" "\<forall>k. r = Some k \<longrightarrow> 0 < k \<and> k \<le> ?n"
      using transmit_loop_effect [OF assms(2) n, of e x] by blast
    show thesis
    proof (cases r)
      case None
      then have "transmit e s (length us) now = Some (False, s1)" using nth False l(1) by (simp add: transmit_def)
      then show thesis using that [of False s1 evs] l None by simp
    next
      case (Some k)
      then have k: "0 < k" "k \<le> ss_len x" "k \<le> m_mss s" using l(9) by auto
      have x30: "unat (ss_xmit x) < 30" using False by (auto split: if_splits)
      define s2 where "s2 = (if ss_xmit x = 0 then s1\<lparr>m_snd_nxt := m_snd_nxt s1 + k\<rparr> else s1)"
      define s3 where "s3 = s2\<lparr>m_slist := us @ sent_part x k # rest_part x k @ vs\<rparr>"
      define s4 where "s4 = (if m_rto_base s3 = 0 then s3\<lparr>m_rto_base := now\<rparr> else s3)"
      have "(if k < ss_len x then x\<lparr>ss_len := k\<rparr> else x) = x\<lparr>ss_len := k\<rparr>" using k by auto
      then have "transmit e s (length us) now = Some (True, s4)"
        using nth False l(1,4) Some assms(1)
        by (simp add: transmit_def Let_def s4_def s3_def s2_def sent_part_def rest_part_def cong: if_cong)
      moreover have "steady s4 = steady s" "sizes_ok s4" "m_events s4 = m_events s @ evs"
         "m_slist s4 = us @ sent_part x k # rest_part x k @ vs"
         "m_snd_nxt s4 = (if ss_xmit x = 0 then m_snd_nxt s + k else m_snd_nxt s)"
        using l by (simp_all add: s4_def s3_def s2_def sizes_ok_def)
      ultimately show thesis using that [of True s4 evs k] l(8) Some k x30 by simp
    qed
  qed
qed

subsection \<open>The invariant of the send queue\<close>

fun chain :: "nat \<Rightarrow> SSegment list \<Rightarrow> nat \<Rightarrow> bool" where
  "chain p [] q \<longleftrightarrow> p = q"
| "chain p (x # xs) q \<longleftrightarrow> unat (ss_seq x) = p \<and> chain (p + unat (ss_len x)) xs q"

lemma chain_append: "chain p (xs @ ys) q \<longleftrightarrow> (\<exists>m. chain p xs m \<and> chain m ys q)"
  by (induction xs arbitrary: p) auto

lemma chain_le: "chain p xs q \<Longrightarrow> p \<le> q"
  by (induction xs arbitrary: p) (auto dest: add_leD1)

lemma chain_range: "chain p xs q \<Longrightarrow> x \<in> set xs \<Longrightarrow> p \<le> unat (ss_seq x) \<and> unat (ss_seq x) + unat (ss_len x) \<le> q"
  by (induction xs arbitrary: p) (auto dest: chain_le, force)

definition ctl_ok :: "nat \<Rightarrow> SSegment \<Rightarrow> bool" where
  "ctl_ok b x \<longleftrightarrow> (if ss_bCtrl x then unat (ss_seq x) + unat (ss_len x) \<le> b else b \<le> unat (ss_seq x))"

definition send_queue :: "nat \<Rightarrow> pseudo_tcp \<Rightarrow> SSegment list \<Rightarrow> SSegment list \<Rightarrow> nat \<Rightarrow> bool" where
  "send_queue b s xs ys q \<longleftrightarrow>
     m_slist s = xs @ ys \<and> chain (unat (m_snd_una s)) xs (unat (m_snd_nxt s)) \<and> chain (unat (m_snd_nxt s)) ys q \<and>
     (\<forall>x\<in>set xs. ss_xmit x \<noteq> 0 \<and> ss_len x \<noteq> 0) \<and> (\<forall>y\<in>set ys. ss_xmit y = 0) \<and> (\<forall>y\<in>set (butlast ys). ss_len y \<noteq> 0) \<and>
     (\<forall>y\<in>set ys. ss_bCtrl y \<longrightarrow> ss_len y \<noteq> 0) \<and> (\<forall>x\<in>set (xs @ ys). ctl_ok b x)"

definition send_buffer :: "byte list \<Rightarrow> pseudo_tcp \<Rightarrow> bool" where
  "send_buffer T s \<longleftrightarrow>
     fifo_ok (m_sbuf s) \<and> ff_state (m_sbuf s) \<noteq> SS_CLOSED \<and> ff_buffer_length (m_sbuf s) < 2 ^ 32 \<and>
     length T < 2 ^ 32 \<and> unat (m_snd_una s) \<le> length T \<and>
     fifo_contents (m_sbuf s) = drop (unat (m_snd_una s)) T"

lemma send_buffer_buffered: "send_buffer T s \<Longrightarrow> ff_data_length (m_sbuf s) = length T - unat (m_snd_una s)"
  using length_fifo_contents [of "m_sbuf s"] by (simp add: send_buffer_def del: length_fifo_contents)

text \<open>A packet is genuine when it has a header of this conversation and its payload is the part of the stream it names.\<close>

definition genuine :: "u32 \<Rightarrow> nat \<Rightarrow> byte list \<Rightarrow> byte list \<Rightarrow> bool" where
  "genuine conv b T p \<longleftrightarrow>
     (\<exists>seq ack flags wnd ts tsr payload.
        p = be32 conv @ be32 seq @ be32 ack @ [0, flags] @ be16 wnd @ be32 ts @ be32 tsr @ payload \<and>
        (if payload = [] then flags = 0
         else unat seq + length payload \<le> length T \<and> payload = take (length payload) (drop (unat seq) T) \<and>
              (flags = FLAG_CTL \<and> unat seq + length payload \<le> b \<or> flags = 0 \<and> b \<le> unat seq)))"

definition sent_ok :: "nat \<Rightarrow> byte list \<Rightarrow> pseudo_tcp \<Rightarrow> bool" where
  "sent_ok b T s \<longleftrightarrow> (\<forall>p w. TcpWritePacket p w \<in> set (m_events s) \<longrightarrow> genuine (m_conv s) b T p)"

text \<open>
  The retransmission timer runs only with data in flight and its timeout is within its limits, the recovery point lies behind what was sent,
  the threshold of slow start is positive, and the advised packet size and window scale are usable.
\<close>

definition rto_ok :: "u32 \<Rightarrow> bool" where
  "rto_ok r \<longleftrightarrow> MIN_RTO \<le> r \<and> r \<le> MAX_RTO"

definition control_ok :: "pseudo_tcp \<Rightarrow> bool" where
  "control_ok s \<longleftrightarrow>
     (m_rto_base s \<noteq> 0 \<longrightarrow> m_snd_una s \<noteq> m_snd_nxt s) \<and> m_recover s \<le> m_snd_nxt s \<and> m_ssthresh s \<noteq> 0 \<and>
     116 < m_mtu_advise s \<and> m_mtu_advise s \<le> 65535 \<and> unat (m_swnd_scale s) < 32 \<and>
     rto_ok (m_rx_rto s)"

definition sender_ok :: "nat \<Rightarrow> byte list \<Rightarrow> pseudo_tcp \<Rightarrow> bool" where
  "sender_ok b T s \<longleftrightarrow>
     sizes_ok s \<and> send_buffer T s \<and> sent_ok b T s \<and> (\<exists>xs ys. send_queue b s xs ys (length T)) \<and> control_ok s"

lemma control_ok_steady:
  assumes "control_ok s" and "steady s' = steady s" and "m_snd_nxt s \<le> m_snd_nxt s'"
    and "m_rto_base s' \<noteq> 0 \<Longrightarrow> m_snd_una s \<noteq> m_snd_nxt s'"
  shows "control_ok s'"
  using assms(1,3,4) steadyD [OF assms(2)] by (auto simp: control_ok_def)

lemma payload_of_segment:
  assumes "send_buffer T s" and "unat (m_snd_una s) \<le> unat seq" and "unat seq + unat k \<le> length T" and "0 < k"
  shows "payload_of e s (seq - m_snd_una s) k = take (unat k) (drop (unat seq) T)"
proof -
  have k: "0 < unat k" using assms(4) by (simp add: word_less_nat_alt)
  have off: "unat (seq - m_snd_una s) = unat seq - unat (m_snd_una s)" using assms(2) by (simp add: unat_sub word_le_nat_alt)
  have "snd (ReadOffset (m_sbuf s) (unat k) (unat (seq - m_snd_una s))) = take (unat k) (drop (unat seq) T)"
    using assms k by (simp add: ReadOffset_def ReadOffsetLocked_contents send_buffer_def off send_buffer_buffered [OF assms(1)])
  moreover have "length (take (unat k) (drop (unat seq) T)) = unat k" using assms by simp
  ultimately show ?thesis using assms(4) by (simp add: payload_of_def)
qed

lemma segment_writes_genuine:
  assumes "send_buffer T s" and "ctl_ok b x" and "unat (m_snd_una s) \<le> unat (ss_seq x)"
    and "unat (ss_seq x) + unat (ss_len x) \<le> length T" and "n \<le> ss_len x"
    and "segment_writes e s x n r (TcpWritePacket p w)"
  shows "genuine (m_conv s) b T p"
proof -
  obtain ts k where k: "0 < k" "k \<le> n" and p: "p = wire s (ss_seq x) (if ss_bCtrl x then FLAG_CTL else 0) ts
      (payload_of e s (ss_seq x - m_snd_una s) k)"
    using assms(6) by (auto simp: segment_writes_def)
  have kl: "unat k \<le> unat (ss_len x)" "0 < unat k" using k assms(5) by (auto simp: word_le_nat_alt word_less_nat_alt)
  let ?pl = "take (unat k) (drop (unat (ss_seq x)) T)"
  have pl: "payload_of e s (ss_seq x - m_snd_una s) k = ?pl" "length ?pl = unat k"
    using payload_of_segment [OF assms(1,3) _ k(1)] kl assms(4) by simp_all
  have ne: "?pl \<noteq> []" using kl pl(2) by (metis list.size(3) less_irrefl)
  show ?thesis
    unfolding genuine_def p wire_def pl(1)
    by (intro exI conjI, rule refl) (use ne pl(2) kl assms(2,4) in \<open>auto simp: ctl_ok_def split: if_splits\<close>)
qed

lemma pure_ack_genuine:
  assumes "packet e s seq 0 offset 0 = Some (w, s')" and "sent_ok b T s"
  shows "sent_ok b T s'"
proof -
  have "genuine (m_conv s) b T (wire s seq 0 (e_now e (m_clock_reads s)) (payload_of e s offset 0))"
    unfolding genuine_def wire_def payload_of_def by (intro exI conjI, rule refl) simp
  then show ?thesis
    using assms(2) packet_effect(7) [OF assms(1)] steadyD(3) [OF packet_steady [OF assms(1)]] by (auto simp: sent_ok_def)
qed

lemma chain_cut:
  assumes "k \<le> ss_len x" and "unat (ss_seq x) + unat (ss_len x) < 2 ^ 32" and "chain p (x # vs) q"
  shows "unat (ss_seq x) = p" and "chain (p + unat k) (rest_part x k @ vs) q"
proof -
  show seq: "unat (ss_seq x) = p" using assms(3) by simp
  have k: "unat k \<le> unat (ss_len x)" using assms(1) by (simp add: word_le_nat_alt)
  have "unat (ss_seq x + k) = unat (ss_seq x) + unat k" using assms(2) k by (subst unat_add_lem [THEN iffD1]) simp_all
  moreover have "unat (ss_len x - k) = unat (ss_len x) - unat k" using assms(1) by (rule unat_sub)
  ultimately show "chain (p + unat k) (rest_part x k @ vs) q"
    using assms(1,3) k by (auto simp: rest_part_def word_le_nat_alt word_less_nat_alt)
qed

lemma parts_ctl_ok:
  assumes "ctl_ok b x" and "k \<le> ss_len x" and "unat (ss_seq x) + unat (ss_len x) < 2 ^ 32"
  shows "ctl_ok b (sent_part x k)" and "y \<in> set (rest_part x k) \<Longrightarrow> ctl_ok b y"
proof -
  have k: "unat k \<le> unat (ss_len x)" using assms(2) by (simp add: word_le_nat_alt)
  then show "ctl_ok b (sent_part x k)" using assms(1) by (auto simp: ctl_ok_def sent_part_def)
  have "unat (ss_seq x + k) = unat (ss_seq x) + unat k" using assms(3) k by (subst unat_add_lem [THEN iffD1]) simp_all
  then show "y \<in> set (rest_part x k) \<Longrightarrow> ctl_ok b y"
    using assms(1,2) k by (cases "k < ss_len x") (simp_all add: ctl_ok_def rest_part_def unat_sub split: if_splits)
qed

lemma rest_part_fields:
  "y \<in> set (rest_part x k) \<Longrightarrow> ss_xmit y = ss_xmit x \<and> ss_len y \<noteq> 0"
  by (cases "k < ss_len x") (simp_all add: rest_part_def less_imp_neq [symmetric])

lemma butlast_rest_part: "y \<in> set (butlast (rest_part x k @ vs)) \<Longrightarrow> ss_len y \<noteq> 0 \<or> y \<in> set (butlast vs)"
  using rest_part_fields [of y x k] by (cases vs) (auto simp: butlast_append dest: in_set_butlastD)

lemma xmit_succ: "unat (w :: byte) < 30 \<Longrightarrow> w + 1 \<noteq> 0"
  using unat_word_ariths(1) [of w 1] by auto

lemma queue_resend:
  assumes "send_queue b s (x # xs) ys q" and "q < 2 ^ 32" and "0 < k" and "k \<le> ss_len x" and "unat (ss_xmit x) < 30"
    and "m_slist s' = sent_part x k # rest_part x k @ xs @ ys" and "m_snd_nxt s' = m_snd_nxt s" and "m_snd_una s' = m_snd_una s"
  shows "send_queue b s' (sent_part x k # rest_part x k @ xs) ys q"
proof -
  note sq = assms(1) [unfolded send_queue_def]
  have lim: "unat (ss_seq x) + unat (ss_len x) < 2 ^ 32"
    using sq chain_range [of _ "x # xs" _ x] chain_le assms(2) by (meson le_less_trans list.set_intros(1))
  have ch: "chain (unat (m_snd_una s)) (x # xs) (unat (m_snd_nxt s))" using sq by simp
  note cut = chain_cut [OF assms(4) lim ch]
  show ?thesis
    unfolding send_queue_def assms(6-8)
    using sq cut assms(3,5) parts_ctl_ok [OF _ assms(4) lim] rest_part_fields [of _ x k] xmit_succ
    by (auto simp: sent_part_def)
qed

lemma queue_send:
  assumes "send_queue b s xs (y # ys) q" and "q < 2 ^ 32" and "0 < k" and "k \<le> ss_len y"
    and "m_slist s' = xs @ sent_part y k # rest_part y k @ ys" and "m_snd_nxt s' = m_snd_nxt s + k" and "m_snd_una s' = m_snd_una s"
  shows "send_queue b s' (xs @ [sent_part y k]) (rest_part y k @ ys) q" and "unat (m_snd_nxt s') = unat (m_snd_nxt s) + unat k"
proof -
  note sq = assms(1) [unfolded send_queue_def]
  have "unat (ss_seq y) + unat (ss_len y) \<le> q" using sq chain_range [of _ "y # ys" q y] by simp
  then have lim: "unat (ss_seq y) + unat (ss_len y) < 2 ^ 32" using assms(2) by simp
  have ch: "chain (unat (m_snd_nxt s)) (y # ys) q" using sq by simp
  note cut = chain_cut [OF assms(4) lim ch]
  have k: "unat k \<le> unat (ss_len y)" using assms(4) by (simp add: word_le_nat_alt)
  show nxt: "unat (m_snd_nxt s') = unat (m_snd_nxt s) + unat k"
    unfolding assms(6) using lim cut(1) k by (subst unat_add_lem [THEN iffD1]) simp_all
  have "chain (unat (m_snd_una s)) (xs @ [sent_part y k]) (unat (m_snd_nxt s) + unat k)"
    using sq by (auto simp: chain_append sent_part_def)
  moreover have "ctl_ok b (sent_part y k)" and "\<forall>z\<in>set (rest_part y k). ctl_ok b z"
    using sq parts_ctl_ok [OF _ assms(4) lim, of b] by auto
  moreover have "\<forall>z\<in>set (butlast (rest_part y k @ ys)). ss_len z \<noteq> 0"
    using sq butlast_rest_part [of _ y k ys] by (auto split: if_splits)
  ultimately show "send_queue b s' (xs @ [sent_part y k]) (rest_part y k @ ys) q"
    unfolding send_queue_def assms(5,7) nxt
    using sq cut assms(3) rest_part_fields [of _ y k] by (simp add: ball_Un sent_part_def word_greater_zero_iff)
qed

subsection \<open>Operations of the sender\<close>

lemma sent_ok_append:
  assumes "sent_ok b T s" and "m_events s' = m_events s @ evs" and "m_conv s' = m_conv s"
    and "\<And>p w. TcpWritePacket p w \<in> set evs \<Longrightarrow> genuine (m_conv s) b T p"
  shows "sent_ok b T s'"
  using assms by (auto simp: sent_ok_def)

lemma send_buffer_cong:
  "m_sbuf s' = m_sbuf s \<Longrightarrow> m_snd_una s' = m_snd_una s \<Longrightarrow> send_buffer T s' \<longleftrightarrow> send_buffer T s"
  by (simp add: send_buffer_def)

lemma send_queue_cong:
  "m_slist s' = m_slist s \<Longrightarrow> m_snd_nxt s' = m_snd_nxt s \<Longrightarrow> m_snd_una s' = m_snd_una s \<Longrightarrow>
     send_queue b s' xs ys q \<longleftrightarrow> send_queue b s xs ys q"
  by (simp add: send_queue_def)

lemma transmit_writes_genuine:
  assumes "send_buffer T s" and "send_queue b s xs ys (length T)" and "x \<in> set (xs @ ys)"
    and "\<forall>ev\<in>set evs. segment_writes e s x (min (ss_len x) (m_mss s)) r ev" and "TcpWritePacket p w \<in> set evs"
  shows "genuine (m_conv s) b T p"
proof (rule segment_writes_genuine)
  have "chain (unat (m_snd_una s)) (xs @ ys) (length T)" using assms(2) by (auto simp: send_queue_def chain_append)
  from chain_range [OF this assms(3)]
  show "unat (m_snd_una s) \<le> unat (ss_seq x)" "unat (ss_seq x) + unat (ss_len x) \<le> length T" by simp_all
  show "segment_writes e s x (min (ss_len x) (m_mss s)) r (TcpWritePacket p w)" using assms(4,5) by blast
  show "ctl_ok b x" using assms(2,3) by (auto simp: send_queue_def)
qed (use assms(1) in simp_all)

text \<open>Retransmission of the first segment, and the first transmission of the next one.\<close>

lemma retransmit_ok:
  assumes "sender_ok b T s" and "m_snd_una s \<noteq> m_snd_nxt s"
  obtains ok s' where "transmit e s 0 now = Some (ok, s')" "steady s' = steady s" "sender_ok b T s'"
    "m_snd_nxt s' = m_snd_nxt s" "\<not> ok \<longrightarrow> m_rto_base s' = m_rto_base s"
proof -
  obtain xs ys where inv: "sizes_ok s" "send_buffer T s" "sent_ok b T s" "send_queue b s xs ys (length T)" "control_ok s"
    using assms(1) by (auto simp: sender_ok_def)
  obtain x xs' where xs: "xs = x # xs'"
    using inv(4) assms(2) by (cases xs) (auto simp: send_queue_def word_unat_eq_iff)
  have x: "0 < ss_len x" "ss_xmit x \<noteq> 0" using inv(4) by (auto simp: send_queue_def xs word_neq_0_conv)
  have sl: "m_slist s = [] @ x # (xs' @ ys)" using inv(4) by (simp add: send_queue_def xs)
  obtain ok s' evs k where t: "transmit e s (length ([] :: SSegment list)) now = Some (ok, s')" "steady s' = steady s" "sizes_ok s'"
    "m_events s' = m_events s @ evs"
    "\<forall>ev\<in>set evs. segment_writes e s x (min (ss_len x) (m_mss s)) (if ok then Some k else None) ev"
    "if ok then 0 < k \<and> k \<le> ss_len x \<and> k \<le> m_mss s \<and> unat (ss_xmit x) < 30 \<and>
       m_slist s' = [] @ sent_part x k # rest_part x k @ (xs' @ ys) \<and>
       m_snd_nxt s' = (if ss_xmit x = 0 then m_snd_nxt s + k else m_snd_nxt s)
     else m_slist s' = m_slist s \<and> m_snd_nxt s' = m_snd_nxt s \<and> m_rto_base s' = m_rto_base s"
    by (rule transmit_effect [where e = e and now = now, OF sl inv(1) x(1)])
  note st = steadyD [OF t(2)]
  have nxt: "m_snd_nxt s' = m_snd_nxt s" using t(6) x by (simp split: if_splits)
  have "\<exists>xs ys. send_queue b s' xs ys (length T)"
  proof (cases ok)
    case True
    then show ?thesis
      using queue_resend [OF inv(4) [unfolded xs] _ _ _ _ _ nxt st(8)] t(6) inv(2) by (auto simp: send_buffer_def)
  next
    case False
    then show ?thesis using t(6) inv(4) send_queue_cong [of s' s] st(8) by auto
  qed
  moreover have "sent_ok b T s'"
    using sent_ok_append [OF inv(3) t(4) st(3)] transmit_writes_genuine [OF inv(2,4) _ t(5)] by (auto simp: xs)
  ultimately have "sender_ok b T s'"
    using t(3) inv(2) send_buffer_cong [OF st(6,8)] control_ok_steady [OF inv(5) t(2)] assms(2) nxt by (simp add: sender_ok_def)
  then show thesis using that t nxt by (auto split: if_splits)
qed

lemma send_next_ok:
  assumes "sizes_ok s" and "send_buffer T s" and "sent_ok b T s" and "send_queue b s xs (y # ys) (length T)" and "0 < ss_len y"
    and "control_ok s"
  obtains ok s' where "transmit e s (length xs) now = Some (ok, s')" "steady s' = steady s" "sender_ok b T s'"
    "if ok then unat (m_snd_nxt s) < unat (m_snd_nxt s') else m_snd_nxt s' = m_snd_nxt s \<and> m_rto_base s' = m_rto_base s"
proof -
  note inv = assms
  have y: "ss_xmit y = 0" and sl: "m_slist s = xs @ y # ys" using inv(4) by (auto simp: send_queue_def)
  obtain ok s' evs k where t: "transmit e s (length xs) now = Some (ok, s')" "steady s' = steady s" "sizes_ok s'"
    "m_events s' = m_events s @ evs"
    "\<forall>ev\<in>set evs. segment_writes e s y (min (ss_len y) (m_mss s)) (if ok then Some k else None) ev"
    "if ok then 0 < k \<and> k \<le> ss_len y \<and> k \<le> m_mss s \<and> unat (ss_xmit y) < 30 \<and>
       m_slist s' = xs @ sent_part y k # rest_part y k @ ys \<and>
       m_snd_nxt s' = (if ss_xmit y = 0 then m_snd_nxt s + k else m_snd_nxt s)
     else m_slist s' = m_slist s \<and> m_snd_nxt s' = m_snd_nxt s \<and> m_rto_base s' = m_rto_base s"
    by (rule transmit_effect [where e = e and now = now, OF sl inv(1,5)])
  note st = steadyD [OF t(2)]
  have T: "length T < 2 ^ 32" using inv(2) by (simp add: send_buffer_def)
  have q: "(\<exists>xs ys. send_queue b s' xs ys (length T)) \<and> (ok \<longrightarrow> unat (m_snd_nxt s) < unat (m_snd_nxt s'))"
  proof (cases ok)
    case True
    then show ?thesis
      using queue_send [OF inv(4) T _ _ _ _ st(8), of k] t(6) y by (auto simp: word_less_nat_alt)
  next
    case False
    then show ?thesis using t(6) inv(4) send_queue_cong [of s' s] st(8) by auto
  qed
  have "sent_ok b T s'"
    using sent_ok_append [OF inv(3) t(4) st(3)] transmit_writes_genuine [OF inv(2,4) _ t(5)] by auto
  moreover have "control_ok s'"
  proof (rule control_ok_steady [OF inv(6) t(2)])
    show "m_snd_nxt s \<le> m_snd_nxt s'" using q t(6) by (cases ok) (auto simp: word_le_nat_alt)
    have "unat (m_snd_una s) \<le> unat (m_snd_nxt s)" using inv(4) chain_le by (auto simp: send_queue_def)
    then show "m_rto_base s' \<noteq> 0 \<Longrightarrow> m_snd_una s \<noteq> m_snd_nxt s'" using q t(6) inv(6) by (cases ok) (auto simp: control_ok_def)
  qed
  ultimately have "sender_ok b T s'"
    using q t(3) inv(2) send_buffer_cong [OF st(6,8)] by (simp add: sender_ok_def)
  then show thesis using that [OF t(1,2)] t(6) q by auto
qed

lemma find_unsent_first: "\<forall>x\<in>set xs. ss_xmit x \<noteq> 0 \<Longrightarrow> ss_xmit y = 0 \<Longrightarrow> find_unsent (xs @ y # ys) = Some (length xs)"
  by (induction xs) (auto simp: word_neq_0_conv)

lemma available_bound:
  assumes "send_buffer T s" and "unat (m_snd_una s) \<le> unat (m_snd_nxt s)" and "unat (m_snd_nxt s) \<le> length T"
  shows "unat (available_to_send s) \<le> length T - unat (m_snd_nxt s)"
proof -
  let ?w = "of_nat (ff_data_length (m_sbuf s)) - (m_snd_nxt s - m_snd_una s) :: u32"
  have T: "length T < 4294967296" using assms(1) by (simp add: send_buffer_def)
  have n: "ff_data_length (m_sbuf s) = length T - unat (m_snd_una s)" using send_buffer_buffered [OF assms(1)] .
  then have a: "unat (of_nat (ff_data_length (m_sbuf s)) :: u32) = length T - unat (m_snd_una s)"
    using T by (simp add: unat_of_nat)
  have c: "unat (m_snd_nxt s - m_snd_una s) = unat (m_snd_nxt s) - unat (m_snd_una s)"
    using assms(2) by (simp add: unat_sub word_le_nat_alt)
  have "unat ?w = length T - unat (m_snd_nxt s)"
    using assms(2,3) a c by (subst unat_sub) (auto simp: word_le_nat_alt)
  moreover have "available_to_send s \<le> ?w"
    by (auto simp: available_to_send_def Let_def GetBuffered_def min_def split: if_splits)
  ultimately show ?thesis by (simp add: word_le_nat_alt)
qed

lemma split_next:
  assumes "send_queue b s xs (y # ys) q" and "q < 2 ^ 32" and "0 < n" and "0 < ss_len y"
  shows "\<exists>y' ys'. send_queue b (s\<lparr>m_slist := split_segment (m_slist s) (length xs) n\<rparr>) xs (y' # ys') q \<and> 0 < ss_len y'"
proof (cases "n < ss_len y")
  case False
  then have "split_segment (m_slist s) (length xs) n = m_slist s"
    using assms(1) by (simp add: split_segment_def send_queue_def Let_def)
  then show ?thesis using assms(1,4) by auto
next
  case True
  note sq = assms(1) [unfolded send_queue_def]
  have "unat (ss_seq y) + unat (ss_len y) \<le> q" using sq chain_range [of _ "y # ys" q y] by simp
  then have lim: "unat (ss_seq y) + unat (ss_len y) < 2 ^ 32" using assms(2) by simp
  have ch: "chain (unat (m_snd_nxt s)) (y # ys) q" using sq by simp
  have le: "n \<le> ss_len y" using True by simp
  note cut = chain_cut [OF le lim ch]
  have sp: "split_segment (m_slist s) (length xs) n = xs @ (y\<lparr>ss_len := n\<rparr>) # rest_part y n @ ys"
    using sq True by (simp add: split_segment_def rest_part_def Let_def)
  have "ctl_ok b (y\<lparr>ss_len := n\<rparr>)" and "\<forall>z\<in>set (rest_part y n). ctl_ok b z"
    using sq parts_ctl_ok [OF _ le lim, of b] by (auto simp: sent_part_def ctl_ok_def split: if_splits)
  moreover have "\<forall>z\<in>set (butlast (rest_part y n @ ys)). ss_len z \<noteq> 0"
    using sq butlast_rest_part [of _ y n ys] by (auto split: if_splits)
  ultimately have "send_queue b (s\<lparr>m_slist := split_segment (m_slist s) (length xs) n\<rparr>) xs (y\<lparr>ss_len := n\<rparr> # rest_part y n @ ys) q"
    unfolding send_queue_def sp using sq cut assms(3) rest_part_fields [of _ y n] by (simp add: ball_Un word_neq_0_conv)
  moreover have "0 < ss_len (y\<lparr>ss_len := n\<rparr>)" using assms(3) by simp
  ultimately show ?thesis by blast
qed


text \<open>
  \<open>attemptSend\<close> returns in every good state, keeps the invariant and touches nothing of the receiving half.
\<close>

lemma attemptSend_loop_ok:
  assumes "sender_ok b T s"
  shows "\<exists>s'. attemptSend_loop e now s sflags = Some s' \<and> steady s' = steady s \<and> sender_ok b T s'"
  using assms
proof (induction "length T - unat (m_snd_nxt s)" arbitrary: s sflags rule: less_induct)
  case less
  obtain xs ys where inv: "sizes_ok s" "send_buffer T s" "sent_ok b T s" "send_queue b s xs ys (length T)"
      "control_ok s"
    using less.prems by (auto simp: sender_ok_def)
  note sq = inv(4) [unfolded send_queue_def]
  have le: "unat (m_snd_una s) \<le> unat (m_snd_nxt s)" "unat (m_snd_nxt s) \<le> length T" using sq chain_le by blast+
  let ?n = "available_to_send s"
  show ?case
  proof (cases "?n = 0 \<or> m_use_nagling s \<and> m_snd_nxt s > m_snd_una s \<and> ?n < m_mss s")
    case True
    show ?thesis
    proof (cases "?n = 0 \<and> sflags \<noteq> sfNone \<and> (sflags = sfImmediateAck \<or> m_t_ack s \<noteq> 0)")
      case True
      obtain w s' where p: "packet e s (m_snd_nxt s) 0 0 0 = Some (w, s')"
        using packet_defined [of 0 e s "m_snd_nxt s" 0 0] by auto
      have "sender_ok b T s'"
        using less.prems packet_effect [OF p] steadyD(6,8) [OF packet_steady [OF p]] pure_ack_genuine [OF p, of b T]
          send_queue_cong [of s' s] send_buffer_cong [of s' s] control_ok_steady [OF inv(5) packet_steady [OF p]]
        by (simp add: sender_ok_def sizes_ok_def control_ok_def)
      then show ?thesis using True p packet_steady [OF p] by (subst attemptSend_loop.simps) (auto simp: Let_def)
    next
      case False
      let ?s = "if ?n = 0 \<and> sflags \<noteq> sfNone then snd (Now e s)\<lparr>m_t_ack := fst (Now e s)\<rparr> else s"
      have "sender_ok b T ?s" "steady ?s = steady s"
        using less.prems send_queue_cong [of ?s s] send_buffer_cong [of ?s s]
        by (simp_all add: sender_ok_def sizes_ok_def sent_ok_def control_ok_def Now_def)
      moreover have "attemptSend_loop e now s sflags = Some ?s"
        using True False by (subst attemptSend_loop.simps) (auto simp: Now_def Let_def)
      ultimately show ?thesis by blast
    qed
  next
    case False
    then have n: "0 < ?n" "unat ?n \<le> length T - unat (m_snd_nxt s)"
      using available_bound [OF inv(2) le] by (auto simp: word_neq_0_conv)
    then have lt: "unat (m_snd_nxt s) < length T" by (auto simp: word_less_nat_alt)
    then obtain y ys' where ys: "ys = y # ys'" using sq by (cases ys) auto
    have y: "0 < ss_len y" using sq lt by (cases ys') (auto simp: ys word_greater_zero_iff)
    have T: "length T < 2 ^ 32" using inv(2) by (simp add: send_buffer_def)
    define s1 where "s1 = s\<lparr>m_slist := split_segment (m_slist s) (length xs) ?n\<rparr>"
    obtain z zs where z: "send_queue b s1 xs (z # zs) (length T)" "0 < ss_len z"
      using split_next [OF inv(4) [unfolded ys] T n(1) y] unfolding s1_def by auto
    have s1: "steady s1 = steady s" "sizes_ok s1" "send_buffer T s1" "sent_ok b T s1"
      "control_ok s1" "m_snd_nxt s1 = m_snd_nxt s"
      using inv by (simp_all add: s1_def sizes_ok_def send_buffer_def sent_ok_def control_ok_def)
    obtain ok s2 where t: "transmit e s1 (length xs) now = Some (ok, s2)" "steady s2 = steady s1" "sender_ok b T s2"
      "if ok then unat (m_snd_nxt s1) < unat (m_snd_nxt s2) else m_snd_nxt s2 = m_snd_nxt s1 \<and> m_rto_base s2 = m_rto_base s1"
      by (rule send_next_ok [OF s1(2-4) z s1(5)])
    have "find_unsent (m_slist s) = Some (length xs)" using sq ys find_unsent_first by auto
    then have e: "attemptSend_loop e now s sflags = (if ok then attemptSend_loop e now s2 sfNone else Some s2)"
      using False t(1) by (subst attemptSend_loop.simps) (auto simp: s1_def Let_def)
    show ?thesis
    proof (cases ok)
      case True
      then have "length T - unat (m_snd_nxt s2) < length T - unat (m_snd_nxt s)" using t(4) s1(6) lt by simp
      then show ?thesis using less.hyps [OF _ t(3), of sfNone] e True t(2) s1(1) by auto
    next
      case False
      then show ?thesis using e t s1 by auto
    qed
  qed
qed

lemma attemptSend_ok:
  assumes "sender_ok b T s"
  obtains s' where "attemptSend e s sflags = Some s'" "steady s' = steady s" "sender_ok b T s'"
proof -
  let ?s = "if TimeDiff (fst (Now e s)) (m_lastsend s) > uint (m_rx_rto s) then snd (Now e s)\<lparr>m_cwnd := m_mss s\<rparr> else snd (Now e s)"
  have "sender_ok b T ?s" "steady ?s = steady s"
    using assms send_queue_cong [of ?s s] send_buffer_cong [of ?s s]
    by (simp_all add: sender_ok_def sizes_ok_def sent_ok_def control_ok_def Now_def)
  moreover have "attemptSend e s sflags = attemptSend_loop e (fst (Now e s)) ?s sflags"
    by (simp add: attemptSend_def Now_def)
  ultimately show thesis using attemptSend_loop_ok [of b T ?s e "fst (Now e s)" sflags] that by auto
qed


subsection \<open>Queueing\<close>

definition queued :: "pseudo_tcp \<Rightarrow> u32 \<Rightarrow> bool \<Rightarrow> SSegment list" where
  "queued s len bCtrl =
     (if m_slist s \<noteq> [] \<and> ss_bCtrl (last (m_slist s)) = bCtrl \<and> ss_xmit (last (m_slist s)) = 0
      then butlast (m_slist s) @ [(last (m_slist s))\<lparr>ss_len := ss_len (last (m_slist s)) + len\<rparr>]
      else m_slist s @ [\<lparr>ss_seq = m_snd_una s + of_nat (GetBuffered (m_sbuf s)), ss_len = len, ss_xmit = 0, ss_bCtrl = bCtrl\<rparr>])"

lemma queued_ok:
  assumes "send_buffer T s" and "send_queue b s xs ys (length T)" and "length T + unat len < 2 ^ 32"
    and "if bCtrl then m_slist s = [] \<and> length T + unat len \<le> b \<and> len \<noteq> 0 else b \<le> length T"
  shows "\<exists>ys'. send_queue b (s\<lparr>m_slist := queued s len bCtrl\<rparr>) xs ys' (length T + unat len)"
proof -
  note sq = assms(2) [unfolded send_queue_def]
  show ?thesis
  proof (cases "m_slist s \<noteq> [] \<and> ss_bCtrl (last (m_slist s)) = bCtrl \<and> ss_xmit (last (m_slist s)) = 0")
    case True
    then have "ys \<noteq> []" using sq by (metis append_Nil2 last_in_set)
    then obtain ys0 y where ys: "ys = ys0 @ [y]" by (metis rev_exhaust)
    have c: "\<not> bCtrl" using True assms(4) by auto
    let ?y = "y\<lparr>ss_len := ss_len y + len\<rparr>"
    have q: "queued s len bCtrl = xs @ ys0 @ [?y]" using True sq ys by (simp add: queued_def butlast_append)
    have y: "ss_bCtrl y = bCtrl" "ss_xmit y = 0" using True sq ys by simp_all
    have ch: "chain (unat (m_snd_nxt s)) ys0 (unat (ss_seq y))" "unat (ss_seq y) + unat (ss_len y) = length T"
      using sq ys by (auto simp: chain_append)
    have "unat (ss_len y + len) = unat (ss_len y) + unat len"
      using ch(2) assms(3) by (subst unat_add_lem [THEN iffD1]) simp_all
    then have "chain (unat (m_snd_nxt s)) (ys0 @ [?y]) (length T + unat len)" using ch by (auto simp: chain_append)
    moreover have "ctl_ok b ?y" using sq ys y c by (simp add: ctl_ok_def)
    ultimately have "send_queue b (s\<lparr>m_slist := queued s len bCtrl\<rparr>) xs (ys0 @ [?y]) (length T + unat len)"
      unfolding send_queue_def q using sq ys c y by simp
    then show ?thesis by blast
  next
    case False
    let ?z = "\<lparr>ss_seq = m_snd_una s + of_nat (GetBuffered (m_sbuf s)), ss_len = len, ss_xmit = 0, ss_bCtrl = bCtrl\<rparr>"
    have q: "queued s len bCtrl = xs @ ys @ [?z]" unfolding queued_def if_not_P [OF False] using sq by simp
    have n: "ff_data_length (m_sbuf s) = length T - unat (m_snd_una s)" "unat (m_snd_una s) \<le> length T" "length T < 2 ^ 32"
      using send_buffer_buffered [OF assms(1)] assms(1) by (simp_all add: send_buffer_def)
    then have "unat (of_nat (GetBuffered (m_sbuf s)) :: u32) = length T - unat (m_snd_una s)"
      unfolding GetBuffered_def n(1) by (intro unat_of_nat_u32) simp
    then have z: "unat (ss_seq ?z) = length T" using n by (simp add: unat_word_ariths)
    have nz: "\<forall>y\<in>set ys. ss_len y \<noteq> 0"
    proof
      fix y assume y: "y \<in> set ys"
      then have sl: "m_slist s \<noteq> []" "last (m_slist s) = last ys" using sq by (auto simp: last_append)
      have nb: "\<not> bCtrl" using sl assms(4) by auto
      show "ss_len y \<noteq> 0"
      proof (cases "y \<in> set (butlast ys)")
        case True
        then show ?thesis using sq by blast
      next
        case False
        then have "y = last ys" using y by (cases ys rule: rev_cases) auto
        then show ?thesis using \<open>\<not> (m_slist s \<noteq> [] \<and> _)\<close> sq sl nb y by auto
      qed
    qed
    have "chain (unat (m_snd_nxt s)) (ys @ [?z]) (length T + unat len)" using sq z by (auto simp: chain_append)
    moreover have "ctl_ok b ?z" using z assms(4) by (auto simp: ctl_ok_def split: if_splits)
    ultimately have "send_queue b (s\<lparr>m_slist := queued s len bCtrl\<rparr>) xs (ys @ [?z]) (length T + unat len)"
      unfolding send_queue_def q using sq nz assms(4) by (auto split: if_splits)
    then show ?thesis by blast
  qed
qed

lemma queue_effect:
  assumes "send_buffer T s" and "length data < 2 ^ 32"
  defines "n \<equiv> min (length data) (GetWriteRemaining (m_sbuf s))"
  obtains sbuf where "queue s data bCtrl = (n, s\<lparr>m_slist := queued s (of_nat n) bCtrl, m_sbuf := sbuf\<rparr>)"
    "fifo_ok sbuf" "ff_state sbuf = ff_state (m_sbuf s)" "ff_buffer_length sbuf = ff_buffer_length (m_sbuf s)"
    "fifo_contents sbuf = fifo_contents (m_sbuf s) @ take n data" "unat (of_nat n :: u32) = n"
proof -
  have cap: "GetWriteRemaining (m_sbuf s) < 2 ^ 32" using assms(1) unfolding send_buffer_def GetWriteRemaining_def by linarith
  have u: "unat (of_nat (GetWriteRemaining (m_sbuf s)) :: u32) = GetWriteRemaining (m_sbuf s)"
    "unat (of_nat (length data) :: u32) = length data"
    using unat_of_nat_u32 [OF cap] unat_of_nat_u32 [OF assms(2)] by simp_all
  have len: "(if of_nat (length data) > (of_nat (GetWriteRemaining (m_sbuf s)) :: u32) then of_nat (GetWriteRemaining (m_sbuf s))
       else of_nat (length data) :: u32) = of_nat n"
    using u by (auto simp: n_def min_def word_less_nat_alt)
  have un: "unat (of_nat n :: u32) = n" using cap by (intro unat_of_nat_u32) (simp add: n_def)
  obtain r w sbuf where w: "fifo_Write (m_sbuf s) (take n data) = (r, w, sbuf)" by (metis prod_cases3)
  have ok: "fifo_ok (m_sbuf s)" "ff_state (m_sbuf s) \<noteq> SS_CLOSED" using assms(1) by (simp_all add: send_buffer_def)
  note fw = fifo_Write_contents [OF ok(1) w]
  have wn: "w = n" using fw ok(2) by (auto simp: n_def GetWriteRemaining_def split: if_splits)
  have sq: "m_sbuf (if P then s\<lparr>m_slist := l1\<rparr> else s\<lparr>m_slist := l2\<rparr>) = m_sbuf s" for P l1 l2 by simp
  have "queue s data bCtrl = (n, s\<lparr>m_slist := queued s (of_nat n) bCtrl, m_sbuf := sbuf\<rparr>)"
    unfolding queue_def queued_def Let_def len sq un w by (simp add: wn)
  moreover have "fifo_contents sbuf = fifo_contents (m_sbuf s) @ take n data" using fw wn by simp
  ultimately show thesis using fw un by (intro that) blast+
qed

lemma genuine_mono:
  assumes "genuine conv b T p"
  shows "genuine conv b (T @ U) p"
proof -
  obtain seq ack flags wnd ts tsr payload
    where p: "p = be32 conv @ be32 seq @ be32 ack @ [0, flags] @ be16 wnd @ be32 ts @ be32 tsr @ payload"
      and c: "if payload = [] then flags = 0
         else unat seq + length payload \<le> length T \<and> payload = take (length payload) (drop (unat seq) T) \<and>
              (flags = FLAG_CTL \<and> unat seq + length payload \<le> b \<or> flags = 0 \<and> b \<le> unat seq)"
    using assms unfolding genuine_def by blast
  show ?thesis unfolding genuine_def
    by (intro exI conjI, rule p) (use c in \<open>auto split: if_splits\<close>)
qed

definition sender_frame where
  "sender_frame s = (receiver s, (m_state s, m_conv s, m_mtu_advise s, m_support_wnd_scale s),
     (m_snd_una s, m_snd_nxt s, m_snd_wnd s, m_swnd_scale s, m_events s, m_bReadEnable s))"

lemma queue_ok:
  assumes "sender_ok b T s" and "length data < 2 ^ 32" and "length T + n < 2 ^ 32"
    and n: "n = min (length data) (GetWriteRemaining (m_sbuf s))"
    and "if bCtrl then m_slist s = [] \<and> length T + n \<le> b \<and> n \<noteq> 0 else b \<le> length T"
  obtains s' where "queue s data bCtrl = (n, s')" "sender_ok b (T @ take n data) s'" "sender_frame s' = sender_frame s"
    "steady (s'\<lparr>m_sbuf := m_sbuf s\<rparr>) = steady s" "ff_buffer_length (m_sbuf s') = ff_buffer_length (m_sbuf s)"
proof -
  obtain xs ys where inv: "sizes_ok s" "send_buffer T s" "sent_ok b T s" "send_queue b s xs ys (length T)"
    using assms(1) by (auto simp: sender_ok_def)
  obtain sbuf where q: "queue s data bCtrl = (n, s\<lparr>m_slist := queued s (of_nat n) bCtrl, m_sbuf := sbuf\<rparr>)"
    "fifo_ok sbuf" "ff_state sbuf = ff_state (m_sbuf s)" "ff_buffer_length sbuf = ff_buffer_length (m_sbuf s)"
    "fifo_contents sbuf = fifo_contents (m_sbuf s) @ take n data" "unat (of_nat n :: u32) = n"
    unfolding n by (rule queue_effect [OF inv(2) assms(2)])
  have nz: "(of_nat n :: u32) = 0 \<longleftrightarrow> n = 0" using q(6) by (cases "n = 0") auto
  obtain ys' where sq: "send_queue b (s\<lparr>m_slist := queued s (of_nat n) bCtrl\<rparr>) xs ys' (length T + n)"
    using queued_ok [OF inv(2,4), of "of_nat n" bCtrl, unfolded q(6) nz, OF assms(3,5)] by blast
  let ?s = "s\<lparr>m_slist := queued s (of_nat n) bCtrl, m_sbuf := sbuf\<rparr>"
  have nl: "length (take n data) = n" by (simp add: n)
  have "send_queue b ?s xs ys' (length (T @ take n data))" using sq nl by (simp add: send_queue_def)
  moreover have "send_buffer (T @ take n data) ?s" using inv(2) q assms(3) nl by (simp add: send_buffer_def)
  moreover have "sent_ok b (T @ take n data) ?s"
    using inv(3) genuine_mono by (auto simp: sent_ok_def)
  ultimately have "sender_ok b (T @ take n data) ?s" using assms(1) by (auto simp: sender_ok_def sizes_ok_def control_ok_def)
  then show thesis using that q by (simp add: sender_frame_def receiver_def steady_def)
qed

end
