(* ===== verification/PseudoTcpAck.thy ===== *)
theory PseudoTcpAck
  imports PseudoTcpSend
begin

text \<open>
  Acknowledgements, timers and packet sizes: how \<open>process_ack\<close>, \<open>NotifyClock\<close> and \<open>adjustMTU\<close> keep the
  invariant of the sender.
\<close>

subsection \<open>Dropping acknowledged data\<close>

text \<open>An acknowledgement is aligned when it ends a segment that was sent.\<close>

definition aligned :: "pseudo_tcp \<Rightarrow> u32 \<Rightarrow> bool" where
  "aligned s ack \<longleftrightarrow>
     (\<exists>us vs. m_slist s = us @ vs \<and> (\<forall>x\<in>set us. ss_xmit x \<noteq> 0) \<and> chain (unat (m_snd_una s)) us (unat ack))"

lemma free_acked_prefix:
  assumes "chain p us q" and "\<forall>x\<in>set us. ss_len x \<noteq> 0" and "unat n = q - p"
  shows "\<exists>largest'. free_acked n (us @ vs) largest = Some (vs, largest')"
  using assms
proof (induction us arbitrary: p n largest)
  case Nil
  then show ?case by (cases vs) (auto simp: unat_eq_zero)
next
  case (Cons x us)
  have le: "p + unat (ss_len x) \<le> q" using Cons.prems(1) chain_le by auto
  moreover have "0 < unat (ss_len x)" using Cons.prems(2) by (simp add: unat_gt_0)
  ultimately have "ss_len x \<le> n" "0 < n"
    using Cons.prems(3) by (auto simp: word_le_nat_alt word_less_nat_alt)
  moreover from this have "unat (n - ss_len x) = q - (p + unat (ss_len x))" using Cons.prems(3) by (simp add: unat_sub)
  ultimately show ?case using Cons.IH [of "p + unat (ss_len x)" "n - ss_len x"] Cons.prems by (simp add: not_less)
qed

lemma ConsumeReadData_contents:
  assumes "fifo_ok f" and "sz \<le> ff_data_length f" and "0 < sz"
  obtains f' where "ConsumeReadData f sz = Some f'" "fifo_ok f'" "fifo_contents f' = drop sz (fifo_contents f)"
    "ff_state f' = ff_state f" "ff_buffer_length f' = ff_buffer_length f"
proof -
  let ?n = "ff_buffer_length f" and ?rp = "ff_read_position f"
  have n: "0 < ?n" using assms by (auto simp: fifo_ok_def)
  then obtain f' where f': "ConsumeReadData f sz = Some f'" by (auto simp: ConsumeReadData_def Let_def)
  then have g: "ff_buffer f' = ff_buffer f" "ff_buffer_length f' = ?n" "ff_read_position f' = (?rp + sz) mod ?n"
    "ff_data_length f' = ff_data_length f - sz" "ff_state f' = ff_state f"
    by (auto simp: ConsumeReadData_def PostEvent_def Let_def split: if_splits)
  have "fifo_ok f'" using assms n g by (auto simp: fifo_ok_def)
  moreover have "fifo_contents f' = drop sz (fifo_contents f)"
    using assms(2) by (simp add: fifo_contents_def g cyc_drop)
  ultimately show thesis using that f' g by blast
qed

lemma prefix_of_sent:
  assumes "us @ vs = xs @ ys" and "\<forall>x\<in>set us. P x" and "\<forall>y\<in>set ys. \<not> P y"
  shows "\<exists>zs. xs = us @ zs \<and> vs = zs @ ys"
  using assms
proof (induction us arbitrary: xs)
  case (Cons u us)
  then show ?case by (cases xs) auto
qed simp

lemma chain_unique: "chain p xs q \<Longrightarrow> chain p xs r \<Longrightarrow> q = r"
  by (induction xs arbitrary: p) auto

lemma ack_drops:
  assumes "sender_ok b T s" and "aligned s ack" and "m_snd_una s < ack" and "ack \<le> m_snd_nxt s"
  obtains sbuf slist largest where
    "consume_read (m_sbuf s) (unat (ack - m_snd_una s)) = Some sbuf"
    "free_acked (ack - m_snd_una s) (m_slist s) (m_largest s) = Some (slist, largest)"
    "sender_ok b T (s\<lparr>m_snd_una := ack, m_rto_base := (if ack = m_snd_nxt s then 0 else now), m_sbuf := sbuf, m_slist := slist,
        m_largest := largest\<rparr>)"
proof -
  obtain xs ys where inv: "sizes_ok s" "send_buffer T s" "sent_ok b T s" "send_queue b s xs ys (length T)" "control_ok s"
    using assms(1) by (auto simp: sender_ok_def)
  note sq = inv(4) [unfolded send_queue_def]
  obtain us vs where uv: "m_slist s = us @ vs" "\<forall>x\<in>set us. ss_xmit x \<noteq> 0" "chain (unat (m_snd_una s)) us (unat ack)"
    using assms(2) by (auto simp: aligned_def)
  obtain zs where zs: "xs = us @ zs" "vs = zs @ ys"
    using prefix_of_sent [of us vs xs ys "\<lambda>x. ss_xmit x \<noteq> 0"] uv sq by auto
  have n: "unat (ack - m_snd_una s) = unat ack - unat (m_snd_una s)" using assms(3) by (simp add: unat_sub)
  have nxt: "unat (m_snd_nxt s) \<le> length T" using sq chain_le by blast
  have a: "unat (m_snd_una s) < unat ack" "unat ack \<le> unat (m_snd_nxt s)"
    using assms(3,4) by (simp_all add: word_less_nat_alt word_le_nat_alt)
  obtain largest where fr: "free_acked (ack - m_snd_una s) (m_slist s) (m_largest s) = Some (vs, largest)"
    using free_acked_prefix [OF uv(3) _ n, of vs "m_largest s"] sq zs uv(1) by auto
  have sb: "fifo_ok (m_sbuf s)" "ff_state (m_sbuf s) \<noteq> SS_CLOSED" "fifo_contents (m_sbuf s) = drop (unat (m_snd_una s)) T"
    using inv(2) by (auto simp: send_buffer_def)
  have le: "unat ack - unat (m_snd_una s) \<le> ff_data_length (m_sbuf s)" "0 < unat ack - unat (m_snd_una s)"
    using a nxt send_buffer_buffered [OF inv(2)] by simp_all
  obtain sbuf where f: "ConsumeReadData (m_sbuf s) (unat ack - unat (m_snd_una s)) = Some sbuf" "fifo_ok sbuf"
    "fifo_contents sbuf = drop (unat ack - unat (m_snd_una s)) (fifo_contents (m_sbuf s))"
    "ff_state sbuf = ff_state (m_sbuf s)" "ff_buffer_length sbuf = ff_buffer_length (m_sbuf s)"
    by (rule ConsumeReadData_contents [OF sb(1) le])
  define s' where "s' = s\<lparr>m_snd_una := ack, m_rto_base := (if ack = m_snd_nxt s then 0 else now), m_sbuf := sbuf, m_slist := vs,
        m_largest := largest\<rparr>"
  have "chain (unat ack) zs (unat (m_snd_nxt s))"
    using sq uv(3) unfolding zs(1) chain_append by (metis chain_unique)
  then have "send_queue b s' zs ys (length T)" using sq unfolding send_queue_def s'_def by (simp add: zs ball_Un)
  moreover have "send_buffer T s'" using inv(2) f a nxt by (simp add: send_buffer_def s'_def)
  moreover have "sizes_ok s'" "sent_ok b T s'" "control_ok s'"
    using inv by (auto simp: sizes_ok_def sent_ok_def control_ok_def s'_def)
  ultimately have "sender_ok b T s'" by (auto simp: sender_ok_def)
  moreover have "consume_read (m_sbuf s) (unat (ack - m_snd_una s)) = Some sbuf" using le f(1) n by (simp add: consume_read_def)
  ultimately show thesis using that fr unfolding s'_def by blast
qed


subsection \<open>Processing acknowledgements\<close>

definition session :: "pseudo_tcp \<Rightarrow> _" where
  "session s = (receiver s, m_conv s, m_support_wnd_scale s, ff_buffer_length (m_sbuf s))"

lemma sessionD:
  "session s' = session s \<Longrightarrow> receiver s' = receiver s \<and> m_conv s' = m_conv s \<and> m_support_wnd_scale s' = m_support_wnd_scale s \<and>
     ff_buffer_length (m_sbuf s') = ff_buffer_length (m_sbuf s)"
  by (simp add: session_def)

lemma steady_session: "steady s' = steady s \<Longrightarrow> session s' = session s \<and> m_state s' = m_state s"
  using steadyD [of s' s] by (simp add: session_def)

text \<open>Updates that do not concern the invariant of the sender.\<close>

lemma sender_ok_updates [simp]:
  "sender_ok b T (s\<lparr>m_cwnd := w\<rparr>) = sender_ok b T s" "sender_ok b T (s\<lparr>m_dup_acks := d\<rparr>) = sender_ok b T s"
  "sender_ok b T (s\<lparr>m_snd_wnd := w\<rparr>) = sender_ok b T s"
  "sender_ok b T (s\<lparr>m_rx_srtt := w\<rparr>) = sender_ok b T s" "sender_ok b T (s\<lparr>m_rx_rttvar := w\<rparr>) = sender_ok b T s"
  "sender_ok b T (s\<lparr>m_state := st\<rparr>) = sender_ok b T s" "sender_ok b T (s\<lparr>m_ts_recent := w\<rparr>) = sender_ok b T s"
  "sender_ok b T (s\<lparr>m_lasttraffic := w\<rparr>) = sender_ok b T s" "sender_ok b T (s\<lparr>m_lastrecv := w\<rparr>) = sender_ok b T s"
  "sender_ok b T (s\<lparr>m_bOutgoing := c\<rparr>) = sender_ok b T s" "sender_ok b T (s\<lparr>m_clock_reads := n\<rparr>) = sender_ok b T s"
  "sender_ok b T (s\<lparr>m_bWriteEnable := c\<rparr>) = sender_ok b T s" "sender_ok b T (s\<lparr>m_bReadEnable := c\<rparr>) = sender_ok b T s"
  "sender_ok b T (s\<lparr>m_error := er\<rparr>) = sender_ok b T s" "sender_ok b T (s\<lparr>m_lastsend := w\<rparr>) = sender_ok b T s"
  "sender_ok b T (s\<lparr>m_t_ack := w\<rparr>) = sender_ok b T s" "sender_ok b T (s\<lparr>m_shutdown := sd\<rparr>) = sender_ok b T s"
  "sender_ok b T (s\<lparr>m_rbuf := f\<rparr>) = sender_ok b T s" "sender_ok b T (s\<lparr>m_rlist := rl\<rparr>) = sender_ok b T s"
  "sender_ok b T (s\<lparr>m_rcv_nxt := w\<rparr>) = sender_ok b T s" "sender_ok b T (s\<lparr>m_rcv_wnd := w\<rparr>) = sender_ok b T s"
  "sender_ok b T (s\<lparr>m_use_nagling := c\<rparr>) = sender_ok b T s" "sender_ok b T (s\<lparr>m_ack_delay := w\<rparr>) = sender_ok b T s"
  by (simp_all add: sender_ok_def sizes_ok_def send_buffer_def sent_ok_def send_queue_def control_ok_def)

lemma sender_ok_rto: "sender_ok b T s \<Longrightarrow> rto_ok r \<Longrightarrow> sender_ok b T (s\<lparr>m_rx_rto := r\<rparr>)"
  by (simp add: sender_ok_def sizes_ok_def send_buffer_def sent_ok_def send_queue_def control_ok_def)

lemma sender_rto_ok: "sender_ok b T s \<Longrightarrow> rto_ok (m_rx_rto s)"
  by (simp add: sender_ok_def control_ok_def)

text \<open>The timeout after a round-trip measurement, and after a retransmission doubled it.\<close>

lemma rto_ok_bound: "rto_ok (bound MIN_RTO r MAX_RTO)"
  by (simp add: rto_ok_def bound_def MIN_RTO_def MAX_RTO_def)

lemma rto_ok_double:
  assumes "rto_ok r" and "limit \<in> {DEF_RTO, MAX_RTO}"
  shows "rto_ok (min limit (r * 2))"
proof -
  have r: "250 \<le> unat r" "unat r \<le> 60000" using assms(1) by (auto simp: rto_ok_def MIN_RTO_def MAX_RTO_def word_le_nat_alt)
  then have "unat (r * 2) = unat r * 2" by (subst unat_mult_lem [THEN iffD1]) simp_all
  then have "250 \<le> r * 2" using r by (simp add: word_le_nat_alt)
  moreover have "250 \<le> limit" "limit \<le> 60000" using assms(2) by (auto simp: DEF_RTO_def MAX_RTO_def)
  ultimately show ?thesis unfolding rto_ok_def MIN_RTO_def MAX_RTO_def by (simp add: min.coboundedI1)
qed

lemma session_updates [simp]:
  "session (s\<lparr>m_cwnd := w\<rparr>) = session s" "session (s\<lparr>m_dup_acks := d\<rparr>) = session s"
  "session (s\<lparr>m_snd_wnd := w\<rparr>) = session s" "session (s\<lparr>m_rx_rto := w\<rparr>) = session s"
  "session (s\<lparr>m_rx_srtt := w\<rparr>) = session s" "session (s\<lparr>m_rx_rttvar := w\<rparr>) = session s"
  "session (s\<lparr>m_state := st\<rparr>) = session s" "session (s\<lparr>m_ts_recent := w\<rparr>) = session s"
  "session (s\<lparr>m_lasttraffic := w\<rparr>) = session s" "session (s\<lparr>m_lastrecv := w\<rparr>) = session s"
  "session (s\<lparr>m_bOutgoing := c\<rparr>) = session s" "session (s\<lparr>m_clock_reads := n\<rparr>) = session s"
  "session (s\<lparr>m_bWriteEnable := c\<rparr>) = session s" "session (s\<lparr>m_bReadEnable := c\<rparr>) = session s"
  "session (s\<lparr>m_recover := w\<rparr>) = session s" "session (s\<lparr>m_ssthresh := w\<rparr>) = session s"
  "session (s\<lparr>m_snd_una := w\<rparr>) = session s" "session (s\<lparr>m_rto_base := w\<rparr>) = session s"
  "session (s\<lparr>m_slist := sl\<rparr>) = session s" "session (s\<lparr>m_largest := w\<rparr>) = session s"
  "session (s\<lparr>m_events := ev\<rparr>) = session s" "session (s\<lparr>m_mss := w\<rparr>) = session s"
  "session (s\<lparr>m_msslevel := w\<rparr>) = session s" "session (s\<lparr>m_error := er\<rparr>) = session s"
  "session (s\<lparr>m_lastsend := w\<rparr>) = session s" "session (s\<lparr>m_t_ack := w\<rparr>) = session s"
  "session (s\<lparr>m_swnd_scale := sc\<rparr>) = session s" "session (s\<lparr>m_mtu_advise := w\<rparr>) = session s"
  "session (s\<lparr>m_snd_nxt := w\<rparr>) = session s"
  by (simp_all add: session_def receiver_def)

lemma sender_ok_notify [simp]:
  "(\<And>p w. ev \<noteq> TcpWritePacket p w) \<Longrightarrow> sender_ok b T (notify s ev) = sender_ok b T s"
  by (auto simp: notify_def sender_ok_def sizes_ok_def send_buffer_def sent_ok_def send_queue_def control_ok_def)

lemma session_notify [simp]: "session (notify s ev) = session s"
  by (simp add: notify_def)

lemma closedown_ok [simp]:
  "sender_ok b T (closedown s err) = sender_ok b T s" "session (closedown s err) = session s" "m_state (closedown s err) = TCP_CLOSED"
  unfolding closedown_def by (simp_all, simp add: notify_def)

lemma sender_ok_thresh:
  "sender_ok b T s \<Longrightarrow> sender_ok b T (s\<lparr>m_ssthresh := max w (2 * m_mss s)\<rparr>)"
  "sender_ok b T s \<Longrightarrow> sender_ok b T (s\<lparr>m_recover := m_snd_nxt s\<rparr>)"
proof -
  assume ok: "sender_ok b T s"
  then have "0 < unat (m_mss s)" "unat (m_mss s) \<le> 65419" by (auto simp: sender_ok_def sizes_ok_def word_less_nat_alt)
  then have "unat (2 * m_mss s) \<noteq> 0" by (simp add: unat_word_ariths)
  then have "2 * m_mss s \<noteq> 0" by auto
  then have "max w (2 * m_mss s) \<noteq> 0" by (metis max.cobounded2 word_le_0_iff)
  then show "sender_ok b T (s\<lparr>m_ssthresh := max w (2 * m_mss s)\<rparr>)"
    using ok by (simp add: sender_ok_def sizes_ok_def send_buffer_def sent_ok_def send_queue_def control_ok_def)
  show "sender_ok b T (s\<lparr>m_recover := m_snd_nxt s\<rparr>)"
    using ok by (simp add: sender_ok_def sizes_ok_def send_buffer_def sent_ok_def send_queue_def control_ok_def)
qed

lemma update_rtt_frame:
  "sender_ok b T s \<Longrightarrow> sender_ok b T (update_rtt s seg now)" "session (update_rtt s seg now) = session s"
  "m_state (update_rtt s seg now) = m_state s" "m_slist (update_rtt s seg now) = m_slist s"
  "m_snd_una (update_rtt s seg now) = m_snd_una s" "m_snd_nxt (update_rtt s seg now) = m_snd_nxt s"
  "m_swnd_scale (update_rtt s seg now) = m_swnd_scale s"
  by (simp_all add: update_rtt_def Let_def sender_ok_rto rto_ok_bound)

lemma shift_window_defined: "sender_ok b T s \<Longrightarrow> \<exists>w. shift_window wnd (m_swnd_scale s) = Some w"
  by (simp add: sender_ok_def control_ok_def shift_window_def)

text \<open>\<open>good b T s ok s'\<close>: a step of \<open>process\<close> kept the sender's invariant, and closed the connection exactly if it failed.\<close>

definition good :: "nat \<Rightarrow> byte list \<Rightarrow> pseudo_tcp \<Rightarrow> bool \<Rightarrow> pseudo_tcp \<Rightarrow> bool" where
  "good b T s ok s' \<longleftrightarrow> sender_ok b T s' \<and> session s' = session s \<and> m_state s' = (if ok then m_state s else TCP_CLOSED)"

lemma ack_congestion_ok:
  assumes "sender_ok b T s"
  shows "\<exists>ok s'. ack_congestion e s nAcked now = Some (ok, s') \<and> good b T s ok s'"
proof (cases "m_dup_acks s \<ge> 3")
  case False
  have "m_ssthresh s \<noteq> 0" using assms by (simp add: sender_ok_def control_ok_def)
  then show ?thesis using False assms by (auto simp: ack_congestion_def good_def Let_def word_greater_zero_iff)
next
  case dup: True
  show ?thesis
  proof (cases "m_recover s \<le> m_snd_una s")
    case True
    then show ?thesis using dup assms by (auto simp: ack_congestion_def good_def)
  next
    case False
    then have "m_snd_una s \<noteq> m_snd_nxt s" using assms by (auto simp: sender_ok_def control_ok_def)
    then obtain ok s' where t: "transmit e s 0 now = Some (ok, s')" "steady s' = steady s" "sender_ok b T s'"
      using retransmit_ok [OF assms] by metis
    then show ?thesis using dup False steady_session [OF t(2)] by (auto simp: ack_congestion_def good_def)
  qed
qed

lemma process_new_ack_ok:
  assumes "sender_ok b T s" and "aligned s (sg_ack seg)" and "m_snd_una s < sg_ack seg" and "sg_ack seg \<le> m_snd_nxt s"
  shows "\<exists>ok s'. process_new_ack e s seg now = Some (ok, s') \<and> good b T s ok s'"
proof -
  let ?r = "update_rtt s seg now"
  obtain wnd where w: "shift_window (sg_wnd seg) (m_swnd_scale ?r) = Some wnd"
    using shift_window_defined assms(1) by (metis update_rtt_frame(7))
  have al: "aligned (?r\<lparr>m_snd_wnd := wnd\<rparr>) (sg_ack seg)" using assms(2) by (simp add: aligned_def update_rtt_frame)
  obtain sbuf slist largest where d:
    "consume_read (m_sbuf (?r\<lparr>m_snd_wnd := wnd\<rparr>)) (unat (sg_ack seg - m_snd_una (?r\<lparr>m_snd_wnd := wnd\<rparr>))) = Some sbuf"
    "free_acked (sg_ack seg - m_snd_una (?r\<lparr>m_snd_wnd := wnd\<rparr>)) (m_slist (?r\<lparr>m_snd_wnd := wnd\<rparr>)) (m_largest (?r\<lparr>m_snd_wnd := wnd\<rparr>))
       = Some (slist, largest)"
    "sender_ok b T (?r\<lparr>m_snd_wnd := wnd, m_snd_una := sg_ack seg,
        m_rto_base := (if sg_ack seg = m_snd_nxt (?r\<lparr>m_snd_wnd := wnd\<rparr>) then 0 else now), m_sbuf := sbuf, m_slist := slist,
        m_largest := largest\<rparr>)"
    by (rule ack_drops [where now = now, OF _ al, of b T]) (use assms in \<open>simp_all add: update_rtt_frame\<close>)
  have cap: "ff_buffer_length sbuf = ff_buffer_length (m_sbuf ?r)"
    using d(1) by (auto simp: consume_read_def ConsumeReadData_def PostEvent_def Let_def split: if_splits)
  define S where "S = ?r\<lparr>m_snd_wnd := wnd, m_snd_una := sg_ack seg,
        m_rto_base := (if sg_ack seg = m_snd_nxt s then 0 else now), m_sbuf := sbuf, m_slist := slist, m_largest := largest\<rparr>"
  have S: "session S = session s" "m_state S = m_state s" "sender_ok b T S"
    using cap update_rtt_frame(2) [of s seg now] d(3) by (simp_all add: S_def session_def receiver_def update_rtt_frame)
  have "process_new_ack e s seg now = ack_congestion e S (sg_ack seg - m_snd_una s) now"
    using w d(1,2) by (simp add: process_new_ack_def update_rtt_frame S_def)
  then show ?thesis
    using ack_congestion_ok [OF S(3), of e "sg_ack seg - m_snd_una s" now] S(1,2) unfolding good_def by metis
qed

lemma process_dup_ack_ok:
  assumes "sender_ok b T s"
  shows "\<exists>ok s'. process_dup_ack e s seg now = Some (ok, s') \<and> good b T s ok s'"
proof -
  obtain wnd where w: "shift_window (sg_wnd seg) (m_swnd_scale s) = Some wnd" using shift_window_defined [OF assms] by auto
  show ?thesis
  proof (cases "sg_len seg > 0 \<or> m_snd_una s = m_snd_nxt s \<or> m_dup_acks s + 1 \<noteq> 3")
    case True
    then show ?thesis using w assms by (auto simp: process_dup_ack_def good_def Let_def)
  next
    case False
    let ?s = "s\<lparr>m_snd_wnd := wnd, m_dup_acks := m_dup_acks s + 1\<rparr>"
    obtain ok s' where t: "transmit e ?s 0 now = Some (ok, s')" "steady s' = steady ?s" "sender_ok b T s'"
    proof (rule retransmit_ok [of b T ?s e now])
      show "sender_ok b T ?s" using assms by simp
      show "m_snd_una ?s \<noteq> m_snd_nxt ?s" using False by simp
    qed
    have "sender_ok b T (s'\<lparr>m_recover := m_snd_nxt s', m_ssthresh := max w (2 * m_mss s')\<rparr>)" for w
      using sender_ok_thresh(1) [OF sender_ok_thresh(2) [OF t(3)], of w] by simp
    then show ?thesis
      using w False t(1,3) steady_session [OF t(2)] by (auto simp: process_dup_ack_def good_def Let_def)
  qed
qed

lemma process_ack_ok:
  assumes "sender_ok b T s" and "m_snd_una s < sg_ack seg \<and> sg_ack seg \<le> m_snd_nxt s \<longrightarrow> aligned s (sg_ack seg)"
  shows "\<exists>ok s'. process_ack e s seg now = Some (ok, s') \<and> good b T s ok s'"
proof (cases "m_snd_una s < sg_ack seg \<and> sg_ack seg \<le> m_snd_nxt s")
  case True
  then show ?thesis using process_new_ack_ok [OF assms(1)] assms(2) by (auto simp: process_ack_def)
next
  case False
  then show ?thesis
    using process_dup_ack_ok [OF assms(1), of e seg now] assms(1) by (auto simp: process_ack_def good_def)
qed

subsection \<open>Timers\<close>

lemma pure_ack_ok:
  assumes "sender_ok b T s"
  obtains w s' where "packet e s seq 0 0 0 = Some (w, s')" "sender_ok b T s'" "steady s' = steady s"
proof -
  obtain w s' where p: "packet e s seq 0 0 0 = Some (w, s')"
    using packet_defined [of 0 e s seq 0 0] by auto
  note st = packet_steady [OF p]
  have "sender_ok b T s'"
    using assms packet_effect [OF p] steadyD(6,8) [OF st] pure_ack_genuine [OF p, of b T]
      send_queue_cong [of s' s] send_buffer_cong [of s' s] control_ok_steady [OF _ st]
    by (simp add: sender_ok_def sizes_ok_def control_ok_def)
  then show thesis using that p st by blast
qed

lemma retransmit_timer_ok:
  assumes "sender_ok b T s"
  shows "\<exists>ok s'. retransmit_timer e s now = Some (ok, s') \<and> good b T s ok s'"
proof (cases "m_rto_base s \<noteq> 0 \<and> TimeDiff (m_rto_base s + m_rx_rto s) now \<le> 0 \<and> m_slist s \<noteq> []")
  case False
  then have "retransmit_timer e s now = Some (True, s)" unfolding retransmit_timer_def by (rule if_not_P)
  then show ?thesis using assms by (auto simp: good_def)
next
  case True
  then have fl: "m_snd_una s \<noteq> m_snd_nxt s" using assms by (auto simp: sender_ok_def control_ok_def)
  obtain ok s' where t: "transmit e s 0 now = Some (ok, s')" "steady s' = steady s" "sender_ok b T s'" "m_snd_nxt s' = m_snd_nxt s"
    using retransmit_ok [OF assms fl] by metis
  have una: "m_snd_una s' \<noteq> m_snd_nxt s'" using fl t(4) steadyD(8) [OF t(2)] by simp
  have "sender_ok b T (s'\<lparr>m_ssthresh := max w (2 * m_mss s'), m_cwnd := c, m_rx_rto := r, m_rto_base := now\<rparr>)" if "rto_ok r" for w c r
    using sender_ok_thresh(1) [OF t(3), of w] una that
    by (simp add: sender_ok_def sizes_ok_def send_buffer_def sent_ok_def send_queue_def control_ok_def)
  then show ?thesis
    using rto_ok_double [OF sender_rto_ok [OF t(3)]] True t(1,3) steady_session [OF t(2)] by (auto simp: retransmit_timer_def good_def Let_def)
qed

lemma probe_timer_ok:
  assumes "sender_ok b T s"
  shows "\<exists>ok s'. probe_timer e s now = Some (ok, s') \<and> good b T s ok s'"
proof -
  obtain w s' where "packet e s (m_snd_nxt s - 1) 0 0 0 = Some (w, s')" "sender_ok b T s'" "steady s' = steady s"
    by (rule pure_ack_ok [OF assms])
  then show ?thesis
    using assms steady_session [of s' s] sender_ok_rto rto_ok_double [OF sender_rto_ok, of b T s' MAX_RTO]
    by (auto simp: probe_timer_def good_def)
qed

lemma NotifyClock_ok:
  assumes "sender_ok b T s"
  obtains s' where "NotifyClock e s now = Some s'" "sender_ok b T s'" "session s' = session s"
    "m_state s' \<in> {m_state s, TCP_CLOSED}"
proof (cases "m_state s = TCP_CLOSED")
  case True
  then show thesis using that [of s] assms by (simp add: NotifyClock_def)
next
  case False
  obtain ok1 s1 where r: "retransmit_timer e s now = Some (ok1, s1)" "good b T s ok1 s1"
    using retransmit_timer_ok [OF assms] by blast
  obtain ok2 s2 where p: "probe_timer e s1 now = Some (ok2, s2)" "good b T s1 ok2 s2"
    using probe_timer_ok r(2) unfolding good_def by metis
  obtain w s3 where a: "packet e s2 (m_snd_nxt s2) 0 0 0 = Some (w, s3)" "sender_ok b T s3" "steady s3 = steady s2"
    using pure_ack_ok p(2) unfolding good_def by metis
  let ?ack = "m_t_ack s2 \<noteq> 0 \<and> TimeDiff (m_t_ack s2 + m_ack_delay s2) now \<le> 0"
  have "NotifyClock e s now = Some (if \<not> ok1 then s1 else if \<not> ok2 then s2 else if ?ack then s3 else s2)"
    using False r(1) p(1) a(1) by (simp add: NotifyClock_def)
  then show thesis
    using that r(2) p(2) a(2) steady_session [OF a(3)] unfolding good_def by (auto split: if_splits)
qed

subsection \<open>Packet sizes and the handshake\<close>

lemma mtu_level_bound: "mtu_level PACKET_MAXIMUMS mtu \<le> 9"
  by (simp add: PACKET_MAXIMUMS_def)

lemma PACKET_OVERHEAD_eq: "PACKET_OVERHEAD = 116"
  by (simp add: PACKET_OVERHEAD_def HEADER_SIZE_def UDP_HEADER_SIZE_def IP_HEADER_SIZE_def JINGLE_HEADER_SIZE_def)

lemma adjustMTU_ok:
  assumes "sender_ok b T s"
  shows "sender_ok b T (adjustMTU s)" "session (adjustMTU s) = session s" "m_state (adjustMTU s) = m_state s"
proof -
  have m: "116 < m_mtu_advise s" "m_mtu_advise s \<le> 65535" using assms by (auto simp: sender_ok_def control_ok_def)
  then have "unat (m_mtu_advise s - 116) = unat (m_mtu_advise s) - 116" by (subst unat_sub) (simp_all add: word_less_nat_alt word_le_nat_alt)
  then have mss: "0 < unat (m_mtu_advise s - 116)" "unat (m_mtu_advise s - 116) \<le> 65419"
    using m by (auto simp: word_less_nat_alt word_le_nat_alt)
  have "unat (of_nat (mtu_level PACKET_MAXIMUMS (m_mtu_advise s)) :: u32) \<le> 9"
    using mtu_level_bound [of "m_mtu_advise s"] by (subst unat_of_nat_u32) simp_all
  moreover have "max (m_ssthresh s) w \<noteq> 0" for w
    using assms by (metis control_ok_def max.cobounded1 sender_ok_def word_le_0_iff)
  ultimately show "sender_ok b T (adjustMTU s)"
    using assms mss by (simp add: adjustMTU_def Let_def PACKET_OVERHEAD_eq sender_ok_def sizes_ok_def send_buffer_def sent_ok_def
        send_queue_def control_ok_def word_less_nat_alt)
qed (simp_all add: adjustMTU_def Let_def)

lemma NotifyMTU_ok:
  assumes "sender_ok b T s" and "116 < mtu"
  shows "sender_ok b T (NotifyMTU s mtu)" "session (NotifyMTU s mtu) = session s" "m_state (NotifyMTU s mtu) = m_state s"
proof -
  have u: "unat (ucast mtu :: u32) = unat mtu" using unat_bound [of mtu] by (simp add: unsigned_ucast_eq take_bit_nat_eq_self)
  have "unat mtu < 65536" using unat_bound [of mtu] by simp
  then have "sender_ok b T (s\<lparr>m_mtu_advise := ucast mtu\<rparr>)"
    using assms u by (simp add: sender_ok_def sizes_ok_def send_buffer_def sent_ok_def send_queue_def control_ok_def
        word_less_nat_alt word_le_nat_alt)
  from adjustMTU_ok [OF this] this
  show "sender_ok b T (NotifyMTU s mtu)" "session (NotifyMTU s mtu) = session s" "m_state (NotifyMTU s mtu) = m_state s"
    by (simp_all add: NotifyMTU_def Let_def)
qed

lemma process_open_ok:
  assumes "sender_ok b T s"
  shows "sender_ok b T (process_open s c)" "session (process_open s c) = session s"
    "m_state (process_open s c) = (if m_state s = TCP_SYN_RECEIVED \<and> \<not> c then TCP_ESTABLISHED else m_state s)"
  using assms adjustMTU_ok [of b T "s\<lparr>m_state := TCP_ESTABLISHED\<rparr>"] by (simp_all add: process_open_def)
    (simp add: notify_def)

lemma process_writeable_ok:
  "sender_ok b T (process_writeable s) = sender_ok b T s" "session (process_writeable s) = session s"
  "m_state (process_writeable s) = m_state s"
  by (simp_all add: process_writeable_def Let_def) (simp add: notify_def)

end
