(* ===== verification/PseudoTcpControl.thy ===== *)
theory PseudoTcpControl
  imports PseudoTcpAck
begin

text \<open>The connect message, its options, and the state machine of the handshake.\<close>

subsection \<open>The connect message\<close>

definition connect_message :: "pseudo_tcp \<Rightarrow> byte list" where
  "connect_message s = CTL_CONNECT # (if m_support_wnd_scale s then [TCP_OPT_WND_SCALE, 1, m_rwnd_scale s] else [])"

lemma WriteUInt8_ok:
  assumes "buffer_ok buf"
  shows "buffer_ok (WriteUInt8 buf v)" and "contents (WriteUInt8 buf v) = contents buf @ [v]"
  using WriteBytes_ok [OF assms, of "[v]"] by (simp_all add: WriteUInt8_def)

lemma fresh_buffer_ok: "buffer_ok (ByteBuffer_of_order ord)" "contents (ByteBuffer_of_order ord) = []"
  by (auto simp: buffer_defs ByteBuffer_of_order_def Construct_def)

lemma queueConnectMessage_eq:
  "queueConnectMessage s =
     snd (queue (s\<lparr>m_snd_wnd := of_nat (length (connect_message s))\<rparr>) (connect_message s) True)"
proof -
  define buf where "buf = (let buf = WriteUInt8 (ByteBuffer_of_order ORDER_NETWORK) CTL_CONNECT in
     if m_support_wnd_scale s then WriteUInt8 (WriteUInt8 (WriteUInt8 buf TCP_OPT_WND_SCALE) 1) (m_rwnd_scale s) else buf)"
  have b: "buffer_ok buf" "contents buf = connect_message s"
    unfolding buf_def Let_def by (simp_all add: WriteUInt8_ok fresh_buffer_ok connect_message_def)
  have "queueConnectMessage s = snd (queue (s\<lparr>m_snd_wnd := of_nat (Length buf)\<rparr>) (take (Length buf) (Data buf)) True)"
    unfolding queueConnectMessage_def buf_def Let_def by (rule refl)
  moreover have "take (Length buf) (Data buf) = connect_message s" using b(2) by (simp add: contents_def)
  moreover have "Length buf = length (connect_message s)" using b length_contents by metis
  ultimately show ?thesis by simp
qed

lemma empty_queue:
  assumes "sender_ok b [] s" and "0 < b"
  shows "m_slist s = []"
proof -
  obtain xs ys where sq: "m_slist s = xs @ ys" "chain (unat (m_snd_una s)) xs (unat (m_snd_nxt s))"
      "chain (unat (m_snd_nxt s)) ys 0" "\<forall>x\<in>set xs. ss_len x \<noteq> 0" "\<forall>y\<in>set ys. ss_bCtrl y \<longrightarrow> ss_len y \<noteq> 0"
      "\<forall>x\<in>set (xs @ ys). ctl_ok b x"
    using assms(1) by (auto simp: sender_ok_def send_queue_def)
  have "x \<notin> set (xs @ ys)" for x
  proof
    assume x: "x \<in> set (xs @ ys)"
    have "chain (unat (m_snd_una s)) (xs @ ys) 0" using sq(2,3) by (auto simp: chain_append)
    from chain_range [OF this x] have "unat (ss_seq x) = 0" "ss_len x = 0" by (auto simp: unat_eq_zero)
    then show False using sq(4-6) x assms(2) by (auto simp: ctl_ok_def split: if_splits)
  qed
  then show ?thesis using sq(1) by (metis list.set_intros(1) neq_Nil_conv)
qed

lemma queueConnectMessage_ok:
  assumes "sender_ok b [] s" and "b = length (connect_message s)" and "b \<le> ff_buffer_length (m_sbuf s)"
  shows "sender_ok b (connect_message s) (queueConnectMessage s)" and "session (queueConnectMessage s) = session s"
    and "m_state (queueConnectMessage s) = m_state s" and "m_events (queueConnectMessage s) = m_events s"
    and "m_snd_wnd (queueConnectMessage s) = of_nat b" and "m_snd_una (queueConnectMessage s) = m_snd_una s"
    and "m_snd_nxt (queueConnectMessage s) = m_snd_nxt s"
proof -
  let ?m = "connect_message s"
  define S where "S = s\<lparr>m_snd_wnd := of_nat (length ?m)\<rparr>"
  have len: "0 < length ?m" "length ?m < 2 ^ 32" by (simp_all add: connect_message_def)
  have sl: "m_slist S = []" using empty_queue [OF assms(1)] len assms(2) by (simp add: S_def)
  have S: "sender_ok b [] S" using assms(1) by (simp add: S_def)
  then have "ff_data_length (m_sbuf S) = 0" using send_buffer_buffered [of "[]" S] by (simp add: sender_ok_def)
  then have n: "length ?m = min (length ?m) (GetWriteRemaining (m_sbuf S))" using assms(2,3) by (simp add: GetWriteRemaining_def S_def)
  obtain s' where q: "queue S ?m True = (length ?m, s')" "sender_ok b ([] @ take (length ?m) ?m) s'" "sender_frame s' = sender_frame S"
    "steady (s'\<lparr>m_sbuf := m_sbuf S\<rparr>) = steady S" "ff_buffer_length (m_sbuf s') = ff_buffer_length (m_sbuf S)"
    by (rule queue_ok [OF S len(2) _ n]) (use len sl assms(2) in auto)
  have e: "queueConnectMessage s = s'" using q(1) by (simp add: queueConnectMessage_eq S_def)
  show "sender_ok b (connect_message s) (queueConnectMessage s)" using q(2) by (simp add: e)
  show "session (queueConnectMessage s) = session s" "m_state (queueConnectMessage s) = m_state s"
    "m_events (queueConnectMessage s) = m_events s" "m_snd_wnd (queueConnectMessage s) = of_nat b"
    "m_snd_una (queueConnectMessage s) = m_snd_una s" "m_snd_nxt (queueConnectMessage s) = m_snd_nxt s"
    using q(3,5) assms(2) by (auto simp: e S_def sender_frame_def session_def receiver_def)
qed

subsection \<open>Options\<close>

lemma parse_options_loop_scale:
  "buffer_ok buf \<Longrightarrow> parse_options_loop s buf kinds = (r, s') \<Longrightarrow>
     \<exists>k. s' = s\<lparr>m_swnd_scale := k\<rparr> \<and> (k = m_swnd_scale s \<or> k \<in> set (contents buf))"
proof (induction s buf kinds rule: parse_options_loop.induct)
  case (1 s buf kinds)
  have base: "\<exists>k. s = s\<lparr>m_swnd_scale := k\<rparr> \<and> (k = m_swnd_scale s \<or> k \<in> set (contents buf))"
    by (rule exI [of _ "m_swnd_scale s"]) simp
  show ?case
  proof (cases "Length buf = 0")
    case True
    then show ?thesis using "1.prems"(2) base by (simp add: parse_options_loop.simps [of s buf])
  next
    case False
    then obtain kind rest where c: "contents buf = kind # rest" using "1.prems"(1) length_contents by (metis length_0_conv list.exhaust)
    define nb where "nb = buf\<lparr>bb_start := bb_start buf + 1\<rparr>"
    have rd: "ReadUInt8 buf = Some (kind, nb)"
      using "1.prems"(1) c by (simp add: ReadUInt8_def ReadBytes_contents nb_def)
    have b1: "buffer_ok nb" "contents nb = rest"
      using advance_ok [OF "1.prems"(1), of 1] c by (simp_all add: nb_def)
    have sub: "(\<exists>k. s' = t\<lparr>m_swnd_scale := k\<rparr> \<and> (k = m_swnd_scale t \<or> k \<in> set cs)) \<Longrightarrow>
        t = s\<lparr>m_swnd_scale := j\<rparr> \<Longrightarrow> j = m_swnd_scale s \<or> j \<in> set (contents buf) \<Longrightarrow> set cs \<subseteq> set (contents buf) \<Longrightarrow>
        \<exists>k. s' = s\<lparr>m_swnd_scale := k\<rparr> \<and> (k = m_swnd_scale s \<or> k \<in> set (contents buf))" for t j cs by auto
    consider "kind = TCP_OPT_EOL" | "kind \<noteq> TCP_OPT_EOL" "kind = TCP_OPT_NOOP" | "kind \<noteq> TCP_OPT_EOL" "kind \<noteq> TCP_OPT_NOOP" by blast
    then show ?thesis
    proof cases
      case 1
      then show ?thesis using "1.prems"(2) base False rd by (simp add: parse_options_loop.simps [of s buf])
    next
      case 2
      then have "parse_options_loop s nb kinds = (r, s')"
        using "1.prems"(2) False rd by (simp add: parse_options_loop.simps [of s buf])
      then show ?thesis
        using "1.IH"(1) [OF False rd refl 2 b1(1)] sub [where t = s and j = "m_swnd_scale s" and cs = rest] b1(2) c by auto
    next
      case 3
      obtain opt_len buf2 where o: "(case ReadUInt8 nb of None \<Rightarrow> (0, nb) | Some r \<Rightarrow> r) = (opt_len, buf2)"
        by (metis surj_pair)
      have b2: "buffer_ok buf2" "set (contents buf2) \<subseteq> set rest"
        using o b1 advance_ok [OF b1(1), of 1] by (auto simp: ReadUInt8_def ReadBytes_contents split: if_splits dest: in_set_dropD)
      show ?thesis
      proof (cases "unat opt_len \<le> Length buf2")
        case le: True
        define buf3 where "buf3 = buf2\<lparr>bb_start := bb_start buf2 + unat opt_len\<rparr>"
        have cs: "Consume buf2 (unat opt_len) = Some buf3" using le by (simp add: Consume_def buf3_def)
        have b3: "buffer_ok buf3" "set (contents buf3) \<subseteq> set rest"
          using advance_ok [OF b2(1), of "unat opt_len"] le b2 by (auto simp: buf3_def dest: in_set_dropD)
        have "parse_options_loop (applyOption s kind (Data buf2) opt_len) buf3 (kind # kinds) = (r, s')"
          using "1.prems"(2) False rd 3 o le cs by (simp add: parse_options_loop.simps [of s buf])
        note ih = "1.IH"(2) [OF False rd refl 3 o [symmetric] refl le cs b3(1) this]
        have opt: "Data buf2 ! 0 \<in> set rest" if "opt_len = 1"
        proof -
          have "contents buf2 ! 0 \<in> set (contents buf2)" using that le length_contents [OF b2(1)] by (intro nth_mem) simp
          then show ?thesis using that le b2(2) by (auto simp: contents_def)
        qed
        define j where "j = (if kind = TCP_OPT_WND_SCALE \<and> opt_len = 1 then Data buf2 ! 0 else m_swnd_scale s)"
        have j: "applyOption s kind (Data buf2) opt_len = s\<lparr>m_swnd_scale := j\<rparr>" "j = m_swnd_scale s \<or> j \<in> set rest"
          using opt by (simp_all add: applyOption_def applyWindowScaleOption_def j_def)
        show ?thesis by (rule sub [OF ih j(1)]) (use j(2) b3(2) c in auto)
      next
        case False
        then show ?thesis using "1.prems"(2) base \<open>Length buf \<noteq> 0\<close> rd 3 o by (simp add: parse_options_loop.simps [of s buf])
      qed
    qed
  qed
qed

lemma parseOptions_scale:
  assumes "m_rwnd_scale s = 0"
  shows "\<exists>k. parseOptions e s data = s\<lparr>m_swnd_scale := k\<rparr> \<and> (k = m_swnd_scale s \<or> k \<in> set data)"
proof -
  obtain r s' where l: "parse_options_loop s (ByteBuffer_of data) [] = (r, s')" by (metis surj_pair)
  obtain k where k: "s' = s\<lparr>m_swnd_scale := k\<rparr>" "k = m_swnd_scale s \<or> k \<in> set data"
    using parse_options_loop_scale [OF _ l] by auto
  then have "parseOptions e s data = s'" using l assms by (auto simp: parseOptions_def split: option.splits)
  then show ?thesis using k by blast
qed

subsection \<open>The sender through the handshake\<close>

definition conn :: "nat \<Rightarrow> byte list \<Rightarrow> pseudo_tcp \<Rightarrow> bool" where
  "conn b T s \<longleftrightarrow>
     sender_ok b T s \<and> m_rwnd_scale s = 0 \<and> b = length (connect_message s) \<and> b \<le> ff_buffer_length (m_sbuf s) \<and>
     (m_state s = TCP_LISTEN \<longrightarrow> T = []) \<and>
     (m_state s \<in> {TCP_SYN_SENT, TCP_SYN_RECEIVED, TCP_ESTABLISHED} \<longrightarrow> b \<le> length T)"

lemma connect_message_session: "session s' = session s \<Longrightarrow> connect_message s' = connect_message s"
  by (simp add: session_def receiver_def connect_message_def)

lemma conn_step:
  assumes "conn b T s" and "sender_ok b T s'" and "session s' = session s"
    and "m_state s' = m_state s \<or> m_state s' = TCP_CLOSED \<or>
      m_state s \<in> {TCP_SYN_SENT, TCP_SYN_RECEIVED} \<and> m_state s' = TCP_ESTABLISHED"
  shows "conn b T s'"
  using assms connect_message_session [OF assms(3)] sessionD [OF assms(3)] by (auto simp: conn_def receiver_def)

lemma conn_connect:
  assumes "conn b [] s" and "m_state s = TCP_LISTEN" and "st \<in> {TCP_SYN_SENT, TCP_SYN_RECEIVED}"
  shows "conn b (connect_message s) (queueConnectMessage (s\<lparr>m_state := st\<rparr>))"
    and "session (queueConnectMessage (s\<lparr>m_state := st\<rparr>)) = session s"
    and "m_state (queueConnectMessage (s\<lparr>m_state := st\<rparr>)) = st"
proof -
  let ?s = "s\<lparr>m_state := st\<rparr>"
  have m: "connect_message ?s = connect_message s" by (simp add: connect_message_def)
  have "sender_ok b [] ?s" "b = length (connect_message ?s)" "b \<le> ff_buffer_length (m_sbuf ?s)"
    using assms(1) unfolding conn_def m sender_ok_updates by auto
  note q = queueConnectMessage_ok [OF this]
  show ses: "session (queueConnectMessage ?s) = session s" using q(2) by simp
  show "m_state (queueConnectMessage ?s) = st" using q(3) by simp
  show "conn b (connect_message s) (queueConnectMessage ?s)"
    using assms q connect_message_session [OF ses] sessionD [OF ses] by (auto simp: conn_def m receiver_def)
qed

lemma sender_ok_scale:
  "sender_ok b T s \<Longrightarrow> unat k < 32 \<Longrightarrow> sender_ok b T (s\<lparr>m_swnd_scale := k\<rparr>)"
  by (simp add: sender_ok_def sizes_ok_def send_buffer_def sent_ok_def send_queue_def control_ok_def)

text \<open>What \<open>process_control\<close> adds to the stream: the connect message, when it makes a listening object answer.\<close>

definition answers :: "pseudo_tcp \<Rightarrow> Segment \<Rightarrow> byte list" where
  "answers s seg =
     (if sg_flags seg AND FLAG_CTL \<noteq> 0 \<and> sg_len seg \<noteq> 0 \<and> sg_data seg ! 0 = CTL_CONNECT \<and> m_state s = TCP_LISTEN
      then connect_message s else [])"

lemma process_control_ok:
  assumes "conn b T s" and "process_control e s seg = (ok, c, s')" and "sg_flags seg AND FLAG_CTL \<noteq> 0 \<longrightarrow> (\<forall>x\<in>set (sg_data seg). unat x < 32)"
  shows "conn b (T @ answers s seg) s'" and "session s' = session s"
    and "m_state s' = m_state s \<or> m_state s = TCP_LISTEN \<and> m_state s' = TCP_SYN_RECEIVED \<or>
       m_state s = TCP_SYN_SENT \<and> m_state s' = TCP_ESTABLISHED"
proof -
  consider (ctl) "sg_flags seg AND FLAG_CTL \<noteq> 0" "sg_len seg \<noteq> 0" "sg_data seg ! 0 = CTL_CONNECT"
    | (other) "s' = s" "answers s seg = []"
    using assms(2) by (auto simp: process_control_def answers_def split: if_splits)
  then have "conn b (T @ answers s seg) s' \<and> session s' = session s \<and> (m_state s' = m_state s \<or> m_state s = TCP_LISTEN \<and> m_state s' = TCP_SYN_RECEIVED \<or>
       m_state s = TCP_SYN_SENT \<and> m_state s' = TCP_ESTABLISHED)"
  proof cases
    case other
    then show ?thesis using assms(1) by simp
  next
    case ctl
    have one: "drop 1 xs = drop (Suc 0) xs" for xs :: "byte list" by simp
    obtain k where k: "parseOptions e s (take (unat (sg_len seg - 1)) (drop 1 (sg_data seg))) = s\<lparr>m_swnd_scale := k\<rparr>"
      "k = m_swnd_scale s \<or> k \<in> set (take (unat (sg_len seg - 1)) (drop 1 (sg_data seg)))"
      using parseOptions_scale [of s e] assms(1) unfolding conn_def by metis
    have so: "sender_ok b T s" using assms(1) unfolding conn_def by blast
    have "unat k < 32"
      using k(2) assms(3) ctl(1) so by (auto simp: sender_ok_def control_ok_def dest!: in_set_takeD in_set_dropD)
    then have s1: "sender_ok b T (s\<lparr>m_swnd_scale := k\<rparr>)" by (rule sender_ok_scale [OF so])
    have c1: "conn b T (s\<lparr>m_swnd_scale := k\<rparr>)" using conn_step [OF assms(1) s1] by simp
    have m1: "connect_message (s\<lparr>m_swnd_scale := k\<rparr>) = connect_message s" by (simp add: connect_message_def)
    consider (listen) "m_state s = TCP_LISTEN" | (syn) "m_state s = TCP_SYN_SENT" | (rest) "m_state s \<noteq> TCP_LISTEN" "m_state s \<noteq> TCP_SYN_SENT"
      by blast
    then show ?thesis
    proof cases
      case listen
      then have e: "s' = queueConnectMessage (s\<lparr>m_swnd_scale := k, m_state := TCP_SYN_RECEIVED\<rparr>)" "answers s seg = connect_message s" "T = []"
        using assms(1,2) ctl by (simp_all add: process_control_def k(1) [unfolded one] answers_def conn_def)
      show ?thesis
        using conn_connect [of b "s\<lparr>m_swnd_scale := k\<rparr>" TCP_SYN_RECEIVED] c1 listen m1 unfolding e by simp
    next
      case syn
      then have e: "s' = notify (adjustMTU (s\<lparr>m_swnd_scale := k, m_state := TCP_ESTABLISHED\<rparr>)) OnTcpOpen" "answers s seg = []"
        using assms(2) ctl by (simp_all add: process_control_def k(1) [unfolded one] answers_def)
      note a = adjustMTU_ok [of b T "s\<lparr>m_swnd_scale := k, m_state := TCP_ESTABLISHED\<rparr>"]
      have "sender_ok b T s'" "session s' = session s" "m_state s' = TCP_ESTABLISHED"
        using a s1 unfolding e(1) by (simp_all, simp add: notify_def)
      then show ?thesis using conn_step [OF assms(1), of s'] syn e(2) by simp
    next
      case rest
      then have e: "s' = s\<lparr>m_swnd_scale := k\<rparr>" "answers s seg = []"
        using assms(2) ctl by (simp_all add: process_control_def k(1) [unfolded one] answers_def)
      then show ?thesis using c1 by simp
    qed
  qed
  then show "conn b (T @ answers s seg) s'" "session s' = session s"
    "m_state s' = m_state s \<or> m_state s = TCP_LISTEN \<and> m_state s' = TCP_SYN_RECEIVED \<or>
       m_state s = TCP_SYN_SENT \<and> m_state s' = TCP_ESTABLISHED" by blast+
qed

end
