(* ===== verification/PseudoTcpRecv.thy ===== *)
theory PseudoTcpRecv
  imports PseudoTcpFrame
begin

text \<open>
  The receiving half of \<open>PseudoTcp\<close>.  \<open>D\<close> is the data the peer sends, \<open>b\<close> the number of control bytes
  before it: byte \<open>i\<close> of \<open>D\<close> has sequence number \<open>b + i\<close>.  \<open>r\<close> is how many bytes \<open>Recv\<close> has delivered.
\<close>

subsection \<open>The receive buffer by position\<close>

definition fifo_at :: "fifo_buffer \<Rightarrow> nat \<Rightarrow> byte" where
  "fifo_at f k = ff_buffer f ! ((ff_read_position f + k) mod ff_buffer_length f)"

lemma fifo_contents_at: "fifo_contents f = map (fifo_at f) [0..<ff_data_length f]"
  by (simp add: fifo_contents_def cyc_def fifo_at_def)

lemma WriteOffset_at:
  assumes "fifo_ok f" and "ff_state f \<noteq> SS_CLOSED" and "d \<noteq> []" and "ff_data_length f + off + length d \<le> ff_buffer_length f"
  obtains f' where "WriteOffset f d off = (SR_SUCCESS, length d, f')" "fifo_ok f'" "ff_state f' = ff_state f"
    "ff_buffer_length f' = ff_buffer_length f" "ff_data_length f' = ff_data_length f"
    "\<forall>k. k < ff_buffer_length f \<longrightarrow> fifo_at f' k =
       (if ff_data_length f + off \<le> k \<and> k < ff_data_length f + off + length d then d ! (k - (ff_data_length f + off)) else fifo_at f k)"
proof -
  let ?n = "ff_buffer_length f" and ?rp = "ff_read_position f" and ?o = "ff_data_length f + off"
  let ?wp = "(?rp + ff_data_length f + off) mod ?n"
  let ?buf = "wrapped_write (ff_buffer f) ?n ?wp d"
  have lt: "?o < ?n" using assms(3,4) by (cases d) auto
  have tk: "take (?n - ff_data_length f - off) d = d" "min (length d) (?n - ff_data_length f - off) = length d" using assms(4) by auto
  have r: "fst (WriteOffsetLocked f d off) = SR_SUCCESS"
    using WriteOffsetLocked_contents(1) [OF assms(1), of d off] assms(2) lt by simp
  have e: "WriteOffset f d off = (SR_SUCCESS, length d, f\<lparr>ff_buffer := ?buf\<rparr>)"
    using WriteOffsetLocked_contents(2) [OF assms(1) r] r unfolding tk by (simp add: WriteOffset_def prod_eq_iff)
  have buf: "length (ff_buffer f) = ?n" "?rp < ?n" using assms(1) lt by (auto simp: fifo_ok_def)
  have wp: "?wp < ?n" "length d \<le> ?n" using lt assms(4) by simp_all
  note ww = wrapped_write_nth [OF buf(1) wp]
  have at: "fifo_at (f\<lparr>ff_buffer := ?buf\<rparr>) k = (if ?o \<le> k \<and> k < ?o + length d then d ! (k - ?o) else fifo_at f k)" if "k < ?n" for k
  proof (cases "?o \<le> k \<and> k < ?o + length d")
    case True
    have "(?wp + (k - ?o)) mod ?n = (?rp + ff_data_length f + off + (k - ?o)) mod ?n" by (rule mod_add_left_eq)
    also have "?rp + ff_data_length f + off + (k - ?o) = ?rp + k" using True by simp
    finally show ?thesis using True ww(2) [of "k - ?o"] by (auto simp: fifo_at_def)
  next
    case False
    have "(?wp + j) mod ?n \<noteq> (?rp + k) mod ?n" if j: "j < length d" for j
    proof
      assume "(?wp + j) mod ?n = (?rp + k) mod ?n"
      then have m: "(?rp + (?o + j)) mod ?n = (?rp + k) mod ?n" by (simp add: mod_add_left_eq add.assoc)
      have "?o + j < ?n" using j assms(4) by simp
      then have "?o + j = k"
        using mod_inj_near [of "?rp + (?o + j)" ?n "?rp + k"] mod_inj_near [of "?rp + k" ?n "?rp + (?o + j)"] m \<open>k < ?n\<close>
        by (cases "?o + j \<le> k") auto
      then show False using False j by auto
    qed
    then have "?buf ! ((?rp + k) mod ?n) = ff_buffer f ! ((?rp + k) mod ?n)" using ww(3) lt by simp
    then show ?thesis using False by (auto simp: fifo_at_def)
  qed
  show thesis
    by (rule that [OF e]) (use assms(1) ww(1) at in \<open>auto simp: fifo_ok_def\<close>)
qed

lemma consume_write_at:
  assumes "fifo_ok f" and "ff_data_length f + sz \<le> ff_buffer_length f"
  obtains f' where "consume_write f sz = Some f'" "fifo_ok f'" "ff_state f' = ff_state f"
    "ff_buffer_length f' = ff_buffer_length f" "ff_data_length f' = ff_data_length f + sz" "fifo_at f' = fifo_at f"
proof -
  have "fifo_ok (ConsumeWriteBuffer f sz)" using assms by (simp add: fifo_ok_def)
  moreover have "ff_state (ConsumeWriteBuffer f sz) = ff_state f" by (simp add: ConsumeWriteBuffer_def PostEvent_def Let_def)
  ultimately show thesis
    using that [of "ConsumeWriteBuffer f sz"] assms(2) by (simp add: consume_write_def GetWriteRemaining_def fun_eq_iff fifo_at_def)
qed

lemma fifo_Read_at:
  assumes "fifo_ok f" and "fifo_Read f len = (r, x, f')" and "0 < ff_data_length f"
  shows "fifo_ok f'" "ff_state f' = ff_state f" "ff_buffer_length f' = ff_buffer_length f"
    "ff_data_length f' = ff_data_length f - length x" "x = take (length x) (fifo_contents f)" "length x \<le> ff_data_length f"
    "r = SR_SUCCESS" "fifo_at f' k = fifo_at f (length x + k)"
proof -
  note rc = fifo_Read_contents [OF assms(1,2)]
  have c: "fifo_contents f = x @ fifo_contents f'" using rc by blast
  show ok: "fifo_ok f'" and cap: "ff_buffer_length f' = ff_buffer_length f" using rc by blast+
  show "x = take (length x) (fifo_contents f)" using c by simp
  have l: "ff_data_length f = length x + ff_data_length f'" using arg_cong [OF c, of length] by simp
  then show "ff_data_length f' = ff_data_length f - length x" "length x \<le> ff_data_length f" by simp_all
  have "fifo_contents f \<noteq> []" using assms(3) by (metis length_fifo_contents list.size(3) less_irrefl)
  then show "r = SR_SUCCESS" using rc by presburger
  show "ff_state f' = ff_state f"
    using assms(2) by (auto simp: fifo_Read_def PostEvent_def Let_def split: prod.splits if_splits)
  have "ff_read_position f' = (ff_read_position f + length x) mod ff_buffer_length f" "ff_buffer f' = ff_buffer f"
    using assms by (auto simp: fifo_Read_def ReadOffsetLocked_def PostEvent_def Let_def split: prod.splits if_splits)
  then show "fifo_at f' k = fifo_at f (length x + k)" using cap by (simp add: fifo_at_def mod_add_left_eq add.assoc)
qed

subsection \<open>Cutting a segment to the window\<close>

lemma unat_add_u32: "unat (x :: u32) + unat y < 2 ^ 32 \<Longrightarrow> unat (x + y) = unat x + unat y"
  by (subst unat_add_lem [THEN iffD1]) simp_all

lemma unat_diff_u32: "unat (y :: u32) \<le> unat x \<Longrightarrow> unat (x - y) = unat x - unat y"
  by (simp add: unat_sub word_le_nat_alt)

definition cut_old :: "pseudo_tcp \<Rightarrow> Segment \<Rightarrow> Segment" where
  "cut_old s seg =
     (if sg_seq seg < m_rcv_nxt s then
        let nAdjust = m_rcv_nxt s - sg_seq seg in
        if nAdjust < sg_len seg
        then seg\<lparr>sg_seq := sg_seq seg + nAdjust, sg_data := drop (unat nAdjust) (sg_data seg), sg_len := sg_len seg - nAdjust\<rparr>
        else seg\<lparr>sg_len := 0\<rparr>
      else seg)"

lemma cut_old_range:
  assumes "unat (sg_seq seg) + unat (sg_len seg) < 2 ^ 32" and "sg_len (cut_old s seg) \<noteq> 0"
  shows "unat (sg_seq (cut_old s seg)) = max (unat (sg_seq seg)) (unat (m_rcv_nxt s))"
    and "unat (sg_seq (cut_old s seg)) + unat (sg_len (cut_old s seg)) = unat (sg_seq seg) + unat (sg_len seg)"
    and "sg_data (cut_old s seg) = drop (unat (sg_seq (cut_old s seg)) - unat (sg_seq seg)) (sg_data seg)"
    and "sg_flags (cut_old s seg) = sg_flags seg"
proof -
  let ?a = "m_rcv_nxt s - sg_seq seg"
  have *: "unat (sg_seq (cut_old s seg)) = max (unat (sg_seq seg)) (unat (m_rcv_nxt s)) \<and>
    unat (sg_seq (cut_old s seg)) + unat (sg_len (cut_old s seg)) = unat (sg_seq seg) + unat (sg_len seg) \<and>
    sg_data (cut_old s seg) = drop (unat (sg_seq (cut_old s seg)) - unat (sg_seq seg)) (sg_data seg) \<and>
    sg_flags (cut_old s seg) = sg_flags seg"
  proof (cases "sg_seq seg < m_rcv_nxt s")
    case True
    then have a: "unat ?a = unat (m_rcv_nxt s) - unat (sg_seq seg)" by (intro unat_diff_u32) (simp add: word_less_nat_alt)
    have lt: "?a < sg_len seg" using assms(2) True by (auto simp: cut_old_def Let_def split: if_splits)
    then have "unat (sg_len seg - ?a) = unat (sg_len seg) - unat ?a" by (intro unat_diff_u32) (simp add: word_less_nat_alt)
    then show ?thesis using True lt a by (simp add: cut_old_def word_less_nat_alt)
  next
    case False
    then show ?thesis by (simp add: cut_old_def word_less_nat_alt)
  qed
  then show "unat (sg_seq (cut_old s seg)) = max (unat (sg_seq seg)) (unat (m_rcv_nxt s))"
    "unat (sg_seq (cut_old s seg)) + unat (sg_len (cut_old s seg)) = unat (sg_seq seg) + unat (sg_len seg)"
    "sg_data (cut_old s seg) = drop (unat (sg_seq (cut_old s seg)) - unat (sg_seq seg)) (sg_data seg)"
    "sg_flags (cut_old s seg) = sg_flags seg" by blast+
qed

lemma fit_segment_cut:
  "fit_segment s seg =
     (let seg = cut_old s seg; available = of_nat (GetWriteRemaining (m_rbuf s)); over = sg_seq seg + sg_len seg - m_rcv_nxt s
      in if over > available
         then seg\<lparr>sg_len := (if over - available < sg_len seg then sg_len seg - (over - available) else 0)\<rparr> else seg)"
  unfolding fit_segment_def cut_old_def Let_def by (auto simp: if_distrib)

lemma fit_segment_empty: "sg_len (cut_old s seg) = 0 \<or> sg_len seg = 0 \<Longrightarrow> sg_len (fit_segment s seg) = 0"
proof -
  assume "sg_len (cut_old s seg) = 0 \<or> sg_len seg = 0"
  then have z: "sg_len (cut_old s seg) = 0" by (auto simp: cut_old_def Let_def)
  show ?thesis unfolding fit_segment_cut Let_def by (simp add: z)
qed

lemma fit_segment_range:
  assumes "unat (sg_seq seg) + unat (sg_len seg) < 2 ^ 32" and "GetWriteRemaining (m_rbuf s) < 2 ^ 32"
    and "sg_len (fit_segment s seg) \<noteq> 0"
  shows "unat (sg_seq (fit_segment s seg)) = max (unat (sg_seq seg)) (unat (m_rcv_nxt s))"
    and "unat (sg_seq (fit_segment s seg)) + unat (sg_len (fit_segment s seg)) =
       min (unat (sg_seq seg) + unat (sg_len seg)) (unat (m_rcv_nxt s) + GetWriteRemaining (m_rbuf s))"
    and "sg_data (fit_segment s seg) = drop (unat (sg_seq (fit_segment s seg)) - unat (sg_seq seg)) (sg_data seg)"
    and "sg_flags (fit_segment s seg) = sg_flags seg"
proof -
  let ?c = "cut_old s seg" and ?rem = "GetWriteRemaining (m_rbuf s)"
  have rem: "unat (of_nat ?rem :: u32) = ?rem" using assms(2) by (rule unat_of_nat_u32)
  have nz: "sg_len ?c \<noteq> 0" using assms(3) fit_segment_empty by blast
  note c = cut_old_range [OF assms(1) nz]
  let ?over = "sg_seq ?c + sg_len ?c - m_rcv_nxt s"
  have sum: "unat (sg_seq ?c + sg_len ?c) = unat (sg_seq seg) + unat (sg_len seg)"
    using assms(1) c(2) by (subst unat_add_u32) simp_all
  have le: "unat (m_rcv_nxt s) \<le> unat (sg_seq seg) + unat (sg_len seg)" using c(1,2) by linarith
  then have over: "unat ?over = unat (sg_seq seg) + unat (sg_len seg) - unat (m_rcv_nxt s)"
    using sum by (subst unat_diff_u32) simp_all
  have *: "unat (sg_seq (fit_segment s seg)) = max (unat (sg_seq seg)) (unat (m_rcv_nxt s)) \<and>
    unat (sg_seq (fit_segment s seg)) + unat (sg_len (fit_segment s seg)) =
       min (unat (sg_seq seg) + unat (sg_len seg)) (unat (m_rcv_nxt s) + ?rem) \<and>
    sg_data (fit_segment s seg) = drop (unat (sg_seq (fit_segment s seg)) - unat (sg_seq seg)) (sg_data seg) \<and>
    sg_flags (fit_segment s seg) = sg_flags seg"
  proof (cases "?over > of_nat ?rem")
    case True
    have gt: "?rem < unat ?over" using True rem by (simp add: word_less_nat_alt)
    have lt: "?over - of_nat ?rem < sg_len ?c" using assms(3) True by (auto simp: fit_segment_cut Let_def split: if_splits)
    have d: "unat (?over - of_nat ?rem) = unat ?over - ?rem" using gt rem by (subst unat_diff_u32) simp_all
    have l: "unat (sg_len ?c - (?over - of_nat ?rem)) = unat (sg_len ?c) - (unat ?over - ?rem)"
      using lt d by (subst unat_diff_u32) (simp_all add: word_less_nat_alt)
    have e: "fit_segment s seg = ?c\<lparr>sg_len := sg_len ?c - (?over - of_nat ?rem)\<rparr>" using True lt by (simp add: fit_segment_cut Let_def)
    have "unat (sg_seq ?c) + (unat (sg_len ?c) - (unat ?over - ?rem)) = min (unat (sg_seq seg) + unat (sg_len seg)) (unat (m_rcv_nxt s) + ?rem)"
      using over c(1,2) gt lt d le by (simp add: word_less_nat_alt)
    then show ?thesis unfolding e using c l by simp
  next
    case False
    then have "unat ?over \<le> ?rem" using rem by (simp add: word_less_nat_alt)
    then show ?thesis using False c over le by (simp add: fit_segment_cut Let_def)
  qed
  then show "unat (sg_seq (fit_segment s seg)) = max (unat (sg_seq seg)) (unat (m_rcv_nxt s))"
    "unat (sg_seq (fit_segment s seg)) + unat (sg_len (fit_segment s seg)) =
       min (unat (sg_seq seg) + unat (sg_len seg)) (unat (m_rcv_nxt s) + ?rem)"
    "sg_data (fit_segment s seg) = drop (unat (sg_seq (fit_segment s seg)) - unat (sg_seq seg)) (sg_data seg)"
    "sg_flags (fit_segment s seg) = sg_flags seg" by blast+
qed

subsection \<open>The invariant of the receiver\<close>

text \<open>Byte \<open>i\<close> of the stream lies in the buffer, at its place.\<close>

definition held :: "byte list \<Rightarrow> nat \<Rightarrow> fifo_buffer \<Rightarrow> nat \<Rightarrow> bool" where
  "held D r f i \<longleftrightarrow> i < length D \<and> i < r + ff_buffer_length f \<and> fifo_at f (i - r) = D ! i"

definition saved_ok :: "nat \<Rightarrow> byte list \<Rightarrow> nat \<Rightarrow> fifo_buffer \<Rightarrow> RSegment \<Rightarrow> bool" where
  "saved_ok b D r f g \<longleftrightarrow>
     unat (rs_seq g) + unat (rs_len g) \<le> b + length D \<and>
     (\<forall>i. r + ff_data_length f \<le> i \<and> unat (rs_seq g) \<le> b + i \<and> b + i < unat (rs_seq g) + unat (rs_len g) \<longrightarrow> held D r f i)"

text \<open>
  While the object is not shut down, the sequence number expected next is what was delivered and what is
  buffered, and the segments saved ahead of it lie in the buffer.  No data is kept before the control bytes are in.
\<close>

definition window_ok :: "nat \<Rightarrow> byte list \<Rightarrow> nat \<Rightarrow> pseudo_tcp \<Rightarrow> RSegment list \<Rightarrow> bool" where
  "window_ok b D r s rlist \<longleftrightarrow>
     (if unat (m_rcv_nxt s) < b then r = 0 \<and> ff_data_length (m_rbuf s) = 0 \<and> rlist = []
      else unat (m_rcv_nxt s) = b + r + ff_data_length (m_rbuf s) \<and> (\<forall>g\<in>set rlist. saved_ok b D r (m_rbuf s) g))"

definition buffer_holds :: "byte list \<Rightarrow> nat \<Rightarrow> pseudo_tcp \<Rightarrow> bool" where
  "buffer_holds D r s \<longleftrightarrow>
     fifo_ok (m_rbuf s) \<and> ff_state (m_rbuf s) \<noteq> SS_CLOSED \<and> ff_buffer_length (m_rbuf s) < 2 ^ 32 \<and>
     (\<forall>i. r \<le> i \<and> i < r + ff_data_length (m_rbuf s) \<longrightarrow> held D r (m_rbuf s) i)"

definition receiver_ok :: "nat \<Rightarrow> byte list \<Rightarrow> nat \<Rightarrow> pseudo_tcp \<Rightarrow> bool" where
  "receiver_ok b D r s \<longleftrightarrow>
     b + length D < 2 ^ 32 \<and> buffer_holds D r s \<and> (m_shutdown s = SD_NONE \<longrightarrow> window_ok b D r s (m_rlist s))"

lemma receiver_ok_cong: "receiver s' = receiver s \<Longrightarrow> receiver_ok b D r s' \<longleftrightarrow> receiver_ok b D r s"
  using receiverD [of s' s] by (simp add: receiver_ok_def buffer_holds_def window_ok_def)

text \<open>What the peer's stream looks like in a segment: nothing, a piece of its control bytes, or a piece of \<open>D\<close>.\<close>

definition stream_segment :: "nat \<Rightarrow> byte list \<Rightarrow> Segment \<Rightarrow> bool" where
  "stream_segment b D seg \<longleftrightarrow>
     length (sg_data seg) = unat (sg_len seg) \<and>
     (sg_len seg = 0 \<or>
      (if sg_flags seg AND FLAG_CTL \<noteq> 0 then unat (sg_seq seg) + unat (sg_len seg) \<le> b
       else b \<le> unat (sg_seq seg) \<and> unat (sg_seq seg) + unat (sg_len seg) \<le> b + length D \<and>
            sg_data seg = take (unat (sg_len seg)) (drop (unat (sg_seq seg) - b) D)))"

lemma held_mono: "held D r f i \<Longrightarrow> ff_buffer_length f' = ff_buffer_length f \<Longrightarrow> fifo_at f' = fifo_at f \<Longrightarrow> held D r f' i"
  by (simp add: held_def)

text \<open>Moving the end of the buffer over bytes that are held.\<close>

lemma advance_window:
  assumes "buffer_holds D r s" and "b + length D < 2 ^ 32" and "unat (m_rcv_nxt s) = b + r + ff_data_length (m_rbuf s)"
    and "\<forall>i. r + ff_data_length (m_rbuf s) \<le> i \<and> i < r + ff_data_length (m_rbuf s) + unat n \<longrightarrow> held D r (m_rbuf s) i"
    and "n \<noteq> 0"
  obtains f where "consume_write (m_rbuf s) (unat n) = Some f"
    "buffer_holds D r (s\<lparr>m_rbuf := f, m_rcv_nxt := m_rcv_nxt s + n, m_rcv_wnd := w\<rparr>)"
    "unat (m_rcv_nxt s + n) = b + r + ff_data_length f" "ff_data_length f = ff_data_length (m_rbuf s) + unat n"
    "ff_buffer_length f = ff_buffer_length (m_rbuf s)" "fifo_at f = fifo_at (m_rbuf s)"
proof -
  let ?f = "m_rbuf s"
  have n: "0 < unat n" using assms(5) by (simp add: unat_gt_0)
  have last: "held D r ?f (r + ff_data_length ?f + unat n - 1)" using assms(4) n by auto
  then have fit: "ff_data_length ?f + unat n \<le> ff_buffer_length ?f" "r + ff_data_length ?f + unat n \<le> length D"
    using n by (auto simp: held_def)
  obtain f where f: "consume_write ?f (unat n) = Some f" "fifo_ok f" "ff_state f = ff_state ?f"
    "ff_buffer_length f = ff_buffer_length ?f" "ff_data_length f = ff_data_length ?f + unat n" "fifo_at f = fifo_at ?f"
    by (rule consume_write_at [OF _ fit(1)]) (use assms(1) in \<open>simp add: buffer_holds_def\<close>)
  have u: "unat (m_rcv_nxt s + n) = b + r + ff_data_length f"
    using fit(2) assms(2,3) f(5) by (subst unat_add_u32) simp_all
  have "held D r f i" if "r \<le> i" "i < r + ff_data_length f" for i
  proof -
    have "held D r ?f i" using that assms(1,4) f(5) by (cases "i < r + ff_data_length ?f") (auto simp: buffer_holds_def)
    then show ?thesis by (rule held_mono [OF _ f(4,6)])
  qed
  then have "buffer_holds D r (s\<lparr>m_rbuf := f, m_rcv_nxt := m_rcv_nxt s + n, m_rcv_wnd := w\<rparr>)"
    using assms(1) f by (simp add: buffer_holds_def)
  then show thesis using that f u by blast
qed

lemma saved_ok_mono:
  assumes "saved_ok b D r f g" and "ff_data_length f \<le> ff_data_length f'" and "ff_buffer_length f' = ff_buffer_length f"
    and "fifo_at f' = fifo_at f"
  shows "saved_ok b D r f' g"
  using assms by (auto simp: saved_ok_def held_def)

lemma recover_segments_ok:
  assumes "buffer_holds D r s" and "b + length D < 2 ^ 32" and "b \<le> unat (m_rcv_nxt s)" and "window_ok b D r s its"
  shows "\<exists>sflags' f nxt w rl. recover_segments its s sflags = Some (sflags', s\<lparr>m_rbuf := f, m_rcv_nxt := nxt, m_rcv_wnd := w, m_rlist := rl\<rparr>) \<and>
     (let s' = s\<lparr>m_rbuf := f, m_rcv_nxt := nxt, m_rcv_wnd := w, m_rlist := rl\<rparr> in buffer_holds D r s' \<and> b \<le> unat nxt \<and> window_ok b D r s' rl)"
  using assms
proof (induction its arbitrary: s sflags)
  case Nil
  then show ?case
    by - (rule exI [of _ sflags], rule exI [of _ "m_rbuf s"], rule exI [of _ "m_rcv_nxt s"], rule exI [of _ "m_rcv_wnd s"],
        rule exI [of _ "[]"], simp add: buffer_holds_def window_ok_def)
next
  case (Cons g its)
  have w: "unat (m_rcv_nxt s) = b + r + ff_data_length (m_rbuf s)" "saved_ok b D r (m_rbuf s) g"
     "\<forall>g\<in>set its. saved_ok b D r (m_rbuf s) g"
    using Cons.prems(3,4) by (auto simp: window_ok_def)
  consider "rs_seq g > m_rcv_nxt s" | "rs_seq g \<le> m_rcv_nxt s" "rs_seq g + rs_len g \<le> m_rcv_nxt s"
    | "rs_seq g \<le> m_rcv_nxt s" "rs_seq g + rs_len g > m_rcv_nxt s" by force
  then show ?case
  proof cases
    case 1
    then have "\<not> rs_seq g \<le> m_rcv_nxt s" by simp
    then show ?thesis
      by - (rule exI [of _ sflags], rule exI [of _ "m_rbuf s"], rule exI [of _ "m_rcv_nxt s"], rule exI [of _ "m_rcv_wnd s"],
          rule exI [of _ "g # its"], use Cons.prems in \<open>simp add: buffer_holds_def window_ok_def\<close>)
  next
    case 2
    have "window_ok b D r s its" using Cons.prems(3) w by (simp add: window_ok_def)
    moreover have "recover_segments (g # its) s sflags = recover_segments its s sflags" using 2 by (simp add: leD)
    ultimately show ?thesis using Cons.IH [OF Cons.prems(1-3), of sflags] by simp
  next
    case 3
    let ?n = "rs_seq g + rs_len g - m_rcv_nxt s"
    have "unat (rs_seq g) + unat (rs_len g) < 2 ^ 32" using w(2) Cons.prems(2) by (simp add: saved_ok_def)
    then have sum: "unat (rs_seq g + rs_len g) = unat (rs_seq g) + unat (rs_len g)" by (rule unat_add_u32)
    have n: "unat ?n = unat (rs_seq g) + unat (rs_len g) - unat (m_rcv_nxt s)" "?n \<noteq> 0"
      using 3 sum unat_diff_u32 [of "m_rcv_nxt s" "rs_seq g + rs_len g"] by (auto simp: word_less_nat_alt)
    have "\<forall>i. r + ff_data_length (m_rbuf s) \<le> i \<and> i < r + ff_data_length (m_rbuf s) + unat ?n \<longrightarrow> held D r (m_rbuf s) i"
      using w(1,2) n(1) 3(1) by (auto simp: saved_ok_def word_le_nat_alt)
    then obtain f where f: "consume_write (m_rbuf s) (unat ?n) = Some f"
      "buffer_holds D r (s\<lparr>m_rbuf := f, m_rcv_nxt := m_rcv_nxt s + ?n, m_rcv_wnd := m_rcv_wnd s - ?n\<rparr>)"
      "unat (m_rcv_nxt s + ?n) = b + r + ff_data_length f" "ff_data_length f = ff_data_length (m_rbuf s) + unat ?n"
      "ff_buffer_length f = ff_buffer_length (m_rbuf s)" "fifo_at f = fifo_at (m_rbuf s)"
      by (rule advance_window [OF Cons.prems(1,2) w(1) _ n(2)])
    let ?s = "s\<lparr>m_rbuf := f, m_rcv_nxt := m_rcv_nxt s + ?n, m_rcv_wnd := m_rcv_wnd s - ?n\<rparr>"
    have "window_ok b D r ?s its" using f(3-6) w(3) saved_ok_mono [of b D r "m_rbuf s" _ f] by (simp add: window_ok_def)
    moreover have "b \<le> unat (m_rcv_nxt ?s)" using f(3) by simp
    ultimately obtain sflags' f' nxt w' rl where
      "recover_segments its ?s sfImmediateAck = Some (sflags', ?s\<lparr>m_rbuf := f', m_rcv_nxt := nxt, m_rcv_wnd := w', m_rlist := rl\<rparr>)"
      "let s' = ?s\<lparr>m_rbuf := f', m_rcv_nxt := nxt, m_rcv_wnd := w', m_rlist := rl\<rparr> in buffer_holds D r s' \<and> b \<le> unat nxt \<and> window_ok b D r s' rl"
      using Cons.IH [OF f(2) Cons.prems(2)] by blast
    then show ?thesis using 3 f(1) by (auto simp: Let_def)
  qed
qed

subsection \<open>Receiving a segment\<close>

text \<open>The fitted segment of the peer's stream, and the buffer after it was written there.\<close>

lemma fitted_data:
  assumes "stream_segment b D seg" and "sg_flags seg AND FLAG_CTL = 0" and "b + length D < 2 ^ 32"
    and "buffer_holds D r s" and "b \<le> unat (m_rcv_nxt s)" and "unat (m_rcv_nxt s) = b + r + ff_data_length (m_rbuf s)"
    and "sg_len (fit_segment s seg) \<noteq> 0"
  defines "seg' \<equiv> fit_segment s seg"
  obtains f where "snd (snd (WriteOffset (m_rbuf s) (take (unat (sg_len seg')) (sg_data seg')) (unat (sg_seq seg' - m_rcv_nxt s)))) = f"
    "fifo_ok f" "ff_state f = ff_state (m_rbuf s)" "ff_buffer_length f = ff_buffer_length (m_rbuf s)"
    "ff_data_length f = ff_data_length (m_rbuf s)" "\<forall>i\<ge>r. held D r (m_rbuf s) i \<longrightarrow> held D r f i"
    "\<forall>i. unat (sg_seq seg') \<le> b + i \<and> b + i < unat (sg_seq seg') + unat (sg_len seg') \<longrightarrow> held D r f i"
    "unat (m_rcv_nxt s) \<le> unat (sg_seq seg')" "unat (sg_seq seg') + unat (sg_len seg') \<le> b + length D" "sg_flags seg' = sg_flags seg"
proof -
  let ?f = "m_rbuf s" and ?q = "unat (sg_seq seg')" and ?l = "unat (sg_len seg')"
  have nz: "sg_len seg \<noteq> 0" using assms(7) fit_segment_empty by blast
  have sd: "b \<le> unat (sg_seq seg)" "unat (sg_seq seg) + unat (sg_len seg) \<le> b + length D"
     "sg_data seg = take (unat (sg_len seg)) (drop (unat (sg_seq seg) - b) D)" "length (sg_data seg) = unat (sg_len seg)"
    using assms(1,2) nz by (auto simp: stream_segment_def)
  have ok: "fifo_ok ?f" "ff_state ?f \<noteq> SS_CLOSED" "ff_buffer_length ?f < 2 ^ 32" using assms(4) by (auto simp: buffer_holds_def)
  then have rem: "GetWriteRemaining ?f < 2 ^ 32" unfolding GetWriteRemaining_def by linarith
  have lim: "unat (sg_seq seg) + unat (sg_len seg) < 2 ^ 32" using sd(2) assms(3) by simp
  note fs = fit_segment_range [OF lim rem assms(7), folded seg'_def]
  have l: "0 < ?l" using assms(7) by (simp add: seg'_def unat_gt_0)
  have q: "unat (m_rcv_nxt s) \<le> ?q" "unat (sg_seq seg) \<le> ?q" "?q + ?l \<le> unat (sg_seq seg) + unat (sg_len seg)"
    "?q + ?l \<le> unat (m_rcv_nxt s) + GetWriteRemaining ?f" using fs(1,2) by auto
  have d: "take ?l (sg_data seg') = take ?l (drop (?q - b) D)"
  proof -
    have "sg_data seg' = take (unat (sg_len seg) - (?q - unat (sg_seq seg))) (drop (?q - unat (sg_seq seg) + (unat (sg_seq seg) - b)) D)"
      unfolding fs(3) sd(3) by (simp add: drop_take sd(3))
    moreover have "?q - unat (sg_seq seg) + (unat (sg_seq seg) - b) = ?q - b" using q sd(1) by simp
    moreover have "min ?l (unat (sg_len seg) - (?q - unat (sg_seq seg))) = ?l" using q by simp
    ultimately show ?thesis by (simp add: min.commute)
  qed
  let ?d = "take ?l (drop (?q - b) D)" and ?off = "unat (sg_seq seg' - m_rcv_nxt s)"
  have off: "?off = ?q - unat (m_rcv_nxt s)" using q(1) by (rule unat_diff_u32)
  have ql: "?q + ?l \<le> b + length D" using q(3) sd(2) by simp
  have ld: "length ?d = ?l" using ql q(2) sd(1) by simp
  have dl: "ff_data_length ?f \<le> ff_buffer_length ?f" using ok(1) by (simp add: fifo_ok_def)
  have fit: "ff_data_length ?f + ?off + length ?d \<le> ff_buffer_length ?f"
    using q(4) q(1) dl off ld unfolding GetWriteRemaining_def by linarith
  have ne: "?d \<noteq> []" using ld l by auto
  obtain f where f: "WriteOffset ?f ?d ?off = (SR_SUCCESS, length ?d, f)" "fifo_ok f" "ff_state f = ff_state ?f"
    "ff_buffer_length f = ff_buffer_length ?f" "ff_data_length f = ff_data_length ?f"
    "\<forall>k. k < ff_buffer_length ?f \<longrightarrow> fifo_at f k =
       (if ff_data_length ?f + ?off \<le> k \<and> k < ff_data_length ?f + ?off + length ?d then ?d ! (k - (ff_data_length ?f + ?off)) else fifo_at ?f k)"
    by (rule WriteOffset_at [OF ok(1,2) ne fit])
  have o: "ff_data_length ?f + ?off = ?q - b - r" "b + r \<le> ?q" using off q(1) assms(6) by simp_all
  have new: "held D r f i" if "?q \<le> b + i" "b + i < ?q + ?l" for i
  proof -
    have k: "i - r < ff_buffer_length ?f" "r \<le> i" using that o fit ld by linarith+
    have "fifo_at f (i - r) = ?d ! (i - r - (?q - b - r))" using f(6) [rule_format, OF k(1)] that k(2) o ld by auto
    also have "\<dots> = D ! i" using that o ql by (simp add: nth_drop)
    finally show ?thesis using that ql k f(4) by (simp add: held_def)
  qed
  have old: "held D r f i" if "r \<le> i" "held D r ?f i" for i
  proof (cases "?q \<le> b + i \<and> b + i < ?q + ?l")
    case True
    then show ?thesis using new by blast
  next
    case False
    have k: "i - r < ff_buffer_length ?f" using that by (auto simp: held_def)
    have "fifo_at f (i - r) = fifo_at ?f (i - r)" using f(6) [rule_format, OF k] that(1) False o ld by auto
    then show ?thesis using that f(4) by (simp add: held_def)
  qed
  show thesis
    by (rule that [of f]) (use f(1-5) d new old q ql fs(4) in auto)
qed

lemma set_save_segment: "set (save_segment g rl) = insert g (set rl)"
proof -
  have "set rl = set (takeWhile P rl @ dropWhile P rl)" for P by (simp only: takeWhile_dropWhile_id)
  then show ?thesis unfolding save_segment_def by (metis Un_insert_right append_Cons append_Nil list.simps(15) set_append)
qed

text \<open>\<open>received b D r s x\<close>: a step that changed only the receiver and kept its invariant.\<close>

definition received ::
    "nat \<Rightarrow> byte list \<Rightarrow> nat \<Rightarrow> pseudo_tcp \<Rightarrow> (send_flags \<times> bool \<times> pseudo_tcp) option \<Rightarrow> bool" where
  "received b D r s x \<longleftrightarrow>
     (\<exists>sflags new f nxt w rl. x = Some (sflags, new, s\<lparr>m_rbuf := f, m_rcv_nxt := nxt, m_rcv_wnd := w, m_rlist := rl\<rparr>) \<and>
        receiver_ok b D r (s\<lparr>m_rbuf := f, m_rcv_nxt := nxt, m_rcv_wnd := w, m_rlist := rl\<rparr>))"

lemma receivedI:
  assumes "x = Some (sflags, new, s\<lparr>m_rbuf := f, m_rcv_nxt := nxt, m_rcv_wnd := w, m_rlist := rl\<rparr>)"
    and "receiver_ok b D r (s\<lparr>m_rbuf := f, m_rcv_nxt := nxt, m_rcv_wnd := w, m_rlist := rl\<rparr>)"
  shows "received b D r s x"
  using assms unfolding received_def by blast

lemma received_skip:
  assumes "receiver_ok b D r (s\<lparr>m_rcv_nxt := nxt\<rparr>)"
  shows "received b D r s (Some (sflags, new, s\<lparr>m_rcv_nxt := nxt\<rparr>))"
  by (rule receivedI [where f = "m_rbuf s" and nxt = nxt and w = "m_rcv_wnd s" and rl = "m_rlist s"]) (use assms in simp_all)

text \<open>The sequence number after data that is not kept.\<close>

definition skipped :: "pseudo_tcp \<Rightarrow> Segment \<Rightarrow> u32" where
  "skipped s seg = (if sg_seq seg = m_rcv_nxt s then m_rcv_nxt s + sg_len seg else m_rcv_nxt s)"

lemma receive_data_ignored:
  assumes "sg_len seg \<noteq> 0" and "sg_flags seg AND FLAG_CTL \<noteq> 0 \<or> m_shutdown s \<noteq> SD_NONE"
  shows "receive_data s seg sflags = Some (sflags, False, s\<lparr>m_rcv_nxt := skipped s seg\<rparr>)"
  using assms by (auto simp: receive_data_def skipped_def word_greater_zero_iff)

lemma stream_segment_limit:
  assumes "stream_segment b D seg" and "b + length D < 2 ^ 32"
  shows "unat (sg_seq seg) + unat (sg_len seg) < 2 ^ 32"
proof (cases "sg_len seg = 0")
  case True
  then show ?thesis using unat_bound [of "sg_seq seg"] by simp
next
  case False
  then show ?thesis using assms by (auto simp: stream_segment_def split: if_splits)
qed

lemma remaining_u32: "buffer_holds D r s \<Longrightarrow> GetWriteRemaining (m_rbuf s) < 2 ^ 32"
  unfolding GetWriteRemaining_def buffer_holds_def by linarith

lemma receive_control_ok:
  assumes "receiver_ok b D r s" and "stream_segment b D seg" and "sg_flags seg AND FLAG_CTL \<noteq> 0" and "m_shutdown s = SD_NONE"
    and nz: "sg_len (fit_segment s seg) \<noteq> 0"
  shows "received b D r s (receive_data s (fit_segment s seg) sflags)"
proof -
  let ?seg = "fit_segment s seg"
  have lim: "b + length D < 2 ^ 32" and bh: "buffer_holds D r s" and w: "window_ok b D r s (m_rlist s)"
    using assms(1,4) by (auto simp: receiver_ok_def)
  note fs = fit_segment_range [OF stream_segment_limit [OF assms(2) lim] remaining_u32 [OF bh] nz]
  have l: "0 < unat (sg_len ?seg)" using nz by (simp add: unat_gt_0)
  have lz: "sg_len seg \<noteq> 0" using nz fit_segment_empty by blast
  have le: "unat (sg_seq seg) + unat (sg_len seg) \<le> b" using assms(2,3) lz by (auto simp: stream_segment_def)
  have q: "unat (m_rcv_nxt s) \<le> unat (sg_seq ?seg)" "unat (sg_seq ?seg) + unat (sg_len ?seg) \<le> b" using fs(1,2) le by auto
  then have lt: "unat (m_rcv_nxt s) < b" using l by linarith
  then have w0: "r = 0" "ff_data_length (m_rbuf s) = 0" "m_rlist s = []" using w by (auto simp: window_ok_def)
  have "receiver_ok b D r (s\<lparr>m_rcv_nxt := skipped s ?seg\<rparr>)"
  proof (cases "sg_seq ?seg = m_rcv_nxt s")
    case True
    then have "unat (m_rcv_nxt s + sg_len ?seg) = unat (m_rcv_nxt s) + unat (sg_len ?seg)"
      using q(2) lim by (intro unat_add_u32) simp
    then show ?thesis using True q(2) w0 bh lim by (auto simp: receiver_ok_def buffer_holds_def window_ok_def skipped_def)
  qed (use assms(1) in \<open>simp add: skipped_def\<close>)
  moreover have "receive_data s ?seg sflags = Some (sflags, False, s\<lparr>m_rcv_nxt := skipped s ?seg\<rparr>)"
    using nz assms(3) fs(4) by (intro receive_data_ignored) simp_all
  ultimately show ?thesis using received_skip by simp
qed

text \<open>Data in order, with the buffer \<open>f\<close> in which it was written, and data ahead of its turn.\<close>

lemma receive_in_order:
  assumes "buffer_holds D r s1" and "b + length D < 2 ^ 32" and "b \<le> unat (m_rcv_nxt s1)" and "window_ok b D r s1 (m_rlist s1)"
    and "\<forall>i. r + ff_data_length (m_rbuf s1) \<le> i \<and> i < r + ff_data_length (m_rbuf s1) + unat n \<longrightarrow> held D r (m_rbuf s1) i" and "n \<noteq> 0"
  shows "received b D r s1 (Option.bind (consume_write (m_rbuf s1) (unat n)) (\<lambda>rbuf. Option.bind
     (recover_segments (m_rlist s1) (s1\<lparr>m_rbuf := rbuf, m_rcv_nxt := m_rcv_nxt s1 + n, m_rcv_wnd := m_rcv_wnd s1 - n\<rparr>) sflags)
       (\<lambda>(sflags, s). Some (sflags, True, s))))"
proof -
  have w: "unat (m_rcv_nxt s1) = b + r + ff_data_length (m_rbuf s1)" "\<forall>g\<in>set (m_rlist s1). saved_ok b D r (m_rbuf s1) g"
    using assms(3,4) by (auto simp: window_ok_def)
  obtain f2 where f2: "consume_write (m_rbuf s1) (unat n) = Some f2"
    "buffer_holds D r (s1\<lparr>m_rbuf := f2, m_rcv_nxt := m_rcv_nxt s1 + n, m_rcv_wnd := m_rcv_wnd s1 - n\<rparr>)"
    "unat (m_rcv_nxt s1 + n) = b + r + ff_data_length f2" "ff_data_length f2 = ff_data_length (m_rbuf s1) + unat n"
    "ff_buffer_length f2 = ff_buffer_length (m_rbuf s1)" "fifo_at f2 = fifo_at (m_rbuf s1)"
    by (rule advance_window [OF assms(1,2) w(1) assms(5,6)])
  let ?s2 = "s1\<lparr>m_rbuf := f2, m_rcv_nxt := m_rcv_nxt s1 + n, m_rcv_wnd := m_rcv_wnd s1 - n\<rparr>"
  have "b \<le> unat (m_rcv_nxt ?s2)" using f2(3) by simp
  moreover have "window_ok b D r ?s2 (m_rlist s1)"
    using f2(3-6) w(2) saved_ok_mono [of b D r "m_rbuf s1" _ f2] by (simp add: window_ok_def)
  ultimately obtain sf f3 nxt3 w3 rl where rc:
    "recover_segments (m_rlist s1) ?s2 sflags = Some (sf, ?s2\<lparr>m_rbuf := f3, m_rcv_nxt := nxt3, m_rcv_wnd := w3, m_rlist := rl\<rparr>)"
    "let s' = ?s2\<lparr>m_rbuf := f3, m_rcv_nxt := nxt3, m_rcv_wnd := w3, m_rlist := rl\<rparr> in buffer_holds D r s' \<and> b \<le> unat nxt3 \<and> window_ok b D r s' rl"
    using recover_segments_ok [OF f2(2) assms(2)] by blast
  then show ?thesis
    by (intro receivedI [where sflags = sf and new = True and f = f3 and nxt = nxt3 and w = w3 and rl = rl])
      (use f2(1) assms(2) in \<open>simp_all add: receiver_ok_def Let_def\<close>)
qed

lemma receive_stream_data_ok:
  assumes "receiver_ok b D r s" and "stream_segment b D seg" and dat: "sg_flags seg AND FLAG_CTL = 0" and op: "m_shutdown s = SD_NONE"
    and b: "b \<le> unat (m_rcv_nxt s)" and nz: "sg_len (fit_segment s seg) \<noteq> 0"
  shows "received b D r s (receive_data s (fit_segment s seg) sflags)"
proof -
  let ?seg = "fit_segment s seg"
  have lim: "b + length D < 2 ^ 32" and bh: "buffer_holds D r s" and w: "window_ok b D r s (m_rlist s)"
    using assms(1,4) by (auto simp: receiver_ok_def)
  have nxt: "unat (m_rcv_nxt s) = b + r + ff_data_length (m_rbuf s)" and sv: "\<forall>g\<in>set (m_rlist s). saved_ok b D r (m_rbuf s) g"
    using w b by (auto simp: window_ok_def)
  obtain f where f: "snd (snd (WriteOffset (m_rbuf s) (take (unat (sg_len ?seg)) (sg_data ?seg)) (unat (sg_seq ?seg - m_rcv_nxt s)))) = f"
    "fifo_ok f" "ff_state f = ff_state (m_rbuf s)" "ff_buffer_length f = ff_buffer_length (m_rbuf s)"
    "ff_data_length f = ff_data_length (m_rbuf s)" "\<forall>i\<ge>r. held D r (m_rbuf s) i \<longrightarrow> held D r f i"
    "\<forall>i. unat (sg_seq ?seg) \<le> b + i \<and> b + i < unat (sg_seq ?seg) + unat (sg_len ?seg) \<longrightarrow> held D r f i"
    "unat (m_rcv_nxt s) \<le> unat (sg_seq ?seg)" "unat (sg_seq ?seg) + unat (sg_len ?seg) \<le> b + length D" "sg_flags ?seg = sg_flags seg"
    by (rule fitted_data [OF assms(2) dat lim bh b nxt nz])
  define s1 where "s1 = s\<lparr>m_rbuf := f\<rparr>"
  have bh1: "buffer_holds D r s1" using bh f(2-6) by (auto simp: buffer_holds_def s1_def)
  have sv1: "\<forall>g\<in>set (m_rlist s). saved_ok b D r f g" using sv f(5,6) by (auto simp: saved_ok_def)
  have w1: "window_ok b D r s1 (m_rlist s1)" using nxt b sv1 f(5) by (simp add: window_ok_def s1_def)
  have rd: "receive_data s ?seg sflags =
      (if sg_seq ?seg = m_rcv_nxt s
       then Option.bind (consume_write (m_rbuf s1) (unat (sg_len ?seg))) (\<lambda>rbuf. Option.bind
         (recover_segments (m_rlist s1) (s1\<lparr>m_rbuf := rbuf, m_rcv_nxt := m_rcv_nxt s1 + sg_len ?seg, m_rcv_wnd := m_rcv_wnd s1 - sg_len ?seg\<rparr>) sflags)
         (\<lambda>(sflags, s). Some (sflags, True, s)))
       else Some (sflags, False, s1\<lparr>m_rlist := save_segment \<lparr>rs_seq = sg_seq ?seg, rs_len = sg_len ?seg\<rparr> (m_rlist s)\<rparr>))"
    using nz dat f(1,10) op by (auto simp: receive_data_def word_greater_zero_iff Let_def s1_def split: prod.splits)
  show ?thesis
  proof (cases "sg_seq ?seg = m_rcv_nxt s")
    case False
    have "saved_ok b D r f \<lparr>rs_seq = sg_seq ?seg, rs_len = sg_len ?seg\<rparr>" using f(7,9) by (simp add: saved_ok_def)
    then have "receiver_ok b D r (s1\<lparr>m_rlist := save_segment \<lparr>rs_seq = sg_seq ?seg, rs_len = sg_len ?seg\<rparr> (m_rlist s)\<rparr>)"
      using bh1 lim b nxt f(5) sv1 by (auto simp: receiver_ok_def buffer_holds_def window_ok_def s1_def set_save_segment)
    then show ?thesis unfolding rd
      by (intro receivedI [where f = f and nxt = "m_rcv_nxt s" and w = "m_rcv_wnd s"]) (use False in \<open>simp_all add: s1_def\<close>)
  next
    case True
    have "received b D r s1 (receive_data s ?seg sflags)"
      unfolding rd if_P [OF True] by (rule receive_in_order [OF bh1 lim _ w1 _ nz]) (use True b nxt f(5,7) in \<open>auto simp: s1_def\<close>)
    then show ?thesis by (simp add: received_def s1_def)
  qed
qed

lemma receive_data_ok:
  assumes "receiver_ok b D r s" and "stream_segment b D seg"
    and "sg_len seg \<noteq> 0 \<and> sg_flags seg AND FLAG_CTL = 0 \<and> m_shutdown s = SD_NONE \<longrightarrow> b \<le> unat (m_rcv_nxt s)"
  shows "received b D r s (receive_data s (fit_segment s seg) sflags)"
proof -
  consider (empty) "sg_len (fit_segment s seg) = 0" | (shut) "sg_len (fit_segment s seg) \<noteq> 0" "m_shutdown s \<noteq> SD_NONE"
    | (ctl) "sg_len (fit_segment s seg) \<noteq> 0" "m_shutdown s = SD_NONE" "sg_flags seg AND FLAG_CTL \<noteq> 0"
    | (dat) "sg_len (fit_segment s seg) \<noteq> 0" "m_shutdown s = SD_NONE" "sg_flags seg AND FLAG_CTL = 0" by blast
  then show ?thesis
  proof cases
    case empty
    then show ?thesis using received_skip [where s = s and nxt = "m_rcv_nxt s"] assms(1) by (simp add: receive_data_def)
  next
    case shut
    have "receiver_ok b D r (s\<lparr>m_rcv_nxt := nxt\<rparr>)" for nxt using assms(1) shut by (simp add: receiver_ok_def buffer_holds_def)
    then show ?thesis using received_skip receive_data_ignored shut by metis
  next
    case ctl
    then show ?thesis using receive_control_ok [OF assms(1,2)] by blast
  next
    case dat
    moreover have "sg_len seg \<noteq> 0" using dat fit_segment_empty by blast
    ultimately show ?thesis using receive_stream_data_ok [OF assms(1,2)] assms(3) by blast
  qed
qed

end
