(* ===== verification/PseudoTcpEndpoint.thy ===== *)
theory PseudoTcpEndpoint
  imports PseudoTcpControl PseudoTcpRecv
begin

text \<open>
  One endpoint with both halves: every public method keeps the invariant of the sender and of the
  receiver, and never runs into undefined behaviour, as long as what arrives is the peer's stream.
\<close>

definition endpoint :: "u32 \<Rightarrow> nat \<Rightarrow> byte list \<Rightarrow> nat \<Rightarrow> byte list \<Rightarrow> nat \<Rightarrow> pseudo_tcp \<Rightarrow> bool" where
  "endpoint v b T c D r s \<longleftrightarrow> conn b T s \<and> receiver_ok c D r s \<and> m_conv s = v"

lemma endpoint_step:
  assumes "endpoint v b T c D r s" and "sender_ok b T s'" and "session s' = session s"
    and "m_state s' = m_state s \<or> m_state s' = TCP_CLOSED \<or>
      m_state s \<in> {TCP_SYN_SENT, TCP_SYN_RECEIVED} \<and> m_state s' = TCP_ESTABLISHED"
  shows "endpoint v b T c D r s'"
proof -
  have e: "conn b T s" "receiver_ok c D r s" "m_conv s = v" using assms(1) unfolding endpoint_def by blast+
  have "receiver_ok c D r s'" using e(2) receiver_ok_cong sessionD [OF assms(3)] by blast
  moreover have "conn b T s'" by (rule conn_step [OF e(1) assms(2-4)])
  ultimately show ?thesis using e(3) sessionD [OF assms(3)] unfolding endpoint_def by simp
qed

lemma endpoint_sender: "endpoint v b T c D r s \<Longrightarrow> sender_ok b T s"
  unfolding endpoint_def conn_def by blast

subsection \<open>Delivering data\<close>

lemma held_read:
  assumes "held D r f i" and "r + n \<le> i" and "ff_buffer_length f' = ff_buffer_length f" and "\<And>k. fifo_at f' k = fifo_at f (n + k)"
  shows "held D (r + n) f' i"
  using assms by (auto simp: held_def)

lemma held_contents:
  assumes "\<forall>i. r \<le> i \<and> i < r + ff_data_length f \<longrightarrow> held D r f i"
  shows "fifo_contents f = take (ff_data_length f) (drop r D)"
proof (cases "ff_data_length f = 0")
  case True
  then show ?thesis by (simp add: fifo_contents_def cyc_def)
next
  case False
  show ?thesis
  proof (rule nth_equalityI)
    have "held D r f (r + (ff_data_length f - 1))" using assms False by auto
    then have "r + (ff_data_length f - 1) < length D" unfolding held_def by blast
    then have "r + ff_data_length f \<le> length D" using False by linarith
    then show "length (fifo_contents f) = length (take (ff_data_length f) (drop r D))" by simp
    fix i assume "i < length (fifo_contents f)"
    then have i: "i < ff_data_length f" by simp
    then have "held D r f (r + i)" using assms by simp
    then show "fifo_contents f ! i = take (ff_data_length f) (drop r D) ! i"
      using i by (simp add: held_def fifo_contents_at)
  qed
qed

lemma read_receiver_ok:
  assumes "receiver_ok c D r s" and "fifo_Read (m_rbuf s) len = (res, x, f)" and "0 < ff_data_length (m_rbuf s)"
  shows "receiver_ok c D (r + length x) (s\<lparr>m_rbuf := f\<rparr>)" and "x = take (length x) (drop r D)" and "res = SR_SUCCESS"
proof -
  let ?f = "m_rbuf s" and ?r = "r + length x"
  have bh: "fifo_ok ?f" "ff_state ?f \<noteq> SS_CLOSED" "ff_buffer_length ?f < 2 ^ 32"
      "\<forall>i. r \<le> i \<and> i < r + ff_data_length ?f \<longrightarrow> held D r ?f i" and lim: "c + length D < 2 ^ 32"
    using assms(1) by (auto simp: receiver_ok_def buffer_holds_def)
  note rd = fifo_Read_at [OF bh(1) assms(2,3)]
  show "res = SR_SUCCESS" by (rule rd(7))
  have held': "held D r ?f i \<Longrightarrow> ?r \<le> i \<Longrightarrow> held D ?r f i" for i using held_read [of D r ?f i "length x" f] rd(3,8) by blast
  have e: "?r + ff_data_length f = r + ff_data_length ?f" using rd(4,6) by simp
  have sv: "saved_ok c D r ?f g \<Longrightarrow> saved_ok c D ?r f g" for g using held' e by (auto simp: saved_ok_def)
  have "buffer_holds D ?r (s\<lparr>m_rbuf := f\<rparr>)" using rd(1-3) bh held' e by (auto simp: buffer_holds_def)
  moreover have "window_ok c D ?r (s\<lparr>m_rbuf := f\<rparr>) rl" if "window_ok c D r s rl" for rl
    using that e sv assms(3) by (auto simp: window_ok_def split: if_splits)
  ultimately show "receiver_ok c D ?r (s\<lparr>m_rbuf := f\<rparr>)" using assms(1) lim by (simp add: receiver_ok_def)
  have "fifo_contents ?f = take (ff_data_length ?f) (drop r D)" by (rule held_contents [OF bh(4)])
  then show "x = take (length x) (drop r D)" using rd(5,6) by (metis min.absorb1 take_take)
qed

lemma sender_ok_receiver_update: "sender_ok b T (s\<lparr>m_rbuf := f, m_rcv_nxt := n, m_rcv_wnd := w, m_rlist := rl\<rparr>) = sender_ok b T s"
  by simp

lemma conn_receiver_update: "conn b T (s\<lparr>m_rbuf := f, m_rcv_nxt := n, m_rcv_wnd := w, m_rlist := rl\<rparr>) = conn b T s"
  by (simp add: conn_def connect_message_def)

lemma receiver_ok_wnd [simp]: "receiver_ok c D r (s\<lparr>m_rcv_wnd := w\<rparr>) = receiver_ok c D r s"
  by (simp add: receiver_ok_def buffer_holds_def window_ok_def)

lemma attemptSend_endpoint:
  assumes "endpoint v b T c D r s"
  obtains s' where "attemptSend e s sflags = Some s'" "endpoint v b T c D r s'" "steady s' = steady s"
proof -
  obtain s' where s': "attemptSend e s sflags = Some s'" "steady s' = steady s" "sender_ok b T s'"
    by (rule attemptSend_ok [OF endpoint_sender [OF assms]])
  then show thesis using that endpoint_step [OF assms s'(3)] steady_session [OF s'(2)] by simp
qed

lemma Recv_ok:
  assumes "endpoint v b T c D r s"
  obtains k x s' where "Recv e s len = Some (k, x, s')" "endpoint v b T c D (r + length x) s'" "x = take (length x) (drop r D)"
    "m_state s' = m_state s" "k = (if x = [] then k else int (length x))"
proof (cases "m_state s = TCP_ESTABLISHED")
  case False
  have "endpoint v b T c D r (s\<lparr>m_error := ENOTCONN\<rparr>)" using endpoint_step [OF assms, of "s\<lparr>m_error := ENOTCONN\<rparr>"] endpoint_sender [OF assms] by simp
  then show thesis using False that [of "- 1" "[]"] by (simp add: Recv_def)
next
  case est: True
  obtain res x f where rd: "fifo_Read (m_rbuf s) len = (res, x, f)" by (metis prod_cases3)
  show thesis
  proof (cases "ff_data_length (m_rbuf s) = 0")
    case True
    then have "res = SR_BLOCK" "f = m_rbuf s"
      using rd assms by (auto simp: fifo_Read_def ReadOffsetLocked_def endpoint_def receiver_ok_def buffer_holds_def)
    moreover have "endpoint v b T c D r (s\<lparr>m_bReadEnable := True, m_error := EWOULDBLOCK\<rparr>)"
      using endpoint_step [OF assms, of "s\<lparr>m_bReadEnable := True, m_error := EWOULDBLOCK\<rparr>"] endpoint_sender [OF assms] by simp
    ultimately show thesis using est rd that [of "- 1" "[]"] by (simp add: Recv_def)
  next
    case False
    then have pos: "0 < ff_data_length (m_rbuf s)" by simp
    have rec: "receiver_ok c D r s" and co: "conn b T s" and cv: "m_conv s = v" using assms by (auto simp: endpoint_def)
    note rr = read_receiver_ok [OF rec rd pos]
    have ep: "endpoint v b T c D (r + length x) (s\<lparr>m_rbuf := f, m_rcv_wnd := w\<rparr>)" for w
      using rr(1) co cv conn_receiver_update [where s = s and f = f and n = "m_rcv_nxt s" and w = w and rl = "m_rlist s"] by (simp add: endpoint_def)
    have ep0: "endpoint v b T c D (r + length x) (s\<lparr>m_rbuf := f\<rparr>)" using ep [of "m_rcv_wnd s"] by simp
    obtain s' where s': "attemptSend e (s\<lparr>m_rbuf := f, m_rcv_wnd := of_nat (GetWriteRemaining f)\<rparr>) sfImmediateAck = Some s'"
        "endpoint v b T c D (r + length x) s'" "steady s' = steady (s\<lparr>m_rbuf := f, m_rcv_wnd := of_nat (GetWriteRemaining f)\<rparr>)"
      by (rule attemptSend_endpoint [OF ep])
    let ?open = "of_nat (GetWriteRemaining f) - m_rcv_wnd s \<ge> min (m_rbuf_len s div 2) (m_mss s)"
    define t where "t = (if ?open then if m_rcv_wnd s = 0 then s' else s\<lparr>m_rbuf := f, m_rcv_wnd := of_nat (GetWriteRemaining f)\<rparr>
        else s\<lparr>m_rbuf := f\<rparr>)"
    have "Recv e s len = Some (int (length x), x, t)"
      using est rd rr(3) s'(1) by (auto simp: Recv_def t_def Let_def)
    moreover have "endpoint v b T c D (r + length x) t" "m_state t = m_state s"
      using ep ep0 s'(2) steadyD(2) [OF s'(3)] by (simp_all add: t_def)
    ultimately show thesis using that rr(2) by simp
  qed
qed

subsection \<open>Sending, connecting, closing and the clock\<close>

lemma Send_ok:
  assumes "endpoint v b T c D r s" and "length buffer < 2 ^ 32" and "length T + length buffer < 2 ^ 32"
  obtains k n s' where "Send e s buffer = Some (k, s')" "endpoint v b (T @ take n buffer) c D r s'" "m_state s' = m_state s"
    "k = (if k = - 1 then - 1 else int n)" "n \<le> length buffer" "k = - 1 \<longrightarrow> n = 0"
proof (cases "m_state s = TCP_ESTABLISHED \<and> GetWriteRemaining (m_sbuf s) \<noteq> 0")
  case False
  define s' where "s' = (if m_state s \<noteq> TCP_ESTABLISHED then s\<lparr>m_error := ENOTCONN\<rparr>
    else s\<lparr>m_bWriteEnable := True, m_error := EWOULDBLOCK\<rparr>)"
  have "Send e s buffer = Some (- 1, s')" using False by (auto simp: Send_def s'_def)
  moreover have "endpoint v b T c D r s'" "m_state s' = m_state s"
    using endpoint_step [OF assms(1), of s'] endpoint_sender [OF assms(1)] by (simp_all add: s'_def)
  ultimately show thesis using that [of "- 1" s' 0] by simp
next
  case True
  define n where "n = min (length buffer) (GetWriteRemaining (m_sbuf s))"
  have co: "b \<le> length T" using assms(1) True by (simp add: endpoint_def conn_def)
  obtain s1 where q: "queue s buffer False = (n, s1)" "sender_ok b (T @ take n buffer) s1" "sender_frame s1 = sender_frame s"
    "steady (s1\<lparr>m_sbuf := m_sbuf s\<rparr>) = steady s" "ff_buffer_length (m_sbuf s1) = ff_buffer_length (m_sbuf s)"
    by (rule queue_ok [OF endpoint_sender [OF assms(1)] assms(2) _ n_def, of False]) (use assms(3) co in \<open>auto simp: n_def\<close>)
  have ses: "session s1 = session s" "m_state s1 = m_state s" using q(3,5) by (auto simp: sender_frame_def session_def)
  have "conn b (T @ take n buffer) s1"
    using assms(1) q(2) ses connect_message_session [OF ses(1)] sessionD [OF ses(1)] True co by (auto simp: endpoint_def conn_def receiver_def)
  then have "endpoint v b (T @ take n buffer) c D r s1"
    using assms(1) receiver_ok_cong sessionD [OF ses(1)] unfolding endpoint_def by blast
  then obtain s' where s': "attemptSend e s1 sfNone = Some s'" "endpoint v b (T @ take n buffer) c D r s'" "steady s' = steady s1"
    by (rule attemptSend_endpoint)
  have "Send e s buffer = Some (int n, s')" using True q(1) s'(1) by (simp add: Send_def)
  then show thesis using that [of "int n" s' n] s'(2) steadyD(2) [OF s'(3)] ses by (simp add: n_def)
qed

lemma Connect_ok:
  assumes "endpoint v b T c D r s"
  obtains k U s' where "Connect e s = Some (k, s')" "endpoint v b (T @ U) c D r s'"
    "U = (if m_state s = TCP_LISTEN then connect_message s else [])"
    "m_state s' = (if m_state s = TCP_LISTEN then TCP_SYN_SENT else m_state s)"
proof (cases "m_state s = TCP_LISTEN")
  case False
  have "endpoint v b T c D r (s\<lparr>m_error := EINVAL\<rparr>)"
    using endpoint_step [OF assms, of "s\<lparr>m_error := EINVAL\<rparr>"] endpoint_sender [OF assms] by simp
  then show thesis using that False by (simp add: Connect_def)
next
  case True
  then have co: "conn b [] s" "T = []" using assms by (auto simp: endpoint_def conn_def)
  have "TCP_SYN_SENT \<in> {TCP_SYN_SENT, TCP_SYN_RECEIVED}" by simp
  note cc = conn_connect [OF co(1) True this]
  have "endpoint v b (connect_message s) c D r (queueConnectMessage (s\<lparr>m_state := TCP_SYN_SENT\<rparr>))"
    using cc(1) assms receiver_ok_cong sessionD [OF cc(2)] unfolding endpoint_def by blast
  then obtain s' where s': "attemptSend e (queueConnectMessage (s\<lparr>m_state := TCP_SYN_SENT\<rparr>)) sfNone = Some s'"
      "endpoint v b (connect_message s) c D r s'" "steady s' = steady (queueConnectMessage (s\<lparr>m_state := TCP_SYN_SENT\<rparr>))"
    by (rule attemptSend_endpoint)
  then show thesis
    using that [of 0 s' "connect_message s"] True co(2) cc(3) steadyD(2) [OF s'(3)] by (simp add: Connect_def)
qed

lemma NotifyClock_endpoint:
  assumes "endpoint v b T c D r s"
  obtains s' where "NotifyClock e s now = Some s'" "endpoint v b T c D r s'" "m_state s' \<in> {m_state s, TCP_CLOSED}"
proof -
  obtain s' where s': "NotifyClock e s now = Some s'" "sender_ok b T s'" "session s' = session s" "m_state s' \<in> {m_state s, TCP_CLOSED}"
    by (rule NotifyClock_ok [OF endpoint_sender [OF assms]])
  then show thesis using that endpoint_step [OF assms s'(2,3)] by auto
qed

lemma NotifyMTU_endpoint: "endpoint v b T c D r s \<Longrightarrow> 116 < mtu \<Longrightarrow> endpoint v b T c D r (NotifyMTU s mtu)"
  using endpoint_step NotifyMTU_ok endpoint_sender by metis

lemma Close_endpoint: "endpoint v b T c D r s \<Longrightarrow> endpoint v b T c D r (Close s force)"
  by (auto simp: Close_def endpoint_def conn_def connect_message_def receiver_ok_def buffer_holds_def window_ok_def)

subsection \<open>A packet arrives\<close>

text \<open>What the endpoint relies on when a segment of the peer arrives.\<close>

definition acceptable :: "nat \<Rightarrow> byte list \<Rightarrow> pseudo_tcp \<Rightarrow> Segment \<Rightarrow> bool" where
  "acceptable c D s seg \<longleftrightarrow>
     stream_segment c D seg \<and>
     (sg_flags seg AND FLAG_CTL \<noteq> 0 \<longrightarrow> (\<forall>x\<in>set (sg_data seg). unat x < 32)) \<and>
     (sg_len seg \<noteq> 0 \<and> sg_flags seg AND FLAG_CTL = 0 \<and> m_shutdown s = SD_NONE \<longrightarrow> c \<le> unat (m_rcv_nxt s)) \<and>
     (m_snd_una s < sg_ack seg \<and> sg_ack seg \<le> m_snd_nxt s \<longrightarrow> aligned s (sg_ack seg))"

lemma control_keeps_queue:
  assumes "conn b T s" and "process_control e s seg = (ok, d, s')"
  shows "m_snd_una s' = m_snd_una s" "m_snd_nxt s' = m_snd_nxt s" "m_state s \<noteq> TCP_LISTEN \<Longrightarrow> m_slist s' = m_slist s"
proof -
  obtain k where k: "parseOptions e s (take (unat (sg_len seg - 1)) (drop (Suc 0) (sg_data seg))) = s\<lparr>m_swnd_scale := k\<rparr>"
    using parseOptions_scale [of s e] assms(1) unfolding conn_def by metis
  let ?q = "queueConnectMessage (s\<lparr>m_swnd_scale := k, m_state := TCP_SYN_RECEIVED\<rparr>)"
  have "m_snd_una ?q = m_snd_una s \<and> m_snd_nxt ?q = m_snd_nxt s"
    by (simp add: queueConnectMessage_def queue_def Let_def split: prod.splits)
  then show "m_snd_una s' = m_snd_una s" "m_snd_nxt s' = m_snd_nxt s" "m_state s \<noteq> TCP_LISTEN \<Longrightarrow> m_slist s' = m_slist s"
    using assms(2) by (auto simp: process_control_def k adjustMTU_def notify_def Let_def split: if_splits)
qed

lemma listen_nothing_sent: "conn b T s \<Longrightarrow> m_state s = TCP_LISTEN \<Longrightarrow> m_snd_nxt s = 0"
  by (auto simp: conn_def sender_ok_def send_queue_def unat_eq_zero dest!: chain_le)

text \<open>The part of \<open>process\<close> after the acknowledgement.\<close>

lemma process_tail_ok:
  assumes "endpoint v b T c D r s" and "stream_segment c D seg"
    and "sg_len seg \<noteq> 0 \<and> sg_flags seg AND FLAG_CTL = 0 \<and> m_shutdown s = SD_NONE \<longrightarrow> c \<le> unat (m_rcv_nxt s)"
  obtains sflags new s1 s2 where "receive_data s (fit_segment s seg) (ack_flags s seg) = Some (sflags, new, s1)"
    "attemptSend e s1 sflags = Some s2" "endpoint v b T c D r s2" "m_state s2 = m_state s"
proof -
  have rec: "receiver_ok c D r s" and co: "conn b T s" and cv: "m_conv s = v" using assms(1) by (auto simp: endpoint_def)
  obtain sf new f nxt w rl where rd:
    "receive_data s (fit_segment s seg) (ack_flags s seg) = Some (sf, new, s\<lparr>m_rbuf := f, m_rcv_nxt := nxt, m_rcv_wnd := w, m_rlist := rl\<rparr>)"
    "receiver_ok c D r (s\<lparr>m_rbuf := f, m_rcv_nxt := nxt, m_rcv_wnd := w, m_rlist := rl\<rparr>)"
    using receive_data_ok [OF rec assms(2,3), of "ack_flags s seg"] unfolding received_def by blast
  let ?s = "s\<lparr>m_rbuf := f, m_rcv_nxt := nxt, m_rcv_wnd := w, m_rlist := rl\<rparr>"
  have "endpoint v b T c D r ?s" using rd(2) co cv unfolding endpoint_def conn_receiver_update by simp
  then obtain s2 where "attemptSend e ?s sf = Some s2" "endpoint v b T c D r s2" "steady s2 = steady ?s"
    by (rule attemptSend_endpoint)
  then show thesis using that [OF rd(1)] steadyD(2) [of s2 ?s] by simp
qed

text \<open>The connect message that \<open>process\<close> queues, if any.\<close>

definition process_answers :: "pseudo_tcp \<Rightarrow> Segment \<Rightarrow> byte list" where
  "process_answers s seg =
     (if sg_conv seg = m_conv s \<and> m_state s \<noteq> TCP_CLOSED \<and> sg_flags seg AND FLAG_RST = 0 then answers s seg else [])"

definition touched :: "tcp_env \<Rightarrow> pseudo_tcp \<Rightarrow> pseudo_tcp" where
  "touched e s = s\<lparr>m_clock_reads := Suc (m_clock_reads s), m_lasttraffic := e_now e (m_clock_reads s),
     m_lastrecv := e_now e (m_clock_reads s), m_bOutgoing := False\<rparr>"

lemma touched_simps [simp]:
  "sender_ok b T (touched e s) = sender_ok b T s" "session (touched e s) = session s" "m_state (touched e s) = m_state s"
  "m_slist (touched e s) = m_slist s" "m_snd_una (touched e s) = m_snd_una s" "m_snd_nxt (touched e s) = m_snd_nxt s"
  "answers (touched e s) seg = answers s seg"
  by (simp_all add: touched_def answers_def connect_message_def)

lemma timestamp_simps [simp]:
  "sender_ok b T (process_timestamp s seg) = sender_ok b T s" "session (process_timestamp s seg) = session s"
  "m_state (process_timestamp s seg) = m_state s" "m_slist (process_timestamp s seg) = m_slist s"
  "m_snd_una (process_timestamp s seg) = m_snd_una s" "m_snd_nxt (process_timestamp s seg) = m_snd_nxt s"
  by (simp_all add: process_timestamp_def)

lemma process_eq:
  "process e s seg =
     (if sg_conv seg \<noteq> m_conv s then Some (False, s)
      else if m_state s = TCP_CLOSED then Some (False, touched e s)
      else if sg_flags seg AND FLAG_RST \<noteq> 0 then Some (False, closedown (touched e s) ECONNRESET)
      else
        let (ok, bConnect, s1) = process_control e (touched e s) seg in
        if \<not> ok then Some (False, s1)
        else do {
          (ok, s2) \<leftarrow> process_ack e (process_timestamp s1 seg) seg (e_now e (m_clock_reads s));
          if \<not> ok then Some (False, s2)
          else do {
            let s3 = process_writeable (process_open s2 bConnect);
            (sflags, bNewData, s4) \<leftarrow> receive_data s3 (fit_segment s3 seg) (ack_flags s3 seg);
            s5 \<leftarrow> attemptSend e s4 sflags;
            Some (True, if bNewData \<and> m_bReadEnable s5 then notify (s5\<lparr>m_bReadEnable := False\<rparr>) OnTcpReadable else s5)
          }
        })"
  unfolding process_def Now_def touched_def by (simp add: Let_def)

lemma process_ack_endpoint:
  assumes "endpoint v b T c D r s" and "m_snd_una s < sg_ack seg \<and> sg_ack seg \<le> m_snd_nxt s \<longrightarrow> aligned s (sg_ack seg)"
  obtains ok s' where "process_ack e (process_timestamp s seg) seg now = Some (ok, s')" "endpoint v b T c D r s'" "session s' = session s"
    "m_state s' = (if ok then m_state s else TCP_CLOSED)"
proof -
  let ?t = "process_timestamp s seg"
  have "m_snd_una ?t < sg_ack seg \<and> sg_ack seg \<le> m_snd_nxt ?t \<longrightarrow> aligned ?t (sg_ack seg)"
    using assms(2) by (simp add: aligned_def)
  then obtain ok s' where a: "process_ack e ?t seg now = Some (ok, s')" "good b T ?t ok s'"
    using process_ack_ok [of b T ?t seg e now] endpoint_sender [OF assms(1)] by auto
  then have "sender_ok b T s'" "session s' = session s" "m_state s' = (if ok then m_state s else TCP_CLOSED)"
    by (simp_all add: good_def)
  then show thesis using that a(1) endpoint_step [OF assms(1)] by auto
qed

lemma process_ok:
  assumes "endpoint v b T c D r s" and "acceptable c D s seg"
  obtains ok s' where "process e s seg = Some (ok, s')" "endpoint v b (T @ process_answers s seg) c D r s'"
proof -
  have t: "endpoint v b T c D r (touched e s)" using endpoint_step [OF assms(1), of "touched e s"] endpoint_sender [OF assms(1)] by simp
  consider (early) "sg_conv seg \<noteq> m_conv s \<or> m_state s = TCP_CLOSED \<or> sg_flags seg AND FLAG_RST \<noteq> 0"
    | (go) "sg_conv seg = m_conv s" "m_state s \<noteq> TCP_CLOSED" "sg_flags seg AND FLAG_RST = 0" by blast
  then show thesis
  proof cases
    case early
    have "endpoint v b T c D r (closedown (touched e s) ECONNRESET)"
      using endpoint_step [OF assms(1), of "closedown (touched e s) ECONNRESET"] endpoint_sender [OF assms(1)] by simp
    moreover have "process e s seg = Some (False, if sg_conv seg \<noteq> m_conv s then s else if m_state s = TCP_CLOSED then touched e s
        else closedown (touched e s) ECONNRESET)"
      using early by (auto simp: process_eq)
    moreover have "process_answers s seg = []" using early by (auto simp: process_answers_def)
    ultimately show thesis using t assms(1) that by (auto split: if_splits)
  next
    case go
    obtain ok1 cn s1 where p: "process_control e (touched e s) seg = (ok1, cn, s1)" by (metis prod_cases3)
    have co: "conn b T (touched e s)" using t by (simp add: endpoint_def)
    have ctl: "sg_flags seg AND FLAG_CTL \<noteq> 0 \<longrightarrow> (\<forall>x\<in>set (sg_data seg). unat x < 32)" using assms(2) by (simp add: acceptable_def)
    note pc = process_control_ok [OF co p ctl]
    have ses1: "session s1 = session s" using pc(2) by simp
    have e1: "endpoint v b (T @ answers s seg) c D r s1"
      using pc(1) t receiver_ok_cong sessionD [OF pc(2)] unfolding endpoint_def touched_simps by blast
    have al: "m_snd_una s1 < sg_ack seg \<and> sg_ack seg \<le> m_snd_nxt s1 \<longrightarrow> aligned s1 (sg_ack seg)"
    proof (cases "m_state s = TCP_LISTEN")
      case True
      then have "m_snd_nxt s1 = 0" using listen_nothing_sent [OF co] control_keeps_queue(2) [OF co p] by simp
      then show ?thesis by (auto simp: word_le_0_iff)
    next
      case False
      then show ?thesis using assms(2) control_keeps_queue [OF co p] by (simp add: acceptable_def aligned_def)
    qed
    obtain ok2 s2 where a: "process_ack e (process_timestamp s1 seg) seg (e_now e (m_clock_reads s)) = Some (ok2, s2)"
        "endpoint v b (T @ answers s seg) c D r s2" "session s2 = session s1" "m_state s2 = (if ok2 then m_state s1 else TCP_CLOSED)"
      by (rule process_ack_endpoint [OF e1 al])
    define s3 where "s3 = process_writeable (process_open s2 cn)"
    note po = process_open_ok [OF endpoint_sender [OF a(2)], of cn]
    have so: "sender_ok b (T @ answers s seg) s3" and ses32: "session s3 = session s2"
      and st: "m_state s3 = (if m_state s2 = TCP_SYN_RECEIVED \<and> \<not> cn then TCP_ESTABLISHED else m_state s2)"
      unfolding s3_def process_writeable_ok by (rule po)+
    have e3: "endpoint v b (T @ answers s seg) c D r s3"
      by (rule endpoint_step [OF a(2) so ses32]) (use st in auto)
    have ses3: "session s3 = session s" using ses32 a(3) ses1 by simp
    have "m_rcv_nxt s3 = m_rcv_nxt s" "m_shutdown s3 = m_shutdown s" using receiverD [of s3 s] sessionD [OF ses3] by blast+
    then have sg: "stream_segment c D seg"
        "sg_len seg \<noteq> 0 \<and> sg_flags seg AND FLAG_CTL = 0 \<and> m_shutdown s3 = SD_NONE \<longrightarrow> c \<le> unat (m_rcv_nxt s3)"
      using assms(2) by (auto simp: acceptable_def)
    obtain sf new s4 s5 where f: "receive_data s3 (fit_segment s3 seg) (ack_flags s3 seg) = Some (sf, new, s4)"
        "attemptSend e s4 sf = Some s5" "endpoint v b (T @ answers s seg) c D r s5" "m_state s5 = m_state s3"
      by (rule process_tail_ok [OF e3 sg])
    define s6 where "s6 = (if new \<and> m_bReadEnable s5 then notify (s5\<lparr>m_bReadEnable := False\<rparr>) OnTcpReadable else s5)"
    have "sender_ok b (T @ answers s seg) s6" "session s6 = session s5" "m_state s6 = m_state s5"
      using endpoint_sender [OF f(3)] by (simp_all add: s6_def) (simp add: notify_def)
    then have "endpoint v b (T @ answers s seg) c D r s6" using endpoint_step [OF f(3)] by blast
    moreover have "process e s seg = Some (ok1 \<and> ok2, if \<not> ok1 then s1 else if \<not> ok2 then s2 else s6)"
      using go p a(1) f(1,2) by (simp add: process_eq s3_def [symmetric] s6_def)
    moreover have "process_answers s seg = answers s seg" using go by (simp add: process_answers_def)
    ultimately show thesis using that e1 a(2) by (metis (full_types))
  qed
qed

end
