(* ===== verification/PseudoTcpNet.thy ===== *)
theory PseudoTcpNet
  imports PseudoTcpEndpoint "HOL-Library.Sublist"
begin

text \<open>
  Two endpoints and a network that may lose, duplicate, reorder and delay every packet.
\<close>

subsection \<open>Reading a packet\<close>

definition segment_of :: "tcp_env \<Rightarrow> byte list \<Rightarrow> Segment" where
  "segment_of e buffer =
     \<lparr>sg_conv = bytes_to_long (e_host e) buffer, sg_seq = bytes_to_long (e_host e) (drop 4 buffer),
      sg_ack = bytes_to_long (e_host e) (drop 8 buffer), sg_flags = buffer ! 13,
      sg_wnd = bytes_to_short (e_host e) (drop 14 buffer), sg_data = drop (unat HEADER_SIZE) buffer,
      sg_len = of_nat (length buffer) - HEADER_SIZE, sg_tsval = bytes_to_long (e_host e) (drop 16 buffer),
      sg_tsecr = bytes_to_long (e_host e) (drop 20 buffer)\<rparr>"

lemma parse_segment: "24 \<le> length buffer \<Longrightarrow> parse e s buffer = process e s (segment_of e buffer)"
  by (simp add: parse_def segment_of_def HEADER_SIZE_def)

lemma bytes_to_long_be: "bytes_to_long he (be32 v @ rest) = v"
  and bytes_to_short_be: "bytes_to_short he (be16 u @ rest) = u"
  by (simp_all add: bytes_to_long_def bytes_to_short_def NetworkToHost_value)

lemma segment_of_header:
  assumes "length payload < 2 ^ 32 - 24"
    and "p = be32 conv @ be32 seq @ be32 ack @ [0, flags] @ be16 wnd @ be32 ts @ be32 tsr @ payload"
  shows "segment_of e p = \<lparr>sg_conv = conv, sg_seq = seq, sg_ack = ack, sg_flags = flags, sg_wnd = wnd, sg_data = payload,
      sg_len = of_nat (length payload), sg_tsval = ts, sg_tsecr = tsr\<rparr>" and "24 \<le> length p"
proof -
  let ?t = "be32 ts @ be32 tsr @ payload"
  have "drop 4 p = be32 seq @ be32 ack @ [0, flags] @ be16 wnd @ ?t"
    "drop 8 p = be32 ack @ [0, flags] @ be16 wnd @ ?t" "drop 14 p = be16 wnd @ ?t"
    "drop 16 p = ?t" "drop 20 p = be32 tsr @ payload" "drop 24 p = payload"
    by (simp_all add: assms(2))
  moreover have "p ! 13 = flags" by (simp add: assms(2) nth_append)
  moreover have "of_nat (length p) - 24 = (of_nat (length payload) :: u32)" by (simp add: assms(2))
  moreover have "bytes_to_long (e_host e) p = conv" by (simp add: assms(2) bytes_to_long_be)
  ultimately show "segment_of e p = \<lparr>sg_conv = conv, sg_seq = seq, sg_ack = ack, sg_flags = flags, sg_wnd = wnd, sg_data = payload,
      sg_len = of_nat (length payload), sg_tsval = ts, sg_tsecr = tsr\<rparr>"
    by (simp add: segment_of_def bytes_to_long_be bytes_to_short_be HEADER_SIZE_def)
  show "24 \<le> length p" by (simp add: assms(2))
qed

lemma genuine_segment:
  assumes "genuine conv b T p" and "length p \<le> 65535"
  shows "stream_segment b (drop b T) (segment_of e p)" and "24 \<le> length p" and "sg_conv (segment_of e p) = conv"
    and "sg_flags (segment_of e p) AND FLAG_CTL \<noteq> 0 \<longrightarrow> set (sg_data (segment_of e p)) \<subseteq> set (take b T)"
proof -
  obtain seq ack flags wnd ts tsr payload
    where p: "p = be32 conv @ be32 seq @ be32 ack @ [0, flags] @ be16 wnd @ be32 ts @ be32 tsr @ payload"
      and c: "if payload = [] then flags = 0
         else unat seq + length payload \<le> length T \<and> payload = take (length payload) (drop (unat seq) T) \<and>
              (flags = FLAG_CTL \<and> unat seq + length payload \<le> b \<or> flags = 0 \<and> b \<le> unat seq)"
    using assms(1) unfolding genuine_def by blast
  have len: "length payload < 2 ^ 32 - 24" "length payload < 2 ^ 32" using assms(2) by (simp_all add: p)
  note seg = segment_of_header(1) [OF len(1) p, of e] segment_of_header(2) [OF len(1) p]
  have u: "unat (of_nat (length payload) :: u32) = length payload" using len(2) by (rule unat_of_nat_u32)
  show "24 \<le> length p" by (rule seg(2))
  show "sg_conv (segment_of e p) = conv" by (simp add: seg(1))
  have sub: "payload = take (length payload) (drop (unat seq - b) (drop b T))" if "b \<le> unat seq" "payload \<noteq> []"
    using c that by simp
  have ctl: "FLAG_CTL AND FLAG_CTL \<noteq> 0" by (simp add: FLAG_CTL_def)
  show "stream_segment b (drop b T) (segment_of e p)"
  proof (cases "payload = []")
    case True
    then show ?thesis using u by (simp add: stream_segment_def seg(1))
  next
    case False
    then show ?thesis using c u ctl sub by (auto simp: stream_segment_def seg(1))
  qed
  show "sg_flags (segment_of e p) AND FLAG_CTL \<noteq> 0 \<longrightarrow> set (sg_data (segment_of e p)) \<subseteq> set (take b T)"
  proof
    assume "sg_flags (segment_of e p) AND FLAG_CTL \<noteq> 0"
    then have "payload \<noteq> []" "unat seq + length payload \<le> b" "payload = take (length payload) (drop (unat seq) T)"
      using c by (auto simp: seg(1) split: if_splits)
    then have "payload = take (length payload) (drop (unat seq) (take b T))" by (simp add: drop_take min_absorb1)
    then show "set (sg_data (segment_of e p)) \<subseteq> set (take b T)" by (simp add: seg(1)) (metis set_drop_subset set_take_subset subset_trans)
  qed
qed

subsection \<open>The calls an application makes\<close>

datatype call =
    Do_Connect
  | Do_Send "byte list"
  | Do_Recv nat
  | Do_Clock u32
  | Do_MTU u16
  | Do_Option tcp_option u32
  | Do_Close bool

text \<open>The bytes that were accepted for sending, the bytes that were delivered, and the object.\<close>

fun run_call :: "tcp_env \<Rightarrow> pseudo_tcp \<Rightarrow> call \<Rightarrow> (byte list \<times> byte list \<times> pseudo_tcp) option" where
  "run_call e s Do_Connect = map_option (\<lambda>(_, s). ([], [], s)) (Connect e s)"
| "run_call e s (Do_Send buffer) = map_option (\<lambda>(k, s). (take (nat k) buffer, [], s)) (Send e s buffer)"
| "run_call e s (Do_Recv len) = map_option (\<lambda>(_, x, s). ([], x, s)) (Recv e s len)"
| "run_call e s (Do_Clock now) = map_option (\<lambda>s. ([], [], s)) (NotifyClock e s now)"
| "run_call e s (Do_MTU mtu) = Some ([], [], NotifyMTU s mtu)"
| "run_call e s (Do_Option opt val) = Some ([], [], SetOption e s opt val)"
| "run_call e s (Do_Close force) = Some ([], [], Close s force)"

text \<open>
  Sequence numbers must not wrap around, the advised packet size must exceed the overhead, and the
  buffers are sized before the connection is made.
\<close>

fun call_ok :: "byte list \<Rightarrow> call \<Rightarrow> bool" where
  "call_ok sent (Do_Send buffer) \<longleftrightarrow> length sent + length buffer + 4 < 2 ^ 32"
| "call_ok sent (Do_MTU mtu) \<longleftrightarrow> 116 < mtu"
| "call_ok sent (Do_Option opt val) \<longleftrightarrow> opt = OPT_NODELAY \<or> opt = OPT_ACKDELAY"
| "call_ok sent _ \<longleftrightarrow> True"

subsection \<open>The network\<close>

text \<open>
  An object whose buffers were sized before the connection was made: at least four bytes to send the
  connect message, and a receive buffer that needs no window scaling.
\<close>

definition started :: "tcp_env \<Rightarrow> u32 \<Rightarrow> u32 \<Rightarrow> u32 \<Rightarrow> pseudo_tcp" where
  "started e conv sndbuf rcvbuf =
     SetOption e (SetOption e (PseudoTcp_new e conv) OPT_SNDBUF sndbuf) OPT_RCVBUF rcvbuf"

definition sized :: "u32 \<Rightarrow> u32 \<Rightarrow> bool" where
  "sized sndbuf rcvbuf \<longleftrightarrow> 4 \<le> sndbuf \<and> 0 < rcvbuf \<and> rcvbuf \<le> 65535"

text \<open>
  A delivery the proof covers: data does not overtake the connect message, and an acknowledgement of new
  data ends a segment that was sent (\<open>aligned\<close>).
\<close>

definition orderly :: "tcp_env \<Rightarrow> pseudo_tcp \<Rightarrow> byte list \<Rightarrow> bool" where
  "orderly e s p \<longleftrightarrow>
     (let seg = segment_of e p in
      (sg_len seg \<noteq> 0 \<and> sg_flags seg AND FLAG_CTL = 0 \<and> m_shutdown s = SD_NONE \<longrightarrow> 4 \<le> unat (m_rcv_nxt s)) \<and>
      (m_snd_una s < sg_ack seg \<and> sg_ack seg \<le> m_snd_nxt s \<longrightarrow> aligned s (sg_ack seg)))"

text \<open>
  \<open>net eA eB A B sA dA sB dB\<close>: the reachable states of two endpoints.  \<open>sA\<close> is what \<open>Send\<close> accepted at
  \<open>A\<close>, \<open>dA\<close> what \<open>Recv\<close> delivered at \<open>A\<close>.  Every packet that was ever handed to the network can
  arrive at any time, any number of times, or never.
\<close>

inductive net :: "tcp_env \<Rightarrow> tcp_env \<Rightarrow> pseudo_tcp \<Rightarrow> pseudo_tcp \<Rightarrow> byte list \<Rightarrow> byte list \<Rightarrow> byte list \<Rightarrow> byte list \<Rightarrow> bool"
  for eA eB :: tcp_env where
  start: "sized sa ra \<Longrightarrow> sized sb rb \<Longrightarrow> net eA eB (started eA conv sa ra) (started eB conv sb rb) [] [] [] []"
| callA: "net eA eB A B sA dA sB dB \<Longrightarrow> call_ok sA c \<Longrightarrow> run_call eA A c = Some (x, y, A') \<Longrightarrow>
    net eA eB A' B (sA @ x) (dA @ y) sB dB"
| callB: "net eA eB A B sA dA sB dB \<Longrightarrow> call_ok sB c \<Longrightarrow> run_call eB B c = Some (x, y, B') \<Longrightarrow>
    net eA eB A B' sA dA (sB @ x) (dB @ y)"
| toB: "net eA eB A B sA dA sB dB \<Longrightarrow> TcpWritePacket p w \<in> set (m_events A) \<Longrightarrow> orderly eB B p \<Longrightarrow>
    NotifyPacket eB B p = Some (k, B') \<Longrightarrow> net eA eB A B' sA dA sB dB"
| toA: "net eA eB A B sA dA sB dB \<Longrightarrow> TcpWritePacket p w \<in> set (m_events B) \<Longrightarrow> orderly eA A p \<Longrightarrow>
    NotifyPacket eA A p = Some (k, A') \<Longrightarrow> net eA eB A' B sA dA sB dB"

subsection \<open>What an endpoint promises the network\<close>

text \<open>
  \<open>paired keeps data conv A B sA dA sB dB\<close>: each end keeps its invariant for a stream of its own whose data is
  what was accepted, and for the data of the other one's stream.
\<close>

definition paired ::
    "(u32 \<Rightarrow> byte list \<Rightarrow> byte list \<Rightarrow> byte list \<Rightarrow> 's \<Rightarrow> bool) \<Rightarrow> (byte list \<Rightarrow> byte list) \<Rightarrow> u32 \<Rightarrow> 's \<Rightarrow> 's \<Rightarrow>
     byte list \<Rightarrow> byte list \<Rightarrow> byte list \<Rightarrow> byte list \<Rightarrow> bool" where
  "paired keeps data conv A B sA dA sB dB \<longleftrightarrow>
     (\<exists>TA TB. keeps conv TA (data TB) dA A \<and> keeps conv TB (data TA) dB B \<and> sA = data TA \<and> sB = data TB)"

lemma paired_swap: "paired keeps data conv A B sA dA sB dB \<Longrightarrow> paired keeps data conv B A sB dB sA dA"
  unfolding paired_def by blast

text \<open>
  The contract: \<open>keeps conv T D d s\<close> holds of an endpoint \<open>s\<close> whose stream is \<open>T\<close>, whose peer accepted \<open>D\<close> and which
  delivered \<open>d\<close>.  A call extends the own stream and what is delivered, a packet of the peer changes neither the
  data of the stream nor what is delivered, and the peer may go on sending.
\<close>

locale stream_endpoint =
  fixes keeps :: "u32 \<Rightarrow> byte list \<Rightarrow> byte list \<Rightarrow> byte list \<Rightarrow> 's \<Rightarrow> bool"
    and data :: "byte list \<Rightarrow> byte list"
    and fits :: "byte list \<Rightarrow> bool"
    and run :: "'e \<Rightarrow> 's \<Rightarrow> 'c \<Rightarrow> (byte list \<times> byte list \<times> 's) option"
    and run_ok :: "byte list \<Rightarrow> 'c \<Rightarrow> bool"
    and packets :: "'s \<Rightarrow> 'p set"
    and accept :: "'e \<Rightarrow> 's \<Rightarrow> 'p \<Rightarrow> (bool \<times> 's) option"
    and accept_ok :: "'e \<Rightarrow> 's \<Rightarrow> 'p \<Rightarrow> bool"
  assumes run_inv: "keeps conv T D d s \<Longrightarrow> run_ok (data T) c \<Longrightarrow>
      \<exists>U x y s'. run e s c = Some (x, y, s') \<and> keeps conv (T @ U) D (d @ y) s' \<and> data (T @ U) = data T @ x \<and> fits (data T @ x)"
    and peer_sends: "keeps conv T D d s \<Longrightarrow> fits (D @ x) \<Longrightarrow> keeps conv T (D @ x) d s"
    and accept_inv: "keeps conv T (data P) d s \<Longrightarrow> keeps conv P D d' t \<Longrightarrow> p \<in> packets t \<Longrightarrow> accept_ok e s p \<Longrightarrow>
      \<exists>U k s'. accept e s p = Some (k, s') \<and> keeps conv (T @ U) (data P) d s' \<and> data (T @ U) = data T"
    and in_order: "keeps conv T D d s \<Longrightarrow> prefix d D"
begin

lemma call_step:
  assumes "paired keeps data conv A B sA dA sB dB" and "run_ok sA c"
  shows "\<exists>x y A'. run e A c = Some (x, y, A') \<and> paired keeps data conv A' B (sA @ x) (dA @ y) sB dB"
proof -
  obtain TA TB where s: "keeps conv TA (data TB) dA A" "keeps conv TB (data TA) dB B" "sA = data TA" "sB = data TB"
    using assms(1) unfolding paired_def by blast
  obtain U x y A' where c: "run e A c = Some (x, y, A')" "keeps conv (TA @ U) (data TB) (dA @ y) A'" "data (TA @ U) = data TA @ x"
      "fits (data TA @ x)"
    using run_inv [OF s(1)] assms(2) s(3) by blast
  have "keeps conv TB (data (TA @ U)) dB B" unfolding c(3) by (rule peer_sends [OF s(2) c(4)])
  then have "paired keeps data conv A' B (sA @ x) (dA @ y) sB dB" using c(2,3) s(3,4) unfolding paired_def by metis
  then show ?thesis using c(1) by blast
qed

lemma packet_step:
  assumes "paired keeps data conv A B sA dA sB dB" and "p \<in> packets B" and "accept_ok e A p"
  shows "\<exists>k A'. accept e A p = Some (k, A') \<and> paired keeps data conv A' B sA dA sB dB"
proof -
  obtain TA TB where s: "keeps conv TA (data TB) dA A" "keeps conv TB (data TA) dB B" "sA = data TA" "sB = data TB"
    using assms(1) unfolding paired_def by blast
  obtain U k A' where d: "accept e A p = Some (k, A')" "keeps conv (TA @ U) (data TB) dA A'" "data (TA @ U) = data TA"
    using accept_inv [OF s(1,2) assms(2,3)] by blast
  then have "paired keeps data conv A' B sA dA sB dB" using s unfolding paired_def by metis
  then show ?thesis using d(1) by blast
qed

lemma both_in_order: "paired keeps data conv A B sA dA sB dB \<Longrightarrow> prefix dA sB \<and> prefix dB sA"
  using in_order unfolding paired_def by blast

end

subsection \<open>The invariant of the network\<close>

text \<open>One side: \<open>T\<close> is its whole stream, \<open>D\<close> the peer's data and \<open>d\<close> what was delivered of it.\<close>

definition side :: "u32 \<Rightarrow> byte list \<Rightarrow> byte list \<Rightarrow> byte list \<Rightarrow> pseudo_tcp \<Rightarrow> bool" where
  "side conv T D d s \<longleftrightarrow>
     endpoint conv 4 T 4 D (length d) s \<and> d = take (length d) D \<and> (\<forall>x\<in>set (take 4 T). unat x < 32)"

lemma receiver_ok_mono:
  assumes "receiver_ok c D r s" and "c + length (D @ U) < 2 ^ 32"
  shows "receiver_ok c (D @ U) r s"
proof -
  have h: "held D r f i \<Longrightarrow> held (D @ U) r f i" for f i by (auto simp: held_def nth_append)
  have "saved_ok c D r f g \<Longrightarrow> saved_ok c (D @ U) r f g" for f g using h by (auto simp: saved_ok_def)
  then show ?thesis
    using assms h by (auto simp: receiver_ok_def buffer_holds_def window_ok_def)
qed

lemma side_peer_sends:
  assumes "side conv T D d s" and "4 + length (D @ x) < 2 ^ 32"
  shows "side conv T (D @ x) d s"
proof -
  have "length d \<le> length D" using assms(1) unfolding side_def by (metis length_take min.cobounded1)
  then show ?thesis using assms receiver_ok_mono by (auto simp: side_def endpoint_def)
qed

lemma connect_message_small: "conn 4 T s \<Longrightarrow> x \<in> set (connect_message s) \<Longrightarrow> unat x < 32"
  by (auto simp: conn_def connect_message_def CTL_CONNECT_def TCP_OPT_WND_SCALE_def split: if_splits)

text \<open>A side whose stream grew: by its connect message at the start, or by data behind it.\<close>

lemma side_grows:
  assumes "side conv T D d s" and "endpoint conv 4 (T @ U) 4 D (length (d @ y)) s'" and "y = take (length y) (drop (length d) D)"
    and "U = [] \<or> T = [] \<and> U = connect_message s \<or> 4 \<le> length T"
  shows "side conv (T @ U) D (d @ y) s'"
proof -
  have s: "conn 4 T s" "d = take (length d) D" "\<forall>x\<in>set (take 4 T). unat x < 32"
    using assms(1) by (auto simp: side_def endpoint_def)
  have "d @ y = take (length (d @ y)) D" using s(2) assms(3) by (metis length_append take_add)
  moreover have "\<forall>x\<in>set (take 4 (T @ U)). unat x < 32"
    using assms(4) s(3) connect_message_small [OF s(1)] set_take_subset [of 4 "connect_message s"] by auto
  ultimately show ?thesis using assms(2) unfolding side_def by blast
qed

lemma connect_keeps_data: "conn 4 T s \<Longrightarrow> drop 4 (connect_message s) = []"
  by (auto simp: conn_def)

lemma side_call:
  assumes "side conv T D d s" and "call_ok (drop 4 T) c"
  obtains U x y s' where "run_call e s c = Some (x, y, s')" "side conv (T @ U) D (d @ y) s'" "drop 4 (T @ U) = drop 4 T @ x"
    "4 + length (drop 4 T @ x) < 2 ^ 32"
proof -
  have ep: "endpoint conv 4 T 4 D (length d) s" and co: "conn 4 T s" using assms(1) by (auto simp: side_def endpoint_def)
  have lim: "4 + length (drop 4 T) < 2 ^ 32"
    using endpoint_sender [OF ep] by (auto simp: sender_ok_def send_buffer_def)
  have stays: "side conv (T @ []) D (d @ []) s'" if "endpoint conv 4 T 4 D (length d) s'" for s'
    using side_grows [OF assms(1), of "[]" "[]" s'] that by simp
  show thesis
  proof (cases c)
    case Do_Connect
    obtain k U s' where c: "Connect e s = Some (k, s')" "endpoint conv 4 (T @ U) 4 D (length d) s'"
        "U = (if m_state s = TCP_LISTEN then connect_message s else [])"
      by (rule Connect_ok [OF ep])
    have U: "U = [] \<or> T = [] \<and> U = connect_message s" using c(3) co by (auto simp: conn_def)
    then have "side conv (T @ U) D (d @ []) s'" using side_grows [OF assms(1), of U "[]" s'] c(2) by auto
    moreover have "drop 4 (T @ U) = drop 4 T" using U connect_keeps_data [OF co] by auto
    ultimately show thesis using that [of "[]" "[]" s' U] c(1) lim by (simp add: Do_Connect)
  next
    case (Do_Send buffer)
    have "length buffer < 2 ^ 32" "length T + length buffer < 2 ^ 32" using assms(2) by (auto simp: Do_Send)
    then obtain k n s' where c: "Send e s buffer = Some (k, s')" "endpoint conv 4 (T @ take n buffer) 4 D (length d) s'"
        "k = (if k = - 1 then - 1 else int n)" "n \<le> length buffer" "k = - 1 \<longrightarrow> n = 0" "m_state s' = m_state s"
      by (rule Send_ok [OF ep])
    have n: "take (nat k) buffer = take n buffer" using c(3,5) by (auto split: if_splits)
    have U: "take n buffer = [] \<or> 4 \<le> length T"
    proof (cases "m_state s = TCP_ESTABLISHED")
      case True
      then show ?thesis using co by (simp add: conn_def)
    next
      case False
      then show ?thesis using c(1,5) by (simp add: Send_def)
    qed
    then have "side conv (T @ take n buffer) D (d @ []) s'" using side_grows [OF assms(1), of "take n buffer" "[]" s'] c(2) by auto
    moreover have "drop 4 (T @ take n buffer) = drop 4 T @ take n buffer" using U by auto
    moreover have "4 + length (drop 4 T @ take n buffer) < 2 ^ 32" using assms(2) c(4) by (simp add: Do_Send)
    ultimately show thesis using that [of "take n buffer" "[]" s' "take n buffer"] c(1) n by (simp add: Do_Send)
  next
    case (Do_Recv len)
    obtain k y s' where c: "Recv e s len = Some (k, y, s')" "endpoint conv 4 T 4 D (length d + length y) s'"
        "y = take (length y) (drop (length d) D)"
      by (rule Recv_ok [OF ep])
    then have "side conv (T @ []) D (d @ y) s'" using side_grows [OF assms(1), of "[]" y s'] by simp
    then show thesis using that [of "[]" y s' "[]"] c(1) lim by (simp add: Do_Recv)
  next
    case (Do_Clock now)
    obtain s' where c: "NotifyClock e s now = Some s'" "endpoint conv 4 T 4 D (length d) s'" by (rule NotifyClock_endpoint [OF ep])
    then show thesis using that [of "[]" "[]" s' "[]"] stays lim by (simp add: Do_Clock)
  next
    case (Do_MTU mtu)
    then show thesis
      using that [of "[]" "[]" "NotifyMTU s mtu" "[]"] stays [OF NotifyMTU_endpoint [OF ep]] assms(2) lim by simp
  next
    case (Do_Option opt val)
    then have "endpoint conv 4 T 4 D (length d) (SetOption e s opt val)"
      using assms(2) endpoint_step [OF ep, of "SetOption e s opt val"] endpoint_sender [OF ep]
      by (auto simp: SetOption_def session_def receiver_def)
    then show thesis using that [of "[]" "[]" "SetOption e s opt val" "[]"] stays lim Do_Option by simp
  next
    case (Do_Close force)
    then show thesis using that [of "[]" "[]" "Close s force" "[]"] stays [OF Close_endpoint [OF ep]] lim by simp
  qed
qed

lemma side_delivery:
  assumes "side conv T (drop 4 P) d s" and "genuine conv 4 P p" and "\<forall>x\<in>set (take 4 P). unat x < 32" and "orderly e s p"
  obtains U k s' where "NotifyPacket e s p = Some (k, s')" "side conv (T @ U) (drop 4 P) d s'" "drop 4 (T @ U) = drop 4 T"
proof (cases "65535 < length p")
  case True
  then have "NotifyPacket e s p = Some (False, s)" by (simp add: NotifyPacket_def MAX_PACKET_def)
  then show thesis using that [of False s "[]"] assms(1) by simp
next
  case False
  let ?seg = "segment_of e p"
  have ep: "endpoint conv 4 T 4 (drop 4 P) (length d) s" and co: "conn 4 T s" using assms(1) by (auto simp: side_def endpoint_def)
  have "length p \<le> 65535" using False by simp
  then have g: "stream_segment 4 (drop 4 P) ?seg" "24 \<le> length p"
      "sg_flags ?seg AND FLAG_CTL \<noteq> 0 \<longrightarrow> set (sg_data ?seg) \<subseteq> set (take 4 P)"
    using genuine_segment [OF assms(2)] by blast+
  have "acceptable 4 (drop 4 P) s ?seg"
    using g(1,3) assms(3,4) by (auto simp: acceptable_def orderly_def Let_def)
  then obtain k s' where pr: "process e s ?seg = Some (k, s')" "endpoint conv 4 (T @ process_answers s ?seg) 4 (drop 4 P) (length d) s'"
    by (rule process_ok [OF ep])
  let ?U = "process_answers s ?seg"
  have U: "?U = [] \<or> T = [] \<and> ?U = connect_message s" using co by (auto simp: process_answers_def answers_def conn_def)
  then have "side conv (T @ ?U) (drop 4 P) d s'" using side_grows [OF assms(1), of ?U "[]" s'] pr(2) by auto
  moreover have "drop 4 (T @ ?U) = drop 4 T" using U connect_keeps_data [OF co] by auto
  moreover have "NotifyPacket e s p = Some (k, s')" using False g(2) pr(1) by (simp add: NotifyPacket_def MAX_PACKET_def parse_segment)
  ultimately show thesis using that by blast
qed

lemma fresh_memory_length [simp]: "length (fresh_memory e n) = n"
  by (simp add: fresh_memory_def)

lemma resized_fifo:
  assumes "g = snd (SetCapacity (FifoBuffer_new n (fresh_memory e n)) k (fresh_memory e k))"
  shows "fifo_ok g" "fifo_contents g = []" "ff_data_length g = 0" "ff_buffer_length g = k" "ff_state g = SS_OPEN"
proof -
  let ?f = "FifoBuffer_new n (fresh_memory e n)"
  have ok: "fifo_ok ?f" by (auto simp: fifo_ok_def FifoBuffer_new_def)
  show "fifo_ok g" unfolding assms by (rule SetCapacity_contents(2) [OF ok]) simp
  show "ff_data_length g = 0" "ff_buffer_length g = k" "ff_state g = SS_OPEN"
    by (simp_all add: assms SetCapacity_def FifoBuffer_new_def)
  then show "fifo_contents g = []" using length_fifo_contents [of g] by (metis length_0_conv)
qed

lemma started_side:
  assumes "sized sndbuf rcvbuf"
  shows "side conv [] [] [] (started e conv sndbuf rcvbuf)"
proof -
  have "\<not> 0xFFFF < rcvbuf" using assms by (simp add: sized_def not_less)
  then have sc: "scale_size rcvbuf 0 = (rcvbuf, 0)" by (simp add: scale_size.simps [of rcvbuf])
  let ?f = "\<lambda>n k. snd (SetCapacity (FifoBuffer_new n (fresh_memory e n)) (unat k) (fresh_memory e (unat k)))"
  let ?s = "started e conv sndbuf rcvbuf"
  have bufs: "m_sbuf ?s = ?f (unat DEFAULT_SND_BUF_SIZE) sndbuf" "m_rbuf ?s = ?f (unat DEFAULT_RCV_BUF_SIZE) rcvbuf"
    by (simp_all add: started_def SetOption_def resizeSendBuffer_def resizeReceiveBuffer_def sc PseudoTcp_new_def Let_def)
  note f = resized_fifo [OF bufs(1)] and g = resized_fifo [OF bufs(2)]
  have s: "m_slist ?s = []" "m_rlist ?s = []" "m_snd_una ?s = 0" "m_snd_nxt ?s = 0" "m_rcv_nxt ?s = 0" "m_state ?s = TCP_LISTEN"
    "m_events ?s = []" "m_conv ?s = conv" "m_mss ?s = MIN_PACKET - PACKET_OVERHEAD" "m_msslevel ?s = 0" "m_rto_base ?s = 0"
    "m_recover ?s = 0" "m_ssthresh ?s = rcvbuf" "m_mtu_advise ?s = MAX_PACKET" "m_swnd_scale ?s = 0" "m_rwnd_scale ?s = 0"
    "m_support_wnd_scale ?s" "m_rx_rto ?s = DEF_RTO" "m_shutdown ?s = SD_NONE"
    by (simp_all add: started_def SetOption_def resizeSendBuffer_def resizeReceiveBuffer_def sc PseudoTcp_new_def Let_def)
  have lens: "4 \<le> unat sndbuf" "unat sndbuf < 2 ^ 32" "unat rcvbuf < 2 ^ 32" "rcvbuf \<noteq> 0"
    using assms unat_bound [of sndbuf] unat_bound [of rcvbuf] by (auto simp: sized_def word_le_nat_alt)
  have "sizes_ok ?s" by (simp add: sizes_ok_def s MIN_PACKET_def PACKET_OVERHEAD_def HEADER_SIZE_def UDP_HEADER_SIZE_def
      IP_HEADER_SIZE_def JINGLE_HEADER_SIZE_def)
  moreover have "send_buffer [] ?s" using f lens by (simp add: send_buffer_def s)
  moreover have "sent_ok 4 [] ?s" by (simp add: sent_ok_def s)
  moreover have "send_queue 4 ?s [] [] (length [])" by (simp add: send_queue_def s)
  moreover have "control_ok ?s" using lens(4) by (simp add: control_ok_def s MAX_PACKET_def rto_ok_def DEF_RTO_def MIN_RTO_def MAX_RTO_def)
  ultimately have "conn 4 [] ?s" using f(4) lens unfolding conn_def sender_ok_def by (auto simp: s connect_message_def)
  moreover have "receiver_ok 4 [] 0 ?s" using g lens by (simp add: receiver_ok_def buffer_holds_def window_ok_def s)
  ultimately show ?thesis by (simp add: side_def endpoint_def s)
qed

lemma side_packets_genuine:
  assumes "side conv T D d s" and "TcpWritePacket p w \<in> set (m_events s)"
  shows "genuine conv 4 T p"
proof -
  have "sent_ok 4 T s" "m_conv s = conv" using assms(1) unfolding side_def endpoint_def conn_def sender_ok_def by blast+
  then show ?thesis using assms(2) unfolding sent_ok_def by blast
qed

definition packets_of :: "pseudo_tcp \<Rightarrow> byte list set" where
  "packets_of s = {p. \<exists>w. TcpWritePacket p w \<in> set (m_events s)}"

interpretation tcp: stream_endpoint side "drop 4" "\<lambda>x. 4 + length x < 2 ^ 32" run_call call_ok packets_of NotifyPacket orderly
proof
  fix conv T D d s c e
  assume "side conv T D d s" "call_ok (drop 4 T) c"
  then show "\<exists>U x y s'. run_call e s c = Some (x, y, s') \<and> side conv (T @ U) D (d @ y) s' \<and> drop 4 (T @ U) = drop 4 T @ x \<and>
      4 + length (drop 4 T @ x) < 2 ^ 32"
    by (rule side_call [of conv T D d s c e]) blast
next
  fix conv T P d s D d' t p e
  assume a: "side conv T (drop 4 P) d s" "side conv P D d' t" "p \<in> packets_of t" "orderly e s p"
  then have g: "genuine conv 4 P p" "\<forall>x\<in>set (take 4 P). unat x < 32"
    using side_packets_genuine [OF a(2)] by (auto simp: packets_of_def side_def)
  show "\<exists>U k s'. NotifyPacket e s p = Some (k, s') \<and> side conv (T @ U) (drop 4 P) d s' \<and> drop 4 (T @ U) = drop 4 T"
    by (rule side_delivery [OF a(1) g a(4)]) blast
next
  fix conv T D d s
  assume "side conv T D d s"
  then show "prefix d D" unfolding side_def by (metis take_is_prefix)
qed (rule side_peer_sends)

abbreviation both_sides :: "u32 \<Rightarrow> pseudo_tcp \<Rightarrow> pseudo_tcp \<Rightarrow> byte list \<Rightarrow> byte list \<Rightarrow> byte list \<Rightarrow> byte list \<Rightarrow> bool" where
  "both_sides \<equiv> paired side (drop 4)"

lemma net_both_sides: "net eA eB A B sA dA sB dB \<Longrightarrow> \<exists>conv. both_sides conv A B sA dA sB dB"
proof (induction rule: net.induct)
  case (start sa ra sb rb conv)
  then show ?case using started_side unfolding paired_def by (metis drop_Nil)
next
  case (callA A B sA dA sB dB c x y A')
  then show ?case using tcp.call_step [of _ A B sA dA sB dB c eA] by (metis option.inject prod.inject)
next
  case (callB A B sA dA sB dB c x y B')
  then show ?case using tcp.call_step [OF paired_swap, of _ A B sA dA sB dB c eB] paired_swap
    by (metis option.inject prod.inject)
next
  case (toB A B sA dA sB dB p w k B')
  then have "p \<in> packets_of A" by (auto simp: packets_of_def)
  then show ?case using toB tcp.packet_step [OF paired_swap, of _ A B sA dA sB dB p eB] paired_swap
    by (metis option.inject prod.inject)
next
  case (toA A B sA dA sB dB p w k A')
  then have "p \<in> packets_of B" by (auto simp: packets_of_def)
  then show ?case using toA tcp.packet_step [of _ A B sA dA sB dB p eA] by (metis option.inject prod.inject)
qed

end
