(* ===== verification/PseudoTcpRun.thy ===== *)
theory PseudoTcpRun
  imports PseudoTcpNet
begin

text \<open>
  Runs of two endpoints as a function: a script of calls and deliveries, and rules that let the
  simplifier execute it.
\<close>

subsection \<open>Scripts\<close>

datatype step = CallA call | CallB call | ToA nat | ToB nat

type_synonym config = "pseudo_tcp \<times> pseudo_tcp \<times> byte list \<times> byte list \<times> byte list \<times> byte list"

text \<open>The \<open>n\<close>-th event of the peer must be a packet; with \<open>strict\<close> the delivery must be orderly.\<close>

definition arrive :: "bool \<Rightarrow> tcp_env \<Rightarrow> pseudo_tcp \<Rightarrow> tcp_event list \<Rightarrow> nat \<Rightarrow> pseudo_tcp option" where
  "arrive strict e s evs n =
     (if n < length evs then
        (case evs ! n of
           TcpWritePacket p w \<Rightarrow> if strict \<longrightarrow> orderly e s p then map_option snd (NotifyPacket e s p) else None
         | _ \<Rightarrow> None)
      else None)"

fun play_step :: "bool \<Rightarrow> tcp_env \<Rightarrow> tcp_env \<Rightarrow> config \<Rightarrow> step \<Rightarrow> config option" where
  "play_step strict eA eB (A, B, sA, dA, sB, dB) (CallA c) =
     (if call_ok sA c then map_option (\<lambda>(x, y, A). (A, B, sA @ x, dA @ y, sB, dB)) (run_call eA A c) else None)"
| "play_step strict eA eB (A, B, sA, dA, sB, dB) (CallB c) =
     (if call_ok sB c then map_option (\<lambda>(x, y, B). (A, B, sA, dA, sB @ x, dB @ y)) (run_call eB B c) else None)"
| "play_step strict eA eB (A, B, sA, dA, sB, dB) (ToA n) =
     map_option (\<lambda>A. (A, B, sA, dA, sB, dB)) (arrive strict eA A (m_events B) n)"
| "play_step strict eA eB (A, B, sA, dA, sB, dB) (ToB n) =
     map_option (\<lambda>B. (A, B, sA, dA, sB, dB)) (arrive strict eB B (m_events A) n)"

fun play :: "bool \<Rightarrow> tcp_env \<Rightarrow> tcp_env \<Rightarrow> config \<Rightarrow> step list \<Rightarrow> config option" where
  "play strict eA eB cfg [] = Some cfg"
| "play strict eA eB cfg (st # sts) = Option.bind (play_step strict eA eB cfg st) (\<lambda>cfg. play strict eA eB cfg sts)"

fun reached :: "tcp_env \<Rightarrow> tcp_env \<Rightarrow> config \<Rightarrow> bool" where
  "reached eA eB (A, B, sA, dA, sB, dB) = net eA eB A B sA dA sB dB"

lemma arrive_packet:
  "arrive True e s evs n = Some s' \<Longrightarrow>
     \<exists>p w k. TcpWritePacket p w \<in> set evs \<and> orderly e s p \<and> NotifyPacket e s p = Some (k, s')"
  by (auto simp: arrive_def split: if_splits tcp_event.splits) (metis nth_mem)

lemma play_step_reached:
  "reached eA eB cfg \<Longrightarrow> play_step True eA eB cfg st = Some cfg' \<Longrightarrow> reached eA eB cfg'"
  by (cases cfg; cases st)
    (auto split: if_splits dest!: arrive_packet intro: net.callA net.callB net.toA net.toB)

lemma play_reached: "reached eA eB cfg \<Longrightarrow> play True eA eB cfg sts = Some cfg' \<Longrightarrow> reached eA eB cfg'"
  by (induction sts arbitrary: cfg) (auto simp: bind_eq_Some_conv dest: play_step_reached)

subsection \<open>Executing a script\<close>

lemma aligned_eval:
  "aligned s ack \<longleftrightarrow> (\<exists>n\<in>set [0..<Suc (length (m_slist s))]. (\<forall>x\<in>set (take n (m_slist s)). ss_xmit x \<noteq> 0) \<and>
     chain (unat (m_snd_una s)) (take n (m_slist s)) (unat ack))"
proof
  assume "aligned s ack"
  then obtain us vs where "m_slist s = us @ vs" "\<forall>x\<in>set us. ss_xmit x \<noteq> 0" "chain (unat (m_snd_una s)) us (unat ack)"
    unfolding aligned_def by blast
  then show "\<exists>n\<in>set [0..<Suc (length (m_slist s))]. (\<forall>x\<in>set (take n (m_slist s)). ss_xmit x \<noteq> 0) \<and>
     chain (unat (m_snd_una s)) (take n (m_slist s)) (unat ack)"
    by (intro bexI [of _ "length us"]) auto
next
  assume "\<exists>n\<in>set [0..<Suc (length (m_slist s))]. (\<forall>x\<in>set (take n (m_slist s)). ss_xmit x \<noteq> 0) \<and>
     chain (unat (m_snd_una s)) (take n (m_slist s)) (unat ack)"
  then show "aligned s ack" unfolding aligned_def by (metis append_take_drop_id)
qed

lemma resized_fresh:
  "snd (SetCapacity (FifoBuffer_new n (fresh_memory e n)) k (fresh_memory e k)) = FifoBuffer_new k (fresh_memory e k)"
  by (simp add: SetCapacity_def FifoBuffer_new_def wrapped_read_def memcpy_at_def)

lemma started_eval:
  "started e conv sndbuf rcvbuf =
     (let (new_size, scale_factor) = scale_size rcvbuf 0; new_size = push_bit (unat scale_factor) new_size;
          now = e_now e 0; mss = MIN_PACKET - PACKET_OVERHEAD in
      \<lparr>m_shutdown = SD_NONE, m_error = NoError, m_state = TCP_LISTEN, m_conv = conv,
       m_bReadEnable = True, m_bWriteEnable = False, m_bOutgoing = False, m_lasttraffic = now,
       m_rlist = [], m_rbuf_len = new_size, m_rcv_nxt = 0, m_rcv_wnd = new_size,
       m_lastrecv = now, m_rwnd_scale = scale_factor,
       m_rbuf = FifoBuffer_new (unat new_size) (fresh_memory e (unat new_size)),
       m_slist = [], m_sbuf_len = sndbuf, m_snd_nxt = 0, m_snd_wnd = 1, m_lastsend = now,
       m_snd_una = 0, m_swnd_scale = 0,
       m_sbuf = FifoBuffer_new (unat sndbuf) (fresh_memory e (unat sndbuf)),
       m_mss = mss, m_msslevel = 0, m_largest = 0, m_mtu_advise = MAX_PACKET, m_rto_base = 0,
       m_ts_recent = 0, m_ts_lastack = 0, m_rx_rttvar = 0, m_rx_srtt = 0, m_rx_rto = DEF_RTO,
       m_ssthresh = new_size, m_cwnd = 2 * mss, m_dup_acks = 0, m_recover = 0, m_t_ack = 0,
       m_use_nagling = True, m_ack_delay = DEF_ACK_DELAY, m_support_wnd_scale = True,
       m_clock_reads = 1, m_events = []\<rparr>)"
  unfolding started_def SetOption_def resizeSendBuffer_def resizeReceiveBuffer_def PseudoTcp_new_def Let_def
  by (simp add: resized_fresh split: prod.split) (simp add: GetWriteRemaining_def FifoBuffer_new_def)


lemma bind_weak_cong: "m = m' \<Longrightarrow> Option.bind m f = Option.bind m' f"
  by simp

lemma segment_eval:
  "length payload < 2 ^ 32 - 24 \<Longrightarrow>
   segment_of e (be32 conv @ be32 seq @ be32 ack @ 0 # flags # be16 wnd @ be32 ts @ be32 tsr @ payload) =
   \<lparr>sg_conv = conv, sg_seq = seq, sg_ack = ack, sg_flags = flags, sg_wnd = wnd, sg_data = payload,
      sg_len = of_nat (length payload), sg_tsval = ts, sg_tsecr = tsr\<rparr>"
  by (rule segment_of_header(1)) auto

lemma segment_eval_empty:
   "segment_of e (be32 conv @ be32 seq @ be32 ack @ 0 # flags # be16 wnd @ be32 ts @ be32 tsr) =
   \<lparr>sg_conv = conv, sg_seq = seq, sg_ack = ack, sg_flags = flags, sg_wnd = wnd, sg_data = [],
      sg_len = 0, sg_tsval = ts, sg_tsecr = tsr\<rparr>"
  using segment_eval [of "[]"] by simp

lemma NotifyPacket_eval: "24 \<le> length p \<Longrightarrow> length p \<le> 65535 \<Longrightarrow> NotifyPacket e s p = process e s (segment_of e p)"
  by (simp add: NotifyPacket_def parse_segment MAX_PACKET_def)


lemma parseOptions_eval: "parseOptions e s [3, 1, k] = s\<lparr>m_swnd_scale := k\<rparr>"
  by (simp add: parseOptions_def parse_options_loop.simps ByteBuffer_of_def Construct_def Length_def ReadUInt8_def ReadBytes_def Consume_def
     Data_def TCP_OPT_EOL_def TCP_OPT_NOOP_def TCP_OPT_WND_SCALE_def applyOption_def applyWindowScaleOption_def WriteBytes_def
     ReserveWriteBuffer_def Let_def cong: let_weak_cong)

lemmas tcp_constants = HEADER_SIZE_def MAX_PACKET_def MIN_PACKET_def IP_HEADER_SIZE_def UDP_HEADER_SIZE_def JINGLE_HEADER_SIZE_def
  PACKET_OVERHEAD_def MIN_RTO_def DEF_RTO_def MAX_RTO_def DEF_ACK_DELAY_def FLAG_CTL_def FLAG_RST_def CTL_CONNECT_def
  TCP_OPT_EOL_def TCP_OPT_NOOP_def TCP_OPT_MSS_def TCP_OPT_WND_SCALE_def PACKET_MAXIMUMS_def

lemmas fifo_eval = FifoBuffer_new_def GetWriteRemaining_def GetBuffered_def fifo_Write_def fifo_Read_def WriteOffset_def ReadOffset_def
  WriteOffsetLocked_def ReadOffsetLocked_def ConsumeReadData_def ConsumeWriteBuffer_def PostEvent_def wrapped_read_def memcpy_at_def
  consume_read_def consume_write_def

lemmas tcp_eval = tcp_constants fifo_eval started_eval Let_def scale_size.simps packet_def Now_def notify_def
  long_to_bytes_def short_to_bytes_def queueConnectMessage_eq connect_message_def queue_def transmit_def transmit_loop.simps
  lower_mss.simps attemptSend_loop.simps attemptSend_def available_to_send_def split_segment_def closedown_def adjustMTU_def
  Connect_def Send_def Recv_def process_eq touched_def process_control_def process_timestamp_def process_ack_def
  process_new_ack_def process_dup_ack_def update_rtt_def ack_congestion_def process_open_def process_writeable_def ack_flags_def
  fit_segment_def receive_data_def save_segment_def shift_window_def TimeDiff_def orderly_def arrive_def aligned_eval bound_def segment_eval segment_eval_empty NotifyPacket_eval parseOptions_eval

subsection \<open>An example\<close>

text \<open>Both endpoints on a network that takes every packet, with a clock that advances at every reading.\<close>

definition calm :: tcp_env where
  "calm = \<lparr>e_host = LittleEndianHost, e_now = (\<lambda>n. 1000 + of_nat n), e_write = (\<lambda>_ _. WR_SUCCESS), e_fill = (\<lambda>_. 0)\<rparr>"

lemma calm_eval [simp]:
  "e_host calm = LittleEndianHost" "e_now calm n = 1000 + of_nat n" "e_write calm evs p = WR_SUCCESS" "e_fill calm n = 0"
  "fresh_memory calm 4 = [0, 0, 0, 0]" "fresh_memory calm 16 = [0, 0, 0, 0, 0, 0, 0, 0, 0, 0, 0, 0, 0, 0, 0, 0]"
  by (simp_all add: calm_def fresh_memory_def upt_rec)

definition idle :: "u32 \<Rightarrow> config" where
  "idle n = (started calm 7 n n, started calm 7 n n, [], [], [], [])"

lemma idle_reached: "4 \<le> n \<Longrightarrow> n \<le> 65535 \<Longrightarrow> reached calm calm (idle n)"
  by (auto simp: idle_def sized_def word_le_nat_alt word_less_nat_alt intro!: net.start)

text \<open>After the handshake, with buffers of four bytes.\<close>

definition opened :: config where
  "opened =
    ((started calm 7 4 4)\<lparr>
       m_state := TCP_ESTABLISHED, m_lasttraffic := 1003, m_rcv_nxt := 4, m_lastrecv := 1003, m_snd_nxt := 4, m_snd_wnd := 4,
       m_lastsend := 1002, m_snd_una := 4,
       m_sbuf := \<lparr>ff_state = SS_OPEN, ff_buffer = [0, 3, 1, 0], ff_buffer_length = 4, ff_data_length = 0, ff_read_position = 0,
                  ff_events = [SE_READ, SE_WRITE]\<rparr>,
       m_mss := 65419, m_largest := 4, m_ts_recent := 1003, m_rx_srtt := 1, m_rx_rto := 250, m_ssthresh := 130838, m_cwnd := 130838,
       m_t_ack := 1005, m_clock_reads := 6,
       m_events := [TcpWritePacket (be32 7 @ be32 0 @ be32 0 @ [0, 2] @ be16 4 @ be32 1002 @ be32 0 @ [0, 3, 1, 0]) WR_SUCCESS, OnTcpOpen]\<rparr>,
     (started calm 7 4 4)\<lparr>
       m_state := TCP_SYN_RECEIVED, m_bOutgoing := True, m_lasttraffic := 1003, m_rcv_nxt := 4, m_lastrecv := 1001,
       m_slist := [\<lparr>ss_seq = 0, ss_len = 4, ss_xmit = 1, ss_bCtrl = True\<rparr>], m_snd_nxt := 4, m_snd_wnd := 4, m_lastsend := 1003,
       m_sbuf := \<lparr>ff_state = SS_OPEN, ff_buffer = [0, 3, 1, 0], ff_buffer_length = 4, ff_data_length = 4, ff_read_position = 0,
                  ff_events = [SE_READ]\<rparr>,
       m_rto_base := 1002, m_ts_recent := 1002, m_ts_lastack := 4, m_clock_reads := 4,
       m_events := [TcpWritePacket (be32 7 @ be32 0 @ be32 4 @ [0, 2] @ be16 4 @ be32 1003 @ be32 1002 @ [0, 3, 1, 0]) WR_SUCCESS]\<rparr>,
     [], [], [], [])"

lemma play_handshake: "play True calm calm (idle 4) [CallA Do_Connect, ToB 0, ToA 0] = Some opened"
  by (simp add: tcp_eval idle_def opened_def cong: let_weak_cong bind_weak_cong)

lemma opened_reached: "reached calm calm opened"
  by (rule play_reached [OF idle_reached play_handshake]) simp_all

lemma play_exchange:
  "map_option (\<lambda>(A, B, sA, dA, sB, dB). (m_shutdown B, sA, dA, sB, dB))
     (play True calm calm opened [CallA (Do_Send [104, 105]), ToB 2, CallB (Do_Recv 8)]) =
   Some (SD_NONE, [104, 105], [], [], [104, 105])"
  by (simp add: tcp_eval opened_def cong: let_weak_cong bind_weak_cong)

end
