(* ===== verification/PseudoTcpLossless.thy ===== *)
theory PseudoTcpLossless
  imports PseudoTcpNet
begin

text \<open>
  Acknowledgements tell the truth: no packet acknowledges more than its sender has received, so nothing leaves
  a send buffer before it is in the peer's receive buffer.
\<close>

subsection \<open>What a step does to the acknowledgements\<close>

text \<open>The acknowledgement number in the header of a packet.\<close>

definition ack_field :: "byte list \<Rightarrow> u32 \<Rightarrow> bool" where
  "ack_field p a \<longleftrightarrow> (\<forall>he. bytes_to_long he (drop 8 p) = a)"

text \<open>A quiet step frees nothing, receives nothing, and acknowledges in its packets what was received.\<close>

definition quiet :: "pseudo_tcp \<Rightarrow> pseudo_tcp \<Rightarrow> bool" where
  "quiet s s' \<longleftrightarrow>
     m_snd_una s' = m_snd_una s \<and> m_rcv_nxt s' = m_rcv_nxt s \<and>
     (\<forall>p w. TcpWritePacket p w \<in> set (m_events s') \<longrightarrow> TcpWritePacket p w \<in> set (m_events s) \<or> ack_field p (m_rcv_nxt s))"

lemma quiet_refl [simp]: "quiet s s"
  and quiet_trans: "quiet s s' \<Longrightarrow> quiet s' s'' \<Longrightarrow> quiet s s''"
  by (auto simp: quiet_def)

text \<open>The fields that do not matter.\<close>

lemma quiet_after [simp]:
  "quiet s (t\<lparr>m_shutdown := a1\<rparr>) = quiet s t"
  "quiet s (t\<lparr>m_error := a2\<rparr>) = quiet s t"
  "quiet s (t\<lparr>m_state := a3\<rparr>) = quiet s t"
  "quiet s (t\<lparr>m_bReadEnable := a4\<rparr>) = quiet s t"
  "quiet s (t\<lparr>m_bWriteEnable := a5\<rparr>) = quiet s t"
  "quiet s (t\<lparr>m_bOutgoing := a6\<rparr>) = quiet s t"
  "quiet s (t\<lparr>m_lasttraffic := a7\<rparr>) = quiet s t"
  "quiet s (t\<lparr>m_rlist := a8\<rparr>) = quiet s t"
  "quiet s (t\<lparr>m_rbuf_len := a9\<rparr>) = quiet s t"
  "quiet s (t\<lparr>m_rcv_wnd := a10\<rparr>) = quiet s t"
  "quiet s (t\<lparr>m_lastrecv := a11\<rparr>) = quiet s t"
  "quiet s (t\<lparr>m_rwnd_scale := a12\<rparr>) = quiet s t"
  "quiet s (t\<lparr>m_rbuf := a13\<rparr>) = quiet s t"
  "quiet s (t\<lparr>m_slist := a14\<rparr>) = quiet s t"
  "quiet s (t\<lparr>m_sbuf_len := a15\<rparr>) = quiet s t"
  "quiet s (t\<lparr>m_snd_nxt := a16\<rparr>) = quiet s t"
  "quiet s (t\<lparr>m_snd_wnd := a17\<rparr>) = quiet s t"
  "quiet s (t\<lparr>m_lastsend := a18\<rparr>) = quiet s t"
  "quiet s (t\<lparr>m_swnd_scale := a19\<rparr>) = quiet s t"
  "quiet s (t\<lparr>m_sbuf := a20\<rparr>) = quiet s t"
  "quiet s (t\<lparr>m_mss := a21\<rparr>) = quiet s t"
  "quiet s (t\<lparr>m_msslevel := a22\<rparr>) = quiet s t"
  "quiet s (t\<lparr>m_largest := a23\<rparr>) = quiet s t"
  "quiet s (t\<lparr>m_mtu_advise := a24\<rparr>) = quiet s t"
  "quiet s (t\<lparr>m_rto_base := a25\<rparr>) = quiet s t"
  "quiet s (t\<lparr>m_ts_recent := a26\<rparr>) = quiet s t"
  "quiet s (t\<lparr>m_rx_rttvar := a27\<rparr>) = quiet s t"
  "quiet s (t\<lparr>m_rx_srtt := a28\<rparr>) = quiet s t"
  "quiet s (t\<lparr>m_rx_rto := a29\<rparr>) = quiet s t"
  "quiet s (t\<lparr>m_ssthresh := a30\<rparr>) = quiet s t"
  "quiet s (t\<lparr>m_cwnd := a31\<rparr>) = quiet s t"
  "quiet s (t\<lparr>m_dup_acks := a32\<rparr>) = quiet s t"
  "quiet s (t\<lparr>m_recover := a33\<rparr>) = quiet s t"
  "quiet s (t\<lparr>m_t_ack := a34\<rparr>) = quiet s t"
  "quiet s (t\<lparr>m_use_nagling := a35\<rparr>) = quiet s t"
  "quiet s (t\<lparr>m_ack_delay := a36\<rparr>) = quiet s t"
  "quiet s (t\<lparr>m_clock_reads := a37\<rparr>) = quiet s t"
  by (simp_all add: quiet_def)

lemma quiet_before [simp]:
  "quiet (s\<lparr>m_shutdown := a1\<rparr>) t = quiet s t"
  "quiet (s\<lparr>m_error := a2\<rparr>) t = quiet s t"
  "quiet (s\<lparr>m_state := a3\<rparr>) t = quiet s t"
  "quiet (s\<lparr>m_bReadEnable := a4\<rparr>) t = quiet s t"
  "quiet (s\<lparr>m_bWriteEnable := a5\<rparr>) t = quiet s t"
  "quiet (s\<lparr>m_bOutgoing := a6\<rparr>) t = quiet s t"
  "quiet (s\<lparr>m_lasttraffic := a7\<rparr>) t = quiet s t"
  "quiet (s\<lparr>m_rlist := a8\<rparr>) t = quiet s t"
  "quiet (s\<lparr>m_rbuf_len := a9\<rparr>) t = quiet s t"
  "quiet (s\<lparr>m_rcv_wnd := a10\<rparr>) t = quiet s t"
  "quiet (s\<lparr>m_lastrecv := a11\<rparr>) t = quiet s t"
  "quiet (s\<lparr>m_rwnd_scale := a12\<rparr>) t = quiet s t"
  "quiet (s\<lparr>m_rbuf := a13\<rparr>) t = quiet s t"
  "quiet (s\<lparr>m_slist := a14\<rparr>) t = quiet s t"
  "quiet (s\<lparr>m_sbuf_len := a15\<rparr>) t = quiet s t"
  "quiet (s\<lparr>m_snd_nxt := a16\<rparr>) t = quiet s t"
  "quiet (s\<lparr>m_snd_wnd := a17\<rparr>) t = quiet s t"
  "quiet (s\<lparr>m_lastsend := a18\<rparr>) t = quiet s t"
  "quiet (s\<lparr>m_swnd_scale := a19\<rparr>) t = quiet s t"
  "quiet (s\<lparr>m_sbuf := a20\<rparr>) t = quiet s t"
  "quiet (s\<lparr>m_mss := a21\<rparr>) t = quiet s t"
  "quiet (s\<lparr>m_msslevel := a22\<rparr>) t = quiet s t"
  "quiet (s\<lparr>m_largest := a23\<rparr>) t = quiet s t"
  "quiet (s\<lparr>m_mtu_advise := a24\<rparr>) t = quiet s t"
  "quiet (s\<lparr>m_rto_base := a25\<rparr>) t = quiet s t"
  "quiet (s\<lparr>m_ts_recent := a26\<rparr>) t = quiet s t"
  "quiet (s\<lparr>m_rx_rttvar := a27\<rparr>) t = quiet s t"
  "quiet (s\<lparr>m_rx_srtt := a28\<rparr>) t = quiet s t"
  "quiet (s\<lparr>m_rx_rto := a29\<rparr>) t = quiet s t"
  "quiet (s\<lparr>m_ssthresh := a30\<rparr>) t = quiet s t"
  "quiet (s\<lparr>m_cwnd := a31\<rparr>) t = quiet s t"
  "quiet (s\<lparr>m_dup_acks := a32\<rparr>) t = quiet s t"
  "quiet (s\<lparr>m_recover := a33\<rparr>) t = quiet s t"
  "quiet (s\<lparr>m_t_ack := a34\<rparr>) t = quiet s t"
  "quiet (s\<lparr>m_use_nagling := a35\<rparr>) t = quiet s t"
  "quiet (s\<lparr>m_ack_delay := a36\<rparr>) t = quiet s t"
  "quiet (s\<lparr>m_clock_reads := a37\<rparr>) t = quiet s t"
  by (simp_all add: quiet_def)

lemma notify_quiet: "(\<And>p w. ev \<noteq> TcpWritePacket p w) \<Longrightarrow> quiet s (notify s ev)"
  by (auto simp: quiet_def notify_def)

lemma wire_ack: "ack_field (wire s seq flags ts payload) (m_rcv_nxt s)"
  by (simp add: ack_field_def wire_def bytes_to_long_be)

lemma packet_quiet: "packet e s seq flags offset len = Some (w, s') \<Longrightarrow> quiet s s'"
  using packet_effect(7) [of e s seq flags offset len w s'] packet_steady [of e s seq flags offset len w s'] wire_ack
  by (auto simp: quiet_def steady_def receiver_def)

lemma lower_mss_quiet: "lower_mss s n = Some (r, s') \<Longrightarrow> quiet s s'"
proof (induction s n rule: lower_mss.induct)
  case (1 s n)
  from "1.prems" show ?case
    by (subst (asm) lower_mss.simps) (use "1.IH" in \<open>force simp: Let_def split: if_splits\<close>)
qed

lemma transmit_loop_quiet: "transmit_loop e s seg n = Some (r, s') \<Longrightarrow> quiet s s'"
proof (induction e s seg n rule: transmit_loop.induct)
  case (1 e s seg n)
  obtain w s1 where p: "packet e s (ss_seq seg) (if ss_bCtrl seg then FLAG_CTL else 0) (ss_seq seg - m_snd_una s) n = Some (w, s1)"
    using "1.prems" by (auto simp: transmit_loop.simps [of e s seg n] split: option.splits)
  note q1 = packet_quiet [OF p]
  show ?case
  proof (cases "w = WR_SUCCESS \<or> w = WR_FAIL")
    case True
    then show ?thesis using "1.prems" p q1 by (auto simp: transmit_loop.simps [of e s seg n])
  next
    case False
    then obtain r2 s2 where l: "lower_mss s1 n = Some (r2, s2)"
      using "1.prems" p by (auto simp: transmit_loop.simps [of e s seg n] split: option.splits)
    have q2: "quiet s s2" using q1 lower_mss_quiet [OF l] by (rule quiet_trans)
    show ?thesis
    proof (cases r2)
      case None
      then show ?thesis using "1.prems" p False l q2 by (auto simp: transmit_loop.simps [of e s seg n])
    next
      case (Some mss)
      then have "transmit_loop e s2 seg mss = Some (r, s')"
        using "1.prems" p False l by (simp add: transmit_loop.simps [of e s seg n])
      then have "quiet s2 s'" using "1.IH" [OF p refl] False l Some by blast
      then show ?thesis using q2 by (rule quiet_trans [rotated])
    qed
  qed
qed

lemma transmit_quiet: "transmit e s i now = Some (ok, s') \<Longrightarrow> quiet s s'"
  by (auto simp: transmit_def Let_def split: if_splits option.splits dest!: transmit_loop_quiet)

lemma attemptSend_loop_quiet:
  assumes "attemptSend_loop e now s sflags = Some s'"
  shows "quiet s s'"
proof (rule attemptSend_loop.raw_induct [where P = "\<lambda>e now s sflags s'. quiet s s'", OF _ assms], goal_cases)
  case (1 loop e now s sflags s')
  let ?split = "\<lambda>i. s\<lparr>m_slist := split_segment (m_slist s) i (available_to_send s)\<rparr>"
  have t: "quiet s t" if "transmit e (?split i) i now = Some (ok, t)" for i ok t
    using transmit_quiet [OF that] by simp
  have loop: "quiet s t'" if "transmit e (?split i) i now = Some (ok, t)" "loop e now t sfNone = Some t'" for i ok t t'
    using quiet_trans [OF t [OF that(1)] 1(1) [OF that(2)]] .
  have a: "quiet s (snd (Now e s)\<lparr>m_t_ack := fst (Now e s)\<rparr>)" by (simp add: Now_def)
  from 1(2) show ?case
    using t loop a packet_quiet
    by (auto simp: Let_def bind_eq_Some_conv split: if_splits option.splits prod.splits)
qed

lemma attemptSend_quiet:
  assumes "attemptSend e s sflags = Some s'"
  shows "quiet s s'"
proof -
  let ?t = "if TimeDiff (e_now e (m_clock_reads s)) (m_lastsend s) > uint (m_rx_rto s)
    then s\<lparr>m_clock_reads := Suc (m_clock_reads s), m_cwnd := m_mss s\<rparr> else s\<lparr>m_clock_reads := Suc (m_clock_reads s)\<rparr>"
  have "quiet s ?t" by simp
  moreover have "quiet ?t s'" using assms by (intro attemptSend_loop_quiet) (auto simp: attemptSend_def Now_def Let_def split: if_splits)
  ultimately show ?thesis by (rule quiet_trans)
qed

subsection \<open>The calls\<close>

lemma closedown_quiet: "quiet s t \<Longrightarrow> quiet s (closedown t er)"
  unfolding closedown_def by (rule quiet_trans [OF _ notify_quiet]) simp_all

lemma queue_quiet: "quiet s (snd (queue s data bCtrl))"
  by (auto simp: queue_def Let_def split: prod.splits)

lemma queueConnectMessage_quiet: "quiet s (queueConnectMessage s)"
  unfolding queueConnectMessage_eq by (rule quiet_trans [OF _ queue_quiet]) simp

lemma adjustMTU_quiet: "quiet s (adjustMTU s)"
  by (simp add: adjustMTU_def Let_def)

lemma Connect_quiet: "Connect e s = Some (k, s') \<Longrightarrow> quiet s s'"
  using quiet_trans [OF queueConnectMessage_quiet [of "s\<lparr>m_state := TCP_SYN_SENT\<rparr>"] attemptSend_quiet, of e sfNone s']
  by (auto simp: Connect_def split: if_splits)

lemma Send_quiet:
  assumes "Send e s buffer = Some (k, s')"
  shows "quiet s s'"
proof -
  obtain n t where q: "queue s buffer False = (n, t)" by (metis surj_pair)
  then have "quiet s t" using queue_quiet [of s buffer False] by simp
  then show ?thesis
    using assms q quiet_trans attemptSend_quiet by (auto simp: Send_def split: if_splits)
qed

lemma Recv_quiet:
  assumes "Recv e s len = Some (k, x, s')"
  shows "quiet s s'"
proof -
  have "attemptSend e (s\<lparr>m_rbuf := f, m_rcv_wnd := w\<rparr>) sfImmediateAck = Some s' \<Longrightarrow> quiet s s'" for f w
    using attemptSend_quiet [of e "s\<lparr>m_rbuf := f, m_rcv_wnd := w\<rparr>"] by simp
  then show ?thesis
    using assms by (auto simp: Recv_def Let_def split: if_splits prod.splits)
qed

lemma retransmit_timer_quiet: "retransmit_timer e s now = Some (ok, s') \<Longrightarrow> quiet s s'"
  by (auto simp: retransmit_timer_def Let_def bind_eq_Some_conv split: if_splits prod.splits
      dest!: transmit_quiet intro: closedown_quiet)

lemma probe_timer_quiet: "probe_timer e s now = Some (ok, s') \<Longrightarrow> quiet s s'"
  by (auto simp: probe_timer_def Let_def bind_eq_Some_conv split: if_splits prod.splits
      dest!: packet_quiet intro: closedown_quiet)

lemma NotifyClock_quiet:
  assumes "NotifyClock e s now = Some s'"
  shows "quiet s s'"
proof (cases "m_state s = TCP_CLOSED")
  case True
  then show ?thesis using assms by (simp add: NotifyClock_def quiet_refl)
next
  case False
  then obtain ok1 s1 where r: "retransmit_timer e s now = Some (ok1, s1)" using assms by (auto simp: NotifyClock_def bind_eq_Some_conv)
  note q1 = retransmit_timer_quiet [OF r]
  show ?thesis
  proof (cases ok1)
    case ok1: True
    then obtain ok2 s2 where p: "probe_timer e s1 now = Some (ok2, s2)" using assms False r by (auto simp: NotifyClock_def bind_eq_Some_conv)
    have q2: "quiet s s2" using q1 probe_timer_quiet [OF p] by (rule quiet_trans)
    then show ?thesis using assms False r ok1 p quiet_trans [OF q2 packet_quiet] by (auto simp: NotifyClock_def split: if_splits)
  qed (use assms False r q1 in \<open>simp add: NotifyClock_def\<close>)
qed

lemma SetOption_quiet: "quiet s (SetOption e s opt val)"
  by (cases opt) (simp_all add: SetOption_def resizeSendBuffer_def resizeReceiveBuffer_def Let_def split: prod.split)

lemma NotifyMTU_quiet: "quiet s (NotifyMTU s mtu)"
  using adjustMTU_quiet [of "s\<lparr>m_mtu_advise := ucast mtu\<rparr>"] by (simp add: NotifyMTU_def Let_def)

lemma Close_quiet: "quiet s (Close s force)"
  by (simp add: Close_def)

lemma run_call_quiet: "run_call e s c = Some (x, y, s') \<Longrightarrow> quiet s s'"
  by (cases c)
    (auto intro: Connect_quiet Send_quiet Recv_quiet NotifyClock_quiet SetOption_quiet NotifyMTU_quiet Close_quiet)

subsection \<open>A packet arrives\<close>

lemma parseOptions_quiet: "quiet s (parseOptions e s data)"
proof -
  obtain r t where l: "parse_options_loop s (ByteBuffer_of data) [] = (r, t)" by (metis surj_pair)
  then obtain k where "t = s\<lparr>m_swnd_scale := k\<rparr>" using parse_options_loop_scale [OF _ l] by auto
  then show ?thesis
    using l by (auto simp: parseOptions_def resizeReceiveBuffer_def Let_def split: option.split prod.split)
qed

lemma process_control_quiet:
  assumes "process_control e s seg = (ok, c, s')"
  shows "quiet s s'"
proof -
  let ?t = "parseOptions e s (take (unat (sg_len seg - 1)) (drop 1 (sg_data seg)))"
  have t: "quiet s ?t" by (rule parseOptions_quiet)
  have "quiet ?t (queueConnectMessage (?t\<lparr>m_state := TCP_SYN_RECEIVED\<rparr>))"
    using queueConnectMessage_quiet [of "?t\<lparr>m_state := TCP_SYN_RECEIVED\<rparr>"] by simp
  moreover have "quiet ?t (notify (adjustMTU (?t\<lparr>m_state := TCP_ESTABLISHED\<rparr>)) OnTcpOpen)"
    using adjustMTU_quiet [of "?t\<lparr>m_state := TCP_ESTABLISHED\<rparr>"] by (intro quiet_trans [OF _ notify_quiet]) simp_all
  ultimately have "quiet s (queueConnectMessage (?t\<lparr>m_state := TCP_SYN_RECEIVED\<rparr>))"
      "quiet s (notify (adjustMTU (?t\<lparr>m_state := TCP_ESTABLISHED\<rparr>)) OnTcpOpen)"
    using t quiet_trans by blast+
  then show ?thesis using assms t by (auto simp: process_control_def Let_def split: if_splits)
qed

lemma process_timestamp_quiet: "quiet s (process_timestamp s seg)"
  by (simp add: process_timestamp_def)

lemma update_rtt_quiet: "quiet s (update_rtt s seg now)"
  by (simp add: update_rtt_def Let_def)

lemma ack_congestion_quiet: "ack_congestion e s nAcked now = Some (ok, s') \<Longrightarrow> quiet s s'"
  by (auto simp: ack_congestion_def Let_def bind_eq_Some_conv split: if_splits prod.splits dest!: transmit_quiet intro: closedown_quiet)

lemma process_dup_ack_quiet:
  assumes "process_dup_ack e s seg now = Some (ok, s')"
  shows "quiet s s'"
proof -
  obtain w where w: "shift_window (sg_wnd seg) (m_swnd_scale s) = Some w"
    using assms by (auto simp: process_dup_ack_def bind_eq_Some_conv)
  let ?d = "s\<lparr>m_snd_wnd := w, m_dup_acks := m_dup_acks s + 1\<rparr>"
  show ?thesis
  proof (cases "sg_len seg > 0 \<or> m_snd_una s = m_snd_nxt s \<or> m_dup_acks s + 1 \<noteq> 3")
    case True
    then show ?thesis using assms w by (auto simp: process_dup_ack_def Let_def split: if_splits)
  next
    case False
    then obtain ok1 t where t: "transmit e ?d 0 now = Some (ok1, t)"
      using assms w by (auto simp: process_dup_ack_def Let_def bind_eq_Some_conv)
    have "quiet s t" using transmit_quiet [OF t] by simp
    then show ?thesis using assms w False t by (auto simp: process_dup_ack_def Let_def closedown_quiet split: if_splits)
  qed
qed

lemma process_ack_quiet:
  assumes "process_ack e s seg now = Some (ok, s')"
  shows "\<exists>u. u \<in> {m_snd_una s, sg_ack seg} \<and> quiet (s\<lparr>m_snd_una := u\<rparr>) s'"
proof (cases "m_snd_una s < sg_ack seg \<and> sg_ack seg \<le> m_snd_nxt s")
  case True
  let ?r = "update_rtt s seg now"
  have r: "m_rcv_nxt ?r = m_rcv_nxt s" "m_events ?r = m_events s" by (simp_all add: update_rtt_def Let_def)
  obtain t n where t: "ack_congestion e t n now = Some (ok, s')" "m_snd_una t = sg_ack seg" "m_rcv_nxt t = m_rcv_nxt ?r" "m_events t = m_events ?r"
    using assms True by (auto simp: process_ack_def process_new_ack_def Let_def bind_eq_Some_conv)
  have "quiet (s\<lparr>m_snd_una := sg_ack seg\<rparr>) t" using t(2-4) r by (simp add: quiet_def)
  then show ?thesis using ack_congestion_quiet [OF t(1)] quiet_trans by blast
next
  case False
  then have "quiet s s'" using assms process_dup_ack_quiet by (auto simp: process_ack_def split: if_splits)
  then show ?thesis by (intro exI [of _ "m_snd_una s"]) simp
qed

lemma process_open_quiet: "quiet s (process_writeable (process_open s c))"
proof -
  have "quiet s (process_open s c)"
    using quiet_trans [OF adjustMTU_quiet [of "s\<lparr>m_state := TCP_ESTABLISHED\<rparr>"] notify_quiet [of OnTcpOpen]] by (simp add: process_open_def)
  moreover have "quiet t (process_writeable t)" for t
    using notify_quiet [of OnTcpWriteable "t\<lparr>m_bWriteEnable := False\<rparr>"] by (simp add: process_writeable_def Let_def)
  ultimately show ?thesis using quiet_trans by blast
qed

lemma recover_segments_mono:
  "recover_segments rl s sf = Some (sf', s') \<Longrightarrow>
     m_rcv_nxt s \<le> m_rcv_nxt s' \<and> m_snd_una s' = m_snd_una s \<and> m_events s' = m_events s"
proof (induction rl s sf rule: recover_segments.induct)
  case (2 it its s sf)
  then show ?case
    by (fastforce simp: Let_def bind_eq_Some_conv split: if_splits)
qed auto

lemma receive_data_mono:
  assumes "receive_data s seg sf = Some (sf', new, s')" and "unat (sg_seq seg) + unat (sg_len seg) < 2 ^ 32"
  shows "m_rcv_nxt s \<le> m_rcv_nxt s' \<and> m_snd_una s' = m_snd_una s \<and> m_events s' = m_events s"
proof -
  have "m_rcv_nxt s \<le> m_rcv_nxt s + sg_len seg" if "sg_seq seg = m_rcv_nxt s"
    using assms(2) that unat_add_u32 [of "m_rcv_nxt s" "sg_len seg"] by (simp add: word_le_nat_alt)
  then show ?thesis
    using assms(1)
    by (auto simp: receive_data_def Let_def bind_eq_Some_conv split: if_splits prod.splits dest!: recover_segments_mono)
qed

lemma fit_segment_end:
  assumes "unat (sg_seq seg) + unat (sg_len seg) < 2 ^ 32"
  shows "unat (sg_seq (fit_segment s seg)) + unat (sg_len (fit_segment s seg)) < 2 ^ 32"
proof -
  let ?c = "cut_old s seg"
  have "unat (sg_seq ?c) + unat (sg_len ?c) < 2 ^ 32"
  proof (cases "sg_len ?c = 0")
    case True
    then show ?thesis using unat_bound [of "sg_seq ?c"] by simp
  next
    case False
    then show ?thesis using cut_old_range [OF assms False] assms by simp
  qed
  moreover have "sg_seq (fit_segment s seg) = sg_seq ?c" by (simp add: fit_segment_cut Let_def)
  moreover have "sg_len (fit_segment s seg) \<le> sg_len ?c"
  proof -
    define n where "n = sg_seq ?c + sg_len ?c - m_rcv_nxt s - of_nat (GetWriteRemaining (m_rbuf s))"
    have "n < sg_len ?c \<Longrightarrow> sg_len ?c - n \<le> sg_len ?c" by (rule word_sub_le) simp
    then show ?thesis unfolding fit_segment_cut Let_def n_def [symmetric] by simp
  qed
  ultimately show ?thesis unfolding word_le_nat_alt by simp
qed

text \<open>An arrived segment moves both sides of the window forward, and answers within what was received.\<close>

definition forward :: "u32 \<Rightarrow> pseudo_tcp \<Rightarrow> pseudo_tcp \<Rightarrow> bool" where
  "forward ack s s' \<longleftrightarrow>
     m_snd_una s' \<in> {m_snd_una s, ack} \<and> m_rcv_nxt s \<le> m_rcv_nxt s' \<and>
     (\<forall>p w. TcpWritePacket p w \<in> set (m_events s') \<longrightarrow>
        TcpWritePacket p w \<in> set (m_events s) \<or> (\<exists>a \<le> m_rcv_nxt s'. ack_field p a))"

lemma quiet_forward: "u \<in> {m_snd_una s, ack} \<Longrightarrow> quiet (s\<lparr>m_snd_una := u\<rparr>) s' \<Longrightarrow> forward ack s s'"
  unfolding quiet_def forward_def by fastforce

lemma quiet_forward_self: "quiet s s' \<Longrightarrow> forward ack s s'"
  using quiet_forward [of "m_snd_una s"] by simp

lemma quiet_before_forward: "quiet s s' \<Longrightarrow> forward ack s' s'' \<Longrightarrow> forward ack s s''"
  unfolding quiet_def forward_def by (metis (no_types, lifting))

lemma forward_before_quiet: "forward ack s s' \<Longrightarrow> quiet s' s'' \<Longrightarrow> forward ack s s''"
  unfolding quiet_def forward_def by (metis order_refl)

lemma forward_receive:
  assumes "forward ack s s'" and "m_rcv_nxt s' \<le> m_rcv_nxt s'' \<and> m_snd_una s'' = m_snd_una s' \<and> m_events s'' = m_events s'"
  shows "forward ack s s''"
  using assms unfolding forward_def by (metis order_trans)

lemma process_forward:
  assumes "process e s seg = Some (ok, s')" and "unat (sg_seq seg) + unat (sg_len seg) < 2 ^ 32"
  shows "forward (sg_ack seg) s s'"
proof -
  let ?F = "forward (sg_ack seg)"
  have t: "quiet s (touched e s)" by (simp add: touched_def)
  consider (early) "s' = s \<or> s' = touched e s \<or> s' = closedown (touched e s) ECONNRESET"
    | (go) ok1 cn s1 where "process_control e (touched e s) seg = (ok1, cn, s1)" "sg_conv seg = m_conv s" "m_state s \<noteq> TCP_CLOSED"
        "sg_flags seg AND FLAG_RST = 0"
    using assms(1) by (cases "process_control e (touched e s) seg") (auto simp: process_eq split: if_splits)
  then show ?thesis
  proof cases
    case early
    then have "quiet s s'" using t closedown_quiet by auto
    then show ?thesis by (rule quiet_forward_self)
  next
    case go
    have q1: "quiet s s1" using quiet_trans [OF t process_control_quiet [OF go(1)]] .
    show ?thesis
    proof (cases ok1)
      case False
      then show ?thesis using assms(1) go q1 quiet_forward_self by (simp add: process_eq)
    next
      case ok1: True
      obtain ok2 s2 where a: "process_ack e (process_timestamp s1 seg) seg (e_now e (m_clock_reads s)) = Some (ok2, s2)"
        using assms(1) go ok1 by (auto simp: process_eq bind_eq_Some_conv)
      have "?F (process_timestamp s1 seg) s2" using process_ack_quiet [OF a] quiet_forward by blast
      then have f2: "?F s s2" using quiet_before_forward [OF quiet_trans [OF q1 process_timestamp_quiet]] by blast
      show ?thesis
      proof (cases ok2)
        case False
        then show ?thesis using assms(1) go ok1 a f2 by (simp add: process_eq)
      next
        case ok2: True
        define s3 where "s3 = process_writeable (process_open s2 cn)"
        have f3: "?F s s3" unfolding s3_def using f2 process_open_quiet by (rule forward_before_quiet)
        obtain sf new s4 s5 where d: "receive_data s3 (fit_segment s3 seg) (ack_flags s3 seg) = Some (sf, new, s4)" "attemptSend e s4 sf = Some s5"
            "s' = (if new \<and> m_bReadEnable s5 then notify (s5\<lparr>m_bReadEnable := False\<rparr>) OnTcpReadable else s5)"
          using assms(1) go ok1 a ok2 by (auto simp: process_eq bind_eq_Some_conv s3_def Let_def)
        have "?F s s5"
          using forward_before_quiet [OF forward_receive [OF f3 receive_data_mono [OF d(1) fit_segment_end [OF assms(2)]]] attemptSend_quiet [OF d(2)]] .
        moreover have "quiet s5 s'" using notify_quiet [of OnTcpReadable "s5\<lparr>m_bReadEnable := False\<rparr>"] by (simp add: d(3))
        ultimately show ?thesis by (rule forward_before_quiet)
      qed
    qed
  qed
qed

subsection \<open>Both ends\<close>

definition acked :: "pseudo_tcp \<Rightarrow> bool" where
  "acked s \<longleftrightarrow> (\<forall>p w. TcpWritePacket p w \<in> set (m_events s) \<longrightarrow> (\<exists>a \<le> m_rcv_nxt s. ack_field p a))"

lemma forward_acked: "forward ack s s' \<Longrightarrow> acked s \<Longrightarrow> acked s'"
  unfolding forward_def acked_def by (meson order_trans)

lemma acked_segment: "acked s \<Longrightarrow> TcpWritePacket p w \<in> set (m_events s) \<Longrightarrow> sg_ack (segment_of e p) \<le> m_rcv_nxt s"
  unfolding acked_def ack_field_def segment_of_def by fastforce

text \<open>What the peer of \<open>A\<close> has received covers what \<open>A\<close> was told.\<close>

definition covers :: "pseudo_tcp \<Rightarrow> pseudo_tcp \<Rightarrow> bool" where
  "covers A B \<longleftrightarrow> acked B \<and> m_snd_una A \<le> m_rcv_nxt B"

lemma covers_call:
  assumes "covers A B" and "covers B A" and "quiet A A'"
  shows "covers A' B \<and> covers B A'"
proof -
  have "forward 0 A A'" using assms(3) by (rule quiet_forward_self)
  then have "acked A'" using forward_acked assms(2) unfolding covers_def by blast
  then show ?thesis using assms by (simp add: covers_def quiet_def)
qed

lemma covers_delivery:
  assumes "covers A B" and "covers B A" and "TcpWritePacket p w \<in> set (m_events B)" and "forward (sg_ack (segment_of e p)) A A'"
  shows "covers A' B \<and> covers B A'"
proof -
  have "sg_ack (segment_of e p) \<le> m_rcv_nxt B" using assms(1,3) acked_segment unfolding covers_def by blast
  then have "m_snd_una A' \<le> m_rcv_nxt B" using assms(1,4) unfolding covers_def forward_def by auto
  moreover have "acked A'" "m_rcv_nxt A \<le> m_rcv_nxt A'"
    using forward_acked [OF assms(4)] assms(2,4) unfolding covers_def forward_def by blast+
  ultimately show ?thesis using assms(1,2) unfolding covers_def by (meson order_trans)
qed

lemma NotifyPacket_forward:
  assumes "both_sides conv A B sA dA sB dB" and "TcpWritePacket p w \<in> set (m_events B)" and "NotifyPacket e A p = Some (k, A')"
  shows "forward (sg_ack (segment_of e p)) A A'"
proof (cases "65535 < length p")
  case True
  then show ?thesis using assms(3) by (simp add: NotifyPacket_def MAX_PACKET_def quiet_forward_self)
next
  case False
  obtain TA TB where s: "side conv TB (drop 4 TA) dB B" "side conv TA (drop 4 TB) dA A" using assms(1) unfolding paired_def by blast
  then have "genuine conv 4 TB p" using assms(2) side_packets_genuine by blast
  then have g: "stream_segment 4 (drop 4 TB) (segment_of e p)" "24 \<le> length p" using genuine_segment False by (metis not_less)+
  have lim: "4 + length (drop 4 TB) < 2 ^ 32" using s(2) by (auto simp: side_def endpoint_def receiver_ok_def)
  have "unat (sg_seq (segment_of e p)) + unat (sg_len (segment_of e p)) < 2 ^ 32"
    by (rule stream_segment_limit [OF g(1) lim])
  moreover have "process e A (segment_of e p) = Some (k, A')"
    using assms(3) False g(2) by (simp add: NotifyPacket_def MAX_PACKET_def parse_segment)
  ultimately show ?thesis by (rule process_forward [rotated])
qed

lemma started_covers: "covers (started e conv sa ra) (started e' conv sb rb)"
  by (auto simp: covers_def acked_def started_def SetOption_def resizeSendBuffer_def resizeReceiveBuffer_def PseudoTcp_new_def Let_def
      split: prod.splits)

lemma net_covers: "net eA eB A B sA dA sB dB \<Longrightarrow> covers A B \<and> covers B A"
proof (induction rule: net.induct)
  case (start sa ra sb rb conv)
  then show ?case using started_covers by blast
next
  case (callA A B sA dA sB dB c x y A')
  then show ?case using covers_call run_call_quiet by blast
next
  case (callB A B sA dA sB dB c x y B')
  then show ?case using covers_call run_call_quiet by blast
next
  case (toB A B sA dA sB dB p w k B')
  obtain conv where "both_sides conv B A sB dB sA dA" using net_both_sides [OF toB.hyps(1)] paired_swap [of side "drop 4"] by blast
  then show ?case using covers_delivery [of B A p w eB B'] NotifyPacket_forward toB by blast
next
  case (toA A B sA dA sB dB p w k A')
  obtain conv where "both_sides conv A B sA dA sB dB" using net_both_sides [OF toA.hyps(1)] by blast
  then show ?case using covers_delivery [of A B p w eA A'] NotifyPacket_forward toA by blast
qed

text \<open>What was received and what is still in the send buffer make up the stream.\<close>

lemma received_so_far:
  assumes "side conv T D d s" and "m_shutdown s = SD_NONE" and "4 \<le> unat (m_rcv_nxt s)"
  shows "d @ fifo_contents (m_rbuf s) = take (unat (m_rcv_nxt s) - 4) D"
proof -
  let ?f = "m_rbuf s" and ?r = "length d"
  have r: "receiver_ok 4 D ?r s" "d = take ?r D" using assms(1) by (auto simp: side_def endpoint_def)
  then have n: "unat (m_rcv_nxt s) = 4 + ?r + ff_data_length ?f" and h: "\<forall>i. ?r \<le> i \<and> i < ?r + ff_data_length ?f \<longrightarrow> held D ?r ?f i"
    using assms(2,3) by (auto simp: receiver_ok_def window_ok_def buffer_holds_def)
  have "fifo_contents ?f = take (ff_data_length ?f) (drop ?r D)" by (rule held_contents [OF h])
  then show ?thesis using n r(2) by (metis (no_types, lifting) add.assoc add_diff_cancel_left' take_add)
qed

end
