(* ===== verification/PseudoTcpProps.thy ===== *)
theory PseudoTcpProps
  imports PseudoTcpRun PseudoTcpLossless
begin

text \<open>What \<open>PseudoTcp\<close> promises its user: a reliable byte stream over a packet network.\<close>

text \<open>
  C2: In every state of \<open>net\<close>, whatever the two applications call, each endpoint has delivered a prefix of what the
  other one accepted for sending.  The network may lose, repeat, delay and reorder packets, with two
  exceptions (\<open>orderly\<close>): data never arrives before the connect message of its sender, and an acknowledgement of new
  data ends where a segment that was sent ends.  The receive buffers have 65535 bytes at most, and either
  direction carries less than 4 GB.  Without the first exception it does not hold:
  \<open>tcp_data_before_connect_is_misplaced\<close>.
\<close>

theorem tcp_delivers_in_order:
  assumes "net eA eB A B sA dA sB dB"
  shows "prefix dA sB \<and> prefix dB sA"
  using net_both_sides [OF assms] tcp.both_in_order by blast

theorem tcp_delivers_in_order_witness:
  "\<exists>A B. net calm calm A B [104, 105] [] [] [104, 105] \<and> prefix [] ([] :: byte list) \<and> prefix [104, 105 :: byte] [104, 105]"
proof -
  obtain A B where r: "play True calm calm opened [CallA (Do_Send [104, 105]), ToB 2, CallB (Do_Recv 8)] =
      Some (A, B, [104, 105], [], [], [104, 105])"
    using play_exchange by auto
  have "net calm calm A B [104, 105] [] [] [104, 105]" using play_reached [OF opened_reached r] by simp
  with tcp_delivers_in_order [OF this] show ?thesis by blast
qed

text \<open>
  C4: In every reachable state every call of the application returns, and so does every orderly delivery of a
  packet of the peer: no list is read past its end, no buffer is overrun, the windows and the congestion
  arithmetic are defined, and the loop of \<open>attemptSend\<close> ends.
\<close>

theorem tcp_never_stuck:
  assumes "net eA eB A B sA dA sB dB"
  shows "(\<forall>c. call_ok sA c \<longrightarrow> run_call eA A c \<noteq> None) \<and>
    (\<forall>p w. TcpWritePacket p w \<in> set (m_events B) \<and> orderly eA A p \<longrightarrow> NotifyPacket eA A p \<noteq> None) \<and>
    (\<forall>flags. attemptSend eA A flags \<noteq> None)"
proof -
  obtain conv where b: "both_sides conv A B sA dA sB dB" using net_both_sides [OF assms] by blast
  have "call_ok sA c \<Longrightarrow> run_call eA A c \<noteq> None" for c using tcp.call_step [OF b, of c eA] by auto
  moreover have "TcpWritePacket p w \<in> set (m_events B) \<Longrightarrow> orderly eA A p \<Longrightarrow> NotifyPacket eA A p \<noteq> None" for p w
    using tcp.packet_step [OF b, of p eA] by (auto simp: packets_of_def)
  moreover have "attemptSend eA A flags \<noteq> None" for flags
    using b attemptSend_endpoint unfolding paired_def side_def by (metis option.distinct(1))
  ultimately show ?thesis by blast
qed

theorem tcp_never_stuck_witness: "NotifyPacket calm (fst opened) (be32 7 @ be32 0 @ be32 4 @ [0, 2] @ be16 4 @ be32 1003 @ be32 1002 @ [0, 3, 1, 0]) \<noteq> None"
proof -
  obtain A B sA dA sB dB where o: "opened = (A, B, sA, dA, sB, dB)" by (metis prod_cases6)
  have n: "net calm calm A B sA dA sB dB" using opened_reached unfolding o by simp
  let ?p = "be32 7 @ be32 0 @ be32 4 @ [0, 2] @ be16 4 @ be32 1003 @ be32 1002 @ [0, 3, 1, 0]"
  have "TcpWritePacket ?p WR_SUCCESS \<in> set (m_events B)" "orderly calm A ?p"
    using o by (auto simp: opened_def orderly_def segment_eval FLAG_CTL_def started_eval)
  with tcp_never_stuck [OF n] show ?thesis unfolding o by auto
qed

text \<open>
  C3: In the same states (orderly deliveries, receive buffers of 65535 bytes at most, less than 4 GB in either
  direction) nothing is lost to a reader that has not closed its end: every byte the peer accepted is delivered, or
  waits in the reader's receive buffer, or is still in the sender's send buffer.  An endpoint that has called
  \<open>Close\<close> acknowledges data without keeping it, so nothing is said of it.
\<close>

theorem tcp_loses_nothing:
  assumes "net eA eB A B sA dA sB dB" and "m_shutdown B = SD_NONE"
  shows "\<exists>n. dB @ fifo_contents (m_rbuf B) = take n sA \<and> suffix (drop n sA) (fifo_contents (m_sbuf A))"
proof -
  obtain conv TA TB where s: "side conv TA (drop 4 TB) dA A" "side conv TB (drop 4 TA) dB B" "sA = drop 4 TA"
    using net_both_sides [OF assms(1)] unfolding paired_def by blast
  have "send_buffer TA A" using s(1) unfolding side_def endpoint_def conn_def sender_ok_def by blast
  then have sb: "fifo_contents (m_sbuf A) = drop (unat (m_snd_una A)) TA" unfolding send_buffer_def by blast
  have cov: "unat (m_snd_una A) \<le> unat (m_rcv_nxt B)" using net_covers [OF assms(1)] by (simp add: covers_def word_le_nat_alt)
  have suf: "suffix (drop i TA) (fifo_contents (m_sbuf A))" if "unat (m_snd_una A) \<le> i" for i
    unfolding sb using suffix_drop [of "i - unat (m_snd_una A)" "drop (unat (m_snd_una A)) TA"] that by simp
  show ?thesis
  proof (cases "4 \<le> unat (m_rcv_nxt B)")
    case True
    then have "drop (unat (m_rcv_nxt B) - 4) sA = drop (unat (m_rcv_nxt B)) TA" using s(3) by simp
    then show ?thesis using received_so_far [OF s(2) assms(2) True] s(3) suf [OF cov] by metis
  next
    case False
    have "receiver_ok 4 (drop 4 TA) (length dB) B" using s(2) unfolding side_def endpoint_def by blast
    then have "dB = []" "ff_data_length (m_rbuf B) = 0"
      using False assms(2) by (auto simp: receiver_ok_def window_ok_def)
    then have "dB @ fifo_contents (m_rbuf B) = take 0 sA" by (simp add: fifo_contents_def cyc_def)
    moreover have "suffix (drop 0 sA) (fifo_contents (m_sbuf A))" using suf [of 4] cov False s(3) by simp
    ultimately show ?thesis by blast
  qed
qed

theorem tcp_loses_nothing_witness:
  "\<exists>A B n. net calm calm A B [104, 105] [] [] [104, 105] \<and> [104, 105] @ fifo_contents (m_rbuf B) = take n [104, 105] \<and>
     suffix (drop n [104, 105]) (fifo_contents (m_sbuf A))"
proof -
  obtain A B where r: "play True calm calm opened [CallA (Do_Send [104, 105]), ToB 2, CallB (Do_Recv 8)] =
      Some (A, B, [104, 105], [], [], [104, 105])" "m_shutdown B = SD_NONE"
    using play_exchange by auto
  have "net calm calm A B [104, 105] [] [] [104, 105]" using play_reached [OF opened_reached r(1)] by simp
  with tcp_loses_nothing [OF this r(2)] show ?thesis by blast
qed

text \<open>
  C25: The retransmission timeout of a reachable endpoint stays between \<open>MIN_RTO\<close> and \<open>MAX_RTO\<close>: the
  measured round trips, the doubling after a timeout and the probes of a closed window keep it there.
\<close>

theorem tcp_timeout_bounds:
  assumes "net eA eB A B sA dA sB dB"
  shows "MIN_RTO \<le> m_rx_rto A \<and> m_rx_rto A \<le> MAX_RTO \<and> MIN_RTO \<le> m_rx_rto B \<and> m_rx_rto B \<le> MAX_RTO"
proof -
  have "rto_ok (m_rx_rto s)" if "side conv T D d s" for conv T D d s
    using that sender_rto_ok endpoint_sender unfolding side_def by blast
  then show ?thesis using net_both_sides [OF assms] unfolding paired_def rto_ok_def by blast
qed

theorem tcp_timeout_bounds_witness:
  "m_rx_rto (fst opened) = 250 \<and> MIN_RTO \<le> m_rx_rto (fst opened) \<and> m_rx_rto (fst opened) \<le> MAX_RTO"
proof -
  obtain A B sA dA sB dB where o: "opened = (A, B, sA, dA, sB, dB)" by (metis prod_cases6)
  have "net calm calm A B sA dA sB dB" using opened_reached unfolding o by simp
  moreover have "m_rx_rto A = 250" using o by (auto simp: opened_def)
  ultimately show ?thesis using tcp_timeout_bounds [of calm calm A B] unfolding o by simp
qed

subsection \<open>Data before the connect message\<close>

text \<open>Both ends of buffers of eight bytes have sent their connect message.\<close>

definition dialing :: pseudo_tcp where
  "dialing = (started calm 7 8 8)\<lparr>
     m_state := TCP_SYN_SENT, m_bOutgoing := True, m_lasttraffic := 1002,
     m_slist := [\<lparr>ss_seq = 0, ss_len = 4, ss_xmit = 1, ss_bCtrl = True\<rparr>], m_snd_nxt := 4, m_snd_wnd := 4, m_lastsend := 1002,
     m_sbuf := \<lparr>ff_state = SS_OPEN, ff_buffer = [0, 3, 1, 0, 0, 0, 0, 0], ff_buffer_length = 8, ff_data_length = 4,
                ff_read_position = 0, ff_events = [SE_READ]\<rparr>,
     m_rto_base := 1001, m_clock_reads := 3,
     m_events := [TcpWritePacket (be32 7 @ be32 0 @ be32 0 @ [0, 2] @ be16 8 @ be32 1002 @ be32 0 @ [0, 3, 1, 0]) WR_SUCCESS]\<rparr>"

definition racing :: "tcp_event list" where
  "racing =
    [TcpWritePacket (be32 7 @ be32 0 @ be32 0 @ [0, 2] @ be16 8 @ be32 1002 @ be32 0 @ [0, 3, 1, 0]) WR_SUCCESS,
     OnTcpOpen,
     TcpWritePacket (be32 7 @ be32 4 @ be32 4 @ [0, 0] @ be16 8 @ be32 1007 @ be32 1002 @ [1, 2]) WR_SUCCESS,
     TcpWritePacket (be32 7 @ be32 6 @ be32 4 @ [0, 0] @ be16 8 @ be32 1009 @ be32 1002 @ [3, 4]) WR_SUCCESS]"

lemma fresh8 [simp]: "fresh_memory calm 8 = [0, 0, 0, 0, 0, 0, 0, 0]"
  by (simp add: calm_def fresh_memory_def upt_rec)

lemma play_append: "play strict eA eB cfg (xs @ ys) = Option.bind (play strict eA eB cfg xs) (\<lambda>cfg. play strict eA eB cfg ys)"
  by (induction xs arbitrary: cfg) (simp_all add: Option.bind_assoc)

lemma play_dial:
  "play False calm calm (idle 8) [CallA (Do_Option OPT_NODELAY 1), CallA Do_Connect, CallB Do_Connect] =
   Some (dialing\<lparr>m_use_nagling := False\<rparr>, dialing, [], [], [], [])"
  by (simp add: tcp_eval idle_def dialing_def SetOption_def cong: let_weak_cong bind_weak_cong)

lemma play_race:
  "\<exists>A. play False calm calm (dialing\<lparr>m_use_nagling := False\<rparr>, dialing, [], [], [], [])
     [ToA 0, CallA (Do_Send [1, 2]), CallA (Do_Send [3, 4])] = Some (A, dialing, [1, 2, 3, 4], [], [], []) \<and> m_events A = racing"
  by (simp add: tcp_eval racing_def dialing_def cong: let_weak_cong bind_weak_cong)

lemma play_overtaken:
  assumes "m_events A = racing"
  shows "\<exists>B. play False calm calm (A, dialing, [1, 2, 3, 4], [], [], []) [ToB 3, ToB 0, ToB 2, CallB (Do_Recv 8)] =
     Some (A, B, [1, 2, 3, 4], [], [], [1, 2, 0, 0])"
  by (simp add: tcp_eval assms racing_def dialing_def cong: let_weak_cong bind_weak_cong)

text \<open>
  A run in which data overtakes the connect message and is delivered wrong.  Both ends connect at once; of two segments
  the second arrives before the connect message and is stored as if the four control bytes were data still to come.
  The reader gets bytes that were never sent.
\<close>

theorem tcp_data_before_connect_is_misplaced:
  "\<exists>A B. play False calm calm (idle 8)
     ([CallA (Do_Option OPT_NODELAY 1), CallA Do_Connect, CallB Do_Connect] @
      [ToA 0, CallA (Do_Send [1, 2]), CallA (Do_Send [3, 4])] @
      [ToB 3, ToB 0, ToB 2, CallB (Do_Recv 8)]) = Some (A, B, [1, 2, 3, 4], [], [], [1, 2, 0, 0])"
proof -
  obtain A where A: "play False calm calm (dialing\<lparr>m_use_nagling := False\<rparr>, dialing, [], [], [], [])
     [ToA 0, CallA (Do_Send [1, 2]), CallA (Do_Send [3, 4])] = Some (A, dialing, [1, 2, 3, 4], [], [], [])" "m_events A = racing"
    using play_race by blast
  show ?thesis unfolding play_append play_dial Option.bind.simps A(1) using play_overtaken [OF A(2)] by blast
qed

end
