(* ===== verification/MessageQueue.thy ===== *)
theory MessageQueue
  imports TimeUtils "HOL-Library.Multiset" "HOL-Library.Product_Lexorder"
begin

text \<open>
  \<open>MessageQueue\<close> of \<open>talk/base/messagequeue.cc\<close>: the posted messages in order, the delayed ones in a
  priority queue, and the loop of \<open>Get\<close> that waits for the next one.

  Handlers and message data are pointers; a number names the object, \<open>None\<close> is \<open>NULL\<close>.  The data
  that the queue deletes is listed in \<open>mq_deleted\<close>.  \<open>std::priority_queue\<close> is a list with an
  operation that finds its greatest element; the order of the list itself means nothing.  While \<open>Get\<close> waits,
  other threads use the queue: \<open>Wait\<close> of the socket server is a function of the queue.
\<close>

subsection \<open>Data\<close>

record Message =
  msg_phandler :: "nat option"
  msg_message_id :: u32
  msg_pdata :: "nat option"
  msg_ts_sensitive :: u32

record DelayedMessage =
  dm_cmsDelay :: int
  dm_msTrigger :: u32
  dm_num :: u32
  dm_msg :: Message

record message_queue =
  mq_fStop :: bool
  mq_fPeekKeep :: bool
  mq_msgPeek :: Message
  mq_active :: bool
  mq_msgq :: "Message list"
  mq_dmsgq :: "DelayedMessage list"
  mq_next_num :: u32
  mq_deleted :: "nat list"

record mq_env =
  q_time :: "nat \<Rightarrow> u32"
  q_wait :: "nat \<Rightarrow> int \<Rightarrow> message_queue \<Rightarrow> bool \<times> message_queue"

definition MQID_ANY :: u32 where "MQID_ANY = - 1"
definition MQID_DISPOSE :: u32 where "MQID_DISPOSE = - 2"
definition MQID_QUIT :: u32 where "MQID_QUIT = - 3"
definition kForever :: int where "kForever = - 1"
definition kMaxMsgLatency :: u32 where "kMaxMsgLatency = 150"

definition Message_new :: Message where
  "Message_new = \<lparr>msg_phandler = None, msg_message_id = 0, msg_pdata = None, msg_ts_sensitive = 0\<rparr>"

definition Match :: "Message \<Rightarrow> nat option \<Rightarrow> u32 \<Rightarrow> bool" where
  "Match m handler mid \<longleftrightarrow>
     (handler = None \<or> handler = msg_phandler m) \<and> (mid = MQID_ANY \<or> mid = msg_message_id m)"

definition dm_less :: "DelayedMessage \<Rightarrow> DelayedMessage \<Rightarrow> bool" where
  "dm_less a dmsg \<longleftrightarrow>
     dm_msTrigger dmsg < dm_msTrigger a \<or> dm_msTrigger dmsg = dm_msTrigger a \<and> dm_num dmsg < dm_num a"

text \<open>\<open>top()\<close> of the priority queue: an element that none is greater than.\<close>

fun pq_top :: "DelayedMessage list \<Rightarrow> DelayedMessage option" where
  "pq_top [] = None"
| "pq_top (d # ds) = (case pq_top ds of None \<Rightarrow> Some d | Some e \<Rightarrow> if dm_less d e then Some e else Some d)"

lemma pq_top_in: "pq_top ds = Some d \<Longrightarrow> d \<in> set ds"
  by (induction ds arbitrary: d) (auto split: option.splits if_splits)

definition MessageQueue_new :: message_queue where
  "MessageQueue_new =
     \<lparr>mq_fStop = False, mq_fPeekKeep = False, mq_msgPeek = Message_new, mq_active = False, mq_msgq = [], mq_dmsgq = [],
      mq_next_num = 0, mq_deleted = []\<rparr>"

subsection \<open>Posting\<close>

definition EnsureActive :: "message_queue \<Rightarrow> message_queue" where
  "EnsureActive q = q\<lparr>mq_active := True\<rparr>"

text \<open>\<open>now\<close> is the reading of \<open>Time()\<close> that a time-sensitive message takes.\<close>

definition Post :: "message_queue \<Rightarrow> u32 \<Rightarrow> nat option \<Rightarrow> u32 \<Rightarrow> nat option \<Rightarrow> bool \<Rightarrow> message_queue" where
  "Post q now phandler mid pdata time_sensitive =
     (if mq_fStop q then q
      else
        let q = (if mid = MQID_QUIT then q\<lparr>mq_fStop := True\<rparr> else q);
            q = EnsureActive q;
            msg = Message_new\<lparr>msg_phandler := phandler, msg_message_id := mid, msg_pdata := pdata\<rparr>;
            msg = (if time_sensitive then msg\<lparr>msg_ts_sensitive := now + kMaxMsgLatency\<rparr> else msg)
        in q\<lparr>mq_msgq := mq_msgq q @ [msg]\<rparr>)"

definition DoDelayPost :: "message_queue \<Rightarrow> int \<Rightarrow> u32 \<Rightarrow> nat option \<Rightarrow> u32 \<Rightarrow> nat option \<Rightarrow> message_queue" where
  "DoDelayPost q cmsDelay tstamp phandler mid pdata =
     (if mq_fStop q then q
      else
        let q = (if mid = MQID_QUIT then q\<lparr>mq_fStop := True\<rparr> else q);
            q = EnsureActive q;
            msg = Message_new\<lparr>msg_phandler := phandler, msg_message_id := mid, msg_pdata := pdata\<rparr>;
            dmsg = \<lparr>dm_cmsDelay = cmsDelay, dm_msTrigger = tstamp, dm_num = mq_next_num q, dm_msg = msg\<rparr>
        in q\<lparr>mq_dmsgq := dmsg # mq_dmsgq q, mq_next_num := mq_next_num q + 1\<rparr>)"

definition PostDelayed :: "message_queue \<Rightarrow> u32 \<Rightarrow> int \<Rightarrow> nat option \<Rightarrow> u32 \<Rightarrow> nat option \<Rightarrow> message_queue" where
  "PostDelayed q now cmsDelay phandler mid pdata =
     DoDelayPost q cmsDelay (now + word_of_int cmsDelay) phandler mid pdata"

definition PostAt :: "message_queue \<Rightarrow> u32 \<Rightarrow> u32 \<Rightarrow> nat option \<Rightarrow> u32 \<Rightarrow> nat option \<Rightarrow> message_queue" where
  "PostAt q now tstamp phandler mid pdata = DoDelayPost q (TimeDiff tstamp now) tstamp phandler mid pdata"

definition Quit :: "message_queue \<Rightarrow> message_queue" where
  "Quit q = Post q 0 None MQID_QUIT None False"

definition IsQuitting :: "message_queue \<Rightarrow> bool" where
  "IsQuitting q = mq_fStop q"

definition Restart :: "message_queue \<Rightarrow> message_queue" where
  "Restart q = q\<lparr>mq_fStop := False\<rparr>"

definition Dispose :: "message_queue \<Rightarrow> nat option \<Rightarrow> message_queue" where
  "Dispose q doomed = (if doomed \<noteq> None then Post q 0 None MQID_DISPOSE doomed False else q)"

subsection \<open>Taking messages\<close>

text \<open>The first pass of \<open>Get\<close>: due delayed messages join the queue; the time until the next one that is not due.\<close>

function release_due :: "u32 \<Rightarrow> message_queue \<Rightarrow> int \<times> message_queue" where
  "release_due msCurrent q =
     (case pq_top (mq_dmsgq q) of
        None \<Rightarrow> (kForever, q)
      | Some d \<Rightarrow>
          if TimeIsLater msCurrent (dm_msTrigger d) then (TimeDiff (dm_msTrigger d) msCurrent, q)
          else release_due msCurrent (q\<lparr>mq_msgq := mq_msgq q @ [dm_msg d], mq_dmsgq := remove1 d (mq_dmsgq q)\<rparr>))"
  by pat_completeness auto
lemma pq_pop_smaller: "pq_top ds = Some d \<Longrightarrow> length (remove1 d ds) < length ds"
  using pq_top_in [of ds d] length_pos_if_in_set [of d ds] by (simp add: length_remove1)

termination release_due
  by (relation "measure (\<lambda>(now, q). length (mq_dmsgq q))") (auto dest: pq_pop_smaller)

declare release_due.simps [simp del]

definition delete_pdata :: "nat option \<Rightarrow> nat list" where
  "delete_pdata p = (case p of None \<Rightarrow> [] | Some d \<Rightarrow> [d])"

text \<open>
  The loop that pulls a message off the queue: disposes what has to be disposed of, and stops at a message
  (\<open>Some (True, m)\<close>), at the quit message (\<open>Some (False, m)\<close>) or at the end of the queue.
\<close>

fun pull :: "Message list \<Rightarrow> nat list \<Rightarrow> (bool \<times> Message) option \<times> Message list \<times> nat list" where
  "pull [] deleted = (None, [], deleted)"
| "pull (m # ms) deleted =
     (if msg_message_id m = MQID_DISPOSE then pull ms (deleted @ delete_pdata (msg_pdata m))
      else if msg_message_id m = MQID_QUIT then (Some (False, m), ms, deleted)
      else (Some (True, m), ms, deleted))"

text \<open>One round of the outer loop without the wait: what it returns, the next delay, and the queue.\<close>

definition get_pass :: "u32 \<Rightarrow> message_queue \<Rightarrow> (bool \<times> Message) option \<times> int \<times> message_queue" where
  "get_pass msCurrent q =
     (let (cmsDelayNext, q) = release_due msCurrent q;
          (r, ms, deleted) = pull (mq_msgq q) (mq_deleted q)
      in (r, cmsDelayNext, q\<lparr>mq_msgq := ms, mq_deleted := deleted\<rparr>))"

definition next_wait :: "int \<Rightarrow> int \<Rightarrow> int \<Rightarrow> int" where
  "next_wait cmsWait cmsElapsed cmsDelayNext =
     (if cmsWait = kForever then cmsDelayNext
      else
        let cmsNext = max 0 (cmsWait - cmsElapsed)
        in if cmsDelayNext \<noteq> kForever \<and> cmsDelayNext < cmsNext then cmsDelayNext else cmsNext)"

text \<open>
  The outer loop in its \<open>k\<close>-th round: \<open>q_time e k\<close> is the current time of the round and \<open>q_wait e k\<close> the wait at
  its end.  It returns \<open>None\<close> only if it never ends.  \<open>stored\<close> is what \<open>Get\<close> has written to the caller's message so
  far, \<open>None\<close> if it was not touched; a message that was disposed of leaves \<open>Message()\<close> there.
\<close>

partial_function (option) Get_loop ::
    "mq_env \<Rightarrow> int \<Rightarrow> int \<Rightarrow> Message option \<Rightarrow> nat \<Rightarrow> message_queue \<Rightarrow> (bool \<times> Message option \<times> message_queue) option" where
  [code]: "Get_loop e cmsWait cmsElapsed stored k q =
     (let disposed = (mq_msgq (snd (release_due (q_time e k) q)) \<noteq> []);
          (r, cmsDelayNext, q) = get_pass (q_time e k) q in
      case r of
        Some (b, m) \<Rightarrow> Some (b, Some m, q)
      | None \<Rightarrow>
          let stored = (if disposed then Some Message_new else stored);
              (ok, q) = q_wait e k (next_wait cmsWait cmsElapsed cmsDelayNext) q in
          if \<not> ok then Some (False, stored, q)
          else
            let cmsElapsed = TimeDiff (q_time e (Suc k)) (q_time e 0) in
            if cmsWait \<noteq> kForever \<and> cmsElapsed \<ge> cmsWait then Some (False, stored, q)
            else Get_loop e cmsWait cmsElapsed stored (Suc k) q)"

definition Get :: "mq_env \<Rightarrow> message_queue \<Rightarrow> int \<Rightarrow> (bool \<times> Message option \<times> message_queue) option" where
  "Get e q cmsWait =
     (if mq_fPeekKeep q then Some (True, Some (mq_msgPeek q), q\<lparr>mq_fPeekKeep := False\<rparr>)
      else Get_loop e cmsWait 0 None 0 q)"

definition Peek :: "mq_env \<Rightarrow> message_queue \<Rightarrow> int \<Rightarrow> (bool \<times> Message option \<times> message_queue) option" where
  "Peek e q cmsWait =
     (if mq_fPeekKeep q then Some (True, Some (mq_msgPeek q), q)
      else
        (case Get e q cmsWait of
           Some (True, Some m, q) \<Rightarrow> Some (True, Some m, q\<lparr>mq_msgPeek := m, mq_fPeekKeep := True\<rparr>)
         | r \<Rightarrow> r))"

definition GetDelay :: "message_queue \<Rightarrow> u32 \<Rightarrow> int" where
  "GetDelay q now =
     (if mq_msgq q \<noteq> [] then 0
      else
        (case pq_top (mq_dmsgq q) of
           Some d \<Rightarrow> max 0 (TimeDiff (dm_msTrigger d) now)
         | None \<Rightarrow> kForever))"

definition mq_size :: "message_queue \<Rightarrow> nat" where
  "mq_size q = length (mq_msgq q) + length (mq_dmsgq q) + (if mq_fPeekKeep q then 1 else 0)"

definition mq_empty :: "message_queue \<Rightarrow> bool" where
  "mq_empty q \<longleftrightarrow> mq_size q = 0"

text \<open>
  \<open>Clear\<close> with the removed messages; without a list to put them into (\<open>keep = False\<close>) it deletes their data.
\<close>

definition mq_Clear :: "message_queue \<Rightarrow> nat option \<Rightarrow> u32 \<Rightarrow> bool \<Rightarrow> Message list \<times> message_queue" where
  "mq_Clear q phandler mid keep =
     (let hit = (\<lambda>m. Match m phandler mid);
          removed = (if mq_fPeekKeep q \<and> hit (mq_msgPeek q) then [mq_msgPeek q] else []);
          q = (if mq_fPeekKeep q \<and> hit (mq_msgPeek q) then q\<lparr>mq_fPeekKeep := False\<rparr> else q);
          removed = removed @ filter hit (mq_msgq q);
          q = q\<lparr>mq_msgq := filter (\<lambda>m. \<not> hit m) (mq_msgq q)\<rparr>;
          removed = removed @ map dm_msg (filter (\<lambda>d. hit (dm_msg d)) (mq_dmsgq q));
          q = q\<lparr>mq_dmsgq := filter (\<lambda>d. \<not> hit (dm_msg d)) (mq_dmsgq q)\<rparr>
      in if keep then (removed, q)
         else ([], q\<lparr>mq_deleted := mq_deleted q @ concat (map (delete_pdata \<circ> msg_pdata) removed)\<rparr>))"

subsection \<open>The priority queue\<close>

definition dm_key :: "DelayedMessage \<Rightarrow> u32 \<times> u32" where
  "dm_key d = (dm_msTrigger d, dm_num d)"

lemma dm_less_key: "dm_less a b \<longleftrightarrow> dm_key b < dm_key a"
  by (auto simp: dm_less_def dm_key_def less_prod_def')

lemma pq_top_None [simp]: "pq_top ds = None \<longleftrightarrow> ds = []"
  by (cases ds) (auto split: option.splits)

lemma pq_top_least: "pq_top ds = Some d \<Longrightarrow> e \<in> set ds \<Longrightarrow> dm_key d \<le> dm_key e"
proof (induction ds arbitrary: d)
  case (Cons x ds)
  show ?case
  proof (cases "pq_top ds")
    case None
    then show ?thesis using Cons.prems by simp
  next
    case (Some y)
    then have "dm_key y \<le> dm_key e \<or> e = x" using Cons.IH [of y] Cons.prems(2) by auto
    moreover have "d = (if dm_key y < dm_key x then y else x)" using Cons.prems(1) Some by (auto simp: dm_less_key split: if_splits)
    ultimately show ?thesis by (auto intro: order_trans)
  qed
qed simp

lemma pq_top_sorted:
  assumes "pq_top ds = Some d" and "distinct (map dm_key ds)"
  shows "sort_key dm_key ds = d # sort_key dm_key (remove1 d ds)"
proof -
  have d: "d \<in> set ds" using pq_top_in [OF assms(1)] .
  have ms: "mset (d # sort_key dm_key (remove1 d ds)) = mset ds" using d by simp
  have "\<forall>e\<in>set (remove1 d ds). dm_key d \<le> dm_key e"
    using pq_top_least [OF assms(1)] notin_set_remove1 by metis
  then have "sorted (map dm_key (d # sort_key dm_key (remove1 d ds)))" by simp
  moreover have "inj_on dm_key (set ds)" using assms(2) by (simp add: distinct_map)
  ultimately show ?thesis by (intro sort_key_inj_key_eq [OF ms [symmetric]])
qed

text \<open>The delayed messages have different keys as long as their numbers have not wrapped around.\<close>

definition mq_ok :: "message_queue \<Rightarrow> bool" where
  "mq_ok q \<longleftrightarrow> distinct (map dm_key (mq_dmsgq q)) \<and> (\<forall>d\<in>set (mq_dmsgq q). dm_num d < mq_next_num q)"

lemma mq_ok_new: "mq_ok MessageQueue_new"
  by (simp add: mq_ok_def MessageQueue_new_def)

lemma mq_ok_Post: "mq_ok (Post q now h mid p ts) = mq_ok q"
  by (simp add: mq_ok_def Post_def EnsureActive_def Let_def)

lemma mq_ok_DoDelayPost:
  assumes "mq_ok q" and "mq_next_num q \<noteq> - 1"
  shows "mq_ok (DoDelayPost q delay tstamp h mid p)"
proof -
  have lt: "mq_next_num q < mq_next_num q + 1"
    using assms(2) unatSuc [of "mq_next_num q"] by (simp add: word_less_nat_alt add.commute add_eq_0_iff)
  have "\<forall>d\<in>set (mq_dmsgq q). dm_num d < mq_next_num q + 1" "\<forall>d\<in>set (mq_dmsgq q). dm_num d \<noteq> mq_next_num q"
    using assms(1) lt by (auto simp: mq_ok_def intro: less_trans)
  then show ?thesis using assms(1) lt by (auto simp: mq_ok_def DoDelayPost_def EnsureActive_def Let_def dm_key_def)
qed

lemma mq_ok_remove: "mq_ok q \<Longrightarrow> mq_ok (q\<lparr>mq_msgq := ms, mq_dmsgq := remove1 d (mq_dmsgq q)\<rparr>)"
  using set_remove1_subset [of d "mq_dmsgq q"]
  by (auto simp: mq_ok_def distinct_map intro: inj_on_subset)

subsection \<open>Delayed messages\<close>

definition is_due :: "u32 \<Rightarrow> DelayedMessage \<Rightarrow> bool" where
  "is_due now d \<longleftrightarrow> \<not> TimeIsLater now (dm_msTrigger d)"

lemma release_due_sorted:
  assumes "mq_ok q" and "release_due now q = (delay, q')" and "s = sort_key dm_key (mq_dmsgq q)"
  shows "mq_msgq q' = mq_msgq q @ map dm_msg (takeWhile (is_due now) s)
    \<and> sort_key dm_key (mq_dmsgq q') = dropWhile (is_due now) s \<and> mq_ok q'
    \<and> mq_deleted q' = mq_deleted q \<and> mq_fStop q' = mq_fStop q \<and> mq_fPeekKeep q' = mq_fPeekKeep q"
  using assms
proof (induction now q arbitrary: s rule: release_due.induct)
  case (1 now q)
  show ?case
  proof (cases "pq_top (mq_dmsgq q)")
    case None
    then show ?thesis using "1.prems" by (simp add: release_due.simps [of now q])
  next
    case (Some d)
    have s: "s = d # sort_key dm_key (remove1 d (mq_dmsgq q))"
      using pq_top_sorted [OF Some] "1.prems" by (simp add: mq_ok_def)
    show ?thesis
    proof (cases "TimeIsLater now (dm_msTrigger d)")
      case True
      then have "q' = q" using "1.prems"(2) Some by (simp add: release_due.simps [of now q])
      moreover have "s = sort_key dm_key (mq_dmsgq q)" by (rule "1.prems"(3))
      moreover have "takeWhile (is_due now) s = []" "dropWhile (is_due now) s = s" using True by (simp_all add: s is_due_def)
      ultimately show ?thesis using "1.prems"(1) by simp
    next
      case False
      let ?q = "q\<lparr>mq_msgq := mq_msgq q @ [dm_msg d], mq_dmsgq := remove1 d (mq_dmsgq q)\<rparr>"
      have "release_due now ?q = (delay, q')" using "1.prems"(2) Some False by (simp add: release_due.simps [of now q])
      from "1.IH" [OF Some False mq_ok_remove [OF "1.prems"(1)] this refl]
      show ?thesis using False by (simp add: s is_due_def)
    qed
  qed
qed

lemma is_due_uint:
  assumes "\<bar>uint (dm_msTrigger d) - now\<bar> < 2 ^ 31"
  shows "is_due (word_of_int now) d \<longleftrightarrow> uint (dm_msTrigger d) \<le> now"
  using timestamp_order [OF assms] by (simp add: is_due_def not_less)

lemma takeWhile_sorted_filter:
  "sorted (map f xs) \<Longrightarrow> (\<And>x y. P y \<Longrightarrow> f x \<le> f y \<Longrightarrow> x \<in> set xs \<Longrightarrow> y \<in> set xs \<Longrightarrow> P x) \<Longrightarrow> takeWhile P xs = filter P xs"
proof (induction xs)
  case (Cons x xs)
  show ?case
  proof (cases "P x")
    case True
    then show ?thesis using Cons.IH Cons.prems by auto
  next
    case False
    have "\<not> P y" if "y \<in> set xs" for y using Cons.prems(2) [of y x] Cons.prems(1) that False by auto
    then show ?thesis using False by (simp add: filter_empty_conv)
  qed
qed simp

text \<open>
  C18: A delayed message is never released early and never kept back: a round of \<open>Get\<close> at the time \<open>now\<close> moves exactly
  the messages whose time has come to the end of the queue, the earliest first and those of one time in the order
  they were posted, provided the trigger times lie in one period of the 32-bit clock and within half of it from now.
\<close>

theorem delayed_messages_released_in_order:
  assumes "mq_ok q" and "\<forall>d\<in>set (mq_dmsgq q). \<bar>uint (dm_msTrigger d) - now\<bar> < 2 ^ 31"
    and "release_due (word_of_int now) q = (delay, q')"
  shows "mq_msgq q' = mq_msgq q @ map dm_msg (filter (\<lambda>d. uint (dm_msTrigger d) \<le> now) (sort_key dm_key (mq_dmsgq q)))
    \<and> mset (mq_dmsgq q') = filter_mset (\<lambda>d. now < uint (dm_msTrigger d)) (mset (mq_dmsgq q))"
proof -
  let ?s = "sort_key dm_key (mq_dmsgq q)" and ?due = "\<lambda>d. uint (dm_msTrigger d) \<le> now"
  note r = release_due_sorted [OF assms(1,3) refl]
  have due: "is_due (word_of_int now) d \<longleftrightarrow> ?due d" if "d \<in> set ?s" for d
    using is_due_uint assms(2) that by simp
  have mono: "dm_key d \<le> dm_key e \<Longrightarrow> uint (dm_msTrigger d) \<le> uint (dm_msTrigger e)" for d e
    by (auto simp: dm_key_def less_eq_prod_def word_le_def word_less_def)
  have "takeWhile ?due ?s = filter ?due ?s"
    by (rule takeWhile_sorted_filter [where f = dm_key]) (use mono in \<open>auto dest: order_trans\<close>)
  moreover have "takeWhile (is_due (word_of_int now)) ?s = takeWhile ?due ?s" using due by (rule takeWhile_cong [OF refl])
  ultimately have tw: "takeWhile (is_due (word_of_int now)) ?s = filter ?due ?s" by simp
  have "mset (takeWhile (is_due (word_of_int now)) ?s) + mset (dropWhile (is_due (word_of_int now)) ?s) = mset ?s"
    by (metis mset_append takeWhile_dropWhile_id)
  moreover have "mset (mq_dmsgq q') = mset (dropWhile (is_due (word_of_int now)) ?s)" using r by (metis mset_sort)
  ultimately have "filter_mset ?due (mset (mq_dmsgq q)) + mset (mq_dmsgq q') = mset (mq_dmsgq q)" using tw by (simp add: mset_filter)
  moreover have "filter_mset ?due M + filter_mset (\<lambda>d. now < uint (dm_msTrigger d)) M = M" for M
    using multiset_partition [of M ?due] by (simp add: not_le)
  ultimately have "mset (mq_dmsgq q') = filter_mset (\<lambda>d. now < uint (dm_msTrigger d)) (mset (mq_dmsgq q))" by (metis add_left_cancel)
  then show ?thesis using r tw by simp
qed

text \<open>Two queues that are used to apply the theorems.\<close>

definition sample_delayed :: "u32 \<Rightarrow> u32 \<Rightarrow> u32 \<Rightarrow> DelayedMessage" where
  "sample_delayed trigger num mid =
     \<lparr>dm_cmsDelay = 0, dm_msTrigger = trigger, dm_num = num, dm_msg = Message_new\<lparr>msg_message_id := mid\<rparr>\<rparr>"

definition sample_queue :: message_queue where
  "sample_queue = MessageQueue_new\<lparr>mq_next_num := 3, mq_dmsgq := [sample_delayed 30 2 7, sample_delayed 10 1 8, sample_delayed 10 0 9]\<rparr>"

lemma sample_queue_ok: "mq_ok sample_queue"
  by (simp add: mq_ok_def sample_queue_def sample_delayed_def dm_key_def)

lemma sample_queue_near: "\<forall>d\<in>set (mq_dmsgq sample_queue). \<bar>uint (dm_msTrigger d) - 20\<bar> < 2 ^ 31"
  by (simp add: sample_queue_def sample_delayed_def)

theorem delayed_messages_released_in_order_witness:
  "map msg_message_id (mq_msgq (snd (release_due (word_of_int 20) sample_queue))) = [9, 8]"
  using delayed_messages_released_in_order [OF sample_queue_ok sample_queue_near prod.collapse [symmetric]]
  by (simp add: sample_queue_def sample_delayed_def dm_key_def less_eq_prod_def MessageQueue_new_def)

text \<open>
  A trigger time that has wrapped around overtakes one that has not: \<open>operator<\<close> compares the 32-bit stamps as
  plain numbers while \<open>Get\<close> compares them with \<open>TimeIsLater\<close>.  Ten milliseconds before the clock wraps, a message
  that was due 6 ms ago stays in the queue behind one that is due in 15 ms, and \<open>Get\<close> plans to sleep for 15 ms.
\<close>

theorem wrapped_trigger_blocks_due_message:
  fixes late due :: DelayedMessage
  defines "late \<equiv> sample_delayed 5 0 7" and "due \<equiv> sample_delayed 0xFFFFFFF0 1 8"
  defines "q \<equiv> MessageQueue_new\<lparr>mq_dmsgq := [due, late], mq_next_num := 2\<rparr>"
  shows "TimeDiff (dm_msTrigger due) 0xFFFFFFF6 = - 6 \<and> TimeDiff (dm_msTrigger late) 0xFFFFFFF6 = 15
    \<and> get_pass 0xFFFFFFF6 q = (None, 15, q) \<and> next_wait kForever 0 15 = 15"
proof -
  have "\<not> TimeIsLater 0xFFFFFFF6 0xFFFFFFF0" "TimeIsLater 0xFFFFFFF6 5" "TimeDiff 5 0xFFFFFFF6 = 15" "TimeDiff 0xFFFFFFF0 0xFFFFFFF6 = - 6"
    by (simp_all add: TimeIsLater_diff TimeDiff_uint)
  then show ?thesis
    by (simp add: late_def due_def q_def sample_delayed_def get_pass_def release_due.simps dm_less_def MessageQueue_new_def next_wait_def)
qed

subsection \<open>Quitting\<close>

text \<open>What a thread sees of its queue while others use it: posts of any kind, and its own \<open>Get\<close>s.\<close>

datatype mq_op =
    Op_Post u32 "nat option" u32 "nat option" bool
  | Op_PostDelayed u32 int "nat option" u32 "nat option"
  | Op_PostAt u32 u32 "nat option" u32 "nat option"
  | Op_Dispose "nat option"
  | Op_Get mq_env int

fun mq_run :: "mq_op list \<Rightarrow> message_queue \<Rightarrow> ((bool \<times> Message option) list \<times> message_queue) option" where
  "mq_run [] q = Some ([], q)"
| "mq_run (Op_Post now h mid p ts # ops) q = mq_run ops (Post q now h mid p ts)"
| "mq_run (Op_PostDelayed now delay h mid p # ops) q = mq_run ops (PostDelayed q now delay h mid p)"
| "mq_run (Op_PostAt now tstamp h mid p # ops) q = mq_run ops (PostAt q now tstamp h mid p)"
| "mq_run (Op_Dispose p # ops) q = mq_run ops (Dispose q p)"
| "mq_run (Op_Get e wait # ops) q =
     (case Get e q wait of
        None \<Rightarrow> None
      | Some (b, m, q) \<Rightarrow> map_option (\<lambda>(rs, q). ((b, m) # rs, q)) (mq_run ops q))"

fun is_Get :: "mq_op \<Rightarrow> bool" where
  "is_Get (Op_Get e wait) = True"
| "is_Get _ = False"

definition quit_message :: Message where
  "quit_message = Message_new\<lparr>msg_message_id := MQID_QUIT\<rparr>"

text \<open>The messages that \<open>Get\<close> returns, unless a quit message is among them.\<close>

definition ready :: "message_queue \<Rightarrow> Message list" where
  "ready q = (if mq_fPeekKeep q then [mq_msgPeek q] else []) @ filter (\<lambda>m. msg_message_id m \<noteq> MQID_DISPOSE) (mq_msgq q)"

lemma MQID_distinct [simp]: "MQID_QUIT \<noteq> MQID_DISPOSE" "MQID_DISPOSE \<noteq> MQID_QUIT"
  by (simp_all add: MQID_QUIT_def MQID_DISPOSE_def)

lemma stopped_ignores_posts:
  assumes "mq_fStop q"
  shows "Post q now h mid p ts = q" "PostDelayed q now delay h mid p = q" "PostAt q now tstamp h mid p = q" "Dispose q p = q"
  using assms by (simp_all add: Post_def PostDelayed_def PostAt_def DoDelayPost_def Dispose_def)

lemma release_due_appends:
  "release_due now q = (delay, q') \<Longrightarrow> \<exists>ms ds. q' = q\<lparr>mq_msgq := mq_msgq q @ ms, mq_dmsgq := ds\<rparr>"
proof (induction now q rule: release_due.induct)
  case (1 now q)
  show ?case
  proof (cases "pq_top (mq_dmsgq q)")
    case None
    then have "q' = q" using "1.prems" by (simp add: release_due.simps [of now q])
    then show ?thesis by (intro exI [of _ "[]"] exI [of _ "mq_dmsgq q"]) simp
  next
    case (Some d)
    show ?thesis
    proof (cases "TimeIsLater now (dm_msTrigger d)")
      case True
      then have "q' = q" using "1.prems" Some by (simp add: release_due.simps [of now q])
      then show ?thesis by (intro exI [of _ "[]"] exI [of _ "mq_dmsgq q"]) simp
    next
      case False
      have "release_due now (q\<lparr>mq_msgq := mq_msgq q @ [dm_msg d], mq_dmsgq := remove1 d (mq_dmsgq q)\<rparr>) = (delay, q')"
        using "1.prems" Some False by (simp add: release_due.simps [of now q])
      from "1.IH" [OF Some False this] show ?thesis by auto
    qed
  qed
qed

lemma pull_append:
  "filter (\<lambda>m. msg_message_id m \<noteq> MQID_DISPOSE) ms = m # rest \<Longrightarrow>
   \<exists>ms' deleted'. pull (ms @ zs) deleted = (Some (msg_message_id m \<noteq> MQID_QUIT, m), ms' @ zs, deleted')
     \<and> filter (\<lambda>m. msg_message_id m \<noteq> MQID_DISPOSE) ms' = rest"
  by (induction ms arbitrary: deleted) (auto split: if_splits)

lemma Get_ready:
  assumes "ready q = m # rest" and "mq_fPeekKeep q \<longrightarrow> msg_message_id (mq_msgPeek q) \<noteq> MQID_QUIT"
  shows "\<exists>q' zs. Get e q wait = Some (msg_message_id m \<noteq> MQID_QUIT, Some m, q') \<and> ready q' = rest @ zs
    \<and> mq_fStop q' = mq_fStop q \<and> \<not> mq_fPeekKeep q'"
proof (cases "mq_fPeekKeep q")
  case True
  then show ?thesis using assms by (simp add: Get_def ready_def)
next
  case False
  obtain delay q1 where r: "release_due (q_time e 0) q = (delay, q1)" by fastforce
  from release_due_appends [OF r] obtain ms ds where q1: "q1 = q\<lparr>mq_msgq := mq_msgq q @ ms, mq_dmsgq := ds\<rparr>" by blast
  have "filter (\<lambda>m. msg_message_id m \<noteq> MQID_DISPOSE) (mq_msgq q) = m # rest" using assms(1) False by (simp add: ready_def)
  from pull_append [OF this, of ms "mq_deleted q"] obtain ms' deleted' where
    p: "pull (mq_msgq q @ ms) (mq_deleted q) = (Some (msg_message_id m \<noteq> MQID_QUIT, m), ms' @ ms, deleted')"
    and "filter (\<lambda>m. msg_message_id m \<noteq> MQID_DISPOSE) ms' = rest" by blast
  moreover have "Get e q wait = Some (msg_message_id m \<noteq> MQID_QUIT, Some m, q1\<lparr>mq_msgq := ms' @ ms, mq_deleted := deleted'\<rparr>)"
    using False r p by (simp add: Get_def Get_loop.simps [of e wait 0 None 0 q] get_pass_def q1)
  ultimately show ?thesis using False q1 by (simp add: ready_def)
qed

lemma mq_run_stopped:
  assumes "mq_fStop q" and "ready q = ms @ quit_message # zs" and "\<forall>m\<in>set ms. msg_message_id m \<noteq> MQID_QUIT"
    and "mq_fPeekKeep q \<longrightarrow> msg_message_id (mq_msgPeek q) \<noteq> MQID_QUIT"
    and "length (filter is_Get ops) = Suc (length ms)"
  shows "\<exists>q'. mq_run ops q = Some (map (\<lambda>m. (True, Some m)) ms @ [(False, Some quit_message)], q')"
  using assms
proof (induction ops arbitrary: q ms zs)
  case (Cons op ops)
  show ?case
  proof (cases op)
    case (Op_Get e wait)
    show ?thesis
    proof (cases ms)
      case Nil
      have "ready q = quit_message # zs" using Cons.prems(2) Nil by simp
      from Get_ready [OF this Cons.prems(4), of e wait] obtain q' where
        g: "Get e q wait = Some (False, Some quit_message, q')" and st: "mq_fStop q'"
        using Cons.prems(1) by (auto simp: quit_message_def)
      have "filter is_Get ops = []" using Cons.prems(5) Nil Op_Get by simp
      then have "mq_run ops q' = Some ([], q')" using st
      proof (induction ops)
        case (Cons op ops)
        then show ?case by (cases op) (auto simp: stopped_ignores_posts split: if_splits)
      qed simp
      then show ?thesis using g Nil Op_Get by simp
    next
      case (Cons m ms')
      have "ready q = m # (ms' @ quit_message # zs)" using Cons.prems(2) Cons by simp
      from Get_ready [OF this Cons.prems(4), of e wait] obtain q' zs' where
        g: "Get e q wait = Some (True, Some m, q')" and "ready q' = ms' @ quit_message # (zs @ zs')" "mq_fStop q'" "\<not> mq_fPeekKeep q'"
        using Cons.prems(1,3) Cons by auto
      then show ?thesis using Cons.IH [of q' ms' "zs @ zs'"] Cons.prems Cons Op_Get by auto
    qed
  qed (use Cons in \<open>auto simp: stopped_ignores_posts\<close>)
qed simp

text \<open>
  C19: After \<open>Quit\<close> the messages that were in the queue are delivered, in order and without waiting, before \<open>Get\<close> returns
  false; nothing posted later is delivered before that, and disposals are carried out and never delivered.  Delayed
  messages are not delivered either, not even those whose time had come.
\<close>

theorem quit_delivers_ready:
  assumes "\<not> mq_fStop q" and "\<forall>m\<in>set (ready q). msg_message_id m \<noteq> MQID_QUIT"
    and "length (filter is_Get ops) = Suc (length (ready q))"
  shows "IsQuitting (Quit q)
    \<and> (\<exists>q'. mq_run ops (Quit q) = Some (map (\<lambda>m. (True, Some m)) (ready q) @ [(False, Some quit_message)], q'))"
proof -
  have st: "mq_fStop (Quit q)" and keep: "mq_fPeekKeep (Quit q) = mq_fPeekKeep q" "mq_msgPeek (Quit q) = mq_msgPeek q"
    and q: "mq_msgq (Quit q) = mq_msgq q @ [quit_message]"
    using assms(1) by (simp_all add: Quit_def Post_def EnsureActive_def Let_def quit_message_def Message_new_def)
  have "ready (Quit q) = ready q @ quit_message # []" using keep q by (simp add: ready_def quit_message_def)
  moreover have "mq_fPeekKeep (Quit q) \<longrightarrow> msg_message_id (mq_msgPeek (Quit q)) \<noteq> MQID_QUIT"
    using assms(2) keep by (simp add: ready_def)
  ultimately show ?thesis using mq_run_stopped [OF st _ assms(2) _ assms(3)] st by (simp add: IsQuitting_def)
qed

definition sample_env :: "int \<Rightarrow> mq_env" where
  "sample_env step = \<lparr>q_time = (\<lambda>k. word_of_int (20 + step * int k)), q_wait = (\<lambda>k cms q. (True, q))\<rparr>"

definition sample_ready :: message_queue where
  "sample_ready = sample_queue\<lparr>mq_msgq := [Message_new\<lparr>msg_message_id := 5\<rparr>]\<rparr>"

text \<open>Two delayed messages of this queue are due at time 20, and are not delivered.\<close>

theorem quit_delivers_ready_witness:
  "\<exists>q'. mq_run [Op_Get (sample_env 1) kForever, Op_Post 0 None 4 None False, Op_Get (sample_env 1) kForever] (Quit sample_ready)
    = Some ([(True, Some (Message_new\<lparr>msg_message_id := 5\<rparr>)), (False, Some quit_message)], q')"
  using quit_delivers_ready [of sample_ready "[Op_Get (sample_env 1) kForever, Op_Post 0 None 4 None False, Op_Get (sample_env 1) kForever]"]
  by (simp add: sample_ready_def sample_queue_def MessageQueue_new_def ready_def MQID_QUIT_def MQID_DISPOSE_def)

subsection \<open>The wait\<close>

lemma release_due_delay: "release_due now q = (delay, q') \<Longrightarrow> delay = kForever \<and> mq_dmsgq q' = [] \<or> 0 < delay"
proof (induction now q rule: release_due.induct)
  case (1 now q)
  show ?case
  proof (cases "pq_top (mq_dmsgq q)")
    case None
    then show ?thesis using "1.prems" by (auto simp: release_due.simps [of now q])
  next
    case (Some d)
    then show ?thesis
      using "1.prems" "1.IH" [OF Some] by (auto simp: release_due.simps [of now q] TimeIsLater_diff split: if_splits)
  qed
qed

lemma get_pass_delay: "get_pass now q = (r, delay, q') \<Longrightarrow> delay = kForever \<and> mq_dmsgq q' = [] \<or> 0 < delay"
  using release_due_delay [of now q] by (auto simp: get_pass_def split: prod.splits)

text \<open>
  C20: A \<open>Get\<close> with a time limit returns, whatever other threads post meanwhile, as soon as the clock has passed the limit
  at the end of some wait.  The wait it asks for at the end of a round is a finite one, never longer than what is left of
  the limit and never beyond the time of the next delayed message; without a limit it waits for that message, and for
  ever only if there is none.
\<close>

theorem Get_returns_in_time:
  assumes "cmsWait \<noteq> kForever" and "TimeDiff (q_time e (Suc n)) (q_time e 0) \<ge> cmsWait" and "get_pass now q1 = (r, delay, q2)"
  shows "(\<exists>r. Get e q cmsWait = Some r) \<and>
    0 \<le> next_wait cmsWait elapsed delay \<and> next_wait cmsWait elapsed delay \<le> max 0 (cmsWait - elapsed) \<and>
    (delay \<noteq> kForever \<longrightarrow> next_wait cmsWait elapsed delay \<le> delay) \<and>
    next_wait kForever elapsed delay = delay \<and> (delay = kForever \<longrightarrow> mq_dmsgq q2 = [])"
proof -
  have "\<exists>r. Get_loop e cmsWait el st (n - j) q = Some r" if "j \<le> n" for j el st q
    using that
  proof (induction j arbitrary: el st q)
    case 0
    then show ?case using assms(1,2)
      by (subst Get_loop.simps) (auto simp: Let_def split: prod.splits option.splits)
  next
    case (Suc j)
    then have "Suc (n - Suc j) = n - j" by simp
    then show ?case using Suc
      by (subst Get_loop.simps) (auto simp: Let_def split: prod.splits option.splits)
  qed
  from this [of n 0 None q] have "\<exists>r. Get e q cmsWait = Some r" by (cases "mq_fPeekKeep q") (auto simp: Get_def intro: exI [of _ True])
  then show ?thesis using assms(1) get_pass_delay [OF assms(3)] by (auto simp: next_wait_def Let_def kForever_def)
qed

theorem Get_returns_in_time_witness:
  "\<exists>r. Get (sample_env 10) MessageQueue_new 25 = Some r"
  using Get_returns_in_time [of 25 "sample_env 10" 2 20 MessageQueue_new None kForever MessageQueue_new MessageQueue_new 0]
  by (simp add: sample_env_def kForever_def TimeDiff_uint get_pass_def release_due.simps MessageQueue_new_def)

end
