(* ===== verification/StunRequest.thy ===== *)
theory StunRequest
  imports StunProofs MessageQueue "HOL-Library.AList"
begin

text \<open>
  \<open>StunRequestManager\<close> and \<open>StunRequest\<close> of \<open>talk/p2p/base/stunrequest.cc\<close> on the message queue of their thread:
  a request is sent, resent at growing intervals and ends with a response, an error response or a timeout.

  Request objects live in a heap, so that a use of a deleted one is \<open>None\<close>; the callbacks to a request and the
  packets it sends are events.  The virtual functions are parameters: \<open>Prepare\<close>, and \<open>GetNextDelay\<close> as a function of
  the two members it works on, \<open>count_\<close> and \<open>timeout_\<close>.  What the application does in a callback is a later step.
\<close>

definition MSG_STUN_SEND :: u32 where "MSG_STUN_SEND = 1"
definition MAX_SENDS :: nat where "MAX_SENDS = 9"
definition DELAY_UNIT :: int where "DELAY_UNIT = 100"
definition DELAY_MAX_FACTOR :: int where "DELAY_MAX_FACTOR = 16"

record stun_request =
  rq_count :: nat
  rq_timeout :: bool
  rq_manager :: bool
  rq_msg :: stun_message
  rq_tstamp :: u32

text \<open>A packet that \<open>Write\<close> could not complete is \<open>None\<close>; the manager sends what there is of it.\<close>

datatype stun_event =
    SentPacket (event_request: nat) "byte list option"
  | Responded (event_request: nat) stun_message
  | ErrorResponded (event_request: nat) stun_message
  | TimedOut (event_request: nat)

record stun_manager =
  rm_requests :: "(byte list \<times> nat) list"
  rm_objects :: "nat \<Rightarrow> stun_request option"
  rm_thread :: message_queue
  rm_events :: "stun_event list"

type_synonym next_delay = "nat \<Rightarrow> bool \<Rightarrow> int \<times> nat \<times> bool"
type_synonym prepare = "nat \<Rightarrow> stun_message \<Rightarrow> stun_message"

definition StunRequestManager_new :: stun_manager where
  "StunRequestManager_new = \<lparr>rm_requests = [], rm_objects = (\<lambda>r. None), rm_thread = MessageQueue_new, rm_events = []\<rparr>"

text \<open>\<open>tid\<close> is the random string of the constructor.\<close>

definition StunRequest_new :: "stun_message \<Rightarrow> byte list \<Rightarrow> stun_request" where
  "StunRequest_new msg tid =
     \<lparr>rq_count = 0, rq_timeout = False, rq_manager = False,
      rq_msg = (case SetTransactionID msg tid of None \<Rightarrow> msg | Some msg \<Rightarrow> msg), rq_tstamp = 0\<rparr>"

definition request_id :: "stun_request \<Rightarrow> byte list" where
  "request_id rq = sm_tid (rq_msg rq)"

definition request_type :: "stun_request \<Rightarrow> u32" where
  "request_type rq = ucast (sm_type (rq_msg rq))"

definition Elapsed :: "stun_request \<Rightarrow> u32 \<Rightarrow> u32" where
  "Elapsed rq now = word_of_int (TimeDiff now (rq_tstamp rq))"

definition rq_Construct :: "prepare \<Rightarrow> nat \<Rightarrow> stun_request \<Rightarrow> stun_request" where
  "rq_Construct prepare r rq = (if request_type rq = 0 then rq\<lparr>rq_msg := prepare r (rq_msg rq)\<rparr> else rq)"

definition StunRequest_GetNextDelay :: next_delay where
  "StunRequest_GetNextDelay cnt timeout =
     (let delay = DELAY_UNIT * min (push_bit cnt 1) DELAY_MAX_FACTOR;
          cnt = cnt + 1
      in (delay, cnt, if cnt = MAX_SENDS then True else timeout))"

text \<open>\<open>AllocateRequest\<close> of the relay port overrides it.\<close>

definition AllocateRequest_GetNextDelay :: next_delay where
  "AllocateRequest_GetNextDelay cnt timeout =
     (let delay = 100 * max (push_bit cnt 1) 2;
          cnt = cnt + 1
      in (delay, cnt, if cnt = 5 then True else timeout))"

subsection \<open>The manager\<close>

definition SendDelayed :: "prepare \<Rightarrow> stun_manager \<Rightarrow> u32 \<Rightarrow> nat \<Rightarrow> int \<Rightarrow> stun_manager option" where
  "SendDelayed prepare m now r delay = do {
     rq \<leftarrow> rm_objects m r;
     let rq = rq_Construct prepare r (rq\<lparr>rq_manager := True\<rparr>);
     Some (m\<lparr>rm_objects := (rm_objects m)(r \<mapsto> rq),
             rm_requests := AList.update (request_id rq) r (rm_requests m),
             rm_thread := PostDelayed (rm_thread m) now delay (Some r) MSG_STUN_SEND None\<rparr>)
   }"

definition Manager_Send :: "prepare \<Rightarrow> stun_manager \<Rightarrow> u32 \<Rightarrow> nat \<Rightarrow> stun_manager option" where
  "Manager_Send prepare m now r = SendDelayed prepare m now r 0"

definition clear_handler :: "nat \<Rightarrow> stun_manager \<Rightarrow> stun_manager" where
  "clear_handler r m = m\<lparr>rm_thread := snd (mq_Clear (rm_thread m) (Some r) MQID_ANY False)\<rparr>"

definition Manager_Remove :: "stun_manager \<Rightarrow> nat \<Rightarrow> stun_manager option" where
  "Manager_Remove m r = do {
     rq \<leftarrow> rm_objects m r;
     case map_of (rm_requests m) (request_id rq) of
       None \<Rightarrow> Some m
     | Some r' \<Rightarrow> Some (clear_handler r (m\<lparr>rm_requests := AList.delete (request_id rq) (rm_requests m)\<rparr>))
   }"

text \<open>\<open>delete request\<close>, with the destructor of \<open>MessageHandler\<close>.\<close>

definition delete_request :: "stun_manager \<Rightarrow> nat \<Rightarrow> stun_manager option" where
  "delete_request m r = do {
     rq \<leftarrow> rm_objects m r;
     m \<leftarrow> (if rq_manager rq then map_option (clear_handler r) (Manager_Remove m r) else Some m);
     Some ((clear_handler r m)\<lparr>rm_objects := (rm_objects m)(r := None)\<rparr>)
   }"

fun delete_requests :: "stun_manager \<Rightarrow> nat list \<Rightarrow> stun_manager option" where
  "delete_requests m [] = Some m"
| "delete_requests m (r # rs) = do { m \<leftarrow> delete_request m r; delete_requests m rs }"

definition Manager_Clear :: "stun_manager \<Rightarrow> stun_manager option" where
  "Manager_Clear m = delete_requests m (map snd (rm_requests m))"

text \<open>The destructor of the manager; a request that is deleted there does not find itself in the map.\<close>

fun destroy_requests :: "stun_manager \<Rightarrow> (byte list \<times> nat) list \<Rightarrow> stun_manager option" where
  "destroy_requests m [] = Some m"
| "destroy_requests m ((k, r) # krs) = do { m \<leftarrow> delete_request (m\<lparr>rm_requests := krs\<rparr>) r; destroy_requests m krs }"

definition Manager_delete :: "stun_manager \<Rightarrow> stun_manager option" where
  "Manager_delete m = destroy_requests m (rm_requests m)"

definition CheckResponse_msg :: "stun_manager \<Rightarrow> stun_message \<Rightarrow> (bool \<times> stun_manager) option" where
  "CheckResponse_msg m msg =
     (case map_of (rm_requests m) (sm_tid msg) of
        None \<Rightarrow> Some (False, m)
      | Some r \<Rightarrow> do {
          rq \<leftarrow> rm_objects m r;
          if ucast (sm_type msg) = GetStunSuccessResponseType (request_type rq) then do {
            m \<leftarrow> delete_request (m\<lparr>rm_events := rm_events m @ [Responded r msg]\<rparr>) r;
            Some (True, m)
          } else if ucast (sm_type msg) = GetStunErrorResponseType (request_type rq) then do {
            m \<leftarrow> delete_request (m\<lparr>rm_events := rm_events m @ [ErrorResponded r msg]\<rparr>) r;
            Some (True, m)
          } else Some (False, m)
        })"

definition CheckResponse :: "endian \<Rightarrow> stun_manager \<Rightarrow> byte list \<Rightarrow> (bool \<times> stun_manager) option" where
  "CheckResponse he m data =
     (if length data < 20 then Some (False, m)
      else
        let tid = take kStunTransactionIdLength (drop kStunTransactionIdOffset data) in
        case map_of (rm_requests m) tid of
          None \<Rightarrow> Some (False, m)
        | Some r \<Rightarrow> do {
            rq \<leftarrow> rm_objects m r;
            case msg_Read he (sm_class (rq_msg rq)) (ByteBuffer_of data) of
              None \<Rightarrow> Some (False, m)
            | Some (response, buf) \<Rightarrow> CheckResponse_msg m response
          })"

text \<open>\<open>StunRequest::OnMessage\<close>; \<open>now\<close> and \<open>now'\<close> are its two readings of the clock.\<close>

definition OnMessage :: "endian \<Rightarrow> next_delay \<Rightarrow> stun_manager \<Rightarrow> nat \<Rightarrow> u32 \<Rightarrow> u32 \<Rightarrow> stun_manager option" where
  "OnMessage he get_next_delay m r now now' = do {
     rq \<leftarrow> rm_objects m r;
     if rq_timeout rq then delete_request (m\<lparr>rm_events := rm_events m @ [TimedOut r]\<rparr>) r
     else
       let rq = rq\<lparr>rq_tstamp := now\<rparr>;
           packet = map_option contents (msg_Write he (rq_msg rq) ByteBuffer_new);
           (delay, cnt, timeout) = get_next_delay (rq_count rq) (rq_timeout rq);
           rq = rq\<lparr>rq_count := cnt, rq_timeout := timeout\<rparr>
       in Some (m\<lparr>rm_events := rm_events m @ [SentPacket r packet], rm_objects := (rm_objects m)(r \<mapsto> rq),
                  rm_thread := PostDelayed (rm_thread m) now' delay (Some r) MSG_STUN_SEND None\<rparr>)
   }"

text \<open>A round of the thread's loop at the time \<open>now\<close>: \<open>Get\<close> and \<open>Dispatch\<close>.  A \<open>NULL\<close> handler is called as well.\<close>

definition dispatch :: "endian \<Rightarrow> next_delay \<Rightarrow> u32 \<Rightarrow> u32 \<Rightarrow> stun_manager \<Rightarrow> stun_manager option" where
  "dispatch he get_next_delay now now' m =
     (case get_pass now (rm_thread m) of
        (Some (True, msg), delay, q) \<Rightarrow> do {
          r \<leftarrow> msg_phandler msg;
          OnMessage he get_next_delay (m\<lparr>rm_thread := q\<rparr>) r now now'
        }
      | (r, delay, q) \<Rightarrow> Some (m\<lparr>rm_thread := q\<rparr>))"

text \<open>Everything that can happen to a manager whose application follows the rules of the header file.\<close>

inductive manager_run :: "endian \<Rightarrow> next_delay \<Rightarrow> prepare \<Rightarrow> stun_manager \<Rightarrow> bool"
  for he :: endian and get_next_delay :: next_delay and prepare :: prepare where
  run_start: "manager_run he get_next_delay prepare StunRequestManager_new"
| run_create: "manager_run he get_next_delay prepare m \<Longrightarrow> rm_objects m r = None \<Longrightarrow> r \<notin> event_request ` set (rm_events m) \<Longrightarrow>
    length tid = kStunTransactionIdLength \<Longrightarrow> manager_run he get_next_delay prepare (m\<lparr>rm_objects := (rm_objects m)(r \<mapsto> StunRequest_new msg tid)\<rparr>)"
| run_send: "manager_run he get_next_delay prepare m \<Longrightarrow> rm_objects m r = Some rq \<Longrightarrow> \<not> rq_manager rq \<Longrightarrow>
    map_of (rm_requests m) (request_id rq) = None \<Longrightarrow> SendDelayed prepare m now r delay = Some m' \<Longrightarrow>
    manager_run he get_next_delay prepare m'"
| run_dispatch: "manager_run he get_next_delay prepare m \<Longrightarrow> dispatch he get_next_delay now now' m = Some m' \<Longrightarrow>
    manager_run he get_next_delay prepare m'"
| run_packet: "manager_run he get_next_delay prepare m \<Longrightarrow> CheckResponse he m data = Some (b, m') \<Longrightarrow>
    manager_run he get_next_delay prepare m'"
| run_message: "manager_run he get_next_delay prepare m \<Longrightarrow> CheckResponse_msg m msg = Some (b, m') \<Longrightarrow>
    manager_run he get_next_delay prepare m'"
| run_clear: "manager_run he get_next_delay prepare m \<Longrightarrow> Manager_Clear m = Some m' \<Longrightarrow>
    manager_run he get_next_delay prepare m'"

subsection \<open>The invariant\<close>

definition is_outcome :: "stun_event \<Rightarrow> bool" where
  "is_outcome e = (case e of SentPacket r p \<Rightarrow> False | _ \<Rightarrow> True)"

definition sends :: "nat \<Rightarrow> stun_event list \<Rightarrow> nat" where
  "sends r es = length (filter (\<lambda>e. \<not> is_outcome e \<and> event_request e = r) es)"

text \<open>Nothing happens to a request after its outcome.\<close>

fun well_ended :: "stun_event list \<Rightarrow> bool" where
  "well_ended [] = True"
| "well_ended (e # es) = ((is_outcome e \<longrightarrow> event_request e \<notin> event_request ` set es) \<and> well_ended es)"

definition pending :: "message_queue \<Rightarrow> Message multiset" where
  "pending q = mset (mq_msgq q) + mset (map dm_msg (mq_dmsgq q))"

definition stun_send :: "nat \<Rightarrow> Message" where
  "stun_send r = Message_new\<lparr>msg_phandler := Some r, msg_message_id := MSG_STUN_SEND\<rparr>"

lemma is_outcome_simps [simp]:
  "\<not> is_outcome (SentPacket r p)" "is_outcome (Responded r msg)" "is_outcome (ErrorResponded r msg)" "is_outcome (TimedOut r)"
  by (simp_all add: is_outcome_def)

lemma sends_simps [simp]:
  "sends r [] = 0"
  "sends r (es @ [e]) = (if \<not> is_outcome e \<and> event_request e = r then Suc (sends r es) else sends r es)"
  by (simp_all add: sends_def)

lemma sends_none: "r \<notin> event_request ` set es \<Longrightarrow> sends r es = 0"
  by (auto simp: sends_def filter_empty_conv)

lemma well_ended_snoc:
  "well_ended (es @ [e]) \<longleftrightarrow> well_ended es \<and> (\<forall>e'\<in>set es. is_outcome e' \<longrightarrow> event_request e' \<noteq> event_request e)"
  by (induction es) auto

lemma MSG_STUN_SEND_ne [simp]: "MSG_STUN_SEND \<noteq> MQID_QUIT" "MSG_STUN_SEND \<noteq> MQID_DISPOSE"
  by (simp_all add: MSG_STUN_SEND_def MQID_QUIT_def MQID_DISPOSE_def)

lemma stun_send_simps [simp]:
  "msg_phandler (stun_send r) = Some r" "msg_message_id (stun_send r) = MSG_STUN_SEND" "stun_send r = stun_send r' \<longleftrightarrow> r = r'"
  by (auto simp: stun_send_def dest: arg_cong [where f = msg_phandler])

lemma Match_stun_send [simp]: "Match (stun_send r) (Some r') MQID_ANY \<longleftrightarrow> r = r'"
  by (auto simp: Match_def)

lemma pending_PostDelayed:
  assumes "\<not> mq_fStop q"
  shows "pending (PostDelayed q now delay (Some r) MSG_STUN_SEND None) = add_mset (stun_send r) (pending q)"
    and "mq_fStop (PostDelayed q now delay (Some r) MSG_STUN_SEND None) = mq_fStop q"
    and "mq_fPeekKeep (PostDelayed q now delay (Some r) MSG_STUN_SEND None) = mq_fPeekKeep q"
  using assms by (simp_all add: pending_def PostDelayed_def DoDelayPost_def EnsureActive_def Let_def stun_send_def Message_new_def)

lemma pending_Clear:
  "pending (snd (mq_Clear q h mid keep)) = filter_mset (\<lambda>m. \<not> Match m h mid) (pending q)"
  "mq_fStop (snd (mq_Clear q h mid keep)) = mq_fStop q"
  "mq_fPeekKeep (snd (mq_Clear q h mid keep)) = (mq_fPeekKeep q \<and> \<not> Match (mq_msgPeek q) h mid)"
proof -
  have "image_mset dm_msg (filter_mset (\<lambda>d. \<not> Match (dm_msg d) h mid) M) = filter_mset (\<lambda>m. \<not> Match m h mid) (image_mset dm_msg M)" for M
    by (induction M) auto
  then show "pending (snd (mq_Clear q h mid keep)) = filter_mset (\<lambda>m. \<not> Match m h mid) (pending q)"
    by (auto simp: pending_def mq_Clear_def Let_def)
  show "mq_fStop (snd (mq_Clear q h mid keep)) = mq_fStop q"
    "mq_fPeekKeep (snd (mq_Clear q h mid keep)) = (mq_fPeekKeep q \<and> \<not> Match (mq_msgPeek q) h mid)"
    by (auto simp: mq_Clear_def Let_def)
qed

lemma pending_release_due:
  "release_due now q = (delay, q') \<Longrightarrow> pending q' = pending q \<and> mq_fStop q' = mq_fStop q \<and> mq_fPeekKeep q' = mq_fPeekKeep q"
proof (induction now q rule: release_due.induct)
  case (1 now q)
  show ?case
  proof (cases "pq_top (mq_dmsgq q)")
    case None
    then show ?thesis using "1.prems" by (simp add: release_due.simps [of now q])
  next
    case (Some d)
    let ?q = "q\<lparr>mq_msgq := mq_msgq q @ [dm_msg d], mq_dmsgq := remove1 d (mq_dmsgq q)\<rparr>"
    show ?thesis
    proof (cases "TimeIsLater now (dm_msTrigger d)")
      case True
      then show ?thesis using "1.prems" Some by (simp add: release_due.simps [of now q])
    next
      case False
      have "mset (mq_dmsgq q) = add_mset d (mset (remove1 d (mq_dmsgq q)))" using pq_top_in [OF Some] by simp
      then have "image_mset dm_msg (mset (mq_dmsgq q)) = add_mset (dm_msg d) (image_mset dm_msg (mset (remove1 d (mq_dmsgq q))))"
        by (metis image_mset_add_mset)
      then have "pending ?q = pending q" by (simp add: pending_def)
      moreover have "release_due now ?q = (delay, q')" using "1.prems" Some False by (simp add: release_due.simps [of now q])
      ultimately show ?thesis using "1.IH" [OF Some False] by simp
    qed
  qed
qed

lemma pending_get_pass:
  assumes "get_pass now q = (r, delay, q')" and "\<forall>m\<in>#pending q. msg_message_id m \<noteq> MQID_DISPOSE \<and> msg_message_id m \<noteq> MQID_QUIT"
  shows "(case r of None \<Rightarrow> pending q' = pending q | Some (b, m) \<Rightarrow> b \<and> pending q = add_mset m (pending q'))
    \<and> mq_fStop q' = mq_fStop q \<and> mq_fPeekKeep q' = mq_fPeekKeep q"
proof -
  obtain d q1 where r: "release_due now q = (d, q1)" by fastforce
  note p = pending_release_due [OF r]
  have ids: "\<forall>m\<in>#mset (mq_msgq q1). msg_message_id m \<noteq> MQID_DISPOSE \<and> msg_message_id m \<noteq> MQID_QUIT"
    using assms(2) unfolding conjunct1 [OF p, symmetric] by (simp add: pending_def)
  show ?thesis
  proof (cases "mq_msgq q1")
    case Nil
    then show ?thesis using assms(1) r p by (auto simp: get_pass_def pending_def)
  next
    case (Cons m ms)
    then show ?thesis using assms(1) r p ids by (auto simp: get_pass_def pending_def)
  qed
qed

text \<open>
  The contract of \<open>GetNextDelay\<close>: a rank bounds how often the request is still sent, every send lowers it, and
  the timeout is due exactly when it is used up.
\<close>

locale retry_policy =
  fixes get_next_delay :: next_delay and rank :: "nat \<Rightarrow> bool \<Rightarrow> nat" and max_sends :: nat and prepare :: prepare
  assumes rank_start: "rank 0 False = max_sends" and max_sends_pos: "0 < max_sends"
    and rank_step: "rank c t = Suc n \<Longrightarrow> get_next_delay c t = (d, c', t') \<Longrightarrow> 0 < d \<and> rank c' t' = n \<and> t' = (n = 0)"
    and prepare_tid: "sm_tid (prepare r msg) = sm_tid msg"
begin

text \<open>One message is on the way for every request under way but those in \<open>X\<close>, and for nothing else.\<close>

definition manager_ok :: "nat set \<Rightarrow> stun_manager \<Rightarrow> bool" where
  "manager_ok X m \<longleftrightarrow>
     distinct (map fst (rm_requests m)) \<and> distinct (map snd (rm_requests m)) \<and>
     (\<forall>r rq. rm_objects m r = Some rq \<longrightarrow> ((request_id rq, r) \<in> set (rm_requests m)) = rq_manager rq) \<and>
     (\<forall>k r. (k, r) \<in> set (rm_requests m) \<longrightarrow> (\<exists>rq. rm_objects m r = Some rq \<and> request_id rq = k)) \<and>
     (\<forall>r rq. rm_objects m r = Some rq \<longrightarrow> length (request_id rq) = 12) \<and>
     pending (rm_thread m) = mset (map (stun_send \<circ> snd) (filter (\<lambda>kr. snd kr \<notin> X) (rm_requests m))) \<and>
     \<not> mq_fStop (rm_thread m) \<and> \<not> mq_fPeekKeep (rm_thread m)"

definition events_ok :: "stun_manager \<Rightarrow> bool" where
  "events_ok m \<longleftrightarrow>
     well_ended (rm_events m) \<and>
     (\<forall>r. sends r (rm_events m) \<le> max_sends) \<and>
     (\<forall>r rq. rm_objects m r = Some rq \<longrightarrow>
        (\<forall>e\<in>set (rm_events m). is_outcome e \<longrightarrow> event_request e \<noteq> r) \<and>
        sends r (rm_events m) + rank (rq_count rq) (rq_timeout rq) = max_sends \<and>
        rq_timeout rq = (rank (rq_count rq) (rq_timeout rq) = 0))"

lemma manager_okD:
  assumes "manager_ok X m"
  shows "distinct (map fst (rm_requests m))" and "distinct (map snd (rm_requests m))"
    and "rm_objects m r = Some rq \<Longrightarrow> (request_id rq, r) \<in> set (rm_requests m) \<longleftrightarrow> rq_manager rq"
    and "(k, r) \<in> set (rm_requests m) \<Longrightarrow> \<exists>rq. rm_objects m r = Some rq \<and> request_id rq = k \<and> rq_manager rq"
    and "pending (rm_thread m) = mset (map (stun_send \<circ> snd) (filter (\<lambda>kr. snd kr \<notin> X) (rm_requests m)))"
    and "\<not> mq_fStop (rm_thread m)" and "\<not> mq_fPeekKeep (rm_thread m)"
    and "rm_objects m r = Some rq \<Longrightarrow> length (request_id rq) = 12"
proof -
  show "rm_objects m r = Some rq \<Longrightarrow> length (request_id rq) = 12" using assms unfolding manager_ok_def by blast
  show "distinct (map fst (rm_requests m))" "distinct (map snd (rm_requests m))"
    "pending (rm_thread m) = mset (map (stun_send \<circ> snd) (filter (\<lambda>kr. snd kr \<notin> X) (rm_requests m)))" "\<not> mq_fStop (rm_thread m)" "\<not> mq_fPeekKeep (rm_thread m)"
    using assms unfolding manager_ok_def by blast+
  show man: "rm_objects m r = Some rq \<Longrightarrow> (request_id rq, r) \<in> set (rm_requests m) \<longleftrightarrow> rq_manager rq" for r rq
    using assms unfolding manager_ok_def by blast
  have "\<forall>k r. (k, r) \<in> set (rm_requests m) \<longrightarrow> (\<exists>rq. rm_objects m r = Some rq \<and> request_id rq = k)"
    using assms unfolding manager_ok_def by (elim conjE)
  then show "(k, r) \<in> set (rm_requests m) \<Longrightarrow> \<exists>rq. rm_objects m r = Some rq \<and> request_id rq = k \<and> rq_manager rq"
    using man by metis
qed

lemma manager_ok_events: "manager_ok X (m\<lparr>rm_events := es\<rparr>) = manager_ok X m"
  by (simp add: manager_ok_def)

lemma delete_request_ok:
  assumes ok: "manager_ok X m" and X: "X \<subseteq> {r}" and rq: "rm_objects m r = Some rq"
  obtains m' where "delete_request m r = Some m'" and "manager_ok {} m'"
    and "rm_objects m' = (rm_objects m)(r := None)" and "rm_events m' = rm_events m"
    and "rm_requests m' = filter (\<lambda>kr. snd kr \<noteq> r) (rm_requests m)"
proof -
  note D = manager_okD [OF ok]
  let ?rest = "filter (\<lambda>kr. snd kr \<noteq> r) (rm_requests m)"
  obtain m' where m': "delete_request m r = Some m'" "rm_objects m' = (rm_objects m)(r := None)" "rm_events m' = rm_events m"
    "rm_requests m' = ?rest"
    and pq: "pending (rm_thread m') = filter_mset (\<lambda>msg. \<not> Match msg (Some r) MQID_ANY) (pending (rm_thread m))"
    and fq: "\<not> mq_fStop (rm_thread m')" "\<not> mq_fPeekKeep (rm_thread m')"
  proof (cases "rq_manager rq")
    case True
    then have k: "map_of (rm_requests m) (request_id rq) = Some r" using D(3) [OF rq] D(1) by simp
    have "(k', r') \<in> set (rm_requests m) \<Longrightarrow> (request_id rq \<noteq> k') = (r' \<noteq> r)" for k' r'
      using D(4) [of k' r'] rq eq_key_imp_eq_value [OF D(1) map_of_SomeD [OF k]] by (metis option.inject)
    then have "AList.delete (request_id rq) (rm_requests m) = ?rest"
      unfolding AList.delete_eq case_prod_unfold by (intro filter_cong refl) (metis prod.collapse)
    then show ?thesis using that rq True k D(6,7)
      by (simp add: delete_request_def Manager_Remove_def clear_handler_def pending_Clear filter_filter_mset)
  next
    case False
    have "?rest = rm_requests m"
      using D(4) rq False by (fastforce simp: filter_id_conv)
    then show ?thesis using that rq False D(6,7)
      by (simp add: delete_request_def clear_handler_def pending_Clear)
  qed
  have "filter_mset (\<lambda>msg. \<not> Match msg (Some r) MQID_ANY) (mset (map (stun_send \<circ> snd) (filter (\<lambda>kr. snd kr \<notin> X) rs))) = mset (map (stun_send \<circ> snd) (filter (\<lambda>kr. snd kr \<noteq> r) rs))" for rs :: "(byte list \<times> nat) list"
    using X by (induction rs) auto
  then have "pending (rm_thread m') = mset (map (stun_send \<circ> snd) ?rest)" using pq D(5) by simp
  moreover have "distinct (map fst ?rest)" "distinct (map snd ?rest)"
    using D(1,2) by (simp_all add: distinct_map_filter)
  ultimately have "manager_ok {} m'"
    using m' fq D(3,8) by (auto simp: manager_ok_def dest!: D(4))
  then show ?thesis using that m' by simp
qed

lemma events_okD:
  assumes "events_ok m"
  shows "well_ended (rm_events m)" and "sends r (rm_events m) \<le> max_sends"
    and "rm_objects m r = Some rq \<Longrightarrow> e \<in> set (rm_events m) \<Longrightarrow> is_outcome e \<Longrightarrow> event_request e \<noteq> r"
    and "rm_objects m r = Some rq \<Longrightarrow> sends r (rm_events m) + rank (rq_count rq) (rq_timeout rq) = max_sends"
    and "rm_objects m r = Some rq \<Longrightarrow> rq_timeout rq = (rank (rq_count rq) (rq_timeout rq) = 0)"
  using assms unfolding events_ok_def by blast+

text \<open>A request that gets its outcome and is deleted.\<close>

lemma finish_request:
  assumes ok: "manager_ok X m" "events_ok m" and X: "X \<subseteq> {r}" and rq: "rm_objects m r = Some rq" and e: "is_outcome e" "event_request e = r"
  obtains m' where "delete_request (m\<lparr>rm_events := rm_events m @ [e]\<rparr>) r = Some m'" and "manager_ok {} m'" and "events_ok m'"
    and "rm_objects m' = (rm_objects m)(r := None)" and "rm_events m' = rm_events m @ [e]"
    and "rm_requests m' = filter (\<lambda>kr. snd kr \<noteq> r) (rm_requests m)"
proof -
  have a: "manager_ok X (m\<lparr>rm_events := rm_events m @ [e]\<rparr>)" using ok(1) by (simp add: manager_ok_events)
  have b: "rm_objects (m\<lparr>rm_events := rm_events m @ [e]\<rparr>) r = Some rq" using rq by simp
  obtain m' where m': "delete_request (m\<lparr>rm_events := rm_events m @ [e]\<rparr>) r = Some m'" "manager_ok {} m'"
    "rm_objects m' = (rm_objects m)(r := None)" "rm_events m' = rm_events m @ [e]"
    "rm_requests m' = filter (\<lambda>kr. snd kr \<noteq> r) (rm_requests m)"
    by (rule delete_request_ok [OF a X b]) simp
  have "well_ended (rm_events m @ [e])"
    using events_okD(1) [OF ok(2)] events_okD(3) [OF ok(2) rq] e(2) by (auto simp: well_ended_snoc)
  moreover have "\<forall>r' rq'. r' \<noteq> r \<longrightarrow> rm_objects m r' = Some rq' \<longrightarrow>
      (\<forall>e'\<in>set (rm_events m @ [e]). is_outcome e' \<longrightarrow> event_request e' \<noteq> r')"
    using events_okD(3) [OF ok(2)] e(2) by auto
  ultimately have "events_ok m'"
    using m'(3,4) e(1) events_okD(2,4,5) [OF ok(2)] by (auto simp: events_ok_def split: if_splits)
  then show ?thesis using that m' by blast
qed

lemma requests_object:
  assumes "manager_ok X m" and "map_of (rm_requests m) k = Some r"
  obtains rq where "rm_objects m r = Some rq" and "request_id rq = k" and "rq_manager rq"
  using manager_okD(4) [OF assms(1) map_of_SomeD [OF assms(2)]] by blast

lemma CheckResponse_msg_ok:
  assumes "manager_ok {} m" and "events_ok m"
  obtains b m' where "CheckResponse_msg m msg = Some (b, m')" and "manager_ok {} m'" and "events_ok m'"
proof (cases "map_of (rm_requests m) (sm_tid msg)")
  case None
  then show ?thesis using that [of False m] assms by (simp add: CheckResponse_msg_def)
next
  case (Some r)
  obtain rq where rq: "rm_objects m r = Some rq" using requests_object [OF assms(1) Some] .
  obtain m1 where "delete_request (m\<lparr>rm_events := rm_events m @ [Responded r msg]\<rparr>) r = Some m1" "manager_ok {} m1" "events_ok m1"
    by (rule finish_request [OF assms empty_subsetI rq, of "Responded r msg"]) simp_all
  moreover obtain m2 where "delete_request (m\<lparr>rm_events := rm_events m @ [ErrorResponded r msg]\<rparr>) r = Some m2" "manager_ok {} m2" "events_ok m2"
    by (rule finish_request [OF assms empty_subsetI rq, of "ErrorResponded r msg"]) simp_all
  ultimately have "\<exists>b m'. CheckResponse_msg m msg = Some (b, m') \<and> manager_ok {} m' \<and> events_ok m'"
    using assms rq Some by (auto simp: CheckResponse_msg_def)
  then show ?thesis using that by blast
qed

lemma CheckResponse_ok:
  assumes "manager_ok {} m" and "events_ok m"
  obtains b m' where "CheckResponse he m data = Some (b, m')" and "manager_ok {} m'" and "events_ok m'"
proof (cases "length data < 20")
  case False
  show ?thesis
  proof (cases "map_of (rm_requests m) (take kStunTransactionIdLength (drop kStunTransactionIdOffset data))")
    case None
    then show ?thesis using that [of False m] assms False by (simp add: CheckResponse_def Let_def)
  next
    case (Some r)
    obtain rq where rq: "rm_objects m r = Some rq" using requests_object [OF assms(1) Some] .
    show ?thesis
    proof (cases "msg_Read he (sm_class (rq_msg rq)) (ByteBuffer_of data)")
      case None
      then show ?thesis using that [of False m] assms False Some rq by (simp add: CheckResponse_def Let_def)
    next
      case (Some p)
      then show ?thesis
        using that CheckResponse_msg_ok [OF assms, of "fst p"] \<open>map_of _ _ = Some r\<close> False rq
        by (cases p) (auto simp: CheckResponse_def Let_def)
    qed
  qed
qed (use that [of False m] assms in \<open>simp add: CheckResponse_def\<close>)

lemma events_ok_delete:
  "events_ok m \<Longrightarrow> rm_objects m' = (rm_objects m)(r := None) \<Longrightarrow> rm_events m' = rm_events m \<Longrightarrow> events_ok m'"
  by (auto simp: events_ok_def split: if_splits)

lemma Manager_Clear_ok:
  assumes "manager_ok {} m" and "events_ok m"
  obtains m' where "Manager_Clear m = Some m'" and "manager_ok {} m'" and "events_ok m'"
    and "rm_requests m' = filter (\<lambda>kr. snd kr \<notin> set (map snd (rm_requests m))) (rm_requests m)"
proof -
  have "\<exists>m'. delete_requests m rs = Some m' \<and> manager_ok {} m' \<and> events_ok m' \<and> rm_requests m' = filter (\<lambda>kr. snd kr \<notin> set rs) (rm_requests m)"
    if "manager_ok {} m" "events_ok m" "distinct rs" "\<forall>r\<in>set rs. rm_objects m r \<noteq> None" for rs and m
    using that
  proof (induction rs arbitrary: m)
    case (Cons r rs)
    then obtain rq where rq: "rm_objects m r = Some rq" by auto
    obtain m1 where m1: "delete_request m r = Some m1" "manager_ok {} m1" "rm_objects m1 = (rm_objects m)(r := None)"
      "rm_events m1 = rm_events m" "rm_requests m1 = filter (\<lambda>kr. snd kr \<noteq> r) (rm_requests m)"
      by (rule delete_request_ok [OF Cons.prems(1) empty_subsetI rq])
    have "events_ok m1" using events_ok_delete [OF Cons.prems(2) m1(3,4)] .
    moreover have "\<forall>r'\<in>set rs. rm_objects m1 r' \<noteq> None" using Cons.prems(3,4) m1(3) by auto
    ultimately obtain m' where "delete_requests m1 rs = Some m'" "manager_ok {} m'" "events_ok m'"
      "rm_requests m' = filter (\<lambda>kr. snd kr \<notin> set rs) (rm_requests m1)"
      using Cons.IH [OF m1(2)] Cons.prems(3) by auto
    then show ?case using m1(1,5) by (auto simp: conj_commute)
  qed simp
  moreover have "\<forall>r\<in>set (map snd (rm_requests m)). rm_objects m r \<noteq> None"
    using manager_okD(4) [OF assms(1)] by fastforce
  ultimately show ?thesis
    using that assms manager_okD(2) [OF assms(1)] unfolding Manager_Clear_def by blast
qed

lemma SendDelayed_ok:
  assumes ok: "manager_ok {} m" "events_ok m" and rq: "rm_objects m r = Some rq" "\<not> rq_manager rq"
    and fresh: "map_of (rm_requests m) (request_id rq) = None" and m': "SendDelayed prepare m now r delay = Some m'"
  shows "manager_ok {} m'" and "events_ok m'"
proof -
  note D = manager_okD [OF ok(1)]
  define rq' where "rq' = rq_Construct prepare r (rq\<lparr>rq_manager := True\<rparr>)"
  have rq': "request_id rq' = request_id rq" "rq_manager rq'" "rq_count rq' = rq_count rq" "rq_timeout rq' = rq_timeout rq"
    by (simp_all add: rq'_def rq_Construct_def request_id_def prepare_tid)
  have m'_eq: "m' = m\<lparr>rm_objects := (rm_objects m)(r \<mapsto> rq'), rm_requests := AList.update (request_id rq) r (rm_requests m),
      rm_thread := PostDelayed (rm_thread m) now delay (Some r) MSG_STUN_SEND None\<rparr>"
    using m' rq(1) rq'(1) by (simp add: SendDelayed_def rq'_def)
  have upd: "AList.update k r al = al @ [(k, r)]" if "map_of al k = None" for k and al :: "(byte list \<times> nat) list"
    using that by (induction al) (auto split: if_splits)
  have "r \<notin> set (map snd (rm_requests m))" using D(4) rq by fastforce
  moreover have "request_id rq \<notin> set (map fst (rm_requests m))" using fresh by (simp add: map_of_eq_None_iff)
  ultimately show "manager_ok {} m'"
    unfolding manager_ok_def m'_eq using upd [OF fresh] D(1,2,3,5-8) rq' rq(1)
    by (auto simp: pending_PostDelayed add_mset_commute dest!: D(4))
  show "events_ok m'"
    unfolding m'_eq using ok(2) rq(1) rq'(3,4) by (auto simp: events_ok_def)
qed

lemma create_ok:
  fixes msg tid
  assumes ok: "manager_ok {} m" "events_ok m" and r: "rm_objects m r = None" "r \<notin> event_request ` set (rm_events m)"
    and tid: "length tid = kStunTransactionIdLength"
  defines "m' \<equiv> m\<lparr>rm_objects := (rm_objects m)(r \<mapsto> StunRequest_new msg tid)\<rparr>"
  shows "manager_ok {} m'" and "events_ok m'"
proof -
  note D = manager_okD [OF ok(1)]
  have "length (request_id (StunRequest_new msg tid)) = 12"
    using tid by (simp add: request_id_def StunRequest_new_def SetTransactionID_def IsValidTransactionId_def kStunTransactionIdLength_def)
  moreover have "(k, r) \<notin> set (rm_requests m)" for k using D(4) r(1) by fastforce
  ultimately show "manager_ok {} m'"
    unfolding manager_ok_def m'_def using D(1,2,3,5-8) by (auto simp: StunRequest_new_def dest!: D(4))
  show "events_ok m'"
    using events_okD [OF ok(2)] r sends_none [OF r(2)] rank_start max_sends_pos
    by (auto simp: events_ok_def m'_def StunRequest_new_def)
qed

lemma OnMessage_ok:
  assumes ok: "manager_ok {r} m" "events_ok m" and r: "(k, r) \<in> set (rm_requests m)"
  obtains m' where "OnMessage he get_next_delay m r now now' = Some m'" and "manager_ok {} m'" and "events_ok m'"
proof -
  note D = manager_okD [OF ok(1)]
  obtain rq where rq: "rm_objects m r = Some rq" "request_id rq = k" "rq_manager rq" using D(4) [OF r] by blast
  show ?thesis
  proof (cases "rq_timeout rq")
    case True
    obtain m' where "delete_request (m\<lparr>rm_events := rm_events m @ [TimedOut r]\<rparr>) r = Some m'" "manager_ok {} m'" "events_ok m'"
      by (rule finish_request [OF ok order_refl rq(1), of "TimedOut r"]) simp_all
    then show ?thesis using that rq True by (simp add: OnMessage_def)
  next
    case False
    obtain n where n: "rank (rq_count rq) (rq_timeout rq) = Suc n"
      using events_okD(5) [OF ok(2) rq(1)] False not0_implies_Suc by blast
    obtain d c t where p: "get_next_delay (rq_count rq) (rq_timeout rq) = (d, c, t)" by (metis prod_cases3)
    note step = rank_step [OF n p]
    define rq' where "rq' = rq\<lparr>rq_tstamp := now, rq_count := c, rq_timeout := t\<rparr>"
    define m' where "m' = m\<lparr>rm_events := rm_events m @ [SentPacket r (map_option contents (msg_Write he (rq_msg rq) ByteBuffer_new))],
      rm_objects := (rm_objects m)(r \<mapsto> rq'), rm_thread := PostDelayed (rm_thread m) now' d (Some r) MSG_STUN_SEND None\<rparr>"
    have on: "OnMessage he get_next_delay m r now now' = Some m'"
      using rq p False by (simp add: OnMessage_def m'_def rq'_def)
    have split: "mset (map (stun_send \<circ> snd) rs) = add_mset (stun_send r) (mset (map (stun_send \<circ> snd) (filter (\<lambda>kr. snd kr \<notin> {r}) rs)))"
      if "(k, r) \<in> set rs" "distinct (map snd rs)" for rs :: "(byte list \<times> nat) list"
      using that
    proof (induction rs)
      case (Cons kr rs)
      show ?case
      proof (cases "snd kr = r")
        case True
        then have "\<forall>kr\<in>set rs. snd kr \<noteq> r" using Cons.prems(2) by (metis distinct.simps(2) image_eqI list.simps(9) list.set_map)
        then have "filter (\<lambda>kr. snd kr \<notin> {r}) rs = rs" by (simp add: filter_id_conv)
        then show ?thesis using True by simp
      next
        case False
        then show ?thesis using Cons by auto
      qed
    qed simp
    have rq': "request_id rq' = k" "rq_manager rq'" "length k = 12"
      using rq D(8) [OF rq(1)] by (simp_all add: rq'_def request_id_def)
    have "manager_ok {} m'"
      unfolding manager_ok_def m'_def using D(1,2,3,5-8) rq' r split [OF r D(2)]
      by (auto simp: pending_PostDelayed dest!: D(4))
    moreover have "events_ok m'"
    proof -
      have w: "well_ended (rm_events m')" "\<forall>e\<in>set (rm_events m'). is_outcome e \<longrightarrow> event_request e \<noteq> r"
        using events_okD(1) [OF ok(2)] events_okD(3) [OF ok(2) rq(1)] by (auto simp: m'_def well_ended_snoc)
      have s: "sends r (rm_events m') + rank c t = max_sends" "t = (rank c t = 0)"
        using events_okD(4) [OF ok(2) rq(1)] n step by (auto simp: m'_def)
      show ?thesis
        using w s events_okD(2-5) [OF ok(2)] by (auto simp: events_ok_def m'_def rq'_def split: if_splits)
    qed
    ultimately show ?thesis using that on by blast
  qed
qed

lemma dispatch_ok:
  assumes ok: "manager_ok {} m" "events_ok m"
  obtains m' where "dispatch he get_next_delay now now' m = Some m'" and "manager_ok {} m'" and "events_ok m'"
proof -
  note D = manager_okD [OF ok(1)]
  obtain r d q where g: "get_pass now (rm_thread m) = (r, d, q)" by (metis prod_cases3)
  have ids: "\<forall>msg\<in>#pending (rm_thread m). \<exists>k r. (k, r) \<in> set (rm_requests m) \<and> msg = stun_send r"
    using D(5) by auto
  then have "\<forall>msg\<in>#pending (rm_thread m). msg_message_id msg \<noteq> MQID_DISPOSE \<and> msg_message_id msg \<noteq> MQID_QUIT" by auto
  note p = pending_get_pass [OF g this]
  show ?thesis
  proof (cases r)
    case None
    then have "dispatch he get_next_delay now now' m = Some (m\<lparr>rm_thread := q\<rparr>)" by (simp add: dispatch_def g)
    moreover have "manager_ok {} (m\<lparr>rm_thread := q\<rparr>)" using ok(1) p None by (simp add: manager_ok_def)
    moreover have "events_ok (m\<lparr>rm_thread := q\<rparr>)" using ok(2) by (simp add: events_ok_def)
    ultimately show ?thesis using that by blast
  next
    case (Some bm)
    then obtain msg where r: "r = Some (True, msg)" "pending (rm_thread m) = add_mset msg (pending q)"
      using p by (cases bm) auto
    then obtain k h where h: "(k, h) \<in> set (rm_requests m)" "msg = stun_send h" using ids by auto
    have rs: "filter_mset (\<lambda>msg. msg \<noteq> stun_send h) (mset (map (stun_send \<circ> snd) rs)) = mset (map (stun_send \<circ> snd) (filter (\<lambda>kr. snd kr \<notin> {h}) rs))"
      for rs :: "(byte list \<times> nat) list" by (induction rs) auto
    have "filter_mset (\<lambda>msg. msg \<noteq> stun_send h) (pending q) = pending q"
    proof -
      have "distinct (map (stun_send \<circ> snd) (rm_requests m))"
        using D(2) by (simp add: distinct_map inj_on_def)
      then have "Multiset.count (pending (rm_thread m)) (stun_send h) \<le> 1" using D(5) by (simp add: distinct_count_atmost_1)
      then have "stun_send h \<notin># pending q" using r(2) h(2) by (simp add: not_in_iff)
      then show ?thesis by (auto simp: filter_mset_eq_conv)
    qed
    then have "pending q = filter_mset (\<lambda>msg. msg \<noteq> stun_send h) (pending (rm_thread m))" using r(2) h(2) by simp
    also have "\<dots> = mset (map (stun_send \<circ> snd) (filter (\<lambda>kr. snd kr \<notin> {h}) (rm_requests m)))"
      using rs [of "rm_requests m"] by (simp add: D(5))
    finally have "pending q = mset (map (stun_send \<circ> snd) (filter (\<lambda>kr. snd kr \<notin> {h}) (rm_requests m)))" .
    then have "manager_ok {h} (m\<lparr>rm_thread := q\<rparr>)" using ok(1) p by (simp add: manager_ok_def)
    moreover have "events_ok (m\<lparr>rm_thread := q\<rparr>)" using ok(2) by (simp add: events_ok_def)
    ultimately obtain m' where "OnMessage he get_next_delay (m\<lparr>rm_thread := q\<rparr>) h now now' = Some m'" "manager_ok {} m'" "events_ok m'"
      using h(1) by (elim OnMessage_ok) auto
    then show ?thesis using that g r(1) h(2) by (simp add: dispatch_def)
  qed
qed

theorem manager_run_ok:
  "manager_run he get_next_delay prepare m \<Longrightarrow> manager_ok {} m \<and> events_ok m"
proof (induction rule: manager_run.induct)
  case run_start
  show ?case
    by (simp add: manager_ok_def events_ok_def StunRequestManager_new_def MessageQueue_new_def pending_def)
next
  case (run_create m r msg tid)
  then show ?case using create_ok by blast
next
  case (run_send m r rq now delay m')
  then show ?case using SendDelayed_ok by blast
next
  case (run_dispatch m now now' m')
  then show ?case using dispatch_ok [of m he now now'] by (metis option.inject)
next
  case (run_packet m data b m')
  then show ?case using CheckResponse_ok [of m he data] by (metis option.inject prod.inject)
next
  case (run_message m msg b m')
  then show ?case using CheckResponse_msg_ok [of m msg] by (metis option.inject prod.inject)
next
  case (run_clear m m')
  then show ?case using Manager_Clear_ok [of m] by (metis option.inject)
qed

end

subsection \<open>The policies\<close>

definition StunRequest_Prepare :: prepare where
  "StunRequest_Prepare r request = request"

definition StunBindingRequest_Prepare :: prepare where
  "StunBindingRequest_Prepare r request = SetType request 1"

definition AllocateRequest_Prepare :: "byte list \<Rightarrow> prepare" where
  "AllocateRequest_Prepare username_fragment r request =
     (let request = SetType request 0x0003;
          username_attr = CopyBytes (StunByteStringAttribute 0x0006 []) username_fragment
      in (case AddAttribute request username_attr of None \<Rightarrow> request | Some request \<Rightarrow> request))"

lemma base_policy:
  assumes "\<And>r msg. sm_tid (prepare r msg) = sm_tid msg"
  shows "retry_policy StunRequest_GetNextDelay (\<lambda>c t. if t then 0 else MAX_SENDS - c) MAX_SENDS prepare"
proof
  fix c t n d c' t'
  assume r: "(if t then 0 else MAX_SENDS - c) = Suc n" and g: "StunRequest_GetNextDelay c t = (d, c', t')"
  have "0 < d" using g by (auto simp: StunRequest_GetNextDelay_def Let_def DELAY_UNIT_def DELAY_MAX_FACTOR_def push_bit_eq_mult)
  then show "0 < d \<and> (if t' then 0 else MAX_SENDS - c') = n \<and> t' = (n = 0)"
    using r g by (auto simp: StunRequest_GetNextDelay_def Let_def split: if_splits)
qed (use assms in \<open>simp_all add: MAX_SENDS_def\<close>)

interpretation plain: retry_policy StunRequest_GetNextDelay "\<lambda>c t. if t then 0 else MAX_SENDS - c" MAX_SENDS StunRequest_Prepare
  by (rule base_policy) (simp add: StunRequest_Prepare_def)

interpretation binding: retry_policy StunRequest_GetNextDelay "\<lambda>c t. if t then 0 else MAX_SENDS - c" MAX_SENDS StunBindingRequest_Prepare
  by (rule base_policy) (simp add: StunBindingRequest_Prepare_def SetType_def)

interpretation allocate: retry_policy AllocateRequest_GetNextDelay "\<lambda>c t. if t then 0 else 5 - c" 5
  "AllocateRequest_Prepare username_fragment" for username_fragment
proof
  fix c t n d c' t'
  assume r: "(if t then 0 else 5 - c) = Suc n" and g: "AllocateRequest_GetNextDelay c t = (d, c', t')"
  have "0 < d" using g by (auto simp: AllocateRequest_GetNextDelay_def Let_def)
  then show "0 < d \<and> (if t' then 0 else 5 - c') = n \<and> t' = (n = 0)"
    using r g by (auto simp: AllocateRequest_GetNextDelay_def Let_def split: if_splits)
qed (auto simp: AllocateRequest_Prepare_def AddAttribute_def SetType_def Let_def split: option.split)

text \<open>
  C13: Whatever packets arrive and whenever the thread runs, the manager never touches a deleted request; a request is sent
  nine times at most, gets one outcome at most, and after it nothing is sent or reported for it any more.
\<close>

theorem stun_requests_safe:
  assumes "manager_run he StunRequest_GetNextDelay prepare m" and "\<And>r msg. sm_tid (prepare r msg) = sm_tid msg"
  shows "dispatch he StunRequest_GetNextDelay now now' m \<noteq> None \<and> CheckResponse he m data \<noteq> None \<and> Manager_Clear m \<noteq> None
    \<and> sends r (rm_events m) \<le> 9 \<and> well_ended (rm_events m)"
proof -
  note P = base_policy [of prepare, OF assms(2)]
  have ok: "retry_policy.manager_ok {} m" "retry_policy.events_ok (\<lambda>c t. if t then 0 else MAX_SENDS - c) MAX_SENDS m"
    using retry_policy.manager_run_ok [OF P assms(1)] by blast+
  have "dispatch he StunRequest_GetNextDelay now now' m \<noteq> None" using retry_policy.dispatch_ok [OF P ok] by blast
  moreover have "CheckResponse he m data \<noteq> None" using retry_policy.CheckResponse_ok [OF P ok] by blast
  moreover have "Manager_Clear m \<noteq> None" using retry_policy.Manager_Clear_ok [OF P ok] by blast
  ultimately show ?thesis using retry_policy.events_okD(1,2) [OF P ok(2)] by (simp add: MAX_SENDS_def)
qed

text \<open>A manager that has sent one request; its transaction id is twelve bytes long.\<close>

definition one_request :: "prepare \<Rightarrow> nat \<Rightarrow> stun_message \<Rightarrow> byte list \<Rightarrow> u32 \<Rightarrow> stun_manager option" where
  "one_request prepare r msg tid now =
     Manager_Send prepare (StunRequestManager_new\<lparr>rm_objects := [r \<mapsto> StunRequest_new msg tid]\<rparr>) now r"

fun dispatch_at :: "endian \<Rightarrow> next_delay \<Rightarrow> u32 list \<Rightarrow> stun_manager \<Rightarrow> stun_manager option" where
  "dispatch_at he get_next_delay [] m = Some m"
| "dispatch_at he get_next_delay (now # nows) m = do {
     m \<leftarrow> dispatch he get_next_delay now now m;
     dispatch_at he get_next_delay nows m
   }"

text \<open>The request has been sent \<open>k\<close> times and its message is due at \<open>t\<close>.\<close>

definition waiting :: "nat \<Rightarrow> stun_message \<Rightarrow> byte list option \<Rightarrow> nat \<Rightarrow> u32 \<Rightarrow> stun_manager \<Rightarrow> bool" where
  "waiting r msg packet k t m \<longleftrightarrow>
     rm_requests m = [(sm_tid msg, r)] \<and>
     (\<exists>tstamp. rm_objects m = [r \<mapsto> \<lparr>rq_count = k, rq_timeout = (k = MAX_SENDS), rq_manager = True, rq_msg = msg, rq_tstamp = tstamp\<rparr>]) \<and>
     mq_msgq (rm_thread m) = [] \<and> (\<exists>c n. mq_dmsgq (rm_thread m) = [\<lparr>dm_cmsDelay = c, dm_msTrigger = t, dm_num = n, dm_msg = stun_send r\<rparr>]) \<and>
     \<not> mq_fStop (rm_thread m) \<and> \<not> mq_fPeekKeep (rm_thread m) \<and>
     rm_events m = replicate k (SentPacket r packet)"

lemma TimeIsLater_self [simp]: "\<not> TimeIsLater t t"
  by (simp add: TimeIsLater_def HALF_def)

text \<open>Before that time the thread may look at its queue as often as it likes.\<close>

lemma waiting_early:
  assumes "waiting r msg packet k t m" and "TimeIsLater now t"
  shows "\<exists>m'. dispatch he g now now' m = Some m' \<and> waiting r msg packet k t m'"
  using assms
  by (auto simp: waiting_def dispatch_def get_pass_def release_due.simps)

lemma waiting_early_all:
  assumes "waiting r msg packet k t m" and "\<forall>now\<in>set nows. TimeIsLater now t"
  shows "\<exists>m'. dispatch_at he g nows m = Some m' \<and> waiting r msg packet k t m'"
  using assms
proof (induction nows arbitrary: m)
  case (Cons now nows)
  then obtain m1 where "dispatch he g now now m = Some m1" "waiting r msg packet k t m1"
    using waiting_early [of r msg packet k t m now he g now] by auto
  then show ?case using Cons by simp
qed simp

lemma dispatch_at_append:
  "dispatch_at he g (xs @ ys) m = Option.bind (dispatch_at he g xs m) (dispatch_at he g ys)"
  by (induction xs arbitrary: m) (auto split: bind_splits)

lemma waiting_due:
  assumes w: "waiting r msg packet k t m" and k: "k < MAX_SENDS" and p: "packet = map_option contents (msg_Write he msg ByteBuffer_new)"
  shows "\<exists>m'. dispatch he StunRequest_GetNextDelay t t m = Some m' \<and>
    waiting r msg packet (Suc k) (t + of_int (DELAY_UNIT * min (2 ^ k) DELAY_MAX_FACTOR)) m'"
  using w k p
  by (auto simp: waiting_def dispatch_def get_pass_def release_due.simps OnMessage_def StunRequest_GetNextDelay_def Let_def
      MQID_QUIT_def MQID_DISPOSE_def MSG_STUN_SEND_def PostDelayed_def DoDelayPost_def EnsureActive_def push_bit_eq_mult replicate_append_same
      stun_send_def Message_new_def)

definition ended :: "nat \<Rightarrow> byte list option \<Rightarrow> stun_manager \<Rightarrow> bool" where
  "ended r packet m \<longleftrightarrow>
     rm_events m = replicate 9 (SentPacket r packet) @ [TimedOut r] \<and> rm_requests m = [] \<and> rm_objects m = (\<lambda>r. None) \<and>
     mq_empty (rm_thread m)"

lemma mq_empty_iff: "mq_empty q \<longleftrightarrow> mq_msgq q = [] \<and> mq_dmsgq q = [] \<and> \<not> mq_fPeekKeep q"
  by (auto simp: mq_empty_def mq_size_def)

lemma waiting_timeout:
  assumes "waiting r msg packet MAX_SENDS t m"
  shows "\<exists>m'. dispatch he StunRequest_GetNextDelay t t m = Some m' \<and> ended r packet m'"
  using assms
  by (auto simp: waiting_def ended_def dispatch_def get_pass_def release_due.simps OnMessage_def delete_request_def Manager_Remove_def
      clear_handler_def request_id_def mq_Clear_def Let_def MAX_SENDS_def mq_empty_iff)

text \<open>
  The times at which a request that was sent at \<open>t\<close> is due, the last being its timeout, and the moments at which the
  thread looks at its queue: at these times, and before the \<open>k\<close>-th of them also at the moments \<open>early k\<close>.
\<close>

definition due :: "u32 \<Rightarrow> nat \<Rightarrow> u32" where
  "due t k = t + [0, 100, 300, 700, 1500, 3100, 4700, 6300, 7900, 9500] ! k"

fun looks :: "(nat \<Rightarrow> u32 list) \<Rightarrow> u32 \<Rightarrow> nat \<Rightarrow> u32 list" where
  "looks early t 0 = []"
| "looks early t (Suc k) = looks early t k @ early k @ [due t k]"

lemma due_Suc:
  assumes "k < MAX_SENDS"
  shows "due t (Suc k) = due t k + of_int (DELAY_UNIT * min (2 ^ k) DELAY_MAX_FACTOR)"
proof -
  have "k \<in> {0, 1, 2, 3, 4, 5, 6, 7, 8}" using assms by (auto simp: MAX_SENDS_def)
  then show ?thesis by (elim insertE emptyE) (simp_all add: due_def DELAY_UNIT_def DELAY_MAX_FACTOR_def)
qed

lemma looks_run:
  assumes w: "waiting r msg packet 0 (due t 0) m" and p: "packet = map_option contents (msg_Write he msg ByteBuffer_new)"
    and early: "\<And>k now. k \<le> MAX_SENDS \<Longrightarrow> now \<in> set (early k) \<Longrightarrow> TimeIsLater now (due t k)"
  shows "k \<le> MAX_SENDS \<Longrightarrow> \<exists>m'. dispatch_at he StunRequest_GetNextDelay (looks early t k) m = Some m' \<and> waiting r msg packet k (due t k) m'"
proof (induction k)
  case 0
  then show ?case using w by simp
next
  case (Suc k)
  then obtain m1 where m1: "dispatch_at he StunRequest_GetNextDelay (looks early t k) m = Some m1" "waiting r msg packet k (due t k) m1"
    by auto
  then obtain m2 where m2: "dispatch_at he StunRequest_GetNextDelay (early k) m1 = Some m2" "waiting r msg packet k (due t k) m2"
    using waiting_early_all early Suc.prems by (metis Suc_leD)
  obtain m3 where "dispatch he StunRequest_GetNextDelay (due t k) (due t k) m2 = Some m3" "waiting r msg packet (Suc k) (due t (Suc k)) m3"
    using waiting_due [OF m2(2) _ p] due_Suc [of k t] Suc.prems by (metis Suc_le_lessD)
  then show ?case using m1(1) m2(1) by (simp add: dispatch_at_append)
qed

lemma one_request_waiting:
  assumes "length tid = kStunTransactionIdLength" and "\<And>r msg. sm_tid (prepare r msg) = sm_tid msg"
    and "msg' = (if sm_type msg = 0 then prepare r (msg\<lparr>sm_tid := tid\<rparr>) else msg\<lparr>sm_tid := tid\<rparr>)"
  shows "\<exists>m. one_request prepare r msg tid t = Some m \<and> waiting r msg' packet 0 t m"
proof -
  have "ucast (ucast x :: u32) = x" for x :: u16 by (rule bit_word_eqI) (auto simp: bit_simps)
  then have "(ucast (sm_type msg) :: u32) = 0 \<longleftrightarrow> sm_type msg = 0" by (metis ucast_0)
  then show ?thesis
    using assms
    by (auto simp: one_request_def Manager_Send_def SendDelayed_def StunRequestManager_new_def StunRequest_new_def waiting_def
        rq_Construct_def request_type_def request_id_def SetTransactionID_def IsValidTransactionId_def MAX_SENDS_def
        PostDelayed_def DoDelayPost_def EnsureActive_def MessageQueue_new_def stun_send_def Message_new_def Let_def)
qed

text \<open>
  C14: A request that nobody answers is sent at 0, 100, 300, 700, 1500, 3100, 4700, 6300 and 7900 milliseconds and
  times out after 9.5 seconds, each exactly then: however often the thread looks at its queue before the k-th of
  these times, it has sent k packets until then, and one more when it looks at that time.  The clock may wrap around on
  the way, and nothing of the request is left behind.
\<close>

theorem retransmission_schedule:
  fixes r msg and t :: u32 and he
  assumes "length tid = kStunTransactionIdLength" and "\<And>r msg. sm_tid (prepare r msg) = sm_tid msg"
    and "\<And>k now. k \<le> 9 \<Longrightarrow> now \<in> set (early k) \<Longrightarrow> TimeIsLater now (due t k)"
  defines "msg' \<equiv> (if sm_type msg = 0 then prepare r (msg\<lparr>sm_tid := tid\<rparr>) else msg\<lparr>sm_tid := tid\<rparr>)"
  defines "sent \<equiv> SentPacket r (map_option contents (msg_Write he msg' ByteBuffer_new))"
  shows "\<exists>m. one_request prepare r msg tid t = Some m \<and>
    (\<forall>k\<le>9. \<exists>before. dispatch_at he StunRequest_GetNextDelay (looks early t k @ early k) m = Some before \<and>
       rm_events before = replicate k sent \<and>
       (\<exists>after. dispatch_at he StunRequest_GetNextDelay (looks early t k @ early k @ [due t k]) m = Some after \<and>
         rm_events after = (if k < 9 then replicate (Suc k) sent else replicate 9 sent @ [TimedOut r]) \<and>
         (k = 9 \<longrightarrow> rm_requests after = [] \<and> rm_objects after = (\<lambda>r. None) \<and> mq_empty (rm_thread after))))"
proof -
  let ?packet = "map_option contents (msg_Write he msg' ByteBuffer_new)"
  have "\<exists>m. one_request prepare r msg tid t = Some m \<and> waiting r msg' ?packet 0 t m"
    by (rule one_request_waiting [OF assms(1,2)]) (simp add: msg'_def)
  then obtain m where m: "one_request prepare r msg tid t = Some m" "waiting r msg' ?packet 0 t m" by blast
  have "\<exists>before after. dispatch_at he StunRequest_GetNextDelay (looks early t k @ early k) m = Some before \<and>
      rm_events before = replicate k sent \<and>
      dispatch_at he StunRequest_GetNextDelay (looks early t k @ early k @ [due t k]) m = Some after \<and>
      (if k < 9 then rm_events after = replicate (Suc k) sent else ended r ?packet after)" if k: "k \<le> 9" for k
  proof -
    have "waiting r msg' ?packet 0 (due t 0) m" using m(2) by (simp add: due_def)
    then have "\<exists>m1. dispatch_at he StunRequest_GetNextDelay (looks early t k) m = Some m1 \<and> waiting r msg' ?packet k (due t k) m1"
      by (rule looks_run [OF _ refl]) (use assms(3) k in \<open>simp_all add: MAX_SENDS_def\<close>)
    then obtain m1 where m1: "dispatch_at he StunRequest_GetNextDelay (looks early t k) m = Some m1" "waiting r msg' ?packet k (due t k) m1"
      by blast
    obtain m2 where m2: "dispatch_at he StunRequest_GetNextDelay (early k) m1 = Some m2" "waiting r msg' ?packet k (due t k) m2"
      using waiting_early_all [OF m1(2)] assms(3) k by blast
    have "\<exists>m3. dispatch he StunRequest_GetNextDelay (due t k) (due t k) m2 = Some m3 \<and>
        (if k < 9 then rm_events m3 = replicate (Suc k) sent else ended r ?packet m3)"
    proof (cases "k < 9")
      case True
      then show ?thesis using waiting_due [OF m2(2) _ refl] by (auto simp: MAX_SENDS_def waiting_def sent_def)
    next
      case False
      then show ?thesis using waiting_timeout [of r msg' ?packet "due t k" m2 he] m2(2) k by (auto simp: MAX_SENDS_def)
    qed
    moreover have "rm_events m2 = replicate k sent" using m2(2) by (simp add: waiting_def sent_def)
    ultimately show ?thesis using m1(1) m2(1) by (auto simp: dispatch_at_append)
  qed
  then have "\<exists>before. dispatch_at he StunRequest_GetNextDelay (looks early t k @ early k) m = Some before \<and>
       rm_events before = replicate k sent \<and>
       (\<exists>after. dispatch_at he StunRequest_GetNextDelay (looks early t k @ early k @ [due t k]) m = Some after \<and>
         rm_events after = (if k < 9 then replicate (Suc k) sent else replicate 9 sent @ [TimedOut r]) \<and>
         (k = 9 \<longrightarrow> rm_requests after = [] \<and> rm_objects after = (\<lambda>r. None) \<and> mq_empty (rm_thread after)))" if "k \<le> 9" for k
    using that unfolding ended_def sent_def by (metis less_irrefl_nat)
  then show ?thesis using m(1) by blast
qed

text \<open>
  The request whose clock wraps around after six milliseconds; the thread also looks at its queue five milliseconds
  before each time and one.
\<close>

theorem retransmission_schedule_witness:
  "\<exists>m before after. one_request StunBindingRequest_Prepare 7 (StunMessage_new StunMessageC) (replicate 12 0x41) 0xFFFFFFFA = Some m \<and>
    dispatch_at LittleEndianHost StunRequest_GetNextDelay
      (looks (\<lambda>k. [due 0xFFFFFFFA k - 5, due 0xFFFFFFFA k - 1]) 0xFFFFFFFA 2 @ [0x121, 0x125]) m = Some before \<and>
    length (rm_events before) = 2 \<and>
    dispatch_at LittleEndianHost StunRequest_GetNextDelay
      (looks (\<lambda>k. [due 0xFFFFFFFA k - 5, due 0xFFFFFFFA k - 1]) 0xFFFFFFFA 2 @ [0x121, 0x125, 0x126]) m = Some after \<and>
    length (rm_events after) = 3"
proof -
  have later: "TimeIsLater (x - 5) x" "TimeIsLater (x - 1) x" for x by (simp_all add: TimeIsLater_def HALF_def)
  have d: "due 0xFFFFFFFA 2 = 0x126" by (simp add: due_def)
  obtain m where m: "one_request StunBindingRequest_Prepare 7 (StunMessage_new StunMessageC) (replicate 12 0x41) 0xFFFFFFFA = Some m"
    and s: "\<forall>k\<le>9. \<exists>before. dispatch_at LittleEndianHost StunRequest_GetNextDelay
        (looks (\<lambda>k. [due 0xFFFFFFFA k - 5, due 0xFFFFFFFA k - 1]) 0xFFFFFFFA k @ [due 0xFFFFFFFA k - 5, due 0xFFFFFFFA k - 1]) m = Some before \<and>
      length (rm_events before) = k \<and> (\<exists>after. dispatch_at LittleEndianHost StunRequest_GetNextDelay
        (looks (\<lambda>k. [due 0xFFFFFFFA k - 5, due 0xFFFFFFFA k - 1]) 0xFFFFFFFA k @ [due 0xFFFFFFFA k - 5, due 0xFFFFFFFA k - 1] @ [due 0xFFFFFFFA k]) m
          = Some after \<and> length (rm_events after) = Suc k)"
    using retransmission_schedule [where tid = "replicate 12 0x41" and prepare = StunBindingRequest_Prepare and r = 7
      and msg = "StunMessage_new StunMessageC" and t = "0xFFFFFFFA" and he = LittleEndianHost
      and early = "\<lambda>k. [due 0xFFFFFFFA k - 5, due 0xFFFFFFFA k - 1]"] later
    by (fastforce simp: kStunTransactionIdLength_def StunBindingRequest_Prepare_def SetType_def)
  show ?thesis using m s [rule_format, of 2] d by auto
qed

lemma msg_Read_tid:
  assumes "msg_Read he cls (ByteBuffer_of bs) = Some (m, b)"
  shows "sm_tid m = take 12 (drop 8 bs) \<or> length (sm_tid m) = 16"
proof -
  let ?b = "ByteBuffer_of bs"
  define b4 where "b4 = advance (advance (advance (advance ?b 2) 2) 4) 12"
  have len: "20 \<le> length bs"
    using assms by (auto simp: msg_Read_def net_simps bind_eq_Some_conv kStunMagicCookieLength_def
        kStunTransactionIdLength_def split: if_splits)
  have r: "ReadUInt16 he ?b = Some (GetBE16 (take 2 bs), advance ?b 2)"
    "ReadUInt16 he (advance ?b 2) = Some (GetBE16 (take 2 (drop 2 bs)), advance (advance ?b 2) 2)"
    "ReadString (advance (advance ?b 2) 2) [] 4 = Some (take 4 (drop 4 bs), advance (advance (advance ?b 2) 2) 4)"
    "ReadString (advance (advance (advance ?b 2) 2) 4) [] 12 = Some (take 12 (drop 8 bs), b4)"
    using len by (simp_all add: net_simps b4_def)
  show ?thesis using assms len r
    by (auto simp: msg_Read_def kStunMagicCookieLength_def kStunTransactionIdLength_def bind_eq_Some_conv Let_def split: if_splits)
qed

text \<open>
  C15: Only a well-formed packet with the transaction id of a request under way and the response type of that request is
  taken for a response; it goes to that request with exactly the message that was parsed, ends it, leaves every other
  request alone, and a second copy of it is not taken.
\<close>

theorem responses_matched:
  assumes "manager_run he StunRequest_GetNextDelay prepare m" and "\<And>r msg. sm_tid (prepare r msg) = sm_tid msg"
    and "CheckResponse he m data = Some (True, m')"
  shows "\<exists>r rq response buf e.
    rm_objects m r = Some rq \<and> rq_manager rq \<and> msg_Read he (sm_class (rq_msg rq)) (ByteBuffer_of data) = Some (response, buf) \<and>
    sm_tid response = request_id rq \<and> take 12 (drop 8 data) = request_id rq \<and>
    (e = Responded r response \<and> ucast (sm_type response) = GetStunSuccessResponseType (request_type rq)
     \<or> e = ErrorResponded r response \<and> ucast (sm_type response) = GetStunErrorResponseType (request_type rq)) \<and>
    rm_events m' = rm_events m @ [e] \<and> rm_objects m' = (rm_objects m)(r := None) \<and>
    CheckResponse he m' data = Some (False, m')"
proof -
  note P = base_policy [of prepare, OF assms(2)]
  have ok: "retry_policy.manager_ok {} m" "retry_policy.events_ok (\<lambda>c t. if t then 0 else MAX_SENDS - c) MAX_SENDS m"
    using retry_policy.manager_run_ok [OF P assms(1)] by blast+
  define tid where "tid = take 12 (drop 8 data)"
  obtain r where r: "map_of (rm_requests m) tid = Some r" and len: "\<not> length data < 20"
    using assms(3) by (auto simp: CheckResponse_def Let_def tid_def kStunTransactionIdLength_def kStunTransactionIdOffset_def
        split: if_splits option.splits)
  obtain rq where rq: "rm_objects m r = Some rq" "request_id rq = tid" "rq_manager rq"
    using retry_policy.requests_object [OF P ok(1) r] .
  obtain response buf where p: "msg_Read he (sm_class (rq_msg rq)) (ByteBuffer_of data) = Some (response, buf)"
    and c: "CheckResponse_msg m response = Some (True, m')"
    using assms(3) r rq(1) len
    by (auto simp: CheckResponse_def Let_def tid_def kStunTransactionIdLength_def kStunTransactionIdOffset_def split: option.splits)
  obtain r' where r': "map_of (rm_requests m) (sm_tid response) = Some r'"
    using c by (auto simp: CheckResponse_msg_def split: option.splits)
  then obtain rq' where "rm_objects m r' = Some rq'" "request_id rq' = sm_tid response"
    using retry_policy.requests_object [OF P ok(1)] by metis
  then have "length (sm_tid response) = 12" using retry_policy.manager_okD(8) [OF P ok(1)] by metis
  then have tid: "sm_tid response = tid" using msg_Read_tid [OF p] by (simp add: tid_def)
  obtain e where e: "is_outcome e" "event_request e = r"
    "e = Responded r response \<and> ucast (sm_type response) = GetStunSuccessResponseType (request_type rq)
     \<or> e = ErrorResponded r response \<and> ucast (sm_type response) = GetStunErrorResponseType (request_type rq)"
    and d: "delete_request (m\<lparr>rm_events := rm_events m @ [e]\<rparr>) r = Some m'"
  proof (cases "ucast (sm_type response) = GetStunSuccessResponseType (request_type rq)")
    case True
    then show ?thesis using that [of "Responded r response"] c r rq(1) by (auto simp: CheckResponse_msg_def tid bind_eq_Some_conv)
  next
    case False
    then show ?thesis using that [of "ErrorResponded r response"] c r rq(1)
      by (auto simp: CheckResponse_msg_def tid bind_eq_Some_conv split: if_splits)
  qed
  obtain m'' where m'': "delete_request (m\<lparr>rm_events := rm_events m @ [e]\<rparr>) r = Some m''" "rm_objects m'' = (rm_objects m)(r := None)"
    "rm_events m'' = rm_events m @ [e]" "rm_requests m'' = filter (\<lambda>kr. snd kr \<noteq> r) (rm_requests m)"
    by (rule retry_policy.finish_request [OF P ok empty_subsetI rq(1) e(1,2)])
  note map_of_SomeD [OF r] retry_policy.manager_okD(1) [OF P ok(1)]
  then have "(tid, r') \<in> set (rm_requests m) \<Longrightarrow> r' = r" for r' using eq_key_imp_eq_value by metis
  moreover have "rm_requests m' = filter (\<lambda>kr. snd kr \<noteq> r) (rm_requests m)" using m'' d by simp
  ultimately have "(tid, r') \<notin> set (rm_requests m')" for r' by auto
  then have "map_of (rm_requests m') tid = None" by (force simp: map_of_eq_None_iff)
  then have "CheckResponse he m' data = Some (False, m')"
    by (simp add: CheckResponse_def Let_def kStunTransactionIdLength_def kStunTransactionIdOffset_def flip: tid_def)
  then show ?thesis
    using rq p tid e(3) m'' d unfolding tid_def [symmetric] by (intro exI [of _ r] exI [of _ rq] exI [of _ response] exI [of _ buf] exI [of _ e]) simp
qed

text \<open>A binding request under way, and a run that reaches it.\<close>

definition sample_manager :: stun_manager where
  "sample_manager =
     (case one_request StunBindingRequest_Prepare 7 (StunMessage_new IceMessageC) (replicate 12 0x41) 50 of
        Some m \<Rightarrow> m | None \<Rightarrow> StunRequestManager_new)"

lemma StunBindingRequest_Prepare_tid: "sm_tid (StunBindingRequest_Prepare r msg) = sm_tid msg"
  by (simp add: StunBindingRequest_Prepare_def SetType_def)

lemmas sample_manager_simps = sample_manager_def one_request_def Manager_Send_def SendDelayed_def StunRequestManager_new_def
  StunRequest_new_def rq_Construct_def request_type_def request_id_def SetTransactionID_def IsValidTransactionId_def
  StunBindingRequest_Prepare_def SetType_def StunMessage_new_def kStunTransactionIdLength_def

lemma sample_manager_run: "manager_run he StunRequest_GetNextDelay StunBindingRequest_Prepare sample_manager"
proof -
  let ?m = "StunRequestManager_new\<lparr>rm_objects := [7 \<mapsto> StunRequest_new (StunMessage_new IceMessageC) (replicate 12 0x41)]\<rparr>"
  have a: "manager_run he StunRequest_GetNextDelay StunBindingRequest_Prepare ?m"
    using run_create [OF run_start, of 7 "replicate 12 0x41" he StunRequest_GetNextDelay StunBindingRequest_Prepare "StunMessage_new IceMessageC"]
    by (simp add: StunRequestManager_new_def kStunTransactionIdLength_def)
  have "SendDelayed StunBindingRequest_Prepare ?m 50 7 0 = Some sample_manager"
    by (simp add: sample_manager_simps)
  from run_send [OF a _ _ _ this] show ?thesis
    by (simp add: StunRequestManager_new_def StunRequest_new_def)
qed

theorem stun_requests_safe_witness:
  "dispatch LittleEndianHost StunRequest_GetNextDelay 60 61 sample_manager \<noteq> None
    \<and> CheckResponse LittleEndianHost sample_manager (msg_bytes example_msg) \<noteq> None \<and> Manager_Clear sample_manager \<noteq> None"
  using stun_requests_safe [OF sample_manager_run StunBindingRequest_Prepare_tid] by blast

theorem responses_matched_witness:
  "\<exists>m'. CheckResponse LittleEndianHost sample_manager (msg_bytes example_msg) = Some (True, m') \<and>
    rm_objects m' 7 = None \<and> CheckResponse LittleEndianHost m' (msg_bytes example_msg) = Some (False, m')"
proof -
  let ?data = "msg_bytes example_msg"
  obtain b where r: "msg_Read LittleEndianHost IceMessageC (ByteBuffer_of ?data) = Some (example_msg, b)"
    using msg_Read_bytes [OF example_msg_wf ordered_of, of ?data LittleEndianHost] by (auto simp: example_msg_def)
  have "length ?data \<ge> 20" using length_header [of "sm_tid example_msg"] by (simp add: msg_bytes_def example_msg_def tid_wf_def)
  moreover have "take 12 (drop 8 ?data) = replicate 12 0x41" by (simp add: msg_bytes_def header_bytes_def example_msg_def)
  moreover have "sm_tid example_msg = replicate 12 0x41" "sm_type example_msg = 0x101" by (simp_all add: example_msg_def)
  ultimately obtain m' where m': "CheckResponse LittleEndianHost sample_manager ?data = Some (True, m')"
    using r by (auto simp: CheckResponse_def CheckResponse_msg_def sample_manager_simps kStunTransactionIdOffset_def Let_def
        GetStunSuccessResponseType_def IsStunRequestType_def kStunTypeMask_def delete_request_def Manager_Remove_def)
  from responses_matched [OF sample_manager_run StunBindingRequest_Prepare_tid m'] have
    "CheckResponse LittleEndianHost m' ?data = Some (False, m')" "\<exists>r. rm_objects sample_manager r \<noteq> None \<and> rm_objects m' = (rm_objects sample_manager)(r := None)"
    by blast+
  moreover have "rm_objects sample_manager r \<noteq> None \<Longrightarrow> r = 7" for r
    by (auto simp: sample_manager_simps split: if_splits)
  ultimately show ?thesis using m' by (metis fun_upd_same)
qed

end
