(* ===== verification/IcePort.thy ===== *)
theory IcePort
  imports StunRequest Base64
begin

unbundle bit_operations_syntax

text \<open>
  The part of \<open>Port\<close> of \<open>talk/p2p/base/port.cc\<close> that does not depend on its connections, and \<open>Candidate\<close> of
  \<open>candidate.h\<close>: priorities, the user name of a connectivity check, the role conflict, and the checks that a STUN
  packet passes before the port accepts it.

  Strings are lists of bytes.  What a port does to the outside is a list of actions.  \<open>t\<close> is the CRC table and
  \<open>he\<close> the byte order of the host, as in the STUN theories.
\<close>

datatype transport_role = ROLE_CONTROLLING | ROLE_CONTROLLED | ROLE_UNKNOWN
datatype ice_protocol = ICEPROTO_GOOGLE | ICEPROTO_HYBRID | ICEPROTO_RFC5245
datatype ice_mode = ICEMODE_FULL | ICEMODE_LITE
datatype lifetime = LT_PRESTART | LT_PRETIMEOUT | LT_POSTTIMEOUT

record candidate =
  cd_id :: "byte list"
  cd_component :: int
  cd_protocol :: "byte list"
  cd_address :: socket_address
  cd_priority :: u32
  cd_username :: "byte list"
  cd_password :: "byte list"
  cd_type :: "byte list"
  cd_network_name :: "byte list"
  cd_generation :: u32
  cd_foundation :: "byte list"
  cd_related_address :: socket_address

record ice_port =
  pt_type :: "byte list"
  pt_send_retransmit_count_attribute :: bool
  pt_network_name :: "byte list"
  pt_ip :: ip_address
  pt_component :: int
  pt_generation :: u32
  pt_related_address :: socket_address
  pt_ice_username_fragment :: "byte list"
  pt_password :: "byte list"
  pt_candidates :: "candidate list"
  pt_lifetime :: lifetime
  pt_enable_port_packets :: bool
  pt_ice_protocol :: ice_protocol
  pt_role :: transport_role
  pt_tiebreaker :: u64
  pt_shared_socket :: bool

datatype port_action =
    SignalRoleConflict
  | SendTo "byte list option" socket_address
  | SignalUnknownAddress socket_address stun_message "byte list"
  | SignalReadPacket "byte list" socket_address
  | SignalCandidateReady candidate
  | SignalPortComplete
  | SignalPortDestroyed

definition ICE_CANDIDATE_COMPONENT_DEFAULT :: int where "ICE_CANDIDATE_COMPONENT_DEFAULT = 1"
definition ICE_CANDIDATE_COMPONENT_RTCP :: int where "ICE_CANDIDATE_COMPONENT_RTCP = 2"
definition ICE_TYPE_PREFERENCE_SRFLX :: u32 where "ICE_TYPE_PREFERENCE_SRFLX = 100"
definition ICE_TYPE_PREFERENCE_PRFLX :: u32 where "ICE_TYPE_PREFERENCE_PRFLX = 110"
definition ICE_TYPE_PREFERENCE_HOST :: u32 where "ICE_TYPE_PREFERENCE_HOST = 126"

definition STUN_BINDING_REQUEST :: u16 where "STUN_BINDING_REQUEST = 0x0001"
definition STUN_BINDING_INDICATION :: u16 where "STUN_BINDING_INDICATION = 0x0011"
definition STUN_BINDING_RESPONSE :: u16 where "STUN_BINDING_RESPONSE = 0x0101"
definition STUN_BINDING_ERROR_RESPONSE :: u16 where "STUN_BINDING_ERROR_RESPONSE = 0x0111"

definition STUN_ATTR_USERNAME :: u16 where "STUN_ATTR_USERNAME = 0x0006"
definition STUN_ATTR_RETRANSMIT_COUNT :: u16 where "STUN_ATTR_RETRANSMIT_COUNT = 0xFF00"
definition STUN_ATTR_PRIORITY :: u16 where "STUN_ATTR_PRIORITY = 0x0024"
definition STUN_ATTR_USE_CANDIDATE :: u16 where "STUN_ATTR_USE_CANDIDATE = 0x0025"
definition STUN_ATTR_ICE_CONTROLLED :: u16 where "STUN_ATTR_ICE_CONTROLLED = 0x8029"
definition STUN_ATTR_ICE_CONTROLLING :: u16 where "STUN_ATTR_ICE_CONTROLLING = 0x802A"

definition STUN_ERROR_BAD_REQUEST :: int where "STUN_ERROR_BAD_REQUEST = 400"
definition STUN_ERROR_UNAUTHORIZED :: int where "STUN_ERROR_UNAUTHORIZED = 401"
definition STUN_ERROR_UNKNOWN_ATTRIBUTE :: int where "STUN_ERROR_UNKNOWN_ATTRIBUTE = 420"
definition STUN_ERROR_STALE_CREDENTIALS :: int where "STUN_ERROR_STALE_CREDENTIALS = 430"
definition STUN_ERROR_ROLE_CONFLICT :: int where "STUN_ERROR_ROLE_CONFLICT = 487"
definition STUN_ERROR_SERVER_ERROR :: int where "STUN_ERROR_SERVER_ERROR = 500"
definition STUN_ERROR_GLOBAL_FAILURE :: int where "STUN_ERROR_GLOBAL_FAILURE = 600"

definition STUN_ERROR_REASON_BAD_REQUEST :: "byte list" where "STUN_ERROR_REASON_BAD_REQUEST = map of_char ''Bad Request''"
definition STUN_ERROR_REASON_UNAUTHORIZED :: "byte list" where "STUN_ERROR_REASON_UNAUTHORIZED = map of_char ''Unauthorized''"
definition STUN_ERROR_REASON_ROLE_CONFLICT :: "byte list" where "STUN_ERROR_REASON_ROLE_CONFLICT = map of_char ''Role Conflict''"

subsection \<open>Candidates\<close>

text \<open>The shifts are of a \<open>uint32\<close> and of an \<open>int\<close>; \<open>component\<close> is an \<open>int\<close>.\<close>

definition GetPriority :: "candidate \<Rightarrow> u32 \<Rightarrow> u32" where
  "GetPriority c type_preference =
     (let addr_pref = IPAddressPrecedence (sa_ip (cd_address c))
      in push_bit 24 type_preference OR push_bit 8 (of_int addr_pref) OR of_int (256 - cd_component c))"

definition IsEquivalent :: "candidate \<Rightarrow> candidate \<Rightarrow> bool" where
  "IsEquivalent a c \<longleftrightarrow>
     cd_id a = cd_id c \<and> cd_component a = cd_component c \<and> cd_protocol a = cd_protocol c \<and>
     sa_eq (cd_address a) (cd_address c) \<and> cd_username a = cd_username c \<and> cd_password a = cd_password c \<and>
     cd_type a = cd_type c \<and> cd_generation a = cd_generation c \<and> cd_foundation a = cd_foundation c \<and>
     sa_eq (cd_related_address a) (cd_related_address c)"

text \<open>The pair priority of \<open>Connection::priority\<close>; \<open>2 * max (g, d)\<close> is computed in 32 bits.\<close>

definition pair_priority :: "transport_role \<Rightarrow> u32 \<Rightarrow> u32 \<Rightarrow> u64" where
  "pair_priority role local_priority remote_priority =
     (if role = ROLE_UNKNOWN then 0
      else
        let (g, d) = (if role = ROLE_CONTROLLING then (local_priority, remote_priority) else (remote_priority, local_priority))
        in push_bit 32 (ucast (min g d)) + ucast (2 * max g d + (if g > d then 1 else 0) :: u32))"

subsection \<open>The user name\<close>

text \<open>\<open>None\<close>: the ports never let it come to a character outside of the base 64 alphabet.\<close>

definition GetRtcpUfragFromRtpUfrag :: "byte list \<Rightarrow> byte list option" where
  "GetRtcpUfragFromRtpUfrag rtp_ufrag =
     (if rtp_ufrag = [] then Some rtp_ufrag
      else
        (case GetNextBase64Char (last rtp_ufrag) of
           Some (Some new_last_char) \<Rightarrow> Some (rtp_ufrag[length rtp_ufrag - 1 := new_last_char])
         | _ \<Rightarrow> None))"

definition username_fragment :: "ice_port \<Rightarrow> byte list" where
  "username_fragment p =
     (if pt_ice_protocol p = ICEPROTO_GOOGLE \<and> pt_component p = ICE_CANDIDATE_COMPONENT_RTCP then
        (case GetRtcpUfragFromRtpUfrag (pt_ice_username_fragment p) of Some u \<Rightarrow> u | None \<Rightarrow> [])
      else pt_ice_username_fragment p)"

definition CreateStunUsername :: "ice_port \<Rightarrow> byte list \<Rightarrow> byte list" where
  "CreateStunUsername p remote_username =
     (if pt_ice_protocol p = ICEPROTO_RFC5245 then remote_username @ [0x3A] @ username_fragment p
      else remote_username @ username_fragment p)"

text \<open>The attributes of a message have the class that belongs to their type, so the casts of the code are right.\<close>

definition GetByteString :: "stun_message \<Rightarrow> u16 \<Rightarrow> byte list option" where
  "GetByteString m type =
     (case GetAttribute m type of Some a \<Rightarrow> (case at_body a of ByteStringAttr b \<Rightarrow> Some b | _ \<Rightarrow> None) | None \<Rightarrow> None)"

definition GetUInt32 :: "stun_message \<Rightarrow> u16 \<Rightarrow> u32 option" where
  "GetUInt32 m type =
     (case GetAttribute m type of Some a \<Rightarrow> (case at_body a of UInt32Attr v \<Rightarrow> Some v | _ \<Rightarrow> None) | None \<Rightarrow> None)"

definition GetUInt64 :: "stun_message \<Rightarrow> u16 \<Rightarrow> u64 option" where
  "GetUInt64 m type =
     (case GetAttribute m type of Some a \<Rightarrow> (case at_body a of UInt64Attr v \<Rightarrow> Some v | _ \<Rightarrow> None) | None \<Rightarrow> None)"

text \<open>The local and the remote fragment.\<close>

definition ParseStunUsername :: "ice_port \<Rightarrow> stun_message \<Rightarrow> (byte list \<times> byte list) option" where
  "ParseStunUsername p stun_msg =
     (case GetByteString stun_msg STUN_ATTR_USERNAME of
        None \<Rightarrow> None
      | Some username \<Rightarrow>
          if pt_ice_protocol p = ICEPROTO_RFC5245 then
            if 0x3A \<in> set username
            then Some (takeWhile (\<lambda>c. c \<noteq> 0x3A) username, drop 1 (dropWhile (\<lambda>c. c \<noteq> 0x3A) username))
            else None
          else if pt_ice_protocol p = ICEPROTO_GOOGLE then
            if length username < length (username_fragment p) then None
            else Some (take (length (username_fragment p)) username, drop (length (username_fragment p)) username)
          else Some ([], []))"

subsection \<open>Responses\<close>

definition packet_of :: "endian \<Rightarrow> stun_message \<Rightarrow> byte list option" where
  "packet_of he m = map_option contents (msg_Write he m ByteBuffer_new)"

text \<open>The results of \<open>AddAttribute\<close> and \<open>SetTransactionID\<close> are not looked at.\<close>

definition add_attr :: "stun_message \<Rightarrow> stun_attribute \<Rightarrow> stun_message" where
  "add_attr m a = (case AddAttribute m a of None \<Rightarrow> m | Some m \<Rightarrow> m)"

definition response_to :: "stun_message \<Rightarrow> u16 \<Rightarrow> stun_message" where
  "response_to request type =
     (let response = SetType (StunMessage_new StunMessageC) (uint type)
      in case SetTransactionID response (sm_tid request) of None \<Rightarrow> response | Some response \<Rightarrow> response)"

definition binding_response :: "endian \<Rightarrow> u32 list \<Rightarrow> ice_port \<Rightarrow> stun_message \<Rightarrow> socket_address \<Rightarrow> stun_message option" where
  "binding_response he t p request addr =
     (case GetByteString request STUN_ATTR_USERNAME of
        None \<Rightarrow> None
      | Some username \<Rightarrow>
          let response = response_to request STUN_BINDING_RESPONSE;
              response = (case GetUInt32 request STUN_ATTR_RETRANSMIT_COUNT of
                            None \<Rightarrow> response
                          | Some v \<Rightarrow> add_attr response (StunUInt32Attribute STUN_ATTR_RETRANSMIT_COUNT v));
              response =
                (if pt_ice_protocol p = ICEPROTO_RFC5245 then
                   let response = add_attr response (StunXorAddressAttribute STUN_ATTR_XOR_MAPPED_ADDRESS addr);
                       response = fst (AddMessageIntegrity he response (pt_password p))
                   in fst (AddFingerprint he t response)
                 else if pt_ice_protocol p = ICEPROTO_GOOGLE then
                   let response = add_attr response (StunAddressAttribute STUN_ATTR_MAPPED_ADDRESS addr)
                   in add_attr response (StunByteStringAttribute STUN_ATTR_USERNAME username)
                 else response)
          in Some response)"

text \<open>With \<open>True\<close> the connection to the address gets \<open>ReceivedPing\<close> next.\<close>

definition SendBindingResponse :: "endian \<Rightarrow> u32 list \<Rightarrow> ice_port \<Rightarrow> stun_message \<Rightarrow> socket_address \<Rightarrow> bool \<times> port_action list" where
  "SendBindingResponse he t p request addr =
     (case binding_response he t p request addr of
        None \<Rightarrow> (False, [])
      | Some response \<Rightarrow> (True, [SendTo (packet_of he response) addr]))"

definition error_attr :: "ice_port \<Rightarrow> int \<Rightarrow> byte list \<Rightarrow> stun_attribute" where
  "error_attr p code reason =
     (let attr = \<lparr>at_type = STUN_ATTR_ERROR_CODE, at_length = 4, at_body = ErrorCodeAttr 0 0 []\<rparr>;
          attr = (if pt_ice_protocol p = ICEPROTO_RFC5245 then attr\<lparr>at_body := SetCode (at_body attr) code\<rparr>
                  else if pt_ice_protocol p = ICEPROTO_GOOGLE
                  then attr\<lparr>at_body := ErrorCodeAttr (of_int (code div 256)) (of_int (code mod 256)) []\<rparr>
                  else attr)
      in SetReason attr reason)"

definition binding_error_response :: "endian \<Rightarrow> u32 list \<Rightarrow> ice_port \<Rightarrow> stun_message \<Rightarrow> int \<Rightarrow> byte list \<Rightarrow> stun_message" where
  "binding_error_response he t p request code reason =
     (let response = add_attr (response_to request STUN_BINDING_ERROR_RESPONSE) (error_attr p code reason) in
      if pt_ice_protocol p = ICEPROTO_RFC5245 then
        let response = (if code \<noteq> STUN_ERROR_BAD_REQUEST \<and> code \<noteq> STUN_ERROR_UNAUTHORIZED
                        then fst (AddMessageIntegrity he response (pt_password p)) else response)
        in fst (AddFingerprint he t response)
      else if pt_ice_protocol p = ICEPROTO_GOOGLE then
        (case GetByteString request STUN_ATTR_USERNAME of
           None \<Rightarrow> response
         | Some username \<Rightarrow> add_attr response (StunByteStringAttribute STUN_ATTR_USERNAME username))
      else response)"

definition SendBindingErrorResponse ::
  "endian \<Rightarrow> u32 list \<Rightarrow> ice_port \<Rightarrow> stun_message \<Rightarrow> socket_address \<Rightarrow> int \<Rightarrow> byte list \<Rightarrow> port_action list" where
  "SendBindingErrorResponse he t p request addr code reason =
     [SendTo (packet_of he (binding_error_response he t p request code reason)) addr]"

subsection \<open>The role conflict\<close>

definition MaybeIceRoleConflict ::
  "endian \<Rightarrow> u32 list \<Rightarrow> ice_port \<Rightarrow> socket_address \<Rightarrow> stun_message \<Rightarrow> byte list \<Rightarrow> bool \<times> port_action list" where
  "MaybeIceRoleConflict he t p addr stun_msg remote_ufrag =
     (let (remote_role, remote_tiebreaker) =
            (case GetUInt64 stun_msg STUN_ATTR_ICE_CONTROLLING of
               Some v \<Rightarrow> (ROLE_CONTROLLING, v) | None \<Rightarrow> (ROLE_UNKNOWN, 0));
          error = (False, SendBindingErrorResponse he t p stun_msg addr STUN_ERROR_ROLE_CONFLICT STUN_ERROR_REASON_ROLE_CONFLICT)
      in if remote_role = ROLE_CONTROLLING \<and> username_fragment p = remote_ufrag \<and> remote_tiebreaker = pt_tiebreaker p
         then (True, [])
         else
           let (remote_role, remote_tiebreaker) =
             (case GetUInt64 stun_msg STUN_ATTR_ICE_CONTROLLED of
                Some v \<Rightarrow> (ROLE_CONTROLLED, v) | None \<Rightarrow> (remote_role, remote_tiebreaker))
           in (case pt_role p of
                 ROLE_CONTROLLING \<Rightarrow>
                   if remote_role = ROLE_CONTROLLING then
                     if remote_tiebreaker \<ge> pt_tiebreaker p then (True, [SignalRoleConflict]) else error
                   else (True, [])
               | ROLE_CONTROLLED \<Rightarrow>
                   if remote_role = ROLE_CONTROLLED then
                     if remote_tiebreaker < pt_tiebreaker p then (True, [SignalRoleConflict]) else error
                   else (True, [])
               | ROLE_UNKNOWN \<Rightarrow> (True, [])))"

subsection \<open>Accepting a packet\<close>

text \<open>
  The result, the message with the remote fragment, and the answer that was sent.  The outer \<open>None\<close> is a read
  past the end of the packet in \<open>ValidateMessageIntegrity\<close>.
\<close>

definition GetStunMessage ::
  "endian \<Rightarrow> u32 list \<Rightarrow> ice_port \<Rightarrow> byte list \<Rightarrow> socket_address \<Rightarrow> (bool \<times> (stun_message \<times> byte list) option \<times> port_action list) option" where
  "GetStunMessage he t p data addr =
     (if pt_ice_protocol p = ICEPROTO_RFC5245 \<and> \<not> ValidateFingerprint t data then Some (False, None, [])
      else
        (case msg_Read he IceMessageC (ByteBuffer_of data) of
           None \<Rightarrow> Some (False, None, [])
         | Some (stun_msg, buf) \<Rightarrow>
             if Length buf > 0 then Some (False, None, [])
             else if sm_type stun_msg = STUN_BINDING_REQUEST then
               if GetByteString stun_msg STUN_ATTR_USERNAME = None \<or>
                  pt_ice_protocol p = ICEPROTO_RFC5245 \<and> GetByteString stun_msg STUN_ATTR_MESSAGE_INTEGRITY = None
               then Some (True, None, SendBindingErrorResponse he t p stun_msg addr STUN_ERROR_BAD_REQUEST STUN_ERROR_REASON_BAD_REQUEST)
               else
                 let unauthorized = Some (True, None, SendBindingErrorResponse he t p stun_msg addr STUN_ERROR_UNAUTHORIZED STUN_ERROR_REASON_UNAUTHORIZED)
                 in (case ParseStunUsername p stun_msg of
                       None \<Rightarrow> unauthorized
                     | Some (local_ufrag, remote_ufrag) \<Rightarrow>
                         if local_ufrag \<noteq> username_fragment p then unauthorized
                         else if pt_ice_protocol p = ICEPROTO_RFC5245 then
                           (case ValidateMessageIntegrity he data (pt_password p) of
                              None \<Rightarrow> None
                            | Some ok \<Rightarrow> if \<not> ok then unauthorized else Some (True, Some (stun_msg, remote_ufrag), []))
                         else Some (True, Some (stun_msg, remote_ufrag), []))
             else if sm_type stun_msg = STUN_BINDING_RESPONSE \<or> sm_type stun_msg = STUN_BINDING_ERROR_RESPONSE then
               if sm_type stun_msg = STUN_BINDING_ERROR_RESPONSE \<and> GetErrorCode stun_msg = None then Some (True, None, [])
               else Some (True, Some (stun_msg, []), [])
             else if sm_type stun_msg = STUN_BINDING_INDICATION then Some (True, Some (stun_msg, []), [])
             else Some (True, None, [])))"

text \<open>\<open>OnReadPacket\<close> of a port gets the packets from addresses without a connection.\<close>

definition Port_OnReadPacket :: "endian \<Rightarrow> u32 list \<Rightarrow> ice_port \<Rightarrow> byte list \<Rightarrow> socket_address \<Rightarrow> port_action list option" where
  "Port_OnReadPacket he t p data addr =
     (if pt_enable_port_packets p then Some [SignalReadPacket data addr]
      else
        (case GetStunMessage he t p data addr of
           None \<Rightarrow> None
         | Some (False, _, acts) \<Rightarrow> Some acts
         | Some (True, None, acts) \<Rightarrow> Some acts
         | Some (True, Some (msg, remote_username), acts) \<Rightarrow>
             if sm_type msg = STUN_BINDING_REQUEST then
               if pt_ice_protocol p = ICEPROTO_RFC5245 then
                 let (ok, acts') = MaybeIceRoleConflict he t p addr msg remote_username
                 in Some (acts @ acts' @ (if ok then [SignalUnknownAddress addr msg remote_username] else []))
               else Some (acts @ [SignalUnknownAddress addr msg remote_username])
             else Some acts))"

definition IsCompatibleAddress :: "ice_port \<Rightarrow> socket_address \<Rightarrow> bool" where
  "IsCompatibleAddress p addr \<longleftrightarrow>
     ip_fam (sa_ip addr) = ip_fam (pt_ip p) \<and>
     \<not> (ip_fam (pt_ip p) = AF_INET6 \<and> IPIsPrivate (pt_ip p) \<noteq> IPIsPrivate (sa_ip addr))"

subsection \<open>Local candidates\<close>

fun decimal :: "nat \<Rightarrow> byte list" where
  "decimal n = (if n < 10 then [of_nat (48 + n)] else decimal (n div 10) @ [of_nat (48 + n mod 10)])"

declare decimal.simps [simp del]

text \<open>\<open>ip_string\<close> is \<open>IPAddress::ToString\<close>, which asks the operating system.\<close>

definition ComputeFoundation :: "u32 list \<Rightarrow> (ip_address \<Rightarrow> byte list) \<Rightarrow> byte list \<Rightarrow> byte list \<Rightarrow> socket_address \<Rightarrow> byte list" where
  "ComputeFoundation t ip_string type protocol base_address =
     decimal (unat (fst (ComputeCrc32 t (type @ ip_string (sa_ip base_address) @ protocol))))"

text \<open>\<open>random_id\<close> is the random string of eight characters.\<close>

definition AddAddress ::
  "u32 list \<Rightarrow> (ip_address \<Rightarrow> byte list) \<Rightarrow> byte list \<Rightarrow> ice_port \<Rightarrow> socket_address \<Rightarrow> socket_address \<Rightarrow> byte list \<Rightarrow> byte list \<Rightarrow> u32 \<Rightarrow> bool
     \<Rightarrow> ice_port \<times> port_action list" where
  "AddAddress t ip_string random_id p address base_address protocol type type_preference final =
     (let c = \<lparr>cd_id = random_id, cd_component = pt_component p, cd_protocol = protocol, cd_address = address, cd_priority = 0,
               cd_username = username_fragment p, cd_password = pt_password p, cd_type = type, cd_network_name = pt_network_name p,
               cd_generation = pt_generation p, cd_foundation = ComputeFoundation t ip_string type protocol base_address,
               cd_related_address = pt_related_address p\<rparr>;
          c = c\<lparr>cd_priority := GetPriority c type_preference\<rparr>
      in (p\<lparr>pt_candidates := pt_candidates p @ [c]\<rparr>, SignalCandidateReady c # (if final then [SignalPortComplete] else [])))"

subsection \<open>Priorities\<close>

lemma small_bits:
  assumes "unat (w :: u32) < 2 ^ k" and "bit w n"
  shows "n < k"
proof -
  have "take_bit k (unat w) = unat w" using assms(1) by (simp add: take_bit_nat_eq_self)
  moreover have "bit (unat w) n" using assms(2) by (simp add: bit_unsigned_iff)
  ultimately show ?thesis by (metis bit_take_bit_iff)
qed

lemma or_eq_plus_shifted:
  assumes "unat (w :: u32) < 2 ^ k"
  shows "push_bit k v OR w = push_bit k v + w"
proof -
  have "push_bit k v AND w = 0" by (rule bit_word_eqI) (auto simp: bit_simps dest: small_bits [OF assms])
  then show ?thesis by (simp add: disjunctive_add_eq_or)
qed

lemma unat_push_bit_u32:
  "unat (v :: u32) * 2 ^ k < 2 ^ 32 \<Longrightarrow> unat (push_bit k v) = unat v * 2 ^ k"
  unfolding unsigned_push_bit_eq by (simp add: push_bit_eq_mult take_bit_nat_eq_self)

lemma IPAddressPrecedence_range: "IPAddressPrecedence ip \<in> {0, 1, 10, 20, 30, 40, 50, 60}"
  by (auto simp: IPAddressPrecedence_def)

lemma GetPriority_value:
  assumes "unat tp < 128" and "1 \<le> cd_component c" and "cd_component c \<le> 256"
  shows "unat (GetPriority c tp) = 2 ^ 24 * unat tp + 2 ^ 8 * nat (IPAddressPrecedence (sa_ip (cd_address c))) + nat (256 - cd_component c)"
proof -
  define a where "a = nat (IPAddressPrecedence (sa_ip (cd_address c)))"
  define k where "k = nat (256 - cd_component c)"
  have "0 \<le> IPAddressPrecedence (sa_ip (cd_address c))" "IPAddressPrecedence (sa_ip (cd_address c)) \<le> 60"
    using IPAddressPrecedence_range [of "sa_ip (cd_address c)"] by auto
  then have a: "a \<le> 60" "of_int (IPAddressPrecedence (sa_ip (cd_address c))) = (of_nat a :: u32)"
    unfolding a_def by (simp, intro of_nat_nat [symmetric])
  have "k < 256" using assms(2,3) by (simp add: k_def)
  moreover have "of_int (256 - cd_component c) = (of_nat k :: u32)"
    unfolding k_def using assms(3) by (intro of_nat_nat [symmetric]) simp
  ultimately have k: "k < 256" "of_int (256 - cd_component c) = (of_nat k :: u32)" by blast+
  have ua: "unat (of_nat a :: u32) = a" and uk: "unat (of_nat k :: u32) = k"
    using a(1) k(1) by (simp_all add: unat_of_nat_u32)
  have p8: "unat (push_bit 8 (of_nat a) :: u32) = a * 256" using a(1) ua unat_push_bit_u32 [of "of_nat a" 8] by simp
  have lo: "push_bit 8 (of_nat a) OR of_nat k = push_bit 8 (of_nat a) + (of_nat k :: u32)"
    using or_eq_plus_shifted [of "of_nat k" 8] uk k(1) by simp
  have ulo: "unat (push_bit 8 (of_nat a) + of_nat k :: u32) = a * 256 + k"
    using p8 uk a(1) k(1) by (simp add: unat_word_ariths(1))
  have hi: "push_bit 24 tp OR (push_bit 8 (of_nat a) OR of_nat k) = push_bit 24 tp + (push_bit 8 (of_nat a) + (of_nat k :: u32))"
    unfolding lo using or_eq_plus_shifted [of "push_bit 8 (of_nat a) + of_nat k" 24] ulo a(1) k(1) by simp
  have p24: "unat (push_bit 24 tp) = unat tp * 2 ^ 24" using assms(1) unat_push_bit_u32 [of tp 24] by simp
  have "unat (push_bit 24 tp + (push_bit 8 (of_nat a) + of_nat k :: u32)) = unat tp * 2 ^ 24 + (a * 256 + k)"
    using p24 ulo assms(1) a(1) k(1) by (simp add: unat_word_ariths(1))
  then have "unat (GetPriority c tp) = unat tp * 2 ^ 24 + (a * 256 + k)"
    unfolding GetPriority_def Let_def a(2) k(2) or.assoc hi .
  then show ?thesis by (simp add: a_def k_def)
qed

lemma unat_ucast_up: "unat (ucast (v :: u32) :: u64) = unat v"
  using unat_bound [of v] by (simp add: unsigned_ucast_eq take_bit_nat_eq_self)

lemma pair_priority_value:
  assumes "unat g < 2 ^ 31" and "unat d < 2 ^ 31"
  shows "unat (push_bit 32 (ucast (min g d)) + ucast (2 * max g d + (if g > d then 1 else 0) :: u32) :: u64)
    = 2 ^ 32 * min (unat g) (unat d) + 2 * max (unat g) (unat d) + (if unat g > unat d then 1 else 0)"
proof -
  have lo: "unat (2 * max g d + (if g > d then 1 else 0) :: u32) = 2 * max (unat g) (unat d) + (if unat g > unat d then 1 else 0)"
    using assms by (auto simp: max_def unat_word_ariths word_less_nat_alt word_le_nat_alt)
  have mn: "unat (min g d) = min (unat g) (unat d)" by (simp add: min_def word_le_nat_alt)
  have hi: "unat (push_bit 32 (ucast (min g d)) :: u64) = min (unat g) (unat d) * 2 ^ 32"
    unfolding unsigned_push_bit_eq unat_ucast_up mn using assms by (simp add: push_bit_eq_mult take_bit_nat_eq_self)
  show ?thesis
    by (subst unat_word_ariths(1), unfold unat_ucast_up lo hi) (use assms in simp)
qed

text \<open>
  C17: The priorities are those of RFC 5245: a candidate's is 2^24 times its type preference, 2^8 times its address
  preference and 256 less its component, and below 2^31; the two ends of a pair compute the same pair priority, which is
  the formula of section 5.7.2 for such candidates.
\<close>

theorem priorities_rfc5245:
  fixes l r :: u32
  assumes "unat tp < 128" and "1 \<le> cd_component c" and "cd_component c \<le> 256"
    and "unat l < 2 ^ 31" and "unat r < 2 ^ 31"
  shows "unat (GetPriority c tp)
      = 2 ^ 24 * unat tp + 2 ^ 8 * nat (IPAddressPrecedence (sa_ip (cd_address c))) + (256 - nat (cd_component c))
    \<and> unat (GetPriority c tp) < 2 ^ 31
    \<and> pair_priority ROLE_CONTROLLING l r = pair_priority ROLE_CONTROLLED r l
    \<and> unat (pair_priority ROLE_CONTROLLING l r)
      = 2 ^ 32 * min (unat l) (unat r) + 2 * max (unat l) (unat r) + (if unat l > unat r then 1 else 0)"
proof -
  let ?a = "nat (IPAddressPrecedence (sa_ip (cd_address c)))"
  have "?a \<le> 60" using IPAddressPrecedence_range [of "sa_ip (cd_address c)"] by auto
  moreover have v: "unat (GetPriority c tp) = 2 ^ 24 * unat tp + 2 ^ 8 * ?a + nat (256 - cd_component c)"
    by (rule GetPriority_value [OF assms(1-3)])
  moreover have "nat (256 - cd_component c) = 256 - nat (cd_component c)" "nat (256 - cd_component c) \<le> 255"
    using assms(2,3) by (simp_all add: nat_diff_distrib)
  ultimately have "unat (GetPriority c tp) < 2 ^ 31" using assms(1) by simp
  then show ?thesis
    using v \<open>nat (256 - cd_component c) = _\<close> pair_priority_value [OF assms(4,5)] by (simp add: pair_priority_def)
qed

definition sample_candidate :: candidate where
  "sample_candidate =
     \<lparr>cd_id = [], cd_component = 1, cd_protocol = map of_char ''udp'', cd_address = SocketAddress_ip (AF_INET_ip 0x0A000001) 5000,
      cd_priority = 0x7E001EFF, cd_username = map of_char ''ufragR'', cd_password = map of_char ''pwdR'', cd_type = map of_char ''local'',
      cd_network_name = [], cd_generation = 0, cd_foundation = [], cd_related_address = sa_Clear\<rparr>"

theorem priorities_rfc5245_witness:
  "unat (GetPriority sample_candidate ICE_TYPE_PREFERENCE_HOST) = 2 ^ 24 * 126 + 2 ^ 8 * 30 + 255
    \<and> unat (pair_priority ROLE_CONTROLLED 5 7) = 2 ^ 32 * 5 + 2 * 7 + 1"
  using priorities_rfc5245 [of ICE_TYPE_PREFERENCE_HOST sample_candidate 7 5]
  by (auto simp: sample_candidate_def ICE_TYPE_PREFERENCE_HOST_def IPAddressPrecedence_def SocketAddress_ip_def SetIP_def SetPort_def)

text \<open>The pair priority of a candidate with a priority above 2^31 wraps around: a better pair comes out worse.\<close>

theorem pair_priority_wraps:
  "pair_priority ROLE_CONTROLLING 0x80000000 5 < pair_priority ROLE_CONTROLLING 0x7FFFFFFF 5"
  by (simp add: pair_priority_def)

subsection \<open>Who controls\<close>

text \<open>
  The part of \<open>BaseSession\<close> that reacts: whether it is the initiator, whether its role was switched, and the roles it
  has set on its transports.
\<close>

record base_session =
  bs_initiator :: bool
  bs_role_switch :: bool
  bs_roles :: "transport_role list"

definition BaseSession_OnRoleConflict :: "base_session \<Rightarrow> base_session" where
  "BaseSession_OnRoleConflict s =
     (if bs_role_switch s then s
      else s\<lparr>bs_role_switch := True,
             bs_roles := map (\<lambda>transport. if bs_initiator s then ROLE_CONTROLLED else ROLE_CONTROLLING) (bs_roles s)\<rparr>)"

text \<open>The session switches its role once; a transport gets the initial role from \<open>CreateTransport\<close>.\<close>

lemma OnRoleConflict_once: "BaseSession_OnRoleConflict (BaseSession_OnRoleConflict s) = BaseSession_OnRoleConflict s"
  by (simp add: BaseSession_OnRoleConflict_def)

definition initial_session :: "transport_role \<Rightarrow> base_session" where
  "initial_session role =
     \<lparr>bs_initiator = (role = ROLE_CONTROLLING), bs_role_switch = False,
      bs_roles = [if role = ROLE_CONTROLLING then ROLE_CONTROLLING else ROLE_CONTROLLED]\<rparr>"

definition reversed_role :: "transport_role \<Rightarrow> transport_role" where
  "reversed_role role = hd (bs_roles (BaseSession_OnRoleConflict (initial_session role)))"

text \<open>
  A check of \<open>a\<close> arrives at \<open>b\<close>: \<open>b\<close> may signal the conflict, or answer with error 487, on which
  \<open>HandleRoleConflictFromPeer\<close> signals it at \<open>a\<close>.  The signal goes through the channel and the transport to the session,
  which reverses the role of the agent.  It is the first conflict of either session.
\<close>

definition after_check :: "endian \<Rightarrow> u32 list \<Rightarrow> socket_address \<Rightarrow> ice_port \<Rightarrow> ice_port \<Rightarrow> stun_message \<Rightarrow> transport_role \<times> transport_role" where
  "after_check he t addr a b check =
     (let (ok, acts) = MaybeIceRoleConflict he t b addr check (username_fragment a)
      in if SignalRoleConflict \<in> set acts then (pt_role a, reversed_role (pt_role b))
         else if \<not> ok then (reversed_role (pt_role a), pt_role b)
         else (pt_role a, pt_role b))"

text \<open>The attribute that \<open>ConnectionRequest::Prepare\<close> puts into a check for the role of its port.\<close>

definition carries_role :: "ice_port \<Rightarrow> stun_message \<Rightarrow> bool" where
  "carries_role p m \<longleftrightarrow>
     GetUInt64 m STUN_ATTR_ICE_CONTROLLING = (if pt_role p = ROLE_CONTROLLING then Some (pt_tiebreaker p) else None) \<and>
     GetUInt64 m STUN_ATTR_ICE_CONTROLLED = (if pt_role p = ROLE_CONTROLLED then Some (pt_tiebreaker p) else None)"

lemma MaybeIceRoleConflict_check:
  assumes "carries_role a m" and "pt_role a \<noteq> ROLE_UNKNOWN" and "pt_role b \<noteq> ROLE_UNKNOWN" and "pt_tiebreaker a \<noteq> pt_tiebreaker b"
  shows "MaybeIceRoleConflict he t b addr m ufrag =
    (if pt_role a \<noteq> pt_role b then (True, [])
     else if (pt_tiebreaker a > pt_tiebreaker b) = (pt_role b = ROLE_CONTROLLING) then (True, [SignalRoleConflict])
     else (False, SendBindingErrorResponse he t b m addr STUN_ERROR_ROLE_CONFLICT STUN_ERROR_REASON_ROLE_CONFLICT))"
  using assms
  by (cases "pt_role a"; cases "pt_role b") (auto simp: MaybeIceRoleConflict_def carries_role_def Let_def)

text \<open>
  C16: When two agents have the same role, one check settles it, whichever end sends it: the agent with the larger
  tiebreaker controls and the other is controlled.  Agents with different roles keep them.
\<close>

theorem role_conflict_resolved:
  assumes "carries_role a check_a" and "carries_role b check_b" and "pt_tiebreaker a \<noteq> pt_tiebreaker b"
    and "pt_role a \<noteq> ROLE_UNKNOWN" and "pt_role b \<noteq> ROLE_UNKNOWN"
  shows "after_check he t addr a b check_a =
      (if pt_role a \<noteq> pt_role b then (pt_role a, pt_role b)
       else if pt_tiebreaker a > pt_tiebreaker b then (ROLE_CONTROLLING, ROLE_CONTROLLED) else (ROLE_CONTROLLED, ROLE_CONTROLLING))
    \<and> after_check he t addr b a check_b = prod.swap (after_check he t addr a b check_a)"
proof -
  have check: "after_check he t addr a b m =
      (if pt_role a \<noteq> pt_role b then (pt_role a, pt_role b)
       else if pt_tiebreaker a > pt_tiebreaker b then (ROLE_CONTROLLING, ROLE_CONTROLLED) else (ROLE_CONTROLLED, ROLE_CONTROLLING))"
    if "carries_role a m" "pt_tiebreaker a \<noteq> pt_tiebreaker b" "pt_role a \<noteq> ROLE_UNKNOWN" "pt_role b \<noteq> ROLE_UNKNOWN" for a b m
    unfolding after_check_def MaybeIceRoleConflict_check [OF that(1,3,4,2)]
    using that(2-4) by (cases "pt_role a"; cases "pt_role b") (auto simp: reversed_role_def initial_session_def BaseSession_OnRoleConflict_def SendBindingErrorResponse_def)
  show ?thesis
    using check [OF assms(1,3-5)] check [OF assms(2) assms(3) [symmetric] assms(5,4)] assms(3) by (auto simp: not_less_iff_gr_or_eq)
qed

definition sample_port :: "transport_role \<Rightarrow> u64 \<Rightarrow> string \<Rightarrow> string \<Rightarrow> ice_port" where
  "sample_port role tiebreaker ufrag pwd =
     \<lparr>pt_type = map of_char ''local'', pt_send_retransmit_count_attribute = False, pt_network_name = [], pt_ip = AF_INET_ip 0x0A000002,
      pt_component = 1, pt_generation = 0, pt_related_address = sa_Clear, pt_ice_username_fragment = map of_char ufrag,
      pt_password = map of_char pwd, pt_candidates = [sample_candidate], pt_lifetime = LT_PRESTART, pt_enable_port_packets = False,
      pt_ice_protocol = ICEPROTO_RFC5245, pt_role = role, pt_tiebreaker = tiebreaker, pt_shared_socket = False\<rparr>"

definition sample_check :: "u16 \<Rightarrow> u64 \<Rightarrow> stun_message" where
  "sample_check type tiebreaker = (StunMessage_new IceMessageC)\<lparr>sm_attrs := [StunUInt64Attribute type tiebreaker]\<rparr>"

theorem role_conflict_resolved_witness:
  "after_check LittleEndianHost crc_table sa_Clear (sample_port ROLE_CONTROLLING 5 ''L'' ''p'') (sample_port ROLE_CONTROLLING 9 ''R'' ''q'')
      (sample_check STUN_ATTR_ICE_CONTROLLING 5) = (ROLE_CONTROLLED, ROLE_CONTROLLING)"
  using role_conflict_resolved [of "sample_port ROLE_CONTROLLING 5 ''L'' ''p''" "sample_check STUN_ATTR_ICE_CONTROLLING 5"
      "sample_port ROLE_CONTROLLING 9 ''R'' ''q''" "sample_check STUN_ATTR_ICE_CONTROLLING 9" LittleEndianHost crc_table sa_Clear]
  by (simp add: sample_port_def carries_role_def sample_check_def GetUInt64_def GetAttribute_def StunMessage_new_def
      StunUInt64Attribute_def STUN_ATTR_ICE_CONTROLLING_def STUN_ATTR_ICE_CONTROLLED_def)

end
