(* ===== verification/IceConnection.thy ===== *)
theory IceConnection
  imports IcePort
begin

unbundle bit_operations_syntax

text \<open>
  \<open>Connection\<close> and \<open>ConnectionRequest\<close> of \<open>talk/p2p/base/port.cc\<close>: the state of a candidate pair, the connectivity
  checks it sends and answers, and its timeouts.

  A connection has its own request manager (\<open>StunRequest\<close>) with the messages that the shared thread holds for it.  The
  listeners of its signals and the socket are outside: what a connection does to them is a list of actions, and they
  act on it in later steps.  The rate trackers are statistics and are left out.
\<close>

datatype conn_state = STATE_WAITING | STATE_INPROGRESS | STATE_SUCCEEDED | STATE_FAILED
datatype read_state = STATE_READ_INIT | STATE_READABLE | STATE_READ_TIMEOUT
datatype write_state = STATE_WRITABLE | STATE_WRITE_UNRELIABLE | STATE_WRITE_INIT | STATE_WRITE_TIMEOUT

record connection =
  cn_local_candidate_index :: nat
  cn_remote_candidate :: candidate
  cn_read_state :: read_state
  cn_write_state :: write_state
  cn_connected :: bool
  cn_pruned :: bool
  cn_use_candidate_attr :: bool
  cn_remote_ice_mode :: ice_mode
  cn_requests :: stun_manager
  cn_rtt :: u32
  cn_last_ping_sent :: u32
  cn_last_ping_received :: u32
  cn_last_data_received :: u32
  cn_last_ping_response_received :: u32
  cn_pings_since_last_response :: "u32 list"
  cn_reported :: bool
  cn_state :: conn_state

datatype conn_action =
    SignalStateChange
  | PostDelete
  | SignalDestroyed
  | SignalData "byte list"
  | SignalReadyToSend
  | SignalUseCandidate
  | PortAction port_action

definition MINIMUM_RTT :: u32 where "MINIMUM_RTT = 100"
definition MAXIMUM_RTT :: u32 where "MAXIMUM_RTT = 3000"
definition DEFAULT_RTT :: u32 where "DEFAULT_RTT = MAXIMUM_RTT"
definition RTT_RATIO :: u32 where "RTT_RATIO = 3"
definition CONNECTION_READ_TIMEOUT :: u32 where "CONNECTION_READ_TIMEOUT = 30000"
definition CONNECTION_WRITE_TIMEOUT :: u32 where "CONNECTION_WRITE_TIMEOUT = 15000"
definition CONNECTION_WRITE_CONNECT_TIMEOUT :: u32 where "CONNECTION_WRITE_CONNECT_TIMEOUT = 5000"
definition CONNECTION_WRITE_CONNECT_FAILURES :: u32 where "CONNECTION_WRITE_CONNECT_FAILURES = 5"
definition CONNECTION_RESPONSE_TIMEOUT :: int where "CONNECTION_RESPONSE_TIMEOUT = 5000"

definition TooManyFailures :: "u32 list \<Rightarrow> u32 \<Rightarrow> u32 \<Rightarrow> u32 \<Rightarrow> bool" where
  "TooManyFailures pings maximum_failures rtt_estimate now =
     (if length pings < unat maximum_failures then False
      else pings ! (unat maximum_failures - 1) + rtt_estimate < now)"

definition TooLongWithoutResponse :: "u32 list \<Rightarrow> u32 \<Rightarrow> u32 \<Rightarrow> bool" where
  "TooLongWithoutResponse pings maximum_time now =
     (if length pings = 0 then False else pings ! 0 + maximum_time < now)"

definition ConservativeRTTEstimate :: "u32 \<Rightarrow> u32" where
  "ConservativeRTTEstimate rtt = max MINIMUM_RTT (min MAXIMUM_RTT (2 * rtt))"

definition Connection_new :: "nat \<Rightarrow> candidate \<Rightarrow> connection" where
  "Connection_new index remote_candidate =
     \<lparr>cn_local_candidate_index = index, cn_remote_candidate = remote_candidate, cn_read_state = STATE_READ_INIT,
      cn_write_state = STATE_WRITE_INIT, cn_connected = True, cn_pruned = False, cn_use_candidate_attr = False,
      cn_remote_ice_mode = ICEMODE_FULL, cn_requests = StunRequestManager_new, cn_rtt = DEFAULT_RTT, cn_last_ping_sent = 0,
      cn_last_ping_received = 0, cn_last_data_received = 0, cn_last_ping_response_received = 0,
      cn_pings_since_last_response = [], cn_reported = False, cn_state = STATE_WAITING\<rparr>"

definition local_candidate :: "ice_port \<Rightarrow> connection \<Rightarrow> candidate" where
  "local_candidate p c = pt_candidates p ! cn_local_candidate_index c"

definition conn_priority :: "ice_port \<Rightarrow> connection \<Rightarrow> u64" where
  "conn_priority p c = pair_priority (pt_role p) (cd_priority (local_candidate p c)) (cd_priority (cn_remote_candidate c))"

subsection \<open>Changing the state\<close>

definition Connection_CheckTimeout :: "connection \<Rightarrow> conn_action list" where
  "Connection_CheckTimeout c =
     (if (cn_read_state c = STATE_READ_TIMEOUT \<or> cn_read_state c = STATE_READ_INIT) \<and> cn_write_state c = STATE_WRITE_TIMEOUT
      then [PostDelete] else [])"

definition set_read_state :: "connection \<Rightarrow> read_state \<Rightarrow> connection \<times> conn_action list" where
  "set_read_state c v =
     (let old_value = cn_read_state c;
          c = c\<lparr>cn_read_state := v\<rparr>
      in (c, if v \<noteq> old_value then SignalStateChange # Connection_CheckTimeout c else []))"

definition set_write_state :: "connection \<Rightarrow> write_state \<Rightarrow> connection \<times> conn_action list" where
  "set_write_state c v =
     (let old_value = cn_write_state c;
          c = c\<lparr>cn_write_state := v\<rparr>
      in (c, if v \<noteq> old_value then SignalStateChange # Connection_CheckTimeout c else []))"

definition ReceivedPing :: "u32 \<Rightarrow> connection \<Rightarrow> connection \<times> conn_action list" where
  "ReceivedPing now c = set_read_state (c\<lparr>cn_last_ping_received := now\<rparr>) STATE_READABLE"

definition Prune :: "connection \<Rightarrow> (connection \<times> conn_action list) option" where
  "Prune c =
     (if \<not> cn_pruned c then do {
        m \<leftarrow> Manager_Clear (cn_requests c);
        Some (set_write_state (c\<lparr>cn_pruned := True, cn_requests := m\<rparr>) STATE_WRITE_TIMEOUT)
      } else Some (c, []))"

definition Connection_Destroy :: "connection \<Rightarrow> connection \<times> conn_action list" where
  "Connection_Destroy c =
     (let (c, acts) = set_read_state c STATE_READ_TIMEOUT;
          (c, acts') = set_write_state c STATE_WRITE_TIMEOUT
      in (c, acts @ acts'))"

definition UpdateState :: "u32 \<Rightarrow> connection \<Rightarrow> connection \<times> conn_action list" where
  "UpdateState now c =
     (let rtt = ConservativeRTTEstimate (cn_rtt c);
          (c, acts1) =
            (if cn_read_state c = STATE_READABLE \<and> cn_last_ping_received c + CONNECTION_READ_TIMEOUT \<le> now \<and>
                cn_last_data_received c + CONNECTION_READ_TIMEOUT \<le> now
             then set_read_state c STATE_READ_TIMEOUT else (c, []));
          (c, acts2) =
            (if cn_write_state c = STATE_WRITABLE \<and>
                TooManyFailures (cn_pings_since_last_response c) CONNECTION_WRITE_CONNECT_FAILURES rtt now \<and>
                TooLongWithoutResponse (cn_pings_since_last_response c) CONNECTION_WRITE_CONNECT_TIMEOUT now
             then set_write_state c STATE_WRITE_UNRELIABLE else (c, []));
          (c, acts3) =
            (if (cn_write_state c = STATE_WRITE_UNRELIABLE \<or> cn_write_state c = STATE_WRITE_INIT) \<and>
                TooLongWithoutResponse (cn_pings_since_last_response c) CONNECTION_WRITE_TIMEOUT now
             then set_write_state c STATE_WRITE_TIMEOUT else (c, []))
      in (c, acts1 @ acts2 @ acts3))"

subsection \<open>Sending a check\<close>

definition ConnectionRequest_GetNextDelay :: next_delay where
  "ConnectionRequest_GetNextDelay cnt timeout = (CONNECTION_RESPONSE_TIMEOUT, cnt, True)"

text \<open>An agent without a role is an assertion failure in the code; the release build adds no attribute.\<close>

definition ConnectionRequest_Prepare :: "endian \<Rightarrow> u32 list \<Rightarrow> ice_port \<Rightarrow> connection \<Rightarrow> prepare" where
  "ConnectionRequest_Prepare he t p c r request =
     (let request = SetType request (uint STUN_BINDING_REQUEST);
          username = CreateStunUsername p (cd_username (cn_remote_candidate c));
          request = add_attr request (StunByteStringAttribute STUN_ATTR_USERNAME username);
          request = (if pt_send_retransmit_count_attribute p
                     then add_attr request (StunUInt32Attribute STUN_ATTR_RETRANSMIT_COUNT (of_nat (length (cn_pings_since_last_response c)) - 1))
                     else request)
      in if pt_ice_protocol p = ICEPROTO_RFC5245 then
           let request =
                 (if pt_role p = ROLE_CONTROLLING then
                    let request = add_attr request (StunUInt64Attribute STUN_ATTR_ICE_CONTROLLING (pt_tiebreaker p))
                    in if cn_use_candidate_attr c then add_attr request (StunByteStringAttribute STUN_ATTR_USE_CANDIDATE []) else request
                  else if pt_role p = ROLE_CONTROLLED
                  then add_attr request (StunUInt64Attribute STUN_ATTR_ICE_CONTROLLED (pt_tiebreaker p))
                  else request);
               prflx_priority = push_bit 24 ICE_TYPE_PREFERENCE_PRFLX OR (cd_priority (local_candidate p c) AND 0x00FFFFFF);
               request = add_attr request (StunUInt32Attribute STUN_ATTR_PRIORITY prflx_priority);
               request = fst (AddMessageIntegrity he request (cd_password (cn_remote_candidate c)))
           in fst (AddFingerprint he t request)
         else request)"

text \<open>\<open>r\<close> is the address of the new request object and \<open>tid\<close> its random transaction id.\<close>

definition Ping :: "endian \<Rightarrow> u32 list \<Rightarrow> ice_port \<Rightarrow> connection \<Rightarrow> u32 \<Rightarrow> nat \<Rightarrow> byte list \<Rightarrow> connection option" where
  "Ping he t p c now r tid =
     (let c = c\<lparr>cn_last_ping_sent := now, cn_pings_since_last_response := cn_pings_since_last_response c @ [now]\<rparr>;
          m = cn_requests c;
          m = m\<lparr>rm_objects := (rm_objects m)(r \<mapsto> StunRequest_new (StunMessage_new IceMessageC) tid)\<rparr>
      in do {
        m \<leftarrow> Manager_Send (ConnectionRequest_Prepare he t p c) m now r;
        Some (c\<lparr>cn_requests := m, cn_state := STATE_INPROGRESS\<rparr>)
      })"

text \<open>The thread dispatches a message for a request: the packet it sends goes to the remote address.\<close>

definition sent_packets :: "socket_address \<Rightarrow> stun_event list \<Rightarrow> conn_action list" where
  "sent_packets addr es = concat (map (\<lambda>e. case e of SentPacket r packet \<Rightarrow> [PortAction (SendTo packet addr)] | _ \<Rightarrow> []) es)"

definition Connection_dispatch :: "endian \<Rightarrow> u32 \<Rightarrow> u32 \<Rightarrow> connection \<Rightarrow> (connection \<times> conn_action list) option" where
  "Connection_dispatch he now now' c = do {
     m \<leftarrow> dispatch he ConnectionRequest_GetNextDelay now now' (cn_requests c);
     Some (c\<lparr>cn_requests := m\<rparr>,
           sent_packets (cd_address (cn_remote_candidate c)) (drop (length (rm_events (cn_requests c))) (rm_events m)))
   }"

subsection \<open>Responses\<close>

definition OnConnectionRequestResponse :: "u32 \<Rightarrow> stun_request \<Rightarrow> connection \<Rightarrow> connection \<times> conn_action list" where
  "OnConnectionRequestResponse now request c =
     (let rtt = Elapsed request now;
          (c, acts) = set_write_state c STATE_WRITABLE;
          c = c\<lparr>cn_state := STATE_SUCCEEDED\<rparr>;
          (c, acts') = (if cn_remote_ice_mode c = ICEMODE_LITE then ReceivedPing now c else (c, []));
          c = c\<lparr>cn_pings_since_last_response := [], cn_last_ping_response_received := now,
                cn_rtt := (RTT_RATIO * cn_rtt c + rtt) div (RTT_RATIO + 1)\<rparr>
      in (c, acts @ acts'))"

definition response_error_code :: "ice_port \<Rightarrow> stun_message \<Rightarrow> int" where
  "response_error_code p response =
     (case GetErrorCode response of
        None \<Rightarrow> STUN_ERROR_GLOBAL_FAILURE
      | Some attr \<Rightarrow>
          if pt_ice_protocol p = ICEPROTO_GOOGLE
          then (case at_body attr of ErrorCodeAttr eclass number reason \<Rightarrow> uint eclass * 256 + uint number | _ \<Rightarrow> 0)
          else error_code (at_body attr))"

definition OnConnectionRequestErrorResponse :: "ice_port \<Rightarrow> stun_message \<Rightarrow> connection \<Rightarrow> connection \<times> conn_action list" where
  "OnConnectionRequestErrorResponse p response c =
     (let code = response_error_code p response in
      if code = STUN_ERROR_UNKNOWN_ATTRIBUTE \<or> code = STUN_ERROR_SERVER_ERROR \<or> code = STUN_ERROR_UNAUTHORIZED then (c, [])
      else if code = STUN_ERROR_STALE_CREDENTIALS then (c, [])
      else if code = STUN_ERROR_ROLE_CONFLICT then (c, [PortAction SignalRoleConflict])
      else set_write_state (c\<lparr>cn_state := STATE_FAILED\<rparr>) STATE_WRITE_TIMEOUT)"

text \<open>\<open>requests_.CheckResponse(msg)\<close>: the manager finds the request, the request calls the connection back.\<close>

definition Connection_CheckResponse :: "ice_port \<Rightarrow> u32 \<Rightarrow> stun_message \<Rightarrow> connection \<Rightarrow> (connection \<times> conn_action list) option" where
  "Connection_CheckResponse p now msg c = do {
     (taken, m) \<leftarrow> CheckResponse_msg (cn_requests c) msg;
     if \<not> taken then Some (c\<lparr>cn_requests := m\<rparr>, [])
     else
       (case last (rm_events m) of
          Responded r response \<Rightarrow> do {
            request \<leftarrow> rm_objects (cn_requests c) r;
            Some (OnConnectionRequestResponse now request (c\<lparr>cn_requests := m\<rparr>))
          }
        | ErrorResponded r response \<Rightarrow> Some (OnConnectionRequestErrorResponse p response (c\<lparr>cn_requests := m\<rparr>))
        | _ \<Rightarrow> None)
   }"

subsection \<open>A packet arrives\<close>

definition restart_checks :: "connection \<Rightarrow> connection \<times> conn_action list" where
  "restart_checks c =
     (if \<not> cn_pruned c \<and> cn_write_state c = STATE_WRITE_TIMEOUT then set_write_state c STATE_WRITE_INIT else (c, []))"

definition OnDataPacket :: "u32 \<Rightarrow> byte list \<Rightarrow> connection \<Rightarrow> connection \<times> conn_action list" where
  "OnDataPacket now data c =
     (if cn_read_state c = STATE_READABLE then
        let c = c\<lparr>cn_last_data_received := now\<rparr>;
            (c, acts) = restart_checks c
        in (c, SignalData data # acts)
      else (c, []))"

definition OnBindingRequest ::
  "endian \<Rightarrow> u32 list \<Rightarrow> ice_port \<Rightarrow> u32 \<Rightarrow> stun_message \<Rightarrow> byte list \<Rightarrow> connection \<Rightarrow> connection \<times> conn_action list" where
  "OnBindingRequest he t p now msg remote_ufrag c =
     (let addr = cd_address (cn_remote_candidate c) in
      if remote_ufrag = cd_username (cn_remote_candidate c) then
        let (ok, acts) = (if pt_ice_protocol p = ICEPROTO_RFC5245 then MaybeIceRoleConflict he t p addr msg remote_ufrag else (True, []))
        in if \<not> ok then (c, map PortAction acts)
           else
             let (reached, acts1) = SendBindingResponse he t p msg addr;
                 (c, acts2) = (if reached then ReceivedPing now c else (c, []));
                 (c, acts3) = restart_checks c;
                 acts4 = (if pt_ice_protocol p = ICEPROTO_RFC5245 \<and> pt_role p = ROLE_CONTROLLED \<and>
                             GetByteString msg STUN_ATTR_USE_CANDIDATE \<noteq> None
                          then [SignalUseCandidate] else [])
             in (c, map PortAction (acts @ acts1) @ acts2 @ acts3 @ acts4)
      else (c, map PortAction (SendBindingErrorResponse he t p msg addr STUN_ERROR_UNAUTHORIZED STUN_ERROR_REASON_UNAUTHORIZED)))"

text \<open>The outer \<open>None\<close> is a read past the end of the packet or a use of a deleted request.\<close>

definition Connection_OnReadPacket ::
  "endian \<Rightarrow> u32 list \<Rightarrow> ice_port \<Rightarrow> u32 \<Rightarrow> byte list \<Rightarrow> connection \<Rightarrow> (connection \<times> conn_action list) option" where
  "Connection_OnReadPacket he t p now data c =
     (case GetStunMessage he t p data (cd_address (cn_remote_candidate c)) of
        None \<Rightarrow> None
      | Some (False, _, acts) \<Rightarrow> Some (OnDataPacket now data c)
      | Some (True, None, acts) \<Rightarrow> Some (c, map PortAction acts)
      | Some (True, Some (msg, remote_ufrag), acts) \<Rightarrow>
          if sm_type msg = STUN_BINDING_REQUEST then Some (OnBindingRequest he t p now msg remote_ufrag c)
          else if sm_type msg = STUN_BINDING_RESPONSE \<or> sm_type msg = STUN_BINDING_ERROR_RESPONSE then
            (case (if pt_ice_protocol p = ICEPROTO_GOOGLE then Some True
                   else ValidateMessageIntegrity he data (cd_password (cn_remote_candidate c))) of
               None \<Rightarrow> None
             | Some True \<Rightarrow> Connection_CheckResponse p now msg c
             | Some False \<Rightarrow> Some (c, []))
          else if sm_type msg = STUN_BINDING_INDICATION then
            if pt_ice_protocol p = ICEPROTO_RFC5245 \<and> cn_read_state c = STATE_READABLE then Some (ReceivedPing now c) else Some (c, [])
          else Some (c, []))"

definition OnReadyToSend :: "connection \<Rightarrow> conn_action list" where
  "OnReadyToSend c = (if cn_write_state c = STATE_WRITABLE then [SignalReadyToSend] else [])"

text \<open>\<open>ProxyConnection::Send\<close>; \<open>send\<close> is the result of the socket; with the new \<open>error_\<close>.\<close>

definition ProxyConnection_Send ::
  "(byte list \<Rightarrow> socket_address \<Rightarrow> int) \<Rightarrow> int \<Rightarrow> int \<Rightarrow> connection \<Rightarrow> byte list \<Rightarrow> int \<times> int option" where
  "ProxyConnection_Send send ewouldblock port_error c data =
     (if cn_write_state c = STATE_WRITE_INIT \<or> cn_write_state c = STATE_WRITE_TIMEOUT then (- 1, Some ewouldblock)
      else
        let sent = send data (cd_address (cn_remote_candidate c))
        in (sent, if sent \<le> 0 then Some port_error else None))"

text \<open>\<open>MSG_DELETE\<close>: the connection is gone afterwards.\<close>

definition Connection_OnMessage :: "connection \<Rightarrow> conn_action list" where
  "Connection_OnMessage c = [SignalDestroyed]"

subsection \<open>Who may change the state\<close>

lemma set_read_state_simps [simp]:
  "cn_read_state (fst (set_read_state c v)) = v" "cn_write_state (fst (set_read_state c v)) = cn_write_state c"
  "cn_pruned (fst (set_read_state c v)) = cn_pruned c" "cn_requests (fst (set_read_state c v)) = cn_requests c"
  "cn_state (fst (set_read_state c v)) = cn_state c" "cn_remote_ice_mode (fst (set_read_state c v)) = cn_remote_ice_mode c"
  "cn_remote_candidate (fst (set_read_state c v)) = cn_remote_candidate c"
  by (simp_all add: set_read_state_def Let_def)

lemma set_write_state_simps [simp]:
  "cn_write_state (fst (set_write_state c v)) = v" "cn_read_state (fst (set_write_state c v)) = cn_read_state c"
  "cn_pruned (fst (set_write_state c v)) = cn_pruned c" "cn_requests (fst (set_write_state c v)) = cn_requests c"
  "cn_state (fst (set_write_state c v)) = cn_state c" "cn_remote_ice_mode (fst (set_write_state c v)) = cn_remote_ice_mode c"
  "cn_remote_candidate (fst (set_write_state c v)) = cn_remote_candidate c"
  by (simp_all add: set_write_state_def Let_def)

lemma ReceivedPing_simps [simp]:
  "cn_read_state (fst (ReceivedPing now c)) = STATE_READABLE" "cn_write_state (fst (ReceivedPing now c)) = cn_write_state c"
  "cn_pruned (fst (ReceivedPing now c)) = cn_pruned c" "cn_requests (fst (ReceivedPing now c)) = cn_requests c"
  "cn_state (fst (ReceivedPing now c)) = cn_state c" "cn_remote_candidate (fst (ReceivedPing now c)) = cn_remote_candidate c"
  by (simp_all add: ReceivedPing_def)

lemma restart_checks_simps [simp]:
  "cn_read_state (fst (restart_checks c)) = cn_read_state c" "cn_requests (fst (restart_checks c)) = cn_requests c"
  "cn_state (fst (restart_checks c)) = cn_state c" "cn_remote_candidate (fst (restart_checks c)) = cn_remote_candidate c"
  "cn_write_state (fst (restart_checks c)) =
     (if \<not> cn_pruned c \<and> cn_write_state c = STATE_WRITE_TIMEOUT then STATE_WRITE_INIT else cn_write_state c)"
  by (simp_all add: restart_checks_def)

definition no_data :: "conn_action list \<Rightarrow> bool" where
  "no_data acts \<longleftrightarrow> (\<forall>a\<in>set acts. \<forall>d. a \<noteq> SignalData d)"

lemma no_data_simps [simp]:
  "no_data []" "no_data (a # acts) \<longleftrightarrow> (\<forall>d. a \<noteq> SignalData d) \<and> no_data acts" "no_data (acts @ acts') \<longleftrightarrow> no_data acts \<and> no_data acts'"
  "no_data (map PortAction pas)" "no_data (Connection_CheckTimeout c)" "no_data (snd (set_read_state c r))" "no_data (snd (set_write_state c w))"
  "no_data (snd (ReceivedPing now c))" "no_data (snd (restart_checks c))"
  by (auto simp: no_data_def Connection_CheckTimeout_def set_read_state_def set_write_state_def ReceivedPing_def restart_checks_def Let_def split: if_splits)

lemma OnDataPacket_state:
  "cn_read_state (fst (OnDataPacket now data c)) = cn_read_state c"
  "cn_write_state (fst (OnDataPacket now data c)) = STATE_WRITABLE \<longleftrightarrow> cn_write_state c = STATE_WRITABLE"
  by (auto simp: OnDataPacket_def Let_def case_prod_unfold)

lemma OnDataPacket_data:
  assumes "SignalData d \<in> set (snd (OnDataPacket now data c))"
  shows "cn_read_state c = STATE_READABLE \<and> d = data"
proof (cases "cn_read_state c = STATE_READABLE")
  case True
  then show ?thesis
    using assms no_data_simps(9) [of "c\<lparr>cn_last_data_received := now\<rparr>"] by (auto simp: OnDataPacket_def Let_def case_prod_unfold no_data_def)
qed (use assms in \<open>simp add: OnDataPacket_def\<close>)

lemma OnBindingRequest_state:
  "cn_read_state (fst (OnBindingRequest he t p now msg ufrag c)) \<noteq> cn_read_state c \<Longrightarrow> ufrag = cd_username (cn_remote_candidate c)"
  "cn_write_state (fst (OnBindingRequest he t p now msg ufrag c)) = STATE_WRITABLE \<longleftrightarrow> cn_write_state c = STATE_WRITABLE"
  "no_data (snd (OnBindingRequest he t p now msg ufrag c))"
  by (auto simp: OnBindingRequest_def Let_def case_prod_unfold split: if_splits)

lemma OnConnectionRequestResponse_state:
  "cn_write_state (fst (OnConnectionRequestResponse now rq c)) = STATE_WRITABLE"
  "cn_read_state (fst (OnConnectionRequestResponse now rq c)) =
     (if cn_remote_ice_mode c = ICEMODE_LITE then STATE_READABLE else cn_read_state c)"
  "no_data (snd (OnConnectionRequestResponse now rq c))"
  by (auto simp: OnConnectionRequestResponse_def Let_def case_prod_unfold)

lemma OnConnectionRequestErrorResponse_state:
  "cn_write_state (fst (OnConnectionRequestErrorResponse p msg c)) \<in> {cn_write_state c, STATE_WRITE_TIMEOUT}"
  "cn_read_state (fst (OnConnectionRequestErrorResponse p msg c)) = cn_read_state c"
  "no_data (snd (OnConnectionRequestErrorResponse p msg c))"
  by (auto simp: OnConnectionRequestErrorResponse_def Let_def)

lemma GetStunMessage_accepts:
  assumes "GetStunMessage he t p data addr = Some (True, Some (msg, ufrag), acts)"
  shows "pt_ice_protocol p = ICEPROTO_RFC5245 \<Longrightarrow> ValidateFingerprint t data"
    and "\<exists>buf. msg_Read he IceMessageC (ByteBuffer_of data) = Some (msg, buf)" and "acts = []"
    and "sm_type msg = STUN_BINDING_REQUEST \<Longrightarrow> ParseStunUsername p msg = Some (username_fragment p, ufrag)"
    and "sm_type msg = STUN_BINDING_REQUEST \<Longrightarrow> pt_ice_protocol p = ICEPROTO_RFC5245 \<Longrightarrow> ValidateMessageIntegrity he data (pt_password p) = Some True"
  using assms by (auto simp: GetStunMessage_def Let_def split: if_splits option.splits)

definition authentic_request :: "endian \<Rightarrow> u32 list \<Rightarrow> ice_port \<Rightarrow> connection \<Rightarrow> byte list \<Rightarrow> bool" where
  "authentic_request he t p c data \<longleftrightarrow>
     (\<exists>msg buf. ValidateFingerprint t data \<and> msg_Read he IceMessageC (ByteBuffer_of data) = Some (msg, buf) \<and>
       sm_type msg = STUN_BINDING_REQUEST \<and> ParseStunUsername p msg = Some (username_fragment p, cd_username (cn_remote_candidate c)) \<and>
       ValidateMessageIntegrity he data (pt_password p) = Some True)"

definition authentic_response :: "endian \<Rightarrow> u32 list \<Rightarrow> connection \<Rightarrow> byte list \<Rightarrow> bool" where
  "authentic_response he t c data \<longleftrightarrow>
     (\<exists>msg buf r rq. ValidateFingerprint t data \<and> msg_Read he IceMessageC (ByteBuffer_of data) = Some (msg, buf) \<and>
       ValidateMessageIntegrity he data (cd_password (cn_remote_candidate c)) = Some True \<and>
       map_of (rm_requests (cn_requests c)) (sm_tid msg) = Some r \<and> rm_objects (cn_requests c) r = Some rq \<and>
       ucast (sm_type msg) = GetStunSuccessResponseType (request_type rq))"

lemma delete_request_events: "delete_request m r = Some m' \<Longrightarrow> rm_events m' = rm_events m"
  by (auto simp: delete_request_def Manager_Remove_def clear_handler_def bind_eq_Some_conv split: if_splits option.splits)

lemma Connection_CheckResponse_state:
  assumes "Connection_CheckResponse p now msg c = Some (c', acts)"
  shows "no_data acts \<and>
    (c' = c\<lparr>cn_requests := cn_requests c'\<rparr> \<or>
     (\<exists>m. (c', acts) = OnConnectionRequestErrorResponse p msg (c\<lparr>cn_requests := m\<rparr>)) \<or>
     (\<exists>r rq m. (c', acts) = OnConnectionRequestResponse now rq (c\<lparr>cn_requests := m\<rparr>) \<and>
        map_of (rm_requests (cn_requests c)) (sm_tid msg) = Some r \<and> rm_objects (cn_requests c) r = Some rq \<and>
        ucast (sm_type msg) = GetStunSuccessResponseType (request_type rq)))"
proof -
  obtain b m where cr: "CheckResponse_msg (cn_requests c) msg = Some (b, m)"
    using assms by (auto simp: Connection_CheckResponse_def bind_eq_Some_conv)
  show ?thesis
  proof (cases b)
    case False
    then show ?thesis using assms cr by (auto simp: Connection_CheckResponse_def)
  next
    case True
    then obtain r rq e where r: "map_of (rm_requests (cn_requests c)) (sm_tid msg) = Some r" "rm_objects (cn_requests c) r = Some rq"
      and e: "e = Responded r msg \<and> ucast (sm_type msg) = GetStunSuccessResponseType (request_type rq) \<or> e = ErrorResponded r msg"
      and d: "delete_request ((cn_requests c)\<lparr>rm_events := rm_events (cn_requests c) @ [e]\<rparr>) r = Some m"
      using cr by (auto simp: CheckResponse_msg_def bind_eq_Some_conv split: option.splits if_splits)
    have "last (rm_events m) = e" using delete_request_events [OF d] by simp
    then show ?thesis
      using assms cr True r e OnConnectionRequestResponse_state(3) [of now rq "c\<lparr>cn_requests := m\<rparr>"]
        OnConnectionRequestErrorResponse_state(3) [of p msg "c\<lparr>cn_requests := m\<rparr>"]
      by (auto simp: Connection_CheckResponse_def) (metis snd_conv)+
  qed
qed

lemma OnReadPacket_authenticated:
  assumes "Connection_OnReadPacket he t p now data c = Some (c', acts)" and "pt_ice_protocol p = ICEPROTO_RFC5245"
  shows "(cn_read_state c' = STATE_READABLE \<longrightarrow> cn_read_state c = STATE_READABLE \<or> authentic_request he t p c data \<or>
      cn_remote_ice_mode c = ICEMODE_LITE \<and> authentic_response he t c data) \<and>
    (cn_write_state c' = STATE_WRITABLE \<longrightarrow> cn_write_state c = STATE_WRITABLE \<or> authentic_response he t c data) \<and>
    (\<forall>d. SignalData d \<in> set acts \<longrightarrow> cn_read_state c = STATE_READABLE \<and> d = data)"
proof -
  let ?addr = "cd_address (cn_remote_candidate c)"
  obtain ok r as where g: "GetStunMessage he t p data ?addr = Some (ok, r, as)"
    using assms(1) by (auto simp: Connection_OnReadPacket_def split: option.splits)
  consider "\<not> ok" "(c', acts) = OnDataPacket now data c" | "ok" "r = None" "c' = c" "no_data acts"
    | msg ufrag where "ok" "r = Some (msg, ufrag)"
    using assms(1) g by (cases ok; cases r) (auto simp: Connection_OnReadPacket_def)
  then show ?thesis
  proof cases
    case 1
    then show ?thesis using OnDataPacket_state [of now data c] OnDataPacket_data [of _ now data c] by (metis fst_conv snd_conv)
  next
    case 2
    then show ?thesis by (auto simp: no_data_def)
  next
    case 3
    then have g': "GetStunMessage he t p data ?addr = Some (True, Some (msg, ufrag), as)" using g by simp
    note a = GetStunMessage_accepts [OF g']
    consider "sm_type msg = STUN_BINDING_REQUEST" "(c', acts) = OnBindingRequest he t p now msg ufrag c"
      | "c' = c \<and> acts = [] \<or> cn_read_state c = STATE_READABLE \<and> (c', acts) = ReceivedPing now c"
      | "ValidateMessageIntegrity he data (cd_password (cn_remote_candidate c)) = Some True" "Connection_CheckResponse p now msg c = Some (c', acts)"
      using assms g' by (auto simp: Connection_OnReadPacket_def split: if_splits option.splits bool.splits)
    then show ?thesis
    proof cases
      case 1
      have "authentic_request he t p c data" if "ufrag = cd_username (cn_remote_candidate c)"
        using a(1,2,4,5) 1(1) assms(2) that by (auto simp: authentic_request_def)
      then show ?thesis using OnBindingRequest_state [of he t p now msg ufrag c] 1(2) by (auto simp: no_data_def) (metis fst_conv snd_conv)+
    next
      case 2
      then have "c' = c \<and> acts = [] \<or> cn_read_state c = STATE_READABLE \<and> c' = fst (ReceivedPing now c) \<and> acts = snd (ReceivedPing now c)"
        by (metis fst_conv snd_conv)
      then show ?thesis using no_data_simps(8) [of now c] by (auto simp: no_data_def)
    next
      case 3
      have auth: "authentic_response he t c data"
        if "map_of (rm_requests (cn_requests c)) (sm_tid msg) = Some r" "rm_objects (cn_requests c) r = Some rq"
          "ucast (sm_type msg) = GetStunSuccessResponseType (request_type rq)" for r rq
        using a(1,2) 3(1) assms(2) that unfolding authentic_response_def by blast
      note st = Connection_CheckResponse_state [OF 3(2)]
      then consider "c' = c\<lparr>cn_requests := cn_requests c'\<rparr>"
        | m where "(c', acts) = OnConnectionRequestErrorResponse p msg (c\<lparr>cn_requests := m\<rparr>)"
        | rq m where "(c', acts) = OnConnectionRequestResponse now rq (c\<lparr>cn_requests := m\<rparr>)" "authentic_response he t c data"
        using auth by blast
      then show ?thesis
      proof cases
        case 1
        then have "cn_read_state c' = cn_read_state c" "cn_write_state c' = cn_write_state c" by (metis connection.surjective connection.select_convs(3,4) connection.update_convs(9))+
        then show ?thesis using st by (auto simp: no_data_def)
      next
        case 2
        then show ?thesis using st OnConnectionRequestErrorResponse_state [of p msg "c\<lparr>cn_requests := m\<rparr>"]
          by (auto simp: no_data_def dest: arg_cong [where f = fst])
      next
        case 3
        then show ?thesis using st OnConnectionRequestResponse_state [of now rq "c\<lparr>cn_requests := m\<rparr>"]
          by (auto simp: no_data_def dest: arg_cong [where f = fst])
      qed
    qed
  qed
qed

text \<open>
  The methods of a connection that the channel and the thread call.  \<open>ReceivedPing\<close> is not among them: the channel
  calls it directly for a check that the port has validated and that opened the connection.
\<close>

datatype conn_call =
    CallPacket "byte list"
  | CallPing nat "byte list"
  | CallDispatch u32
  | CallUpdateState
  | CallPrune
  | CallDestroy

definition conn_step ::
  "endian \<Rightarrow> u32 list \<Rightarrow> ice_port \<Rightarrow> u32 \<Rightarrow> conn_call \<Rightarrow> connection \<Rightarrow> (connection \<times> conn_action list) option" where
  "conn_step he t p now call c =
     (case call of
        CallPacket data \<Rightarrow> Connection_OnReadPacket he t p now data c
      | CallPing r tid \<Rightarrow> map_option (\<lambda>c. (c, [])) (Ping he t p c now r tid)
      | CallDispatch now' \<Rightarrow> Connection_dispatch he now now' c
      | CallUpdateState \<Rightarrow> Some (UpdateState now c)
      | CallPrune \<Rightarrow> Prune c
      | CallDestroy \<Rightarrow> Some (Connection_Destroy c))"

lemma UpdateState_state:
  "cn_read_state (fst (UpdateState now c)) = STATE_READABLE \<Longrightarrow> cn_read_state c = STATE_READABLE"
  "cn_write_state (fst (UpdateState now c)) = STATE_WRITABLE \<Longrightarrow> cn_write_state c = STATE_WRITABLE"
  "no_data (snd (UpdateState now c))"
  unfolding UpdateState_def by (auto simp: Let_def case_prod_unfold split: if_split_asm)

lemma sent_packets_no_data [simp]: "no_data (sent_packets addr es)"
  by (auto simp: no_data_def sent_packets_def split: stun_event.splits)

lemma other_calls_state:
  assumes "conn_step he t p now call c = Some (c', acts)" and "\<forall>data. call \<noteq> CallPacket data"
  shows "(cn_read_state c' = STATE_READABLE \<longrightarrow> cn_read_state c = STATE_READABLE) \<and>
    (cn_write_state c' = STATE_WRITABLE \<longrightarrow> cn_write_state c = STATE_WRITABLE) \<and> no_data acts"
proof (cases call)
  case CallUpdateState
  then have "UpdateState now c = (c', acts)" using assms(1) by (simp add: conn_step_def)
  then show ?thesis using UpdateState_state [of now c] by (metis fst_conv snd_conv)
next
  case CallPrune
  show ?thesis
  proof (cases "cn_pruned c")
    case True
    then show ?thesis using assms(1) CallPrune by (simp add: conn_step_def Prune_def)
  next
    case False
    obtain m where "set_write_state (c\<lparr>cn_pruned := True, cn_requests := m\<rparr>) STATE_WRITE_TIMEOUT = (c', acts)"
      using assms(1) False CallPrune by (auto simp: conn_step_def Prune_def bind_eq_Some_conv)
    then have "c' = fst (set_write_state (c\<lparr>cn_pruned := True, cn_requests := m\<rparr>) STATE_WRITE_TIMEOUT)"
      "acts = snd (set_write_state (c\<lparr>cn_pruned := True, cn_requests := m\<rparr>) STATE_WRITE_TIMEOUT)" by simp_all
    then show ?thesis by simp
  qed
next
  case CallDestroy
  then show ?thesis using assms(1) by (auto simp: conn_step_def Connection_Destroy_def Let_def case_prod_unfold)
qed (use assms in \<open>auto simp: conn_step_def Ping_def Connection_dispatch_def Let_def bind_eq_Some_conv\<close>)

end
