(* ===== verification/IceCheck.thy ===== *)
theory IceCheck
  imports IceConnection
begin

unbundle bit_operations_syntax

text \<open>
  A connectivity check from one end to the other: the request that \<open>Connection::Ping\<close> builds, what the connection of
  the peer makes of its packet, and what the response does at home.  \<open>msg_with\<close> is the message that a sequence of
  \<open>AddAttribute\<close> calls builds.
\<close>

subsection \<open>Building a message\<close>

definition msg_with :: "msg_class \<Rightarrow> u16 \<Rightarrow> byte list \<Rightarrow> stun_attribute list \<Rightarrow> stun_message" where
  "msg_with cls type tid as =
     \<lparr>sm_class = cls, sm_type = type, sm_length = of_nat (length (attrs_bytes tid as)), sm_tid = tid, sm_attrs = as\<rparr>"

lemma msg_with_fields [simp]:
  "sm_class (msg_with cls type tid as) = cls" "sm_type (msg_with cls type tid as) = type"
  "sm_tid (msg_with cls type tid as) = tid" "sm_attrs (msg_with cls type tid as) = as"
  "SetType (msg_with cls type tid as) ty = msg_with cls (of_int ty) tid as"
  by (simp_all add: msg_with_def SetType_def)

lemma msg_with_wf:
  assumes "length tid = 12" and "list_all (attr_ok cls tid) as" and "length (attrs_bytes tid as) < 65536" and "type AND 0x8000 = 0"
  shows "msg_wf (msg_with cls type tid as)" and "unat (sm_length (msg_with cls type tid as)) = length (attrs_bytes tid as)"
  using assms by (simp_all add: msg_wf_def tid_wf_def msg_with_def unat_of_nat_u16)

lemma with_attr_msg_with:
  assumes "attr_wf tid a"
  shows "with_attr (msg_with cls type tid as) a = msg_with cls type tid (as @ [a])"
  using length_attr_bytes [OF assms] by (simp add: with_attr_def msg_with_def)

lemma add_attr_msg_with:
  assumes "attr_ok cls tid (a\<lparr>at_body := SetOwner (at_body a)\<rparr>)"
  shows "add_attr (msg_with cls type tid as) a = msg_with cls type tid (as @ [a\<lparr>at_body := SetOwner (at_body a)\<rparr>])"
proof -
  have v: "value_type (at_body a) = GetAttributeValueType cls (at_type a)" using assms by (simp add: attr_ok_def)
  have "length (attr_bytes tid (a\<lparr>at_body := SetOwner (at_body a)\<rparr>)) = padded (unat (at_length a))"
    using assms length_attr_bytes [of tid "a\<lparr>at_body := SetOwner (at_body a)\<rparr>"] by (simp add: attr_ok_def)
  then show ?thesis
    using v by (simp add: add_attr_def AddAttribute_def Let_def msg_with_def padded_def)
qed

text \<open>The attributes of checks and responses, which both classes of messages know alike.\<close>

lemmas ice_types = STUN_ATTR_USERNAME_def STUN_ATTR_RETRANSMIT_COUNT_def STUN_ATTR_PRIORITY_def STUN_ATTR_USE_CANDIDATE_def
  STUN_ATTR_ICE_CONTROLLED_def STUN_ATTR_ICE_CONTROLLING_def STUN_ATTR_XOR_MAPPED_ADDRESS_def STUN_ATTR_MESSAGE_INTEGRITY_def
  STUN_ATTR_FINGERPRINT_def STUN_ATTR_ERROR_CODE_def

lemma bytes_attr_ok:
  assumes "length bs < 65536" and "GetAttributeValueType cls type = STUN_VALUE_BYTE_STRING"
  shows "attr_ok cls tid (StunByteStringAttribute type bs)"
  using assms by (simp add: attr_ok_def attr_wf_def StunByteStringAttribute_def CopyBytes_def unat_of_nat_u16)

lemma u32_attr_ok: "GetAttributeValueType cls type = STUN_VALUE_UINT32 \<Longrightarrow> attr_ok cls tid (StunUInt32Attribute type v)"
  by (simp add: attr_ok_def attr_wf_def StunUInt32Attribute_def)

lemma u64_attr_ok: "GetAttributeValueType cls type = STUN_VALUE_UINT64 \<Longrightarrow> attr_ok cls tid (StunUInt64Attribute type v)"
  by (simp add: attr_ok_def attr_wf_def StunUInt64Attribute_def)

definition xor_address_attr :: "socket_address \<Rightarrow> stun_attribute" where
  "xor_address_attr sa =
     \<lparr>at_type = STUN_ATTR_XOR_MAPPED_ADDRESS, at_length = EnsureAddressLength sa, at_body = XorAddressAttr sa True\<rparr>"

lemma xor_address_attr_ok:
  assumes "addr_wf sa (EnsureAddressLength sa)" and "length tid = 12" and "cls \<in> {StunMessageC, IceMessageC}"
  shows "attr_ok cls tid (xor_address_attr sa)"
  using assms by (auto simp: attr_ok_def attr_wf_def xor_address_attr_def ice_types StunMessage_GetAttributeValueType_def
      IceMessage_GetAttributeValueType_def)

lemma length_attr:
  assumes "attr_ok cls tid a"
  shows "length (attrs_bytes tid (a # as)) = 4 + padded (unat (at_length a)) + length (attrs_bytes tid as)"
  using assms length_attr_bytes [of tid a] by (simp add: attr_ok_def)

subsection \<open>Protecting a message\<close>

definition protect :: "endian \<Rightarrow> u32 list \<Rightarrow> byte list \<Rightarrow> stun_message \<Rightarrow> stun_message" where
  "protect he t key m = fst (AddFingerprint he t (fst (AddMessageIntegrity he m key)))"

text \<open>
  A packet that is whole and authentic wherever it is read, and gives these attributes.  Connections read with the class
  \<open>IceMessage\<close> whatever class the message was written with.
\<close>

definition authentic_packet :: "byte list \<Rightarrow> u16 \<Rightarrow> byte list \<Rightarrow> stun_attribute list \<Rightarrow> byte list \<Rightarrow> bool" where
  "authentic_packet key type tid as D \<longleftrightarrow>
     (\<forall>he. ValidateMessageIntegrity he D key = Some True) \<and> (\<forall>t. table_ok t \<longrightarrow> ValidateFingerprint t D) \<and>
     (\<exists>h v. \<forall>he. \<exists>b. Length b = 0 \<and>
        msg_Read he IceMessageC (ByteBuffer_of D) = Some (msg_with IceMessageC type tid (as @ [mi_attr h, fp_attr v]), b))"

lemma protected_read:
  assumes "length tid = 12" and "list_all (attr_ok cls tid) as" and "list_all (attr_ok IceMessageC tid) as"
    and "length (attrs_bytes tid as) + 32 < 65536" and "type AND 0x8000 = 0"
    and "\<forall>a \<in> set as. at_type a \<noteq> STUN_ATTR_MESSAGE_INTEGRITY" and "table_ok t"
  shows "\<exists>h v. protect he t key (msg_with cls type tid as) = msg_with cls type tid (as @ [mi_attr h, fp_attr v])"
    and "\<exists>D. (\<forall>he'. packet_of he' (protect he t key (msg_with cls type tid as)) = Some D) \<and> authentic_packet key type tid as D"
proof -
  let ?m = "msg_with cls type tid as"
  note w = msg_with_wf [OF assms(1,2) _ assms(5)]
  have m: "msg_wf ?m" "unat (sm_length ?m) + 32 < 65536" "\<not> IsLegacy ?m" "\<forall>a \<in> set (sm_attrs ?m). at_type a \<noteq> STUN_ATTR_MESSAGE_INTEGRITY"
    using w assms(1,4,6) by (simp_all add: IsLegacy_def kStunLegacyTransactionIdLength_def)
  obtain h v where hv: "length h = 20" "protect he t key ?m = with_attr (with_attr ?m (mi_attr h)) (fp_attr v)"
    "msg_wf (protect he t key ?m)"
    using protected_packet [OF m assms(7) assms(7), where he = he and key = key] unfolding protect_def by blast
  have wf: "attr_wf tid (mi_attr h)" "attr_wf tid (fp_attr v)"
    using mi_attr_ok [OF hv(1)] fp_attr_ok by (simp_all add: attr_ok_def)
  have m2: "protect he t key ?m = msg_with cls type tid (as @ [mi_attr h, fp_attr v])"
    by (simp add: hv(2) with_attr_msg_with wf)
  then show "\<exists>h v. protect he t key ?m = msg_with cls type tid (as @ [mi_attr h, fp_attr v])" by blast
  let ?D = "msg_bytes (protect he t key ?m)" and ?r = "msg_with IceMessageC type tid (as @ [mi_attr h, fp_attr v])"
  have D: "?D = msg_bytes ?r" unfolding m2 by (simp add: msg_bytes_def msg_with_def)
  have "msg_wf ?r"
    using hv(3) assms(3) hv(1) mi_attr_ok fp_attr_ok unfolding m2 by (simp add: msg_wf_def msg_with_def)
  then have "\<exists>b. Length b = 0 \<and> msg_Read he' IceMessageC (ByteBuffer_of ?D) = Some (?r, b)" for he'
    using msg_Read_bytes [OF _ ordered_of, of ?r ?D he'] D by (auto simp: Length_eq)
  moreover have "packet_of he' (protect he t key ?m) = Some ?D" for he'
    using msg_Write_bytes [OF hv(3) ordered_new, of he'] by (auto simp: packet_of_def)
  moreover have "ValidateMessageIntegrity he' ?D key = Some True \<and> ValidateFingerprint t' ?D" if "table_ok t'" for he' t'
    using protected_packet [OF m assms(7) that, where he = he and he' = he' and key = key] unfolding protect_def by blast
  ultimately have "(\<forall>he'. packet_of he' (protect he t key ?m) = Some ?D) \<and> authentic_packet key type tid as ?D"
    using assms(7) unfolding authentic_packet_def by blast
  then show "\<exists>D. (\<forall>he'. packet_of he' (protect he t key ?m) = Some D) \<and> authentic_packet key type tid as D" by blast
qed

subsection \<open>The request\<close>

definition check_username :: "ice_port \<Rightarrow> connection \<Rightarrow> byte list" where
  "check_username p c = cd_username (cn_remote_candidate c) @ [0x3A] @ username_fragment p"

definition count_attrs :: "ice_port \<Rightarrow> connection \<Rightarrow> stun_attribute list" where
  "count_attrs p c =
     (if pt_send_retransmit_count_attribute p
      then [StunUInt32Attribute STUN_ATTR_RETRANSMIT_COUNT (of_nat (length (cn_pings_since_last_response c)) - 1)] else [])"

definition role_attrs :: "ice_port \<Rightarrow> connection \<Rightarrow> stun_attribute list" where
  "role_attrs p c =
     (case pt_role p of
        ROLE_CONTROLLING \<Rightarrow> StunUInt64Attribute STUN_ATTR_ICE_CONTROLLING (pt_tiebreaker p) #
          (if cn_use_candidate_attr c then [StunByteStringAttribute STUN_ATTR_USE_CANDIDATE []] else [])
      | ROLE_CONTROLLED \<Rightarrow> [StunUInt64Attribute STUN_ATTR_ICE_CONTROLLED (pt_tiebreaker p)]
      | ROLE_UNKNOWN \<Rightarrow> [])"

definition priority_attrs :: "ice_port \<Rightarrow> connection \<Rightarrow> stun_attribute list" where
  "priority_attrs p c =
     [StunUInt32Attribute STUN_ATTR_PRIORITY
        (push_bit 24 ICE_TYPE_PREFERENCE_PRFLX OR (cd_priority (local_candidate p c) AND 0x00FFFFFF))]"

definition check_attrs :: "ice_port \<Rightarrow> connection \<Rightarrow> stun_attribute list" where
  "check_attrs p c =
     StunByteStringAttribute STUN_ATTR_USERNAME (check_username p c) # count_attrs p c @ role_attrs p c @ priority_attrs p c"

lemmas check_attrs_defs = check_attrs_def count_attrs_def role_attrs_def priority_attrs_def

lemma ice_value_types [simp]:
  "IceMessage_GetAttributeValueType STUN_ATTR_USERNAME = STUN_VALUE_BYTE_STRING"
  "IceMessage_GetAttributeValueType STUN_ATTR_RETRANSMIT_COUNT = STUN_VALUE_UINT32"
  "StunMessage_GetAttributeValueType STUN_ATTR_RETRANSMIT_COUNT = STUN_VALUE_UINT32"
  "GetAttributeValueType cls STUN_ATTR_RETRANSMIT_COUNT = STUN_VALUE_UINT32"
  "IceMessage_GetAttributeValueType STUN_ATTR_ICE_CONTROLLING = STUN_VALUE_UINT64"
  "IceMessage_GetAttributeValueType STUN_ATTR_ICE_CONTROLLED = STUN_VALUE_UINT64"
  "IceMessage_GetAttributeValueType STUN_ATTR_USE_CANDIDATE = STUN_VALUE_BYTE_STRING"
  "IceMessage_GetAttributeValueType STUN_ATTR_PRIORITY = STUN_VALUE_UINT32"
  by (simp_all add: ice_types IceMessage_GetAttributeValueType_def StunMessage_GetAttributeValueType_def)
    (cases cls; simp add: StunMessage_GetAttributeValueType_def RelayMessage_GetAttributeValueType_def
      TurnMessage_GetAttributeValueType_def IceMessage_GetAttributeValueType_def)

lemma attr_owner [simp]:
  "(StunByteStringAttribute ty bs)\<lparr>at_body := ByteStringAttr bs\<rparr> = StunByteStringAttribute ty bs"
  "(StunUInt32Attribute ty v)\<lparr>at_body := UInt32Attr v\<rparr> = StunUInt32Attribute ty v"
  "(StunUInt64Attribute ty w)\<lparr>at_body := UInt64Attr w\<rparr> = StunUInt64Attribute ty w"
  "(StunXorAddressAttribute STUN_ATTR_XOR_MAPPED_ADDRESS sa)\<lparr>at_body := XorAddressAttr sa True\<rparr> = xor_address_attr sa"
  by (simp_all add: StunByteStringAttribute_def CopyBytes_def StunUInt32Attribute_def StunUInt64Attribute_def
      StunXorAddressAttribute_def SetAddress_def xor_address_attr_def)

lemma attr_type [simp]:
  "at_type (StunByteStringAttribute ty bs) = ty" "at_type (StunUInt32Attribute ty v) = ty" "at_type (StunUInt64Attribute ty w) = ty"
  "at_type (xor_address_attr sa) = STUN_ATTR_XOR_MAPPED_ADDRESS" "at_type (mi_attr h) = STUN_ATTR_MESSAGE_INTEGRITY"
  "at_type (fp_attr u) = STUN_ATTR_FINGERPRINT"
  by (simp_all add: StunByteStringAttribute_def CopyBytes_def StunUInt32Attribute_def StunUInt64Attribute_def
      xor_address_attr_def mi_attr_def fp_attr_def)

lemma attr_body [simp]:
  "at_body (StunByteStringAttribute ty bs) = ByteStringAttr bs" "at_body (StunUInt32Attribute ty v) = UInt32Attr v"
  "at_body (StunUInt64Attribute ty w) = UInt64Attr w" "at_body (mi_attr h) = ByteStringAttr h"
  "at_body (StunXorAddressAttribute ty sa) = XorAddressAttr sa False"
  by (simp_all add: StunByteStringAttribute_def CopyBytes_def StunUInt32Attribute_def StunUInt64Attribute_def mi_attr_def
      StunXorAddressAttribute_def SetAddress_def)

lemma check_attrs_ok:
  assumes "length (check_username p c) < 65536"
  shows "list_all (attr_ok IceMessageC tid) (check_attrs p c)"
  using assms by (auto simp: check_attrs_defs bytes_attr_ok u32_attr_ok u64_attr_ok split: transport_role.split)

lemma padded_le: "padded n \<le> n + 3"
  unfolding padded_def by presburger

lemma check_attrs_length:
  assumes "length (check_username p c) \<le> 65000"
  shows "length (attrs_bytes tid (check_attrs p c)) + 32 < 65536"
proof -
  have "padded (unat (at_length (StunByteStringAttribute STUN_ATTR_USERNAME (check_username p c)))) \<le> 65003"
    using padded_le [of "length (check_username p c)"] assms
    by (simp add: StunByteStringAttribute_def CopyBytes_def unat_of_nat_u16)
  moreover have "length (attrs_bytes tid (count_attrs p c @ role_attrs p c @ priority_attrs p c)) \<le> 100"
    by (auto simp: check_attrs_defs attr_bytes_def StunByteStringAttribute_def CopyBytes_def StunUInt32Attribute_def
        StunUInt64Attribute_def pad4_def split: transport_role.split)
  ultimately show ?thesis
    using assms bytes_attr_ok [of "check_username p c" IceMessageC STUN_ATTR_USERNAME tid]
      length_attr [of IceMessageC tid "StunByteStringAttribute STUN_ATTR_USERNAME (check_username p c)"]
    unfolding check_attrs_def by simp
qed

lemma check_attrs_types: "a \<in> set (check_attrs p c) \<Longrightarrow> at_type a \<noteq> STUN_ATTR_MESSAGE_INTEGRITY"
  by (auto simp: check_attrs_defs ice_types split: transport_role.splits if_splits)

lemma uint_binding_request [simp]: "of_int (uint STUN_BINDING_REQUEST) = STUN_BINDING_REQUEST"
  "of_int (uint STUN_BINDING_RESPONSE) = STUN_BINDING_RESPONSE"
  by simp_all

lemma Prepare_eq:
  assumes "pt_ice_protocol p = ICEPROTO_RFC5245" and "length (check_username p c) < 65536"
  shows "ConnectionRequest_Prepare he t p c r (msg_with IceMessageC 0 tid []) =
    protect he t (cd_password (cn_remote_candidate c)) (msg_with IceMessageC STUN_BINDING_REQUEST tid (check_attrs p c))"
proof -
  have u: "CreateStunUsername p (cd_username (cn_remote_candidate c)) = check_username p c"
    using assms(1) by (simp add: CreateStunUsername_def check_username_def)
  show ?thesis
    using assms by (cases "pt_role p")
      (simp_all add: ConnectionRequest_Prepare_def Let_def u add_attr_msg_with bytes_attr_ok u32_attr_ok u64_attr_ok
        check_attrs_defs protect_def)
qed

subsection \<open>The answer\<close>

lemma check_fields:
  fixes p c h v tid
  defines "m \<equiv> msg_with IceMessageC STUN_BINDING_REQUEST tid (check_attrs p c @ [mi_attr h, fp_attr v])"
  shows "GetByteString m STUN_ATTR_USERNAME = Some (check_username p c)"
    and "GetByteString m STUN_ATTR_MESSAGE_INTEGRITY = Some h"
    and "GetUInt64 m STUN_ATTR_ICE_CONTROLLING = (if pt_role p = ROLE_CONTROLLING then Some (pt_tiebreaker p) else None)"
    and "GetUInt64 m STUN_ATTR_ICE_CONTROLLED = (if pt_role p = ROLE_CONTROLLED then Some (pt_tiebreaker p) else None)"
    and "GetByteString m STUN_ATTR_USE_CANDIDATE = (if pt_role p = ROLE_CONTROLLING \<and> cn_use_candidate_attr c then Some [] else None)"
    and "GetUInt32 m STUN_ATTR_RETRANSMIT_COUNT =
      (if pt_send_retransmit_count_attribute p then Some (of_nat (length (cn_pings_since_last_response c)) - 1) else None)"
  unfolding m_def GetByteString_def GetUInt32_def GetUInt64_def GetAttribute_def check_attrs_defs
  by (cases "pt_role p"; simp add: ice_types)+

lemma ParseStunUsername_check:
  assumes "GetByteString m STUN_ATTR_USERNAME = Some (check_username p c)" and "pt_ice_protocol q = ICEPROTO_RFC5245"
    and "0x3A \<notin> set (cd_username (cn_remote_candidate c))"
  shows "ParseStunUsername q m = Some (cd_username (cn_remote_candidate c), username_fragment p)"
proof -
  have "takeWhile (\<lambda>x. x \<noteq> 0x3A) (us @ 0x3A # vs) = us \<and> dropWhile (\<lambda>x. x \<noteq> 0x3A) (us @ 0x3A # vs) = 0x3A # vs"
    if "0x3A \<notin> set us" for us vs :: "byte list"
    using that by (induction us) auto
  then show ?thesis using assms by (simp add: ParseStunUsername_def check_username_def)
qed

definition opposite :: "ice_port \<Rightarrow> ice_port \<Rightarrow> bool" where
  "opposite p q \<longleftrightarrow> {pt_role p, pt_role q} = {ROLE_CONTROLLING, ROLE_CONTROLLED}"

lemma no_conflict:
  assumes "opposite p q" and "GetUInt64 m STUN_ATTR_ICE_CONTROLLING = (if pt_role p = ROLE_CONTROLLING then Some (pt_tiebreaker p) else None)"
    and "GetUInt64 m STUN_ATTR_ICE_CONTROLLED = (if pt_role p = ROLE_CONTROLLED then Some (pt_tiebreaker p) else None)"
  shows "MaybeIceRoleConflict he t q addr m ufrag = (True, [])"
  using assms by (auto simp: MaybeIceRoleConflict_def opposite_def doubleton_eq_iff Let_def)

definition response_attrs :: "socket_address \<Rightarrow> stun_message \<Rightarrow> stun_attribute list" where
  "response_attrs addr request =
     (case GetUInt32 request STUN_ATTR_RETRANSMIT_COUNT of None \<Rightarrow> [] | Some v \<Rightarrow> [StunUInt32Attribute STUN_ATTR_RETRANSMIT_COUNT v])
       @ [xor_address_attr addr]"

lemma response_attrs_ok:
  assumes "addr_wf addr (EnsureAddressLength addr)" and "length tid = 12" and "cls \<in> {StunMessageC, IceMessageC}"
  shows "list_all (attr_ok cls tid) (response_attrs addr request)" and "length (attrs_bytes tid (response_attrs addr request)) + 32 < 65536"
    and "a \<in> set (response_attrs addr request) \<Longrightarrow> at_type a \<noteq> STUN_ATTR_MESSAGE_INTEGRITY"
proof -
  note x = xor_address_attr_ok [OF assms]
  show "list_all (attr_ok cls tid) (response_attrs addr request)"
    using x u32_attr_ok [of cls STUN_ATTR_RETRANSMIT_COUNT tid] by (auto simp: response_attrs_def split: option.split)
  have "length (attr_bytes tid (xor_address_attr addr)) \<le> 20"
    using length_attr_bytes [of tid "xor_address_attr addr"] x
    by (simp add: attr_ok_def xor_address_attr_def EnsureAddressLength_def padded_def split: stun_address_family.splits)
  then show "length (attrs_bytes tid (response_attrs addr request)) + 32 < 65536"
    by (auto simp: response_attrs_def attr_bytes_def StunUInt32Attribute_def split: option.split)
  show "a \<in> set (response_attrs addr request) \<Longrightarrow> at_type a \<noteq> STUN_ATTR_MESSAGE_INTEGRITY"
    by (auto simp: response_attrs_def ice_types split: option.splits)
qed

lemma binding_response_eq:
  assumes "pt_ice_protocol q = ICEPROTO_RFC5245" and "GetByteString m STUN_ATTR_USERNAME = Some u" and "length (sm_tid m) = 12"
    and "addr_wf addr (EnsureAddressLength addr)"
  shows "binding_response he t q m addr =
    Some (protect he t (pt_password q) (msg_with StunMessageC STUN_BINDING_RESPONSE (sm_tid m) (response_attrs addr m)))"
proof -
  have r: "response_to m STUN_BINDING_RESPONSE = msg_with StunMessageC STUN_BINDING_RESPONSE (sm_tid m) []"
    using assms(3) by (simp add: response_to_def SetTransactionID_def IsValidTransactionId_def kStunTransactionIdLength_def
        SetType_def StunMessage_new_def msg_with_def)
  have x: "attr_ok StunMessageC (sm_tid m) (xor_address_attr addr)" using xor_address_attr_ok [OF assms(4,3)] by simp
  show ?thesis
    using assms x by (cases "GetUInt32 m STUN_ATTR_RETRANSMIT_COUNT")
      (simp_all add: binding_response_def r Let_def add_attr_msg_with u32_attr_ok response_attrs_def protect_def)
qed

text \<open>A connection that accepts a check: it becomes readable and sends the response, and nothing goes wrong.\<close>

lemma check_answered:
  assumes q: "pt_ice_protocol q = ICEPROTO_RFC5245"
    and D: "authentic_packet (pt_password q) STUN_BINDING_REQUEST tid (check_attrs p c) D" and t: "table_ok t"
    and tid: "length tid = 12" and roles: "opposite p q"
    and names: "cd_username (cn_remote_candidate c) = username_fragment q" "0x3A \<notin> set (username_fragment q)"
      "cd_username (cn_remote_candidate d) = username_fragment p"
    and addr: "addr_wf (cd_address (cn_remote_candidate d)) (EnsureAddressLength (cd_address (cn_remote_candidate d)))"
  obtains d' acts Q req where "Connection_OnReadPacket he t q now D d = Some (d', acts)" and "cn_read_state d' = STATE_READABLE"
    and "cn_last_ping_received d' = now" and "PortAction (SendTo (Some Q) (cd_address (cn_remote_candidate d))) \<in> set acts"
    and "SignalUseCandidate \<in> set acts \<longleftrightarrow> pt_role p = ROLE_CONTROLLING \<and> cn_use_candidate_attr c"
    and "authentic_packet (pt_password q) STUN_BINDING_RESPONSE tid (response_attrs (cd_address (cn_remote_candidate d)) req) Q"
proof -
  obtain h v b where r: "msg_Read he IceMessageC (ByteBuffer_of D) =
      Some (msg_with IceMessageC STUN_BINDING_REQUEST tid (check_attrs p c @ [mi_attr h, fp_attr v]), b)" "Length b = 0"
    using D unfolding authentic_packet_def by blast
  define m where "m = msg_with IceMessageC STUN_BINDING_REQUEST tid (check_attrs p c @ [mi_attr h, fp_attr v])"
  have D': "ValidateFingerprint t D" "ValidateMessageIntegrity he D (pt_password q) = Some True"
    using D t unfolding authentic_packet_def by blast+
  note f = check_fields [of tid p c h v, folded m_def]
  have u: "ParseStunUsername q m = Some (username_fragment q, username_fragment p)"
    using ParseStunUsername_check [OF f(1) q] names(1,2) by simp
  have ty: "sm_type m = STUN_BINDING_REQUEST" "sm_tid m = tid" by (simp_all add: m_def)
  have g: "GetStunMessage he t q D addr = Some (True, Some (m, username_fragment p), [])" for addr
    using D' r q u ty f(1,2) by (simp add: GetStunMessage_def m_def [symmetric])
  have no: "MaybeIceRoleConflict he t q addr m ufrag = (True, [])" for addr ufrag by (rule no_conflict [OF roles f(3,4)])
  let ?addr = "cd_address (cn_remote_candidate d)"
  note ro = response_attrs_ok [OF addr tid]
  obtain Q where Q: "packet_of he (protect he t (pt_password q) (msg_with StunMessageC STUN_BINDING_RESPONSE tid (response_attrs ?addr m))) = Some Q"
    "authentic_packet (pt_password q) STUN_BINDING_RESPONSE tid (response_attrs ?addr m) Q"
    using protected_read(2) [OF tid ro(1) [where cls = StunMessageC and request = m] ro(1) [where cls = IceMessageC and request = m]
        ro(2) [where cls = IceMessageC and request = m], where type = STUN_BINDING_RESPONSE and he = he and t = t and key = "pt_password q"]
      ro(3) [where cls = IceMessageC and request = m] t
    by (auto simp: STUN_BINDING_RESPONSE_def)
  have resp: "SendBindingResponse he t q m ?addr = (True, [SendTo (Some Q) ?addr])"
    using binding_response_eq [OF q f(1) _ addr] ty tid Q(1) by (simp add: SendBindingResponse_def)
  have role: "pt_role q = ROLE_CONTROLLED \<longleftrightarrow> pt_role p = ROLE_CONTROLLING"
    using roles by (auto simp: opposite_def doubleton_eq_iff)
  obtain d1 acts1 where ping: "ReceivedPing now d = (d1, acts1)" by fastforce
  then have d1: "cn_read_state d1 = STATE_READABLE" "cn_last_ping_received d1 = now" "SignalUseCandidate \<notin> set acts1"
    by (auto simp: ReceivedPing_def set_read_state_def Connection_CheckTimeout_def Let_def split: if_splits)
  obtain d2 acts2 where restart: "restart_checks d1 = (d2, acts2)" by fastforce
  then have d2: "cn_read_state d2 = STATE_READABLE" "cn_last_ping_received d2 = now" "SignalUseCandidate \<notin> set acts2"
    using d1 by (auto simp: restart_checks_def set_write_state_def Connection_CheckTimeout_def Let_def split: if_splits)
  define acts where "acts = PortAction (SendTo (Some Q) ?addr) # acts1 @ acts2 @
    (if pt_role p = ROLE_CONTROLLING \<and> cn_use_candidate_attr c then [SignalUseCandidate] else [])"
  have "OnBindingRequest he t q now m (username_fragment p) d = (d2, acts)"
    using names(3) resp ping restart f(5) role q by (simp add: OnBindingRequest_def no acts_def)
  then have "Connection_OnReadPacket he t q now D d = Some (d2, acts)"
    using g ty by (simp add: Connection_OnReadPacket_def)
  then show ?thesis using that d1 d2 Q(2) by (auto simp: acts_def)
qed

subsection \<open>The whole check\<close>

lemma check_protected:
  assumes "length (check_username p c) \<le> 65000" and "length tid = 12" and "table_ok t"
  shows "\<exists>h v. protect he t key (msg_with IceMessageC STUN_BINDING_REQUEST tid (check_attrs p c)) =
      msg_with IceMessageC STUN_BINDING_REQUEST tid (check_attrs p c @ [mi_attr h, fp_attr v])"
    and "\<exists>D. (\<forall>he'. packet_of he' (protect he t key (msg_with IceMessageC STUN_BINDING_REQUEST tid (check_attrs p c))) = Some D) \<and>
      authentic_packet key STUN_BINDING_REQUEST tid (check_attrs p c) D"
proof -
  have "list_all (attr_ok IceMessageC tid) (check_attrs p c)" using check_attrs_ok assms(1) by simp
  note r = protected_read [OF assms(2) this this check_attrs_length [OF assms(1)] _ _ assms(3)]
  show "\<exists>h v. protect he t key (msg_with IceMessageC STUN_BINDING_REQUEST tid (check_attrs p c)) =
      msg_with IceMessageC STUN_BINDING_REQUEST tid (check_attrs p c @ [mi_attr h, fp_attr v])"
    by (rule r(1)) (auto simp: STUN_BINDING_REQUEST_def dest: check_attrs_types)
  show "\<exists>D. (\<forall>he'. packet_of he' (protect he t key (msg_with IceMessageC STUN_BINDING_REQUEST tid (check_attrs p c))) = Some D) \<and>
      authentic_packet key STUN_BINDING_REQUEST tid (check_attrs p c) D"
    by (rule r(2)) (auto simp: STUN_BINDING_REQUEST_def dest: check_attrs_types)
qed

text \<open>No request is under way and no message waits for one.\<close>

definition quiet :: "stun_manager \<Rightarrow> bool" where
  "quiet m \<longleftrightarrow> rm_requests m = [] \<and> mq_msgq (rm_thread m) = [] \<and> mq_dmsgq (rm_thread m) = [] \<and>
     \<not> mq_fStop (rm_thread m) \<and> \<not> mq_fPeekKeep (rm_thread m)"

text \<open>The ping is under way: its request was sent at \<open>now\<close>.\<close>

definition pinging :: "connection \<Rightarrow> nat \<Rightarrow> byte list \<Rightarrow> u32 \<Rightarrow> bool" where
  "pinging c r tid now \<longleftrightarrow>
     rm_requests (cn_requests c) = [(tid, r)] \<and>
     (\<exists>rq. rm_objects (cn_requests c) r = Some rq \<and> request_type rq = 1 \<and> request_id rq = tid \<and> rq_tstamp rq = now \<and> rq_manager rq) \<and>
     mq_msgq (rm_thread (cn_requests c)) = [] \<and>
     (\<exists>d. mq_dmsgq (rm_thread (cn_requests c)) = [d] \<and> dm_msg d = stun_send r) \<and>
     \<not> mq_fStop (rm_thread (cn_requests c)) \<and> \<not> mq_fPeekKeep (rm_thread (cn_requests c))"

lemma ping_sent:
  fixes now he t p c tid
  assumes p: "pt_ice_protocol p = ICEPROTO_RFC5245" and u: "length (check_username p c) \<le> 65000" and tid: "length tid = 12"
    and idle: "quiet (cn_requests c)" and tab: "table_ok t" and addr: "a = cd_address (cn_remote_candidate c)"
  defines "c0 \<equiv> c\<lparr>cn_last_ping_sent := now, cn_pings_since_last_response := cn_pings_since_last_response c @ [now]\<rparr>"
  defines "m \<equiv> protect he t (cd_password (cn_remote_candidate c)) (msg_with IceMessageC STUN_BINDING_REQUEST tid (check_attrs p c0))"
  obtains c1 c2 where "Ping he t p c now r tid = Some c1"
    and "Connection_dispatch he now now' c1 = Some (c2, [PortAction (SendTo (packet_of he m) a)])"
    and "pinging c2 r tid now" and "cn_remote_candidate c2 = cn_remote_candidate c" and "cn_rtt c2 = cn_rtt c"
    and "cn_remote_ice_mode c2 = cn_remote_ice_mode c" and "cn_state c2 = STATE_INPROGRESS"
    and "cn_read_state c2 = cn_read_state c" and "cn_write_state c2 = cn_write_state c"
proof -
  have new: "StunRequest_new (StunMessage_new IceMessageC) tid =
      \<lparr>rq_count = 0, rq_timeout = False, rq_manager = False, rq_msg = msg_with IceMessageC 0 tid [], rq_tstamp = 0\<rparr>"
    using tid by (simp add: StunRequest_new_def SetTransactionID_def IsValidTransactionId_def kStunTransactionIdLength_def
        StunMessage_new_def msg_with_def)
  have user: "check_username p c0 = check_username p c" "cd_password (cn_remote_candidate c0) = cd_password (cn_remote_candidate c)"
    by (simp_all add: c0_def check_username_def)
  then have prep: "ConnectionRequest_Prepare he t p c0 r (msg_with IceMessageC 0 tid []) = m"
    using Prepare_eq [OF p, of c0 he t r tid] u by (simp add: m_def)
  obtain h v where "m = msg_with IceMessageC STUN_BINDING_REQUEST tid (check_attrs p c0 @ [mi_attr h, fp_attr v])"
    using check_protected [OF _ tid tab] u user unfolding m_def by metis
  then have m: "sm_tid m = tid" "sm_type m = STUN_BINDING_REQUEST" by simp_all
  define rq where "rq = \<lparr>rq_count = 0, rq_timeout = False, rq_manager = True, rq_msg = m, rq_tstamp = 0\<rparr>"
  have construct: "rq_Construct (ConnectionRequest_Prepare he t p c0) r ((StunRequest_new (StunMessage_new IceMessageC) tid)\<lparr>rq_manager := True\<rparr>) = rq"
    unfolding new by (simp add: rq_Construct_def request_type_def prep rq_def)
  let ?t = "PostDelayed (rm_thread (cn_requests c)) now 0 (Some r) MSG_STUN_SEND None"
  define m1 where "m1 = (cn_requests c)\<lparr>rm_objects := (rm_objects (cn_requests c))(r \<mapsto> rq), rm_requests := [(tid, r)], rm_thread := ?t\<rparr>"
  have send: "Manager_Send (ConnectionRequest_Prepare he t p c0) ((cn_requests c)\<lparr>rm_objects := (rm_objects (cn_requests c))(r \<mapsto> StunRequest_new (StunMessage_new IceMessageC) tid)\<rparr>) now r = Some m1"
    using idle m(1) by (simp add: Manager_Send_def SendDelayed_def construct m1_def request_id_def quiet_def Let_def) (simp add: rq_def m(1))
  define c1 where "c1 = c0\<lparr>cn_requests := m1, cn_state := STATE_INPROGRESS\<rparr>"
  have ping: "Ping he t p c now r tid = Some c1"
    using send by (simp add: Ping_def Let_def c0_def [symmetric] c1_def) (simp add: c0_def)
  define rq' where "rq' = rq\<lparr>rq_tstamp := now, rq_timeout := True\<rparr>"
  obtain m2 where m2: "dispatch he ConnectionRequest_GetNextDelay now now' m1 = Some m2"
    "rm_events m2 = rm_events (cn_requests c) @ [SentPacket r (packet_of he m)]"
    "rm_requests m2 = [(tid, r)]" "rm_objects m2 r = Some rq'" "mq_msgq (rm_thread m2) = []"
    "\<exists>d. mq_dmsgq (rm_thread m2) = [d] \<and> dm_msg d = stun_send r" "\<not> mq_fStop (rm_thread m2)" "\<not> mq_fPeekKeep (rm_thread m2)"
    using idle
    by (simp add: m1_def quiet_def dispatch_def get_pass_def release_due.simps OnMessage_def ConnectionRequest_GetNextDelay_def Let_def
        MQID_QUIT_def MQID_DISPOSE_def MSG_STUN_SEND_def PostDelayed_def DoDelayPost_def EnsureActive_def stun_send_def Message_new_def
        rq_def rq'_def packet_of_def)
  define c2 where "c2 = c1\<lparr>cn_requests := m2\<rparr>"
  have "Connection_dispatch he now now' c1 = Some (c2, [PortAction (SendTo (packet_of he m) a)])"
    using m2(1,2) addr by (simp add: Connection_dispatch_def c1_def c2_def m1_def sent_packets_def) (simp add: c0_def)
  moreover have "pinging c2 r tid now"
    using m2 m by (simp add: pinging_def c2_def rq'_def rq_def request_type_def request_id_def STUN_BINDING_REQUEST_def)
  ultimately show ?thesis using that [of c1 c2] ping by (simp add: c2_def c1_def c0_def)
qed

lemma Elapsed_eq: "Elapsed rq now = now - rq_tstamp rq"
  by (simp add: Elapsed_def TimeDiff_def)

lemma response_taken:
  assumes "pinging c r tid t0" and "sm_tid msg = tid" and "sm_type msg = STUN_BINDING_RESPONSE"
  obtains m rq where "CheckResponse_msg (cn_requests c) msg = Some (True, m)" and "rm_events m = rm_events (cn_requests c) @ [Responded r msg]"
    and "rm_objects (cn_requests c) r = Some rq" and "rq_tstamp rq = t0" and "quiet m" and "rm_objects m r = None"
proof -
  from assms(1) obtain rq d where rq: "rm_requests (cn_requests c) = [(tid, r)]" "rm_objects (cn_requests c) r = Some rq" "request_type rq = 1"
    "request_id rq = tid" "rq_tstamp rq = t0" "rq_manager rq"
    and q: "mq_msgq (rm_thread (cn_requests c)) = []" "mq_dmsgq (rm_thread (cn_requests c)) = [d]" "dm_msg d = stun_send r"
      "\<not> mq_fStop (rm_thread (cn_requests c))" "\<not> mq_fPeekKeep (rm_thread (cn_requests c))"
    unfolding pinging_def by blast
  have "ucast (sm_type msg) = GetStunSuccessResponseType 1"
    by (simp add: assms(3) STUN_BINDING_RESPONSE_def GetStunSuccessResponseType_def IsStunRequestType_def kStunTypeMask_def)
  then show ?thesis
    using that rq q assms(2)
    by (simp add: CheckResponse_msg_def delete_request_def Manager_Remove_def clear_handler_def mq_Clear_def quiet_def Let_def)
qed

lemma response_accepted:
  assumes "pinging c r tid t0" and p: "pt_ice_protocol p = ICEPROTO_RFC5245"
    and Q: "authentic_packet (cd_password (cn_remote_candidate c)) STUN_BINDING_RESPONSE tid as Q" and t: "table_ok t"
  obtains c' acts where "Connection_OnReadPacket he t p now Q c = Some (c', acts)" and "cn_write_state c' = STATE_WRITABLE"
    and "cn_state c' = STATE_SUCCEEDED" and "cn_pings_since_last_response c' = []" and "quiet (cn_requests c')"
    and "cn_last_ping_response_received c' = now" and "cn_rtt c' = (3 * cn_rtt c + (now - t0)) div 4"
proof -
  obtain msg b where r: "msg_Read he IceMessageC (ByteBuffer_of Q) = Some (msg, b)" "Length b = 0"
    and msg: "sm_tid msg = tid" "sm_type msg = STUN_BINDING_RESPONSE"
    using Q unfolding authentic_packet_def by (metis msg_with_fields(2,3))
  have Q': "ValidateFingerprint t Q" "ValidateMessageIntegrity he Q (cd_password (cn_remote_candidate c)) = Some True"
    using Q t unfolding authentic_packet_def by blast+
  obtain m rq where m: "CheckResponse_msg (cn_requests c) msg = Some (True, m)" "rm_events m = rm_events (cn_requests c) @ [Responded r msg]"
    "rm_objects (cn_requests c) r = Some rq" "rq_tstamp rq = t0" "quiet m"
    using response_taken [OF assms(1) msg] by metis
  have ty: "sm_type msg \<noteq> STUN_BINDING_REQUEST" using msg(2) by (simp add: STUN_BINDING_RESPONSE_def STUN_BINDING_REQUEST_def)
  have "GetStunMessage he t p Q addr = Some (True, Some (msg, []), [])" for addr
    using Q' r msg ty by (simp add: GetStunMessage_def STUN_BINDING_RESPONSE_def STUN_BINDING_ERROR_RESPONSE_def)
  moreover obtain c' acts where o: "OnConnectionRequestResponse now rq (c\<lparr>cn_requests := m\<rparr>) = (c', acts)" by fastforce
  ultimately have "Connection_OnReadPacket he t p now Q c = Some (c', acts)"
    using ty msg(2) p Q'(2) m by (simp add: Connection_OnReadPacket_def Connection_CheckResponse_def)
  moreover have "cn_write_state c' = STATE_WRITABLE" "cn_state c' = STATE_SUCCEEDED" "cn_pings_since_last_response c' = []"
    "quiet (cn_requests c')" "cn_last_ping_response_received c' = now" "cn_rtt c' = (3 * cn_rtt c + (now - t0)) div 4"
    using o m(4,5) by (auto simp: OnConnectionRequestResponse_def Let_def Elapsed_eq RTT_RATIO_def set_write_state_def ReceivedPing_def
        set_read_state_def split: if_splits)
  ultimately show ?thesis using that by blast
qed


definition calling :: ice_port where "calling = sample_port ROLE_CONTROLLING 5 ''L'' ''p''"
definition called :: ice_port where "called = sample_port ROLE_CONTROLLED 9 ''R'' ''q''"

definition calling_connection :: connection where
  "calling_connection =
     (Connection_new 0 (sample_candidate\<lparr>cd_username := map of_char ''R'', cd_password := map of_char ''q''\<rparr>))\<lparr>cn_use_candidate_attr := True\<rparr>"

definition called_connection :: connection where
  "called_connection = Connection_new 0 (sample_candidate\<lparr>cd_username := map of_char ''L'', cd_password := map of_char ''p''\<rparr>)"

lemmas calling_defs = calling_def called_def calling_connection_def called_connection_def sample_port_def sample_candidate_def
  Connection_new_def StunRequestManager_new_def MessageQueue_new_def


subsection \<open>Nobody else\<close>

text \<open>
  C5: Under ICE a connection believes nobody without proof.  No call to it makes it readable but that of a packet, and
  only of a check with a valid fingerprint, the user names of both ends and an integrity value under the own password
  or, when the peer is ICE-lite, of a response to its own check; no call makes it writable but that of a response to a
  check under way with an integrity value under the password of the peer; and it passes data on only while it is
  readable.
\<close>

theorem connection_state_authenticated:
  assumes "conn_step he t p now call c = Some (c', acts)" and "pt_ice_protocol p = ICEPROTO_RFC5245"
  shows "(cn_read_state c' = STATE_READABLE \<longrightarrow> cn_read_state c = STATE_READABLE \<or>
      (\<exists>data. call = CallPacket data \<and>
         (authentic_request he t p c data \<or> cn_remote_ice_mode c = ICEMODE_LITE \<and> authentic_response he t c data))) \<and>
    (cn_write_state c' = STATE_WRITABLE \<longrightarrow> cn_write_state c = STATE_WRITABLE \<or>
      (\<exists>data. call = CallPacket data \<and> authentic_response he t c data)) \<and>
    (\<forall>d. SignalData d \<in> set acts \<longrightarrow> cn_read_state c = STATE_READABLE \<and> call = CallPacket d)"
proof (cases "\<exists>data. call = CallPacket data")
  case True
  then obtain data where call: "call = CallPacket data" by blast
  then have "Connection_OnReadPacket he t p now data c = Some (c', acts)" using assms(1) by (simp add: conn_step_def)
  from OnReadPacket_authenticated [OF this assms(2)] show ?thesis using call by blast
next
  case False
  then show ?thesis using other_calls_state [OF assms(1)] by (auto simp: no_data_def)
qed

text \<open>The called connection becomes readable by the check of the calling one, which is authentic.\<close>

theorem connection_state_authenticated_witness:
  "\<exists>D c' acts. conn_step BigEndianHost kCrc32Table_init called 77 (CallPacket D) called_connection = Some (c', acts) \<and>
    cn_read_state c' = STATE_READABLE \<and> cn_write_state c' \<noteq> STATE_WRITABLE \<and>
    authentic_request BigEndianHost kCrc32Table_init called called_connection D"
proof -
  have t: "table_ok kCrc32Table_init" by (simp add: table_ok_def)
  have names: "username_fragment calling = [0x4C]" "username_fragment called = [0x52]" "check_username calling calling_connection = [0x52, 0x3A, 0x4C]"
    by (simp_all add: calling_defs username_fragment_def check_username_def)
  obtain D where D: "authentic_packet (pt_password called) STUN_BINDING_REQUEST (replicate 12 0x41) (check_attrs calling calling_connection) D"
    using check_protected(2) [where p = calling and c = calling_connection and tid = "replicate 12 0x41" and t = kCrc32Table_init and key = "pt_password called"] t by (auto simp: names)
  have q: "pt_ice_protocol called = ICEPROTO_RFC5245" and o: "opposite calling called"
    and u: "cd_username (cn_remote_candidate calling_connection) = username_fragment called" "0x3A \<notin> set (username_fragment called)"
      "cd_username (cn_remote_candidate called_connection) = username_fragment calling"
    unfolding names by (simp_all add: calling_defs opposite_def)
  have a: "addr_wf (cd_address (cn_remote_candidate called_connection)) (EnsureAddressLength (cd_address (cn_remote_candidate called_connection)))"
    by (simp add: calling_defs addr_wf_def SocketAddress_ip_def SetIP_def SetPort_def)
  obtain c' acts where r: "Connection_OnReadPacket BigEndianHost kCrc32Table_init called 77 D called_connection = Some (c', acts)"
    "cn_read_state c' = STATE_READABLE"
    by (rule check_answered [OF q D t _ o u a, where he = BigEndianHost and now = 77]) simp_all
  then have s: "conn_step BigEndianHost kCrc32Table_init called 77 (CallPacket D) called_connection = Some (c', acts)"
    by (simp add: conn_step_def)
  have c: "cn_read_state called_connection \<noteq> STATE_READABLE" "cn_write_state called_connection \<noteq> STATE_WRITABLE"
    "cn_remote_ice_mode called_connection = ICEMODE_FULL" "rm_requests (cn_requests called_connection) = []"
    by (simp_all add: calling_defs)
  then have "\<not> authentic_response BigEndianHost kCrc32Table_init called_connection D" by (auto simp: authentic_response_def)
  then show ?thesis using connection_state_authenticated [OF s q] r(2) s c by auto
qed

end
