(* ===== verification/IceLifecycle.thy ===== *)
theory IceLifecycle
  imports IceCheck
begin

text \<open>
  The life of a connection: everything that can happen to it as a step relation (\<open>conn_run\<close>), with its request manager
  kept in order on the way, and the moment at which it asks for its own deletion.
\<close>

subsection \<open>The retransmission policy of a check\<close>

lemma add_attr_tid [simp]: "sm_tid (add_attr m a) = sm_tid m"
  by (auto simp: add_attr_def AddAttribute_def Let_def split: option.split)

lemma protect_tid [simp]: "sm_tid (fst (AddMessageIntegrity he m key)) = sm_tid m" "sm_tid (fst (AddFingerprint he t m)) = sm_tid m"
  by (auto simp: AddMessageIntegrity_def AddFingerprint_def AddAttribute_def Let_def split: option.split)

lemma Prepare_tid: "sm_tid (ConnectionRequest_Prepare he t p c r m) = sm_tid m"
  by (simp add: ConnectionRequest_Prepare_def SetType_def Let_def)

text \<open>A check is sent once.\<close>

interpretation check: retry_policy ConnectionRequest_GetNextDelay "\<lambda>cnt timeout. if timeout then 0 else 1" 1
  "ConnectionRequest_Prepare he t p c" for he t p c
  by unfold_locales (auto simp: ConnectionRequest_GetNextDelay_def CONNECTION_RESPONSE_TIMEOUT_def Prepare_tid split: if_splits)

subsection \<open>What can happen to a connection\<close>

text \<open>
  The steps take place at any time and with the port in any state.  A ping gets the address of a new object and a
  random transaction id that no request under way has.  \<open>acts\<close> is everything the connection has done so far.
\<close>

inductive conn_run :: "endian \<Rightarrow> u32 list \<Rightarrow> connection \<Rightarrow> conn_action list \<Rightarrow> bool" for he :: endian and t :: "u32 list" where
  conn_start: "conn_run he t (Connection_new index remote) []"
| conn_ping: "conn_run he t c acts \<Longrightarrow> rm_objects (cn_requests c) r = None \<Longrightarrow> r \<notin> event_request ` set (rm_events (cn_requests c)) \<Longrightarrow>
    length tid = kStunTransactionIdLength \<Longrightarrow> map_of (rm_requests (cn_requests c)) tid = None \<Longrightarrow>
    Ping he t p c now r tid = Some c' \<Longrightarrow> conn_run he t c' acts"
| conn_dispatch: "conn_run he t c acts \<Longrightarrow> Connection_dispatch he now now' c = Some (c', new) \<Longrightarrow> conn_run he t c' (acts @ new)"
| conn_packet: "conn_run he t c acts \<Longrightarrow> Connection_OnReadPacket he t p now data c = Some (c', new) \<Longrightarrow> conn_run he t c' (acts @ new)"
| conn_update: "conn_run he t c acts \<Longrightarrow> UpdateState now c = (c', new) \<Longrightarrow> conn_run he t c' (acts @ new)"
| conn_prune: "conn_run he t c acts \<Longrightarrow> Prune c = Some (c', new) \<Longrightarrow> conn_run he t c' (acts @ new)"
| conn_destroy: "conn_run he t c acts \<Longrightarrow> Connection_Destroy c = (c', new) \<Longrightarrow> conn_run he t c' (acts @ new)"
| conn_received_ping: "conn_run he t c acts \<Longrightarrow> ReceivedPing now c = (c', new) \<Longrightarrow> conn_run he t c' (acts @ new)"
| conn_setting: "conn_run he t c acts \<Longrightarrow>
    conn_run he t (c\<lparr>cn_use_candidate_attr := b, cn_remote_ice_mode := mode, cn_connected := connected, cn_remote_candidate := remote\<rparr>) acts"

text \<open>No packets go through it any more, in either direction.\<close>

definition useless :: "connection \<Rightarrow> bool" where
  "useless c \<longleftrightarrow> cn_read_state c \<noteq> STATE_READABLE \<and> cn_write_state c = STATE_WRITE_TIMEOUT"

definition heard :: "connection \<Rightarrow> bool" where
  "heard c \<longleftrightarrow> (\<exists>e\<in>set (rm_events (cn_requests c)). case e of Responded r msg \<Rightarrow> True | _ \<Rightarrow> False)"

definition conn_ok :: "connection \<Rightarrow> conn_action list \<Rightarrow> bool" where
  "conn_ok c acts \<longleftrightarrow> check.manager_ok {} (cn_requests c) \<and> check.events_ok (cn_requests c) \<and>
     (useless c \<longrightarrow> PostDelete \<in> set acts) \<and> (cn_write_state c = STATE_WRITABLE \<longrightarrow> heard c)"

text \<open>
  What a method does to the two states: \<open>moves c c' new\<close> says that a connection that becomes useless asks for its
  deletion, and that the requests are untouched.
\<close>

definition moves :: "connection \<Rightarrow> connection \<Rightarrow> conn_action list \<Rightarrow> bool" where
  "moves c c' new \<longleftrightarrow> (useless c' \<longrightarrow> useless c \<or> PostDelete \<in> set new) \<and> cn_requests c' = cn_requests c"

lemma moves_set:
  "moves c (fst (set_read_state c v)) (snd (set_read_state c v))"
  "moves c (fst (set_write_state c w)) (snd (set_write_state c w))"
  by (cases "cn_read_state c"; cases v; simp add: moves_def useless_def set_read_state_def Connection_CheckTimeout_def Let_def)
    (cases "cn_read_state c"; cases w; auto simp: moves_def useless_def set_write_state_def Connection_CheckTimeout_def Let_def)

lemma moves_refl: "moves c c new"
  by (simp add: moves_def)

lemma moves_trans: "moves c c1 a1 \<Longrightarrow> moves c1 c2 a2 \<Longrightarrow> moves c c2 (a1 @ a2)"
  by (auto simp: moves_def)

lemma moves_more: "moves c c' new \<Longrightarrow> set new \<subseteq> set new' \<Longrightarrow> moves c c' new'"
  by (auto simp: moves_def)

lemma moves_ReceivedPing: "moves c (fst (ReceivedPing now c)) (snd (ReceivedPing now c))"
  using moves_set(1) [of "c\<lparr>cn_last_ping_received := now\<rparr>" STATE_READABLE] by (simp add: ReceivedPing_def moves_def useless_def)

lemma moves_restart: "moves c (fst (restart_checks c)) (snd (restart_checks c))"
  using moves_set(2) moves_refl by (simp add: restart_checks_def)

lemma moves_Destroy: "moves c (fst (Connection_Destroy c)) (snd (Connection_Destroy c))"
  using moves_trans [OF moves_set(1) moves_set(2)] by (simp add: Connection_Destroy_def Let_def case_prod_unfold)

lemma moves_UpdateState:
  "moves c (fst (UpdateState now c)) (snd (UpdateState now c))"
  "cn_write_state (fst (UpdateState now c)) = STATE_WRITABLE \<Longrightarrow> cn_write_state c = STATE_WRITABLE"
proof -
  define s1 where "s1 = (if cn_read_state c = STATE_READABLE \<and> cn_last_ping_received c + CONNECTION_READ_TIMEOUT \<le> now \<and>
                cn_last_data_received c + CONNECTION_READ_TIMEOUT \<le> now
             then set_read_state c STATE_READ_TIMEOUT else (c, []))"
  define s2 where "s2 = (if cn_write_state (fst s1) = STATE_WRITABLE \<and>
                TooManyFailures (cn_pings_since_last_response (fst s1)) CONNECTION_WRITE_CONNECT_FAILURES (ConservativeRTTEstimate (cn_rtt c)) now \<and>
                TooLongWithoutResponse (cn_pings_since_last_response (fst s1)) CONNECTION_WRITE_CONNECT_TIMEOUT now
             then set_write_state (fst s1) STATE_WRITE_UNRELIABLE else (fst s1, []))"
  define s3 where "s3 = (if (cn_write_state (fst s2) = STATE_WRITE_UNRELIABLE \<or> cn_write_state (fst s2) = STATE_WRITE_INIT) \<and>
                TooLongWithoutResponse (cn_pings_since_last_response (fst s2)) CONNECTION_WRITE_TIMEOUT now
             then set_write_state (fst s2) STATE_WRITE_TIMEOUT else (fst s2, []))"
  have u: "UpdateState now c = (fst s3, snd s1 @ snd s2 @ snd s3)"
    unfolding UpdateState_def s3_def s2_def s1_def by (simp add: Let_def case_prod_unfold)
  have "moves c (fst s1) (snd s1)" "moves (fst s1) (fst s2) (snd s2)" "moves (fst s2) (fst s3) (snd s3)"
    by (simp_all add: s1_def s2_def s3_def moves_set moves_refl)
  from moves_trans [OF this(1) moves_trans [OF this(2,3)]]
  show "moves c (fst (UpdateState now c)) (snd (UpdateState now c))" by (simp add: u)
  show "cn_write_state (fst (UpdateState now c)) = STATE_WRITABLE \<Longrightarrow> cn_write_state c = STATE_WRITABLE"
    by (simp add: u) (auto simp: s1_def s2_def s3_def split: if_splits)
qed

subsection \<open>The invariant\<close>

lemma conn_ok_moves:
  assumes "conn_ok c acts" and "moves c c' new" and "cn_write_state c' = STATE_WRITABLE \<Longrightarrow> cn_write_state c = STATE_WRITABLE"
  shows "conn_ok c' (acts @ new)"
  using assms by (auto simp: conn_ok_def moves_def heard_def)

lemma conn_ok_requests:
  assumes "conn_ok c acts" and "check.manager_ok {} m" and "check.events_ok m" and "set (rm_events (cn_requests c)) \<subseteq> set (rm_events m)"
    and "cn_read_state c' = cn_read_state c" and "cn_write_state c' = cn_write_state c" and "cn_requests c' = m"
  shows "conn_ok c' (acts @ new)"
  using assms by (auto simp: conn_ok_def useless_def heard_def)

lemma dispatch_events:
  "dispatch he g now now' m = Some m' \<Longrightarrow> set (rm_events m) \<subseteq> set (rm_events m')"
  by (auto simp: dispatch_def OnMessage_def bind_eq_Some_conv Let_def split: prod.splits option.splits bool.splits if_splits
      dest!: delete_request_events)

lemma conn_ok_ping:
  assumes "conn_ok c acts" and "rm_objects (cn_requests c) r = None" and "r \<notin> event_request ` set (rm_events (cn_requests c))"
    and "length tid = kStunTransactionIdLength" and "map_of (rm_requests (cn_requests c)) tid = None"
  shows "\<exists>c'. Ping he t p c now r tid = Some c' \<and> conn_ok c' acts"
proof -
  let ?m = "(cn_requests c)\<lparr>rm_objects := (rm_objects (cn_requests c))(r \<mapsto> StunRequest_new (StunMessage_new IceMessageC) tid)\<rparr>"
  let ?c = "c\<lparr>cn_last_ping_sent := now, cn_pings_since_last_response := cn_pings_since_last_response c @ [now]\<rparr>"
  have c: "check.manager_ok {} (cn_requests c)" "check.events_ok (cn_requests c)" using assms(1) by (simp_all add: conn_ok_def)
  have m: "check.manager_ok {} ?m" "check.events_ok ?m"
    using check.create_ok [OF c assms(2-4)] by blast+
  have id: "request_id (StunRequest_new (StunMessage_new IceMessageC) tid) = tid"
    using assms(4) by (simp add: StunRequest_new_def request_id_def SetTransactionID_def IsValidTransactionId_def)
  obtain m' where m': "Manager_Send (ConnectionRequest_Prepare he t p ?c) ?m now r = Some m'"
    by (simp add: Manager_Send_def SendDelayed_def Let_def)
  have "\<not> rq_manager (StunRequest_new (StunMessage_new IceMessageC) tid)" by (simp add: StunRequest_new_def)
  then have "check.manager_ok {} m'" "check.events_ok m'"
    using check.SendDelayed_ok [OF m, of r _ he t p ?c] m' assms(5) id unfolding Manager_Send_def by simp_all
  moreover have "rm_events m' = rm_events (cn_requests c)"
    using m' by (auto simp: Manager_Send_def SendDelayed_def Let_def)
  ultimately have "conn_ok (?c\<lparr>cn_requests := m', cn_state := STATE_INPROGRESS\<rparr>) (acts @ [])"
    by (intro conn_ok_requests [OF assms(1), of m']) simp_all
  then show ?thesis using m' by (simp add: Ping_def Let_def)
qed

lemma conn_ok_dispatch:
  assumes "conn_ok c acts"
  shows "\<exists>c' new. Connection_dispatch he now now' c = Some (c', new) \<and> conn_ok c' (acts @ new)"
proof -
  have c: "check.manager_ok {} (cn_requests c)" "check.events_ok (cn_requests c)" using assms by (simp_all add: conn_ok_def)
  obtain m' where m': "dispatch he ConnectionRequest_GetNextDelay now now' (cn_requests c) = Some m'" "check.manager_ok {} m'" "check.events_ok m'"
    using check.dispatch_ok [OF c] by blast
  then show ?thesis
    using conn_ok_requests [OF assms m'(2,3) dispatch_events [OF m'(1)], of "c\<lparr>cn_requests := m'\<rparr>"]
    by (simp add: Connection_dispatch_def)
qed

lemma delete_requests_events: "delete_requests m rs = Some m' \<Longrightarrow> rm_events m' = rm_events m"
  by (induction m rs rule: delete_requests.induct) (fastforce simp: bind_eq_Some_conv dest: delete_request_events)+

lemma conn_ok_Prune:
  assumes "conn_ok c acts"
  shows "\<exists>c' new. Prune c = Some (c', new) \<and> conn_ok c' (acts @ new)"
proof (cases "cn_pruned c")
  case False
  have c: "check.manager_ok {} (cn_requests c)" "check.events_ok (cn_requests c)" using assms by (simp_all add: conn_ok_def)
  obtain m' where m': "Manager_Clear (cn_requests c) = Some m'" "check.manager_ok {} m'" "check.events_ok m'"
    using check.Manager_Clear_ok [OF c] by blast
  let ?c = "c\<lparr>cn_pruned := True, cn_requests := m'\<rparr>"
  have "conn_ok ?c (acts @ [])"
    using m' delete_requests_events [OF m'(1) [unfolded Manager_Clear_def]] by (intro conn_ok_requests [OF assms m'(2,3)]) simp_all
  then have "conn_ok (fst (set_write_state ?c STATE_WRITE_TIMEOUT)) ((acts @ []) @ snd (set_write_state ?c STATE_WRITE_TIMEOUT))"
    by (rule conn_ok_moves [OF _ moves_set(2)]) simp
  then show ?thesis using False m'(1) by (cases "set_write_state ?c STATE_WRITE_TIMEOUT") (simp add: Prune_def)
qed (use assms in \<open>simp add: Prune_def\<close>)

lemma moves_OnDataPacket: "moves c (fst (OnDataPacket now data c)) (snd (OnDataPacket now data c))"
proof -
  have "moves c c' new" if "moves (c\<lparr>cn_last_data_received := now\<rparr>) c' new" for c' new
    using that by (simp add: moves_def useless_def)
  then have "moves c (fst (restart_checks (c\<lparr>cn_last_data_received := now\<rparr>))) (snd (restart_checks (c\<lparr>cn_last_data_received := now\<rparr>)))"
    using moves_restart by blast
  then show ?thesis
    by (auto simp: OnDataPacket_def Let_def case_prod_unfold moves_refl intro: moves_more)
qed

lemma moves_OnBindingRequest:
  "moves c (fst (OnBindingRequest he t p now msg ufrag c)) (snd (OnBindingRequest he t p now msg ufrag c))"
proof -
  have "moves c (fst (restart_checks c)) (snd (restart_checks c))"
    "moves c (fst (restart_checks (fst (ReceivedPing now c)))) (snd (ReceivedPing now c) @ snd (restart_checks (fst (ReceivedPing now c))))"
    by (rule moves_restart, rule moves_trans [OF moves_ReceivedPing moves_restart])
  then show ?thesis
    by (auto simp: OnBindingRequest_def Let_def case_prod_unfold moves_refl elim!: moves_more)
qed

lemma conn_ok_fields:
  "conn_ok (c\<lparr>cn_pings_since_last_response := ps, cn_last_ping_response_received := l, cn_rtt := rtt\<rparr>) acts = conn_ok c acts"
  by (simp add: conn_ok_def useless_def heard_def)

lemma conn_ok_CheckResponse:
  assumes "conn_ok c acts" and "Connection_CheckResponse p now msg c = Some (c', new)"
  shows "conn_ok c' (acts @ new)"
proof -
  have c: "check.manager_ok {} (cn_requests c)" "check.events_ok (cn_requests c)" using assms(1) by (simp_all add: conn_ok_def)
  obtain b m where m: "CheckResponse_msg (cn_requests c) msg = Some (b, m)" "check.manager_ok {} m" "check.events_ok m"
    using check.CheckResponse_msg_ok [OF c] by blast
  have ev: "set (rm_events (cn_requests c)) \<subseteq> set (rm_events m)"
    using m(1) by (fastforce simp: CheckResponse_msg_def bind_eq_Some_conv split: option.splits if_splits dest: delete_request_events)
  let ?c = "c\<lparr>cn_requests := m\<rparr>"
  have ok: "conn_ok ?c acts" using conn_ok_requests [OF assms(1) m(2,3) ev, of ?c "[]"] by simp
  show ?thesis
  proof (cases b)
    case False
    then show ?thesis using assms(2) m(1) ok by (auto simp: Connection_CheckResponse_def)
  next
    case True
    then obtain r rq e where e: "rm_objects (cn_requests c) r = Some rq" "e = Responded r msg \<or> e = ErrorResponded r msg"
      "delete_request ((cn_requests c)\<lparr>rm_events := rm_events (cn_requests c) @ [e]\<rparr>) r = Some m"
      using m(1) by (auto simp: CheckResponse_msg_def bind_eq_Some_conv split: option.splits if_splits)
    have l: "rm_events m = rm_events (cn_requests c) @ [e]" using delete_request_events [OF e(3)] by simp
    from e(2) show ?thesis
    proof
      assume r: "e = Responded r msg"
      then have h: "heard ?c" by (auto simp: heard_def l)
      have n: "(c', new) = OnConnectionRequestResponse now rq ?c"
        using assms(2) m(1) True e(1) l r by (simp add: Connection_CheckResponse_def)
      define c1 where "c1 = (fst (set_write_state ?c STATE_WRITABLE))\<lparr>cn_state := STATE_SUCCEEDED\<rparr>"
      have "conn_ok c1 (acts @ snd (set_write_state ?c STATE_WRITABLE))"
        using ok h by (auto simp: conn_ok_def c1_def useless_def heard_def)
      moreover define s2 where "s2 = (if cn_remote_ice_mode c1 = ICEMODE_LITE then ReceivedPing now c1 else (c1, []))"
      moreover have "moves c1 (fst s2) (snd s2)" "cn_write_state (fst s2) = cn_write_state c1" by (simp_all add: s2_def moves_ReceivedPing moves_refl)
      ultimately have "conn_ok (fst s2) ((acts @ snd (set_write_state ?c STATE_WRITABLE)) @ snd s2)"
        using conn_ok_moves by metis
      moreover have "OnConnectionRequestResponse now rq ?c =
          ((fst s2)\<lparr>cn_pings_since_last_response := [], cn_last_ping_response_received := now,
              cn_rtt := (RTT_RATIO * cn_rtt (fst s2) + Elapsed rq now) div (RTT_RATIO + 1)\<rparr>, snd (set_write_state ?c STATE_WRITABLE) @ snd s2)"
        unfolding s2_def c1_def OnConnectionRequestResponse_def Let_def case_prod_unfold by simp
      ultimately show ?thesis using n by (simp add: conn_ok_fields)
    next
      assume r: "e = ErrorResponded r msg"
      have n: "(c', new) = OnConnectionRequestErrorResponse p msg ?c"
        using assms(2) m(1) True e(1) l r by (simp add: Connection_CheckResponse_def)
      have "moves ?c (fst (OnConnectionRequestErrorResponse p msg ?c)) (snd (OnConnectionRequestErrorResponse p msg ?c))"
        using moves_set(2) [of "?c\<lparr>cn_state := STATE_FAILED\<rparr>" STATE_WRITE_TIMEOUT]
        by (auto simp: OnConnectionRequestErrorResponse_def Let_def moves_refl moves_def useless_def)
      then have "moves ?c c' new" using n by (metis fst_conv snd_conv)
      then show ?thesis
        using conn_ok_moves [OF ok] OnConnectionRequestErrorResponse_state(1) [of p msg ?c] n by (metis empty_iff fst_conv insert_iff write_state.distinct(5))
    qed
  qed
qed

lemma conn_ok_CheckResponse_total: "conn_ok c acts \<Longrightarrow> Connection_CheckResponse p now msg c \<noteq> None"
proof -
  assume "conn_ok c acts"
  then have c: "check.manager_ok {} (cn_requests c)" "check.events_ok (cn_requests c)" by (simp_all add: conn_ok_def)
  obtain b m where m: "CheckResponse_msg (cn_requests c) msg = Some (b, m)" using check.CheckResponse_msg_ok [OF c] by blast
  show ?thesis
  proof (cases b)
    case True
    then obtain r rq e where "rm_objects (cn_requests c) r = Some rq" "e = Responded r msg \<or> e = ErrorResponded r msg"
      "delete_request ((cn_requests c)\<lparr>rm_events := rm_events (cn_requests c) @ [e]\<rparr>) r = Some m"
      using m by (auto simp: CheckResponse_msg_def bind_eq_Some_conv split: option.splits if_splits)
    then show ?thesis using m True delete_request_events [of _ r m] by (auto simp: Connection_CheckResponse_def)
  qed (simp add: Connection_CheckResponse_def m)
qed

lemma OnReadPacket_cases:
  assumes "Connection_OnReadPacket he t p now data c = Some res"
  shows "res = OnDataPacket now data c \<or> fst res = c \<or> (\<exists>msg ufrag. res = OnBindingRequest he t p now msg ufrag c) \<or>
    res = ReceivedPing now c \<or> (\<exists>msg. Connection_CheckResponse p now msg c = Some res)"
proof -
  obtain ok r as where g: "GetStunMessage he t p data (cd_address (cn_remote_candidate c)) = Some (ok, r, as)"
    using assms by (auto simp: Connection_OnReadPacket_def split: option.splits)
  consider "\<not> ok" | "ok" "r = None" | msg ufrag where "ok" "r = Some (msg, ufrag)" by (cases r) auto
  then show ?thesis
  proof cases
    case 3
    show ?thesis
      using assms g unfolding 3 Connection_OnReadPacket_def
      by (simp split: if_split_asm option.split_asm bool.split_asm) (metis fst_conv)+
  qed (use assms g in \<open>auto simp: Connection_OnReadPacket_def\<close>)
qed

lemma conn_ok_packet:
  assumes "conn_ok c acts" and "Connection_OnReadPacket he t p now data c = Some (c', new)"
  shows "conn_ok c' (acts @ new)"
proof -
  have keep: "conn_ok c (acts @ new')" for new' using conn_ok_moves [OF assms(1) moves_refl] by blast
  have mv: "conn_ok (fst r) (acts @ snd r)" if "moves c (fst r) (snd r)" "cn_write_state (fst r) = STATE_WRITABLE \<longleftrightarrow> cn_write_state c = STATE_WRITABLE" for r
    using conn_ok_moves [OF assms(1) that(1)] that(2) by blast
  consider "(c', new) = OnDataPacket now data c" | "c' = c" | msg ufrag where "(c', new) = OnBindingRequest he t p now msg ufrag c"
    | "(c', new) = ReceivedPing now c" | msg where "Connection_CheckResponse p now msg c = Some (c', new)"
    using OnReadPacket_cases [OF assms(2)] by (metis fst_conv)
  then show ?thesis
  proof cases
    case 1
    then show ?thesis using mv [OF moves_OnDataPacket OnDataPacket_state(2)] by (metis fst_conv snd_conv)
  next
    case 2
    then show ?thesis using keep by simp
  next
    case 3
    then show ?thesis using mv [OF moves_OnBindingRequest OnBindingRequest_state(2)] by (metis fst_conv snd_conv)
  next
    case 4
    then show ?thesis using mv [OF moves_ReceivedPing] ReceivedPing_simps(2) by (metis fst_conv snd_conv)
  next
    case 5
    then show ?thesis using conn_ok_CheckResponse [OF assms(1)] by blast
  qed
qed

lemma conn_run_ok: "conn_run he t c acts \<Longrightarrow> conn_ok c acts"
proof (induction rule: conn_run.induct)
  case (conn_start index remote)
  show ?case
    using check.manager_run_ok [OF manager_run.run_start] by (simp add: conn_ok_def useless_def Connection_new_def)
next
  case (conn_ping c acts r tid p now c')
  then show ?case using conn_ok_ping by (metis option.inject)
next
  case (conn_dispatch c acts now now' c' new)
  then show ?case using conn_ok_dispatch by (metis option.inject prod.inject)
next
  case (conn_packet c acts p now data c' new)
  then show ?case using conn_ok_packet by blast
next
  case (conn_update c acts now c' new)
  then show ?case using conn_ok_moves [OF _ moves_UpdateState] by (metis fst_conv snd_conv)
next
  case (conn_prune c acts c' new)
  then show ?case using conn_ok_Prune by (metis option.inject prod.inject)
next
  case (conn_destroy c acts c' new)
  then have "cn_write_state c' \<noteq> STATE_WRITABLE" by (auto simp: Connection_Destroy_def Let_def case_prod_unfold)
  then show ?case using conn_destroy conn_ok_moves [OF _ moves_Destroy] by (metis fst_conv snd_conv)
next
  case (conn_received_ping c acts now c' new)
  then show ?case using conn_ok_moves [OF _ moves_ReceivedPing] ReceivedPing_simps(2) by (metis fst_conv snd_conv)
next
  case (conn_setting c acts b mode connected remote)
  then show ?case by (simp add: conn_ok_def useless_def heard_def)
qed

lemma OnReadPacket_None:
  assumes "conn_ok c acts" and "Connection_OnReadPacket he t p now data c = None"
  shows "ValidateMessageIntegrity he data (pt_password p) = None \<or> ValidateMessageIntegrity he data (cd_password (cn_remote_candidate c)) = None"
proof (cases "GetStunMessage he t p data (cd_address (cn_remote_candidate c))")
  case None
  then show ?thesis by (auto simp: GetStunMessage_def Let_def split: if_splits option.splits)
next
  case (Some g)
  obtain ok r as where g: "g = (ok, r, as)" by (cases g)
  have "ok \<and> r \<noteq> None" using assms(2) Some g by (cases ok; cases r) (auto simp: Connection_OnReadPacket_def)
  then obtain msg ufrag where "GetStunMessage he t p data (cd_address (cn_remote_candidate c)) = Some (True, Some (msg, ufrag), as)"
    using Some g by auto
  then show ?thesis
    using assms(2) conn_ok_CheckResponse_total [OF assms(1), of p now msg]
    by (auto simp: Connection_OnReadPacket_def split: if_splits option.splits bool.splits)
qed



text \<open>
  The timeouts compare times as plain numbers: just before the clock wraps around, a connection times out in the moment
  in which it was pinged.
\<close>

theorem read_timeout_at_wrap:
  "cn_read_state (fst (UpdateState 0xFFFFFFF5 (fst (ReceivedPing 0xFFFFFFF0 (Connection_new 0 sample_candidate))))) = STATE_READ_TIMEOUT"
  by (simp add: UpdateState_def ReceivedPing_def set_read_state_def Connection_new_def Let_def CONNECTION_READ_TIMEOUT_def
      TooManyFailures_def TooLongWithoutResponse_def)

end
