(* ===== verification/Spec2Isabelle.thy ===== *)
theory Spec2Isabelle
  imports StunProofs FifoBuffer SsrcMuxFilter RtcpMuxFilter SrtpFilter PseudoTcpProps IceLifecycle
begin

text \<open>
  A verification development for libjingle: the protocol core of its peer-to-peer stack, from the byte codecs of
  \<open>talk/base\<close> to the reliable stream, the STUN checks and the key negotiation that are built on them.

  \<^bold>\<open>The program and its theories.\<close>

  Byte codecs and containers (\<open>talk/base\<close>).  Every packet is read and written through a \<open>ByteBuffer\<close>, which relies
  on the conversions of \<open>byteorder.h\<close>.

    \<^item> \<open>ByteOrder\<close> (\<open>byteorder.h\<close>), \<open>ByteBuffer\<close> (\<open>bytebuffer.cc\<close>): \<open>bytes_, start_, end_, version_\<close> are the fields
      of the record; each \<open>Read\<close> and \<open>Write\<close> is one definition.  Values written are read back in order.
    \<^item> \<open>FifoBuffer\<close> (\<open>stream.cc\<close>): the circular buffer, refined to a bounded queue of bytes, with the events it posts.
    \<^item> \<open>Crc32\<close>, \<open>BlockHash\<close>, \<open>Sha1\<close>, \<open>Md5\<close>, \<open>MessageDigest\<close> (\<open>crc32.cc\<close>, \<open>sha1.cc\<close>, \<open>md5.cc\<close>,
      \<open>messagedigest.cc\<close>): the optimised routines equal the bit-serial CRC, FIPS 180-4, RFC 1321 and RFC 2104.
      \<open>BlockHash\<close> is what both digests share, the buffering of partial blocks; the locale \<open>message_digest\<close> is what
      \<open>ComputeDigest\<close> and \<open>ComputeHmac\<close> need of the abstract class, interpreted on both digests.
    \<^item> \<open>StringEncode\<close>, \<open>Base64\<close> (\<open>stringencode.cc\<close>, \<open>base64.cc\<close>): the text encodings and their round trips.
    \<^item> \<open>IPAddress\<close> (\<open>ipaddress.cc\<close>, \<open>socketaddress.cc\<close>): addresses as keys of containers and as kernel structures.
    \<^item> \<open>TimeUtils\<close> (\<open>timeutils.cc\<close>): timestamps that wrap around.
    \<^item> \<open>MessageQueue\<close> (\<open>messagequeue.cc\<close>): the queue of a thread with its delayed messages and the loop of \<open>Get\<close>.

  STUN and ICE (\<open>talk/p2p/base\<close>).  A \<open>Connection\<close> checks a pair of candidates by sending STUN requests; a
  \<open>StunRequestManager\<close> repeats them by posting delayed messages to its thread and matches the responses; the \<open>Port\<close>
  validates what arrives.

    \<^item> \<open>StunAttr\<close>, \<open>StunMessage\<close>, \<open>StunProofs\<close> (\<open>stun.h\<close>, \<open>stun.cc\<close>): attribute classes are the constructors of
      \<open>attr_body\<close>, the four message classes the argument that selects the attribute table.  Parsing inverts
      writing, every successful parse is sound, and integrity and fingerprint accept what was protected, and only that.
    \<^item> \<open>StunRequest\<close> (\<open>stunrequest.cc\<close>, and the retransmission policies of \<open>stunport.cc\<close>, \<open>relayport.cc\<close> and
      \<open>port.cc\<close>): requests as objects of a heap, so that a use after deletion is visible.  The locale \<open>retry_policy\<close>
      is what the manager needs of \<open>GetNextDelay\<close>; the policies of the code interpret it.
    \<^item> \<open>IcePort\<close> (\<open>candidate.h\<close>, \<open>port.cc\<close>, \<open>transport.h\<close>, \<open>session.cc\<close>): candidates and priorities, user names,
      role conflicts with what \<open>BaseSession\<close> does about them, \<open>GetStunMessage\<close> and the responses of a port.
    \<^item> \<open>IceConnection\<close> (\<open>port.cc\<close>): \<open>Connection\<close> and \<open>ConnectionRequest\<close>, its read, write and check states, its
      timeouts, and what each packet does to it; \<open>conn_step\<close> is a call of any of its methods.
    \<^item> \<open>IceCheck\<close>: one connectivity check from its first to its last byte, through the definitions of both ends, and
      that nothing but an authentic packet changes what a connection believes.
    \<^item> \<open>IceLifecycle\<close>: all that can happen to a connection as a step relation, with its invariant.

  The reliable stream (\<open>pseudotcp.cc\<close>, used by tunnels over an unreliable transport channel).

    \<^item> \<open>PseudoTcp\<close>: the object and all its methods.
    \<^item> \<open>PseudoTcpFrame\<close>, \<open>PseudoTcpSend\<close>, \<open>PseudoTcpRecv\<close>, \<open>PseudoTcpAck\<close>, \<open>PseudoTcpControl\<close>, \<open>PseudoTcpEndpoint\<close>: the
      invariants of the two halves and of the handshake, and that every method keeps them.
    \<^item> \<open>PseudoTcpNet\<close>, \<open>PseudoTcpLossless\<close>, \<open>PseudoTcpRun\<close>, \<open>PseudoTcpProps\<close>: two endpoints and a network that loses,
      repeats, delays and reorders as a step relation; what one end delivers is a prefix of what the other accepted.

  Media (\<open>talk/media/base\<close>, \<open>talk/session/media\<close>).  The filters stand between the media channels and the
  transport.  \<open>OfferAnswer\<close> holds the contract of a filter that both ends drive with mirrored descriptions.

    \<^item> \<open>RtpUtils\<close> (\<open>rtputils.cc\<close>), \<open>SsrcMuxFilter\<close> (\<open>streamparams.cc\<close>, \<open>ssrcmuxfilter.cc\<close>), \<open>RtcpMuxFilter\<close>
      (\<open>rtcpmuxfilter.cc\<close>), \<open>SrtpFilter\<close> (\<open>srtpfilter.cc\<close>, \<open>cryptoparams.h\<close>).

  \<open>Jingle_Prelude\<close> has the machine types and the lemmas on lists, options and words that all share.

  \<^bold>\<open>How the code is modelled.\<close>  A class is a record and a method a function on it; a method that the code leaves by
  an error return, an undefined access or an assertion yields \<open>None\<close> or its error value, as its theory says.
  Integers of a fixed width are words, so arithmetic wraps as in C++.  Calls to listeners, posted messages and packets
  are lists of events or actions in the order the code emits them; a listener acts in a later step and never
  re-enters a method that is running.

  \<^bold>\<open>What is outside.\<close>  Code that is not in the repository, or that is the platform, is a parameter: the byte
  order \<open>he\<close> of the host, \<open>inet_pton\<close> and \<open>inet_ntop\<close>, libsrtp (the record \<open>lib\<close>, with the result of a search in
  a \<open>std::map\<close> whose comparison is no order), the clock, the network and
  uninitialised memory of the stream (\<open>tcp_env\<close>), the clock and the waiting of a queue (\<open>mq_env\<close>).  Where a
  property needs their documented behaviour it is a named hypothesis, and its witness instantiates it.

  \<^bold>\<open>Termination.\<close>  Loops are total functions, with a measure where the recursion is not structural.  The two
  loops whose end depends on what the outside does are partial functions, and not returning is \<open>None\<close>: the sending
  loop of \<open>PseudoTcp\<close>, which returns in every reachable state (\<open>tcp_never_stuck\<close>), and \<open>Get\<close> of the queue, which
  returns when the clock moves on (\<open>Get_returns_in_time\<close>) or the queue quits (\<open>quit_delivers_ready\<close>).

  \<^bold>\<open>Bounds.\<close>  The properties of the stream hold for streams of less than 4 GB in either direction, so that the
  sequence numbers do not wrap, for receive buffers of 65535 bytes at most, which need no window scaling, and for
  \<open>orderly\<close> deliveries: data does not arrive before the connect message, and an acknowledgement of new data ends a
  segment that was sent.  The other deliveries can occur too, and the code gets them wrong: data before the connect
  message is misplaced (\<open>tcp_data_before_connect_is_misplaced\<close>), and after an acknowledgement inside a segment the
  rest of it is sent from a wrong offset.  That nothing is lost is said of a reader that has not closed its end.  Delayed messages are released on time while their times lie in
  one period of the 32-bit clock (\<open>wrapped_trigger_blocks_due_message\<close> shows a late one).  The properties of the SRTP
  filter name the two inputs after which it uses a null session (\<open>srtp_repeated_offer_crashes\<close>,
  \<open>srtp_empty_suite_crashes\<close>).  The sizes of attributes and messages are those that their 16-bit length fields can
  express.  \<open>size_t\<close> has 64 bits.

  \<^bold>\<open>What is not modelled.\<close>  The sockets and servers, the TLS adapters, the file streams and the device bindings
  are operating-system I/O; XML, XMPP, the sessions and transports over them, HTTP, the port allocators, the
  selection of the best connection in \<open>p2ptransportchannel.cc\<close>, the relay and TURN servers, the media channels and
  the PeerConnection layer are program logic that the development does not reach.  Of \<open>port.cc\<close> the part that owns
  sockets and the map of connections is left out; of \<open>thread.cc\<close> all but the use of its queue.
\<close>

end
